(* ===== verification/Panesmith_Prelude.thy ===== *)
theory Panesmith_Prelude
  imports Main "HOL-Library.Word" "HOL-Library.Monad_Syntax"
begin

text \<open>
  What the component theories share: the machine types of the Rust sources, the
  standard-library routines they call on byte slices and strings (searching,
  splitting, decimal parsing, UTF-8 encoding and validation, lossy decoding), and
  the collections of facts the component proofs use.

  Bytes and the integers whose wrap-around the sources can reach are words. A
  Rust \<open>char\<close> is its scalar value (a natural number) and a \<open>String\<close> the list of its
  scalar values; where a byte offset into a string matters the UTF-8 bytes are
  modelled instead. Lengths (\<open>usize\<close>) are naturals: a slice or a vector is never
  longer than \<open>usize_max\<close>, and every place where the sources saturate is
  written out with \<open>sat_add\<close>.
\<close>

unbundle bit_operations_syntax

type_synonym u8 = "8 word"
type_synonym u16 = "16 word"
type_synonym u64 = "64 word"
type_synonym rchar = nat
type_synonym rstr = "rchar list"

named_theorems state_simps \<open>projections of the state-changing operations\<close>
named_theorems inv_intros \<open>preservation of the component invariants\<close>


section \<open>Literals\<close>

definition asc :: "string \<Rightarrow> u8 list" where
  "asc s = map (\<lambda>c. word_of_nat (of_char c)) s"

definition lit :: "string \<Rightarrow> rstr" where
  "lit s = map of_char s"

lemma asc_simps [simp]:
  "asc [] = []" "asc (c # s) = word_of_nat (of_char c) # asc s"
  by (simp_all add: asc_def)

lemma lit_simps [simp]:
  "lit [] = []" "lit (c # s) = of_char c # lit s"
  by (simp_all add: lit_def)


section \<open>Machine arithmetic on lengths\<close>

definition usize_max :: nat where "usize_max = 2 ^ 64 - 1"

definition u64_max :: nat where "u64_max = 2 ^ 64 - 1"

definition sat_add :: "nat \<Rightarrow> nat \<Rightarrow> nat" where
  "sat_add a b = min (a + b) usize_max"

lemma sat_add_le [simp]: "sat_add a b \<le> usize_max"
  by (simp add: sat_add_def)

lemma sat_add_mono: "a \<le> a' \<Longrightarrow> sat_add a b \<le> sat_add a' b"
  by (simp add: sat_add_def)

lemma sat_add_exact: "a + b \<le> usize_max \<Longrightarrow> sat_add a b = a + b"
  by (simp add: sat_add_def)

lemma sat_add_0 [simp]: "a \<le> usize_max \<Longrightarrow> sat_add a 0 = a"
  by (simp add: sat_add_def)


section \<open>Slices\<close>

fun starts_with :: "'a list \<Rightarrow> 'a list \<Rightarrow> bool" where
  "starts_with xs [] = True"
| "starts_with [] (p # ps) = False"
| "starts_with (x # xs) (p # ps) = (x = p \<and> starts_with xs ps)"

lemma starts_with_iff: "starts_with xs ps \<longleftrightarrow> (\<exists>zs. xs = ps @ zs)"
  by (induction xs ps rule: starts_with.induct) auto

lemma starts_with_take: "starts_with xs ps \<longleftrightarrow> take (length ps) xs = ps"
  by (induction xs ps rule: starts_with.induct) auto

lemma starts_with_append [simp]: "starts_with (ps @ zs) ps"
  by (auto simp: starts_with_iff)

lemma starts_with_length: "starts_with xs ps \<Longrightarrow> length ps \<le> length xs"
  by (auto simp: starts_with_iff)

fun position :: "('a \<Rightarrow> bool) \<Rightarrow> 'a list \<Rightarrow> nat option" where
  "position P [] = None"
| "position P (x # xs) = (if P x then Some 0 else map_option Suc (position P xs))"

lemma position_None_iff: "position P xs = None \<longleftrightarrow> (\<forall>x\<in>set xs. \<not> P x)"
  by (induction xs) auto

lemma position_SomeD:
  "position P xs = Some i \<Longrightarrow> i < length xs \<and> P (xs ! i) \<and> (\<forall>x\<in>set (take i xs). \<not> P x)"
  by (induction xs arbitrary: i) (auto split: if_splits)

lemma position_append_hit:
  "(\<forall>x\<in>set xs. \<not> P x) \<Longrightarrow> P y \<Longrightarrow> position P (xs @ y # ys) = Some (length xs)"
  by (induction xs) auto

fun split_on :: "'a \<Rightarrow> 'a list \<Rightarrow> 'a list list" where
  "split_on d [] = [[]]"
| "split_on d (x # xs) =
     (if x = d then [] # split_on d xs
      else (case split_on d xs of [] \<Rightarrow> [[x]] | f # fs \<Rightarrow> (x # f) # fs))"

lemma split_on_not_Nil [simp]: "split_on d xs \<noteq> []"
  by (induction xs) (auto split: list.splits)

lemma split_on_no_sep: "d \<notin> set xs \<Longrightarrow> split_on d xs = [xs]"
  by (induction xs) auto

lemma split_on_append_sep:
  "d \<notin> set xs \<Longrightarrow> split_on d (xs @ d # ys) = xs # split_on d ys"
  by (induction xs) auto

lemma dropWhile_drop_shorter:
  "dropWhile P (drop n xs) = a # ys \<Longrightarrow> length ys < length xs"
proof -
  assume e: "dropWhile P (drop n xs) = a # ys"
  have "length (dropWhile P (drop n xs)) \<le> length (drop n xs)" by (rule length_dropWhile_le)
  then show ?thesis using e by simp
qed

definition last_n :: "nat \<Rightarrow> 'a list \<Rightarrow> 'a list" where
  "last_n n xs = drop (length xs - n) xs"

lemma last_n_length [simp]: "length (last_n n xs) = min n (length xs)"
  by (simp add: last_n_def)

lemma last_n_all [simp]: "length xs \<le> n \<Longrightarrow> last_n n xs = xs"
  by (simp add: last_n_def)

lemma last_n_suffix: "\<exists>ys. xs = ys @ last_n n xs"
  by (metis append_take_drop_id last_n_def)


text \<open>\<open>str::replace\<close> with a non-empty pattern: matches are taken from the left and
  do not overlap.\<close>

function str_replace :: "'a list \<Rightarrow> 'a list \<Rightarrow> 'a list \<Rightarrow> 'a list" where
  "str_replace pat rep [] = []"
| "str_replace pat rep (c # cs) =
     (if pat \<noteq> [] \<and> starts_with (c # cs) pat
      then rep @ str_replace pat rep (drop (length pat) (c # cs))
      else c # str_replace pat rep cs)"
  by pat_completeness auto
termination
  by (relation "measure (\<lambda>(p, b, s). length s)") auto

lemma str_replace_single:
  "str_replace [p] rep s = concat (map (\<lambda>c. if c = p then rep else [c]) s)"
  by (induction s) auto


section \<open>Decimal numbers\<close>

definition is_digit :: "u8 \<Rightarrow> bool" where
  "is_digit b = (0x30 \<le> b \<and> b \<le> 0x39)"

definition digit :: "nat \<Rightarrow> u8" where
  "digit n = word_of_nat (48 + n)"

definition digit_val :: "u8 \<Rightarrow> nat" where
  "digit_val b = unat b - 48"

definition dec_val :: "nat \<Rightarrow> u8 list \<Rightarrow> nat" where
  "dec_val acc ds = foldl (\<lambda>a b. a * 10 + digit_val b) acc ds"

text \<open>\<open>str::parse\<close> for an unsigned integer type with maximum \<open>mx\<close>: an optional
  plus sign in front of a digit or more, with overflow an error.\<close>

fun parse_digits :: "nat \<Rightarrow> nat \<Rightarrow> u8 list \<Rightarrow> nat option" where
  "parse_digits mx acc [] = Some acc"
| "parse_digits mx acc (b # bs) =
     (if is_digit b then
        let v = acc * 10 + digit_val b
        in if v \<le> mx then parse_digits mx v bs else None
      else None)"

definition parse_uint :: "nat \<Rightarrow> u8 list \<Rightarrow> nat option" where
  "parse_uint mx bs =
     (case bs of
        [] \<Rightarrow> None
      | b # rest \<Rightarrow>
          if b = 0x2b \<and> rest \<noteq> [] then parse_digits mx 0 rest
          else parse_digits mx 0 bs)"

text \<open>The decimal text of a number, as \<open>format!\<close> and \<open>to_string\<close> print it.\<close>

fun dec :: "nat \<Rightarrow> u8 list" where
  "dec n = (if n < 10 then [digit n] else dec (n div 10) @ [digit (n mod 10)])"

declare dec.simps [simp del]

lemma unat_digit: "n < 10 \<Longrightarrow> unat (digit n) = 48 + n"
  unfolding digit_def by (simp only: unat_of_nat) simp

lemma digit_is_digit [simp]: "n < 10 \<Longrightarrow> is_digit (digit n)"
  by (simp add: is_digit_def word_le_nat_alt unat_digit)

lemma digit_val_digit [simp]: "n < 10 \<Longrightarrow> digit_val (digit n) = n"
  by (simp add: digit_val_def unat_digit)

lemma digit_val_le: "is_digit b \<Longrightarrow> digit_val b \<le> 9"
  by (auto simp: is_digit_def digit_val_def word_le_nat_alt)

lemma dec_val_Nil [simp]: "dec_val a [] = a"
  by (simp add: dec_val_def)

lemma dec_val_Cons: "dec_val a (b # bs) = dec_val (a * 10 + digit_val b) bs"
  by (simp add: dec_val_def)

lemma dec_val_append [simp]: "dec_val a (xs @ ys) = dec_val (dec_val a xs) ys"
  by (simp add: dec_val_def)

lemma dec_val_ge: "a \<le> dec_val a ds"
proof (induction ds arbitrary: a)
  case (Cons b ds)
  have "a \<le> a * 10 + digit_val b" by simp
  also have "\<dots> \<le> dec_val (a * 10 + digit_val b) ds" by (rule Cons.IH)
  finally show ?case by (simp add: dec_val_Cons)
qed simp

lemma parse_digits_eq:
  "acc \<le> mx \<Longrightarrow>
   parse_digits mx acc ds =
     (if list_all is_digit ds \<and> dec_val acc ds \<le> mx then Some (dec_val acc ds) else None)"
proof (induction ds arbitrary: acc)
  case (Cons b ds)
  show ?case
  proof (cases "acc * 10 + digit_val b \<le> mx")
    case True
    then show ?thesis using Cons.IH [OF True] by (simp add: dec_val_Cons Let_def)
  next
    case False
    then have "\<not> dec_val acc (b # ds) \<le> mx"
      using dec_val_ge [of "acc * 10 + digit_val b" ds] by (simp add: dec_val_Cons)
    with False show ?thesis by simp
  qed
qed simp

lemma dec_digits [simp]: "list_all is_digit (dec n)"
  by (induction n rule: dec.induct) (subst dec.simps, simp)

lemma dec_val_dec [simp]: "dec_val 0 (dec n) = n"
  by (induction n rule: dec.induct) (subst dec.simps, simp add: dec_val_Cons)

lemma dec_not_Nil [simp]: "dec n \<noteq> []"
  by (subst dec.simps) simp

lemma not_digit_in_dec: "\<not> is_digit b \<Longrightarrow> b \<notin> set (dec n)"
  using dec_digits [of n] by (auto simp: list_all_iff)

lemma parse_uint_dec: "n \<le> mx \<Longrightarrow> parse_uint mx (dec n) = Some n"
proof -
  assume n: "n \<le> mx"
  obtain b rest where d: "dec n = b # rest" by (cases "dec n") auto
  have "is_digit b" using dec_digits [of n] d by simp
  then have "b \<noteq> 0x2b" by (auto simp: is_digit_def)
  moreover have "parse_digits mx 0 (dec n) = Some n"
    using n by (simp add: parse_digits_eq)
  ultimately show ?thesis using d by (simp add: parse_uint_def)
qed


section \<open>UTF-8\<close>

definition utf8_char :: "rchar \<Rightarrow> u8 list" where
  "utf8_char c =
     (if c < 0x80 then [word_of_nat c]
      else if c < 0x800 then [word_of_nat (0xC0 + c div 64), word_of_nat (0x80 + c mod 64)]
      else if c < 0x10000 then
        [word_of_nat (0xE0 + c div 4096), word_of_nat (0x80 + c div 64 mod 64),
         word_of_nat (0x80 + c mod 64)]
      else
        [word_of_nat (0xF0 + c div 262144), word_of_nat (0x80 + c div 4096 mod 64),
         word_of_nat (0x80 + c div 64 mod 64), word_of_nat (0x80 + c mod 64)])"

definition utf8 :: "rstr \<Rightarrow> u8 list" where
  "utf8 s = concat (map utf8_char s)"

definition scalar :: "rchar \<Rightarrow> bool" where
  "scalar c = (c < 0x110000 \<and> \<not> (0xD800 \<le> c \<and> c < 0xE000))"

lemma utf8_Nil [simp]: "utf8 [] = []"
  and utf8_Cons: "utf8 (c # s) = utf8_char c @ utf8 s"
  and utf8_append [simp]: "utf8 (s @ t) = utf8 s @ utf8 t"
  by (simp_all add: utf8_def)

lemma utf8_ascii: "(\<forall>c\<in>set s. c < 0x80) \<Longrightarrow> utf8 s = map word_of_nat s"
  by (induction s) (auto simp: utf8_Cons utf8_char_def)

text \<open>One step of the decoder behind \<open>str::from_utf8\<close>: a scalar value and the
  number of bytes it takes, an invalid sequence and its length (the
  \<open>error_len\<close> of \<open>Utf8Error\<close>), or a sequence cut off by the end of the input.\<close>

datatype utf8_step = U_End | U_Char rchar nat | U_Bad nat | U_Short

definition is_cont :: "nat \<Rightarrow> bool" where
  "is_cont x = (0x80 \<le> x \<and> x \<le> 0xBF)"

definition second_ok :: "nat \<Rightarrow> nat \<Rightarrow> bool" where
  "second_ok x y =
     (if x = 0xE0 then 0xA0 \<le> y \<and> y \<le> 0xBF
      else if x = 0xED then 0x80 \<le> y \<and> y \<le> 0x9F
      else if x = 0xF0 then 0x90 \<le> y \<and> y \<le> 0xBF
      else if x = 0xF4 then 0x80 \<le> y \<and> y \<le> 0x8F
      else is_cont y)"

fun utf8_next_nat :: "nat list \<Rightarrow> utf8_step" where
  "utf8_next_nat [] = U_End"
| "utf8_next_nat (x # ys) =
     (if x < 0x80 then U_Char x 1
      else if 0xC2 \<le> x \<and> x \<le> 0xDF then
        (case ys of
           [] \<Rightarrow> U_Short
         | y # _ \<Rightarrow> if is_cont y then U_Char ((x - 0xC0) * 64 + (y - 0x80)) 2 else U_Bad 1)
      else if 0xE0 \<le> x \<and> x \<le> 0xEF then
        (case ys of
           [] \<Rightarrow> U_Short
         | y # zs \<Rightarrow>
             if \<not> second_ok x y then U_Bad 1
             else (case zs of
                     [] \<Rightarrow> U_Short
                   | z # _ \<Rightarrow>
                       if is_cont z
                       then U_Char ((x - 0xE0) * 4096 + (y - 0x80) * 64 + (z - 0x80)) 3
                       else U_Bad 2))
      else if 0xF0 \<le> x \<and> x \<le> 0xF4 then
        (case ys of
           [] \<Rightarrow> U_Short
         | y # zs \<Rightarrow>
             if \<not> second_ok x y then U_Bad 1
             else (case zs of
                     [] \<Rightarrow> U_Short
                   | z # ws \<Rightarrow>
                       if \<not> is_cont z then U_Bad 2
                       else (case ws of
                               [] \<Rightarrow> U_Short
                             | w # _ \<Rightarrow>
                                 if is_cont w
                                 then U_Char ((x - 0xF0) * 262144 + (y - 0x80) * 4096
                                        + (z - 0x80) * 64 + (w - 0x80)) 4
                                 else U_Bad 3)))
      else U_Bad 1)"

definition utf8_next :: "u8 list \<Rightarrow> utf8_step" where
  "utf8_next bs = utf8_next_nat (map unat (take 4 bs))"

text \<open>\<open>str::from_utf8\<close>: either the text, or the length of the valid prefix and
  the \<open>error_len\<close> of the error (\<open>None\<close> when the input merely stops early).\<close>

datatype utf8_result = U_Ok rstr | U_Err nat "nat option"

lemma utf8_next_nat_bounds:
  "utf8_next_nat xs = U_Char c n \<Longrightarrow> 0 < n \<and> n \<le> length xs"
  "utf8_next_nat xs = U_Bad n \<Longrightarrow> 0 < n \<and> n \<le> length xs"
  by (cases xs; auto split: if_splits list.splits)+

lemma utf8_next_bounds:
  "utf8_next bs = U_Char c n \<Longrightarrow> 0 < n \<and> n \<le> length bs"
  "utf8_next bs = U_Bad n \<Longrightarrow> 0 < n \<and> n \<le> length bs"
  using utf8_next_nat_bounds [of "map unat (take 4 bs)"] by (auto simp: utf8_next_def)

lemma utf8_next_Nil [simp]: "utf8_next [] = U_End"
  by (simp add: utf8_next_def)

function from_utf8_at :: "nat \<Rightarrow> rstr \<Rightarrow> u8 list \<Rightarrow> utf8_result" where
  "from_utf8_at i acc bs =
     (case utf8_next bs of
        U_End \<Rightarrow> U_Ok (rev acc)
      | U_Char c n \<Rightarrow> from_utf8_at (i + n) (c # acc) (drop n bs)
      | U_Bad n \<Rightarrow> U_Err i (Some n)
      | U_Short \<Rightarrow> U_Err i None)"
  by pat_completeness auto
termination
  by (relation "measure (\<lambda>(i, acc, bs). length bs)") (auto dest: utf8_next_bounds)

declare from_utf8_at.simps [simp del]

definition from_utf8 :: "u8 list \<Rightarrow> utf8_result" where
  "from_utf8 bs = from_utf8_at 0 [] bs"

text \<open>\<open>String::from_utf8_lossy\<close>: each invalid sequence, and a sequence cut off by
  the end of the input, becomes one U+FFFD.\<close>

function utf8_lossy :: "u8 list \<Rightarrow> rstr" where
  "utf8_lossy bs =
     (case utf8_next bs of
        U_End \<Rightarrow> []
      | U_Char c n \<Rightarrow> c # utf8_lossy (drop n bs)
      | U_Bad n \<Rightarrow> 0xFFFD # utf8_lossy (drop n bs)
      | U_Short \<Rightarrow> [0xFFFD])"
  by pat_completeness auto
termination
  by (relation "measure length") (auto dest: utf8_next_bounds)

declare utf8_lossy.simps [simp del]

definition utf8_len :: "rchar \<Rightarrow> nat" where
  "utf8_len c = (if c < 0x80 then 1 else if c < 0x800 then 2 else if c < 0x10000 then 3 else 4)"

lemma utf8_char_length [simp]: "length (utf8_char c) = utf8_len c"
  by (simp add: utf8_char_def utf8_len_def)

lemma unat_u16_le [simp]: "unat (c :: u16) \<le> 65535"
proof -
  have "unat c < 2 ^ LENGTH(16)" by (rule unsigned_less)
  then show ?thesis by simp
qed

lemma unat_u8_le [simp]: "unat (c :: u8) \<le> 255"
proof -
  have "unat c < 2 ^ LENGTH(8)" by (rule unsigned_less)
  then show ?thesis by simp
qed

lemma unat_of_small: "n < 256 \<Longrightarrow> unat (word_of_nat n :: u8) = n"
  by (simp add: unat_of_nat)

lemma utf8_next_nat_2:
  "0xC2 \<le> x \<Longrightarrow> x \<le> 0xDF \<Longrightarrow> is_cont y \<Longrightarrow>
   utf8_next_nat (x # y # xs) = U_Char ((x - 0xC0) * 64 + (y - 0x80)) 2"
  by simp

lemma utf8_next_nat_3:
  "0xE0 \<le> x \<Longrightarrow> x \<le> 0xEF \<Longrightarrow> second_ok x y \<Longrightarrow> is_cont z \<Longrightarrow>
   utf8_next_nat (x # y # z # xs) =
     U_Char ((x - 0xE0) * 4096 + (y - 0x80) * 64 + (z - 0x80)) 3"
  by simp

lemma utf8_next_nat_4:
  "0xF0 \<le> x \<Longrightarrow> x \<le> 0xF4 \<Longrightarrow> second_ok x y \<Longrightarrow> is_cont z \<Longrightarrow> is_cont w \<Longrightarrow>
   utf8_next_nat (x # y # z # w # xs) =
     U_Char ((x - 0xF0) * 262144 + (y - 0x80) * 4096 + (z - 0x80) * 64 + (w - 0x80)) 4"
  by simp

lemma second_ok_3:
  "a < 16 \<Longrightarrow> b < 64 \<Longrightarrow> a = 0 \<longrightarrow> 32 \<le> b \<Longrightarrow> a = 13 \<longrightarrow> b < 32 \<Longrightarrow> second_ok (0xE0 + a) (0x80 + b)"
  by (auto simp: second_ok_def is_cont_def)

lemma second_ok_4:
  "a \<le> 4 \<Longrightarrow> b < 64 \<Longrightarrow> a = 0 \<longrightarrow> 16 \<le> b \<Longrightarrow> a = 4 \<longrightarrow> b < 16 \<Longrightarrow> second_ok (0xF0 + a) (0x80 + b)"
  by (auto simp: second_ok_def is_cont_def)

lemma is_cont_add: "b < 64 \<Longrightarrow> is_cont (0x80 + b)"
  by (simp add: is_cont_def)

lemma base64_2: "(c::nat) = c div 64 * 64 + c mod 64"
  by simp

lemma base64_3: "(c::nat) = c div 4096 * 4096 + c div 64 mod 64 * 64 + c mod 64"
proof -
  have "c div 64 = c div 4096 * 64 + c div 64 mod 64"
    using base64_2 [of "c div 64"] by (simp only: div_mult2_eq [symmetric]) simp
  moreover have "q = a * 64 + b \<Longrightarrow> q * 64 + d = a * 4096 + b * 64 + d" for q a b d :: nat by simp
  ultimately show ?thesis using base64_2 [of c] by metis
qed

lemma base64_4:
  "(c::nat) = c div 262144 * 262144 + c div 4096 mod 64 * 4096 + c div 64 mod 64 * 64 + c mod 64"
proof -
  have "c div 4096 = c div 262144 * 64 + c div 4096 mod 64"
    using base64_2 [of "c div 4096"] by (simp only: div_mult2_eq [symmetric]) simp
  moreover have "q = a * 64 + b \<Longrightarrow> q * 4096 + d * 64 + e = a * 262144 + b * 4096 + d * 64 + e"
    for q a b d e :: nat by simp
  ultimately show ?thesis using base64_3 [of c] by metis
qed

lemma utf8_next_nat_char:
  assumes "scalar c"
  shows "utf8_next_nat (map unat (utf8_char c) @ xs) = U_Char c (utf8_len c)"
proof -
  have c: "c < 0x110000" "\<not> (0xD800 \<le> c \<and> c < 0xE000)" using assms by (auto simp: scalar_def)
  consider "c < 0x80" | "0x80 \<le> c" "c < 0x800" | "0x800 \<le> c" "c < 0x10000" | "0x10000 \<le> c"
    by linarith
  then show ?thesis
  proof cases
    case 1
    then show ?thesis by (simp add: utf8_char_def utf8_len_def unat_of_small)
  next
    case 2
    define a b where "a = c div 64" and "b = c mod 64"
    have e: "c = a * 64 + b" "b < 64" by (simp_all add: a_def b_def)
    have r: "2 \<le> a" "a < 32" using 2 e by linarith+
    have u: "utf8_char c = [word_of_nat (0xC0 + a), word_of_nat (0x80 + b)]"
      using 2 by (simp add: utf8_char_def a_def b_def)
    have m: "map unat (utf8_char c) = [0xC0 + a, 0x80 + b]"
      unfolding u using r e by (simp only: list.map unat_of_small)
    have "utf8_next_nat ((0xC0 + a) # (0x80 + b) # xs) = U_Char (a * 64 + b) 2"
      by (subst utf8_next_nat_2) (use r e(2) in \<open>simp_all add: is_cont_add\<close>)
    then show ?thesis unfolding m e(1) [symmetric] using 2 by (simp add: utf8_len_def)
  next
    case 3
    define a b d where "a = c div 4096" and "b = c div 64 mod 64" and "d = c mod 64"
    have e: "c = a * 4096 + b * 64 + d" "b < 64" "d < 64"
      unfolding a_def b_def d_def by (rule base64_3, simp_all)
    have r: "a < 16" using 3 e by linarith
    have u: "utf8_char c = [word_of_nat (0xE0 + a), word_of_nat (0x80 + b), word_of_nat (0x80 + d)]"
      using 3 by (simp add: utf8_char_def a_def b_def d_def)
    have m: "map unat (utf8_char c) = [0xE0 + a, 0x80 + b, 0x80 + d]"
      unfolding u using r e by (simp only: list.map unat_of_small)
    have s: "second_ok (0xE0 + a) (0x80 + b)"
    proof (rule second_ok_3)
      show "a < 16" "b < 64" by (fact r, fact e(2))
      show "a = 0 \<longrightarrow> 32 \<le> b" using e 3 by linarith
      show "a = 13 \<longrightarrow> b < 32" using e c by linarith
    qed
    have "utf8_next_nat ((0xE0 + a) # (0x80 + b) # (0x80 + d) # xs) = U_Char (a * 4096 + b * 64 + d) 3"
      by (subst utf8_next_nat_3) (use r e(2,3) s in \<open>simp_all add: is_cont_add\<close>)
    then show ?thesis unfolding m e(1) [symmetric] using 3 by (simp add: utf8_len_def)
  next
    case 4
    define a b d f where "a = c div 262144" and "b = c div 4096 mod 64"
      and "d = c div 64 mod 64" and "f = c mod 64"
    have e: "c = a * 262144 + b * 4096 + d * 64 + f" "b < 64" "d < 64" "f < 64"
      unfolding a_def b_def d_def f_def by (rule base64_4, simp_all)
    have r: "a \<le> 4" using c e by linarith
    have u: "utf8_char c = [word_of_nat (0xF0 + a), word_of_nat (0x80 + b),
        word_of_nat (0x80 + d), word_of_nat (0x80 + f)]"
      using 4 by (simp add: utf8_char_def a_def b_def d_def f_def)
    have m: "map unat (utf8_char c) = [0xF0 + a, 0x80 + b, 0x80 + d, 0x80 + f]"
      unfolding u using r e by (simp only: list.map unat_of_small)
    have s: "second_ok (0xF0 + a) (0x80 + b)"
    proof (rule second_ok_4)
      show "a \<le> 4" "b < 64" by (fact r, fact e(2))
      show "a = 0 \<longrightarrow> 16 \<le> b" using e 4 by linarith
      show "a = 4 \<longrightarrow> b < 16" using e c(1) by linarith
    qed
    have "utf8_next_nat ((0xF0 + a) # (0x80 + b) # (0x80 + d) # (0x80 + f) # xs)
        = U_Char (a * 262144 + b * 4096 + d * 64 + f) 4"
      by (subst utf8_next_nat_4) (use r e(2-4) s in \<open>simp_all add: is_cont_add\<close>)
    then show ?thesis unfolding m e(1) [symmetric] using 4 by (simp add: utf8_len_def)
  qed
qed

lemma utf8_len_le4: "utf8_len c \<le> 4" and utf8_len_pos: "0 < utf8_len c"
  by (simp_all add: utf8_len_def)

lemma utf8_next_char:
  "scalar c \<Longrightarrow> utf8_next (utf8_char c @ bs) = U_Char c (utf8_len c)"
  using utf8_len_le4 [of c] by (simp add: utf8_next_def utf8_next_nat_char)

lemma utf8_lossy_utf8_append:
  "list_all scalar s \<Longrightarrow> utf8_lossy (utf8 s @ bs) = s @ utf8_lossy bs"
proof (induction s)
  case (Cons c s)
  then show ?case
    by (subst utf8_lossy.simps) (simp add: utf8_Cons utf8_next_char)
qed simp

lemma utf8_lossy_Nil [simp]: "utf8_lossy [] = []"
  by (simp add: utf8_lossy.simps)

lemma utf8_lossy_utf8: "list_all scalar s \<Longrightarrow> utf8_lossy (utf8 s) = s"
  using utf8_lossy_utf8_append [of s "[]"] by simp

lemma from_utf8_at_utf8:
  "list_all scalar s \<Longrightarrow>
   from_utf8_at i acc (utf8 s @ bs) = from_utf8_at (i + length (utf8 s)) (rev s @ acc) bs"
proof (induction s arbitrary: i acc)
  case (Cons c s)
  then show ?case
    by (subst from_utf8_at.simps) (simp add: utf8_Cons utf8_next_char add.assoc)
qed simp

lemma from_utf8_utf8: "list_all scalar s \<Longrightarrow> from_utf8 (utf8 s) = U_Ok s"
  using from_utf8_at_utf8 [of s 0 "[]" "[]"]
  by (simp add: from_utf8_def from_utf8_at.simps [of _ _ "[]"])

lemma from_utf8_ascii:
  assumes "list_all (\<lambda>b. b < 0x80) bs"
  shows "from_utf8 bs = U_Ok (map unat bs)"
proof -
  have r: "\<forall>c\<in>set (map unat bs). c < 0x80"
    using assms by (auto simp: list_all_iff word_less_nat_alt)
  then have "utf8 (map unat bs) = bs" by (simp add: utf8_ascii comp_def)
  moreover have "list_all scalar (map unat bs)" using r by (auto simp: list_all_iff scalar_def)
  ultimately show ?thesis using from_utf8_utf8 [of "map unat bs"] by simp
qed

lemma digits_ascii: "list_all is_digit bs \<Longrightarrow> list_all (\<lambda>b. b < 0x80) bs"
  by (auto simp: list_all_iff is_digit_def word_le_nat_alt word_less_nat_alt)

lemma utf8_next_nat_scalar: "utf8_next_nat xs = U_Char c n \<Longrightarrow> scalar c"
proof (cases xs)
  case (Cons x ys)
  assume u: "utf8_next_nat xs = U_Char c n"
  show ?thesis
  proof (cases "x < 0x80 \<or> \<not> 0xE0 \<le> x")
    case True
    then show ?thesis using u Cons
      by (auto simp: scalar_def is_cont_def split: if_splits list.splits)
  next
    case False
    then obtain y z zs where ys: "ys = y # z # zs" "second_ok x y"
      using u Cons by (auto split: if_splits list.splits)
    show ?thesis
    proof (cases "x \<le> 0xEF")
      case True
      then have "is_cont z" "c = (x - 0xE0) * 4096 + (y - 0x80) * 64 + (z - 0x80)"
        using u Cons False ys by (auto split: if_splits)
      then show ?thesis using ys(2) False True
        by (auto simp: scalar_def second_ok_def is_cont_def split: if_splits)
    next
      case x4: False
      then obtain w ws where w: "zs = w # ws" "is_cont z" "is_cont w" "x \<le> 0xF4"
        "c = (x - 0xF0) * 262144 + (y - 0x80) * 4096 + (z - 0x80) * 64 + (w - 0x80)"
        using u Cons False ys by (auto split: if_splits list.splits)
      then show ?thesis using ys(2) False x4
        by (auto simp: scalar_def second_ok_def is_cont_def split: if_splits)
    qed
  qed
qed simp

lemma utf8_next_scalar: "utf8_next bs = U_Char c n \<Longrightarrow> scalar c"
  unfolding utf8_next_def by (rule utf8_next_nat_scalar)

lemma replacement_scalar [simp]: "scalar 0xFFFD"
  by (simp add: scalar_def)

lemma utf8_lossy_scalar: "list_all scalar (utf8_lossy bs)"
proof (induction bs rule: utf8_lossy.induct)
  case (1 bs)
  then show ?case
    by (subst utf8_lossy.simps) (auto split: utf8_step.split dest: utf8_next_scalar)
qed

end
