(* ===== verification/Core_Types.thy ===== *)
theory Core_Types
  imports Panesmith_Prelude
begin

text \<open>
  The data shared by every part of panesmith-core: errors (\<open>error.rs\<close>), pane
  identity, sizes, life-cycle and interaction states and configuration
  (\<open>pane.rs\<close>), surface snapshots and the backend interface (\<open>pane.rs\<close>), host
  input (\<open>input.rs\<close>), attach options (\<open>command.rs\<close>) and events (\<open>event.rs\<close>).

  Constructors carry a prefix where the Rust name is taken in HOL; record fields
  carry a prefix of their struct. A struct with borrowed and owned variants
  (\<open>Cow\<close>) is one record. \<open>Duration\<close> and \<open>Instant\<close> are milliseconds.
\<close>


section \<open>Errors\<close>

datatype io_operation = Io_Read | Io_Write | Io_Resize | Io_Kill | Io_Flush

definition io_operation_str :: "io_operation \<Rightarrow> rstr" where
  "io_operation_str o1 =
     (case o1 of
        Io_Read \<Rightarrow> lit ''read''
      | Io_Write \<Rightarrow> lit ''write''
      | Io_Resize \<Rightarrow> lit ''resize''
      | Io_Kill \<Rightarrow> lit ''kill''
      | Io_Flush \<Rightarrow> lit ''flush'')"

type_synonym pane_id = u64

datatype pane_error =
    Spawn_Error rstr
  | Io_Error io_operation rstr
  | Surface_Error rstr
  | InputEncoding_Error rstr
  | Attach_Error rstr
  | NotFound_Error pane_id
  | InvalidState_Error rstr rstr
  | InvalidSize_Error u16 u16

definition dec_str :: "nat \<Rightarrow> rstr" where
  "dec_str n = map unat (dec n)"

definition pane_error_str :: "pane_error \<Rightarrow> rstr" where
  "pane_error_str e =
     (case e of
        Spawn_Error m \<Rightarrow> lit ''spawn failed: '' @ m
      | Io_Error o1 m \<Rightarrow> lit ''io failed ('' @ io_operation_str o1 @ lit ''): '' @ m
      | Surface_Error m \<Rightarrow> lit ''surface failed: '' @ m
      | InputEncoding_Error m \<Rightarrow> lit ''input encoding failed: '' @ m
      | Attach_Error m \<Rightarrow> lit ''attach failed: '' @ m
      | NotFound_Error p \<Rightarrow> lit ''pane '' @ dec_str (unat p) @ lit '' was not found''
      | InvalidState_Error x a \<Rightarrow>
          lit ''invalid state: expected '' @ x @ lit '', got '' @ a
      | InvalidSize_Error r c \<Rightarrow>
          lit ''invalid size: rows='' @ dec_str (unat r) @ lit '', cols='' @ dec_str (unat c)
            @ lit '' (both must be >= 1)'')"


section \<open>Sizes and states\<close>

record pane_size =
  sz_rows :: u16
  sz_cols :: u16

definition mk_size :: "u16 \<Rightarrow> u16 \<Rightarrow> pane_size" where
  "mk_size r c = \<lparr>sz_rows = r, sz_cols = c\<rparr>"

definition size_try_new :: "u16 \<Rightarrow> u16 \<Rightarrow> pane_error + pane_size" where
  "size_try_new r c =
     (if r = 0 \<or> c = 0 then Inl (InvalidSize_Error r c) else Inr (mk_size r c))"

definition valid_size :: "pane_size \<Rightarrow> bool" where
  "valid_size s = (sz_rows s \<noteq> 0 \<and> sz_cols s \<noteq> 0)"

datatype kill_reason = UserRequested | HostRequested | ConfigLimit

datatype pane_state =
    Starting
  | Running
  | Exited "int option"
  | Failed pane_error
  | Killed kill_reason

datatype interaction_mode = Embedded | Attaching | Attached | Detaching


section \<open>Configuration\<close>

record command_spec =
  cs_program :: rstr
  cs_args :: "rstr list"

text \<open>\<open>str::trim\<close> removes the characters with the Unicode property White_Space.\<close>

definition is_whitespace :: "rchar \<Rightarrow> bool" where
  "is_whitespace c =
     ((0x09 \<le> c \<and> c \<le> 0x0D) \<or> c = 0x20 \<or> c = 0x85 \<or> c = 0xA0 \<or> c = 0x1680
      \<or> (0x2000 \<le> c \<and> c \<le> 0x200A) \<or> c = 0x2028 \<or> c = 0x2029 \<or> c = 0x202F
      \<or> c = 0x205F \<or> c = 0x3000)"

definition trim :: "rstr \<Rightarrow> rstr" where
  "trim s = rev (dropWhile is_whitespace (rev (dropWhile is_whitespace s)))"

definition command_validate :: "command_spec \<Rightarrow> pane_error + unit" where
  "command_validate c =
     (if trim (cs_program c) = [] then Inl (Spawn_Error (lit ''command program must not be empty''))
      else Inr ())"

record scrollback_config =
  sb_max_lines :: "nat option"

definition scrollback_bounded_lines :: "nat \<Rightarrow> pane_error + scrollback_config" where
  "scrollback_bounded_lines n =
     (if n = 0 then Inl (Spawn_Error (lit ''scrollback max_lines must be > 0''))
      else Inr \<lparr>sb_max_lines = Some n\<rparr>)"

definition scrollback_new :: "nat \<Rightarrow> nat \<Rightarrow> pane_error + scrollback_config" where
  "scrollback_new max_lines max_bytes =
     (if max_bytes = 0 then Inl (Spawn_Error (lit ''scrollback max_bytes must be > 0''))
      else scrollback_bounded_lines max_lines)"

definition scrollback_is_disabled :: "scrollback_config \<Rightarrow> bool" where
  "scrollback_is_disabled c = (sb_max_lines c = Some 0)"

definition scrollback_is_unlimited :: "scrollback_config \<Rightarrow> bool" where
  "scrollback_is_unlimited c = (sb_max_lines c = None)"

definition scrollback_is_bounded :: "scrollback_config \<Rightarrow> bool" where
  "scrollback_is_bounded c = (case sb_max_lines c of Some n \<Rightarrow> 0 < n | None \<Rightarrow> False)"

datatype transcript_mode = TM_Disabled | TM_PlainText | TM_RawBytes | TM_Both

record transcript_config =
  tc_mode :: transcript_mode
  tc_max_lines :: nat
  tc_max_bytes :: nat

definition transcript_config_default :: transcript_config where
  "transcript_config_default =
     \<lparr>tc_mode = TM_Disabled, tc_max_lines = 10000, tc_max_bytes = 1024 * 1024\<rparr>"

datatype enter_encoding = Enter_Cr | Enter_Lf | Enter_CrLf
datatype backspace_encoding = Backspace_Del | Backspace_Bs
datatype paste_newline_policy = Preserve | NormalizeToLf | NormalizeToCr

record input_config =
  ic_enter :: enter_encoding
  ic_backspace :: backspace_encoding
  ic_alt_sends_escape :: bool
  ic_application_cursor_keys :: bool
  ic_paste_newline :: paste_newline_policy

definition input_config_default :: input_config where
  "input_config_default =
     \<lparr>ic_enter = Enter_Cr, ic_backspace = Backspace_Del, ic_alt_sends_escape = True,
      ic_application_cursor_keys = False, ic_paste_newline = Preserve\<rparr>"

datatype mouse_mode =
  MM_None | MM_X10 | MM_Normal | MM_ButtonEvent | MM_AnyEvent | MM_Sgr

record terminal_modes =
  tm_bracketed_paste :: bool
  tm_focus_events :: bool
  tm_application_cursor :: bool
  tm_alternate_screen :: bool
  tm_mouse :: mouse_mode

definition terminal_modes_default :: terminal_modes where
  "terminal_modes_default =
     \<lparr>tm_bracketed_paste = False, tm_focus_events = False, tm_application_cursor = False,
      tm_alternate_screen = False, tm_mouse = MM_None\<rparr>"

record kill_config =
  kc_term_grace :: nat
  kc_kill_descendants :: bool

datatype env_policy = Env_Inherit | Env_Clear | Env_Allowlist "rstr list"

text \<open>\<open>PaneConfig\<close> without its two empty structs \<open>SurfaceConfig\<close> and \<open>AttachConfig\<close>.
  The environment, a \<open>BTreeMap\<close>, is the list of its entries in key order. The default
  shell is that of a host other than Windows.\<close>

record pane_config =
  pc_id :: "pane_id option"
  pc_title :: "rstr option"
  pc_command :: command_spec
  pc_cwd :: "rstr option"
  pc_env :: "(rstr \<times> rstr) list"
  pc_env_policy :: env_policy
  pc_term_fallback :: "rstr option"
  pc_size :: pane_size
  pc_scrollback :: "scrollback_config option"
  pc_transcript :: transcript_config
  pc_input :: input_config
  pc_kill :: kill_config
  pc_output_queue_capacity :: nat

definition pane_config_validate :: "pane_config \<Rightarrow> pane_error + unit" where
  "pane_config_validate c =
     (case command_validate (pc_command c) of
        Inl e \<Rightarrow> Inl e
      | Inr _ \<Rightarrow>
          if sz_rows (pc_size c) = 0 \<or> sz_cols (pc_size c) = 0
          then Inl (InvalidSize_Error (sz_rows (pc_size c)) (sz_cols (pc_size c)))
          else Inr ())"

definition pane_config_default :: pane_config where
  "pane_config_default =
     \<lparr>pc_id = None, pc_title = None,
      pc_command = \<lparr>cs_program = lit ''sh'', cs_args = []\<rparr>,
      pc_cwd = None, pc_env = [], pc_env_policy = Env_Inherit, pc_term_fallback = None,
      pc_size = mk_size 24 80, pc_scrollback = None, pc_transcript = transcript_config_default,
      pc_input = input_config_default,
      pc_kill = \<lparr>kc_term_grace = 5000, kc_kill_descendants = True\<rparr>,
      pc_output_queue_capacity = 128\<rparr>"


section \<open>Surfaces\<close>

datatype cell_width = CW_Single | CW_Double | CW_Continuation

datatype color_spec = Color_Default | Color_Indexed u8 | Color_Rgb u8 u8 u8

record cell_attrs =
  ca_bold :: bool
  ca_dim :: bool
  ca_italic :: bool
  ca_underlined :: bool
  ca_slow_blink :: bool
  ca_rapid_blink :: bool
  ca_reversed :: bool
  ca_hidden :: bool
  ca_crossed_out :: bool

definition cell_attrs_default :: cell_attrs where
  "cell_attrs_default =
     \<lparr>ca_bold = False, ca_dim = False, ca_italic = False, ca_underlined = False,
      ca_slow_blink = False, ca_rapid_blink = False, ca_reversed = False, ca_hidden = False,
      ca_crossed_out = False\<rparr>"

record cell_style =
  cs_fg :: "color_spec option"
  cs_bg :: "color_spec option"
  cs_underline_color :: "color_spec option"
  cs_attrs :: cell_attrs

definition cell_style_default :: cell_style where
  "cell_style_default =
     \<lparr>cs_fg = None, cs_bg = None, cs_underline_color = None, cs_attrs = cell_attrs_default\<rparr>"

record surface_cell =
  sc_text :: rstr
  sc_width :: cell_width
  sc_style :: cell_style

record surface_row =
  sr_cells :: "surface_cell list"
  sr_wrapped :: bool

definition surface_row_default :: surface_row where
  "surface_row_default = \<lparr>sr_cells = [], sr_wrapped = False\<rparr>"

record cursor_state =
  cu_position :: "(u16 \<times> u16) option"
  cu_visible :: bool

record surface_snapshot =
  ss_size :: pane_size
  ss_rows :: "surface_row list"
  ss_cursor :: cursor_state
  ss_modes :: terminal_modes
  ss_title :: "rstr option"

definition surface_blank :: "pane_size \<Rightarrow> surface_snapshot" where
  "surface_blank s =
     \<lparr>ss_size = s, ss_rows = replicate (unat (sz_rows s)) surface_row_default,
      ss_cursor = \<lparr>cu_position = None, cu_visible = False\<rparr>,
      ss_modes = terminal_modes_default, ss_title = None\<rparr>"

record scrollback_line =
  sl_text :: rstr
  sl_row :: surface_row

datatype dirty_rows = Dirty_All | Dirty_Range u16 u16 | Dirty_None

record surface_update =
  su_dirty_rows :: dirty_rows
  su_cursor_changed :: bool
  su_title_changed :: bool
  su_modes_changed :: bool
  su_scrollback_changed :: bool
  su_scrollback_lines_dropped :: nat

definition surface_update_new :: "dirty_rows \<Rightarrow> surface_update" where
  "surface_update_new d =
     \<lparr>su_dirty_rows = d, su_cursor_changed = False, su_title_changed = False,
      su_modes_changed = False, su_scrollback_changed = False, su_scrollback_lines_dropped = 0\<rparr>"

datatype replay_backend_kind = DefaultSurfaceVt100

record surface_metadata =
  sm_name :: rstr
  sm_version :: rstr
  sm_replay_kind :: "replay_backend_kind option"

text \<open>The trait \<open>SurfaceBackend\<close>: its methods over a backend state. A method that
  takes \<open>&mut self\<close> returns the state after it, also when it fails.\<close>

record 's surface_backend =
  sb_size :: "'s \<Rightarrow> pane_size"
  sb_resize :: "'s \<Rightarrow> pane_size \<Rightarrow> (pane_error + unit) \<times> 's"
  sb_validate_resize :: "'s \<Rightarrow> pane_size \<Rightarrow> pane_error + unit"
  sb_feed :: "'s \<Rightarrow> u8 list \<Rightarrow> (pane_error + surface_update) \<times> 's"
  sb_snapshot :: "'s \<Rightarrow> surface_snapshot"
  sb_cursor :: "'s \<Rightarrow> cursor_state"
  sb_modes :: "'s \<Rightarrow> terminal_modes"
  sb_scrollback :: "'s \<Rightarrow> scrollback_line list"
  sb_metadata :: "'s \<Rightarrow> surface_metadata"


section \<open>Host input\<close>

record key_modifiers =
  km_shift :: bool
  km_control :: bool
  km_alt :: bool
  km_super_key :: bool
  km_hyper :: bool
  km_meta :: bool

definition no_modifiers :: key_modifiers where
  "no_modifiers =
     \<lparr>km_shift = False, km_control = False, km_alt = False, km_super_key = False,
      km_hyper = False, km_meta = False\<rparr>"

datatype media_key =
  Media_Play | Media_Pause | Media_PlayPause | Media_Reverse | Media_Stop | Media_FastForward
  | Media_Rewind | Media_TrackNext | Media_TrackPrevious | Media_Record | Media_LowerVolume
  | Media_RaiseVolume | Media_MuteVolume

datatype modifier_key =
  LeftShift | LeftControl | LeftAlt | LeftSuper | LeftHyper | LeftMeta | RightShift
  | RightControl | RightAlt | RightSuper | RightHyper | RightMeta | IsoLevel3Shift
  | IsoLevel5Shift

datatype key_code =
    K_Backspace | K_Enter | K_Left | K_Right | K_Up | K_Down | K_Home | K_End | K_PageUp
  | K_PageDown | K_Tab | K_BackTab | K_Delete | K_Insert | K_Esc | K_CapsLock | K_ScrollLock
  | K_NumLock | K_PrintScreen | K_Pause | K_Menu | K_KeypadBegin
  | K_Char rchar
  | K_F u8
  | K_Null
  | K_Media media_key
  | K_Modifier modifier_key

datatype key_event_kind = Press | Repeat | Release

record key_input =
  ki_code :: key_code
  ki_modifiers :: key_modifiers
  ki_kind :: key_event_kind

datatype mouse_button = MB_Left | MB_Right | MB_Middle

datatype mouse_event_kind =
    M_Down mouse_button | M_Up mouse_button | M_Drag mouse_button | M_Moved
  | M_ScrollDown | M_ScrollUp | M_ScrollLeft | M_ScrollRight

record mouse_input =
  mi_kind :: mouse_event_kind
  mi_column :: u16
  mi_row :: u16
  mi_modifiers :: key_modifiers

datatype host_input =
    HI_Key key_input
  | HI_Mouse mouse_input
  | HI_Paste rstr
  | HI_FocusGained
  | HI_FocusLost
  | HI_Resize pane_size
  | HI_Raw "u8 list"


section \<open>Attach options\<close>

datatype attach_screen_policy =
  ReuseHostAlternateScreen | LeaveAlternateScreen | EnterFreshAlternateScreen

datatype attach_resize_policy = UseRealTerminalSize | KeepEmbeddedSize

datatype attach_output_policy = FanoutToSurfaceAndStdout | StdoutOnlyThenReplay

datatype restore_policy = Restore_Full | Restore_Minimal

record detach_config =
  dc_chord :: "u8 list"
  dc_partial_timeout :: nat

definition detach_config_default :: detach_config where
  "detach_config_default = \<lparr>dc_chord = [0x1d], dc_partial_timeout = 500\<rparr>"

record attach_options =
  ao_detach :: detach_config
  ao_screen :: attach_screen_policy
  ao_resize :: attach_resize_policy
  ao_output :: attach_output_policy
  ao_restore :: restore_policy


section \<open>Events\<close>

datatype detach_reason = Detach_UserChord | Detach_ChildExited | Detach_HostRequested | Detach_Error

datatype input_kind = Input_Bytes | Input_Key | Input_Paste

datatype overflow_queue = PtyOutputFrames | PaneEvents | TranscriptChunks | RenderCacheUpdates

record output_event =
  oe_bytes_len :: nat
  oe_transcript_offset :: "nat option"
  oe_contains_escape :: bool

record surface_changed_event =
  sce_generation :: nat
  sce_dirty_rows :: dirty_rows
  sce_cursor_changed :: bool
  sce_title_changed :: bool
  sce_modes_changed :: bool
  sce_scrollback_changed :: bool

record input_sent_event =
  ise_input_kind :: input_kind
  ise_bytes_len :: nat
  ise_recorded :: bool

record attach_started_event =
  ase_terminal_size :: pane_size
  ase_embedded_size :: pane_size
  ase_screen_policy :: attach_screen_policy

record attach_ended_event =
  aee_reason :: detach_reason
  aee_restored_size :: pane_size
  aee_duration :: nat

record transcript_rotated_event =
  tre_chunks_dropped :: nat
  tre_bytes_dropped :: nat
  tre_raw_bytes_dropped :: nat
  tre_plain_bytes_dropped :: nat

record overflow_event =
  ofe_dropped_frames :: nat
  ofe_dropped_bytes :: nat
  ofe_queue :: overflow_queue

datatype event_kind =
    Ev_Spawned rstr
  | Ev_StateChanged pane_state pane_state
  | Ev_Output output_event
  | Ev_SurfaceChanged surface_changed_event
  | Ev_InputSent input_sent_event
  | Ev_Resized pane_size
  | Ev_AttachStarted attach_started_event
  | Ev_AttachEnded attach_ended_event
  | Ev_TranscriptRotated transcript_rotated_event
  | Ev_Overflow overflow_event
  | Ev_Error pane_error
  | Ev_Exited "int option"

record pane_event =
  ev_pane_id :: pane_id
  ev_seq :: nat
  ev_at :: nat
  ev_kind :: event_kind

definition event_seq_cmp :: "pane_event \<Rightarrow> pane_event \<Rightarrow> int option" where
  "event_seq_cmp a b =
     (if ev_pane_id a \<noteq> ev_pane_id b then None
      else Some (if ev_seq a < ev_seq b then - 1 else if ev_seq a = ev_seq b then 0 else 1))"

definition event_is_after :: "pane_event \<Rightarrow> pane_event \<Rightarrow> bool" where
  "event_is_after a b = (event_seq_cmp a b = Some 1)"

definition event_is_before :: "pane_event \<Rightarrow> pane_event \<Rightarrow> bool" where
  "event_is_before a b = (event_seq_cmp a b = Some (- 1))"


section \<open>Laws of the shared data\<close>

lemma pane_config_validate_ok_iff:
  "pane_config_validate c = Inr () \<longleftrightarrow>
     trim (cs_program (pc_command c)) \<noteq> [] \<and> valid_size (pc_size c)"
  by (simp add: pane_config_validate_def command_validate_def valid_size_def)

lemma size_try_new_valid: "size_try_new r c = Inr s \<Longrightarrow> valid_size s"
  by (auto simp: size_try_new_def valid_size_def mk_size_def split: if_splits)

lemma event_is_after_trans:
  "event_is_after a b \<Longrightarrow> event_is_after b c \<Longrightarrow> event_is_after a c"
  by (auto simp: event_is_after_def event_seq_cmp_def split: if_splits)

lemma event_before_after: "event_is_before a b \<longleftrightarrow> event_is_after b a"
  by (auto simp: event_is_before_def event_is_after_def event_seq_cmp_def)

end
