(* ===== verification/Input_Encoder.thy ===== *)
theory Input_Encoder
  imports Core_Types
begin

text \<open>
  The xterm input encoder (\<open>encoder.rs\<close>): keys, paste, focus and SGR mouse reports.
  A byte buffer the source appends to is threaded as an argument. The additions
  \<open>mouse.column + 1\<close> and \<open>mouse.row + 1\<close> are those of the word type, which is what
  a build without overflow checks computes.

  The lemmas give the text of numbers and mouse reports, a decoder that inverts
  the mouse reports, the newline policies as one-pass rewriting, and the laws of
  the key encoder.
\<close>


section \<open>Helpers of the encoder\<close>

definition control_byte :: "rchar \<Rightarrow> u8 option" where
  "control_byte c =
     (if c = 0x20 \<or> c = 0x40 \<or> c = 0x60 then Some 0x00
      else if 0x61 \<le> c \<and> c \<le> 0x7A then Some ((word_of_nat c - 0x61 + 1) AND 0x1f)
      else if 0x41 \<le> c \<and> c \<le> 0x5A then Some ((word_of_nat c - 0x41 + 1) AND 0x1f)
      else if c = 0x5B \<or> c = 0x7B then Some 0x1b
      else if c = 0x5C \<or> c = 0x7C then Some 0x1c
      else if c = 0x5D \<or> c = 0x7D then Some 0x1d
      else if c = 0x5E \<or> c = 0x7E then Some 0x1e
      else if c = 0x5F \<or> c = 0x2D then Some 0x1f
      else if c = 0x3F then Some 0x7f
      else None)"

definition encode_char_key :: "rchar \<Rightarrow> key_modifiers \<Rightarrow> u8 list \<Rightarrow> u8 list" where
  "encode_char_key c mods buf =
     (case (if km_control mods then control_byte c else None) of
        Some b \<Rightarrow> buf @ [b]
      | None \<Rightarrow> buf @ utf8_char c)"

definition sgr_modifier_bits :: "key_modifiers \<Rightarrow> u8" where
  "sgr_modifier_bits mods =
     (if km_shift mods then 4 else 0) OR (if km_alt mods then 8 else 0)
       OR (if km_control mods then 16 else 0)"

definition sgr_button_code :: "mouse_button \<Rightarrow> bool \<Rightarrow> key_modifiers \<Rightarrow> u8" where
  "sgr_button_code btn drag mods =
     ((case btn of MB_Left \<Rightarrow> 0 | MB_Middle \<Rightarrow> 1 | MB_Right \<Rightarrow> 2)
        OR (if drag then 32 else 0)) OR sgr_modifier_bits mods"

text \<open>The digit loop of \<open>write_u16_to_vec\<close>, least significant digit first.\<close>

function u16_digits_rev :: "u16 \<Rightarrow> u8 list" where
  "u16_digits_rev n =
     (if n = 0 then [] else (0x30 + ucast (n mod 10)) # u16_digits_rev (n div 10))"
  by pat_completeness auto
termination
proof (relation "measure unat")
  fix n :: u16
  assume "n \<noteq> 0"
  then show "(n div 10, n) \<in> measure unat"
    by (simp add: unat_div unat_gt_0)
qed simp

declare u16_digits_rev.simps [simp del]

definition write_u16_to_vec :: "u16 \<Rightarrow> u8 list \<Rightarrow> u8 list" where
  "write_u16_to_vec n buf =
     (if n = 0 then buf @ [0x30] else buf @ rev (u16_digits_rev n))"


section \<open>The trait methods\<close>

text \<open>The base sequence of a key, before the Alt prefix.\<close>

definition key_bytes ::
    "input_config \<Rightarrow> bool \<Rightarrow> key_modifiers \<Rightarrow> key_code \<Rightarrow> u8 list" where
  "key_bytes cfg app_cursor mods code =
     (let esc = (\<lambda>s. 0x1b # asc s)
      in case code of
            K_Char c \<Rightarrow> encode_char_key c mods []
          | K_Enter \<Rightarrow> (case ic_enter cfg of
                Enter_Cr \<Rightarrow> [0x0d] | Enter_Lf \<Rightarrow> [0x0a] | Enter_CrLf \<Rightarrow> [0x0d, 0x0a])
          | K_Backspace \<Rightarrow> (case ic_backspace cfg of
                Backspace_Del \<Rightarrow> [0x7f] | Backspace_Bs \<Rightarrow> [0x08])
          | K_Tab \<Rightarrow> if km_shift mods then esc ''[Z'' else [0x09]
          | K_Esc \<Rightarrow> [0x1b]
          | K_Up \<Rightarrow> if app_cursor then esc ''OA'' else esc ''[A''
          | K_Down \<Rightarrow> if app_cursor then esc ''OB'' else esc ''[B''
          | K_Right \<Rightarrow> if app_cursor then esc ''OC'' else esc ''[C''
          | K_Left \<Rightarrow> if app_cursor then esc ''OD'' else esc ''[D''
          | K_Home \<Rightarrow> if app_cursor then esc ''OH'' else esc ''[H''
          | K_End \<Rightarrow> if app_cursor then esc ''OF'' else esc ''[F''
          | K_PageUp \<Rightarrow> esc ''[5~''
          | K_PageDown \<Rightarrow> esc ''[6~''
          | K_Insert \<Rightarrow> esc ''[2~''
          | K_Delete \<Rightarrow> esc ''[3~''
          | K_Media _ \<Rightarrow> []
          | K_Modifier _ \<Rightarrow> []
          | K_F n \<Rightarrow>
              if n = 1 then esc ''OP''
              else if n = 2 then esc ''OQ''
              else if n = 3 then esc ''OR''
              else if n = 4 then esc ''OS''
              else if n = 5 then esc ''[15~''
              else if n = 6 then esc ''[17~''
              else if n = 7 then esc ''[18~''
              else if n = 8 then esc ''[19~''
              else if n = 9 then esc ''[20~''
              else if n = 10 then esc ''[21~''
              else if n = 11 then esc ''[23~''
              else if n = 12 then esc ''[24~''
              else if n = 13 then esc ''[25~''
              else if n = 14 then esc ''[26~''
              else if n = 15 then esc ''[28~''
              else if n = 16 then esc ''[29~''
              else if n = 17 then esc ''[31~''
              else if n = 18 then esc ''[32~''
              else if n = 19 then esc ''[33~''
              else if n = 20 then esc ''[34~''
              else []
          | K_BackTab \<Rightarrow> esc ''[Z''
          | K_CapsLock \<Rightarrow> []
          | K_ScrollLock \<Rightarrow> []
          | K_NumLock \<Rightarrow> []
          | K_PrintScreen \<Rightarrow> []
          | K_Pause \<Rightarrow> []
          | K_Menu \<Rightarrow> []
          | K_KeypadBegin \<Rightarrow> []
          | K_Null \<Rightarrow> [])"

definition encode_key :: "input_config \<Rightarrow> key_input \<Rightarrow> terminal_modes \<Rightarrow> pane_error + u8 list" where
  "encode_key cfg key modes =
     (if ki_kind key = Release then Inr []
      else
        let mods = ki_modifiers key;
            app_cursor = (tm_application_cursor modes \<or> ic_application_cursor_keys cfg);
            buf = key_bytes cfg app_cursor mods (ki_code key)
        in Inr (if km_alt mods \<and> ic_alt_sends_escape cfg \<and> buf \<noteq> [] then 0x1b # buf else buf))"

definition paste_process :: "paste_newline_policy \<Rightarrow> rstr \<Rightarrow> rstr" where
  "paste_process policy text1 =
     (case policy of
        Preserve \<Rightarrow> text1
      | NormalizeToLf \<Rightarrow> str_replace [0x0d] [0x0a] (str_replace [0x0d, 0x0a] [0x0a] text1)
      | NormalizeToCr \<Rightarrow> str_replace [0x0a] [0x0d] (str_replace [0x0d, 0x0a] [0x0d] text1))"

definition paste_start :: "u8 list" where "paste_start = 0x1b # asc ''[200~''"
definition paste_end :: "u8 list" where "paste_end = 0x1b # asc ''[201~''"

definition encode_paste :: "input_config \<Rightarrow> rstr \<Rightarrow> terminal_modes \<Rightarrow> u8 list" where
  "encode_paste cfg text1 modes =
     (let processed = paste_process (ic_paste_newline cfg) text1
      in if tm_bracketed_paste modes then paste_start @ utf8 processed @ paste_end
         else utf8 processed)"

definition encode_focus_gained :: "terminal_modes \<Rightarrow> u8 list" where
  "encode_focus_gained modes = (if tm_focus_events modes then 0x1b # asc ''[I'' else [])"

definition encode_focus_lost :: "terminal_modes \<Rightarrow> u8 list" where
  "encode_focus_lost modes = (if tm_focus_events modes then 0x1b # asc ''[O'' else [])"

text \<open>The button code and the release flag of a mouse event; \<open>None\<close> for the
  horizontal wheel, which the encoder leaves out.\<close>

definition mouse_code :: "mouse_input \<Rightarrow> (u8 \<times> bool) option" where
  "mouse_code mouse =
     (let mods = mi_modifiers mouse
      in case mi_kind mouse of
           M_Down btn \<Rightarrow> Some (sgr_button_code btn False mods, False)
         | M_Up btn \<Rightarrow> Some (sgr_button_code btn False mods, True)
         | M_Drag btn \<Rightarrow> Some (sgr_button_code btn True mods, False)
         | M_Moved \<Rightarrow> Some (35 OR sgr_modifier_bits mods, False)
         | M_ScrollDown \<Rightarrow> Some (65 OR sgr_modifier_bits mods, False)
         | M_ScrollUp \<Rightarrow> Some (64 OR sgr_modifier_bits mods, False)
         | M_ScrollLeft \<Rightarrow> None
         | M_ScrollRight \<Rightarrow> None)"

definition encode_mouse ::
    "mouse_input \<Rightarrow> terminal_modes \<Rightarrow> pane_error + u8 list option" where
  "encode_mouse mouse modes =
     (if tm_mouse modes = MM_None then Inr None
      else if tm_mouse modes \<noteq> MM_Sgr then Inr None
      else case mouse_code mouse of
             None \<Rightarrow> Inr None
           | Some (cb, release) \<Rightarrow>
               let buf = [0x1b, 0x5b, 0x3c];
                   buf = write_u16_to_vec (ucast cb) buf;
                   buf = buf @ [0x3b];
                   buf = write_u16_to_vec (mi_column mouse + 1) buf;
                   buf = buf @ [0x3b];
                   buf = write_u16_to_vec (mi_row mouse + 1) buf;
                   buf = buf @ [if release then 0x6d else 0x4d]
               in Inr (Some buf))"

definition encode_input :: "input_config \<Rightarrow> host_input \<Rightarrow> terminal_modes \<Rightarrow> pane_error + u8 list" where
  "encode_input cfg input modes =
     (case input of
        HI_Key key \<Rightarrow> encode_key cfg key modes
      | HI_Paste text1 \<Rightarrow> Inr (encode_paste cfg text1 modes)
      | HI_FocusGained \<Rightarrow> Inr (encode_focus_gained modes)
      | HI_FocusLost \<Rightarrow> Inr (encode_focus_lost modes)
      | HI_Mouse mouse \<Rightarrow>
          (case encode_mouse mouse modes of
             Inl e \<Rightarrow> Inl e
           | Inr (Some b) \<Rightarrow> Inr b
           | Inr None \<Rightarrow> Inr [])
      | HI_Resize _ \<Rightarrow> Inr []
      | HI_Raw b \<Rightarrow> Inr b)"


section \<open>Decimal coordinates\<close>

lemma digit_word: "unat (n :: u16) mod 10 = k \<Longrightarrow> 0x30 + ucast (n mod 10) = digit k"
proof -
  assume k: "unat n mod 10 = k"
  have "unat (n mod 10) = k" using k by (simp add: unat_mod)
  then have "n mod 10 = word_of_nat k" by auto
  moreover have "k < 10" using k by auto
  ultimately show ?thesis by (simp add: digit_def unsigned_of_nat take_bit_nat_eq_self)
qed

lemma u16_digits_rev_dec: "n \<noteq> 0 \<Longrightarrow> rev (u16_digits_rev n) = dec (unat n)"
proof (induction n rule: u16_digits_rev.induct)
  case (1 n)
  have q: "unat (n div 10) = unat n div 10" by (simp add: unat_div)
  show ?case
  proof (cases "n div 10 = 0")
    case True
    then have small: "unat n < 10" using q by (auto simp: div_eq_0_iff)
    then show ?thesis using 1 True digit_word [of n "unat n"]
      by (simp add: u16_digits_rev.simps [of n] u16_digits_rev.simps [of 0] dec.simps [of "unat n"])
  next
    case False
    then have "\<not> unat n < 10" using q unat_gt_0 [of "n div 10"] by auto
    then show ?thesis using 1 False q digit_word [of n]
      by (simp add: u16_digits_rev.simps [of n] dec.simps [of "unat n"])
  qed
qed

lemma write_u16_to_vec_dec: "write_u16_to_vec n buf = buf @ dec (unat n)"
proof (cases "n = 0")
  case True
  then show ?thesis by (simp add: write_u16_to_vec_def dec.simps [of 0] digit_def)
qed (simp add: write_u16_to_vec_def u16_digits_rev_dec)

lemma unat_ucast_u16: "unat (ucast (b :: u8) :: u16) = unat b"
  by (simp add: unsigned_ucast_eq take_bit_nat_eq_self less_le_trans [OF unsigned_less])

lemma encode_mouse_bytes:
  assumes "tm_mouse modes = MM_Sgr" "mouse_code m = Some (cb, rel)"
  shows "encode_mouse m modes =
    Inr (Some ([0x1b, 0x5b, 0x3c] @ dec (unat cb) @ [0x3b] @ dec (unat (mi_column m + 1))
      @ [0x3b] @ dec (unat (mi_row m + 1)) @ [if rel then 0x6d else 0x4d]))"
  using assms by (simp add: encode_mouse_def write_u16_to_vec_dec Let_def unat_ucast_u16)

text \<open>A decoder for SGR mouse reports, the reading side of the protocol.\<close>

definition sgr_decode :: "u8 list \<Rightarrow> (nat \<times> nat \<times> nat \<times> bool) option" where
  "sgr_decode bs =
     (if starts_with bs [0x1b, 0x5b, 0x3c] \<and> (last bs = 0x4d \<or> last bs = 0x6d) then
        (case map (parse_uint 65535) (split_on 0x3b (butlast (drop 3 bs))) of
           [Some b, Some x, Some y] \<Rightarrow> Some (b, x, y, last bs = 0x6d)
         | _ \<Rightarrow> None)
      else None)"

lemma semicolon_not_dec [simp]: "0x3b \<notin> set (dec n)"
  by (rule not_digit_in_dec) (simp add: is_digit_def)

lemma sgr_decode_report:
  assumes "b \<le> 65535" "x \<le> 65535" "y \<le> 65535"
  shows "sgr_decode ([0x1b, 0x5b, 0x3c] @ dec b @ [0x3b] @ dec x @ [0x3b] @ dec y
      @ [if rel then 0x6d else 0x4d]) = Some (b, x, y, rel)"
  using assms
  by (simp add: sgr_decode_def butlast_append split_on_append_sep split_on_no_sep parse_uint_dec)

lemma unat_succ_u16: "c \<noteq> 0xFFFF \<Longrightarrow> unat (c + 1 :: u16) = unat c + 1"
proof -
  assume c: "c \<noteq> 0xFFFF"
  have "c + 1 \<noteq> 0"
  proof
    assume "c + 1 = 0"
    then have "c = - 1" by (simp add: add_eq_0_iff2)
    with c show False by simp
  qed
  then show ?thesis by (metis Suc_eq_plus1 add.commute unatSuc)
qed

lemma sgr_decode_encode:
  assumes "tm_mouse modes = MM_Sgr" "mouse_code m = Some (cb, rel)"
    "mi_column m \<noteq> 0xFFFF" "mi_row m \<noteq> 0xFFFF"
    "encode_mouse m modes = Inr (Some bs)"
  shows "sgr_decode bs = Some (unat cb, unat (mi_column m) + 1, unat (mi_row m) + 1, rel)"
proof -
  have b: "unat cb \<le> 65535" using unat_u8_le [of cb] by linarith
  have x: "unat (mi_column m) + 1 \<le> 65535" "unat (mi_row m) + 1 \<le> 65535"
    using unat_succ_u16 [OF assms(3)] unat_succ_u16 [OF assms(4)]
      unat_u16_le [of "mi_column m + 1"] unat_u16_le [of "mi_row m + 1"] by linarith+
  show ?thesis
    using assms(5) encode_mouse_bytes [OF assms(1,2)] sgr_decode_report [OF b x, of rel]
    by (simp add: unat_succ_u16 assms(3,4))
qed


section \<open>Mouse reports determine the event\<close>

definition visible_modifiers :: "key_modifiers \<Rightarrow> bool \<times> bool \<times> bool" where
  "visible_modifiers k = (km_shift k, km_alt k, km_control k)"

definition mouse_base :: "mouse_event_kind \<Rightarrow> (nat \<times> bool) option" where
  "mouse_base k =
     (case k of
        M_Down btn \<Rightarrow> Some (case btn of MB_Left \<Rightarrow> 0 | MB_Middle \<Rightarrow> 1 | MB_Right \<Rightarrow> 2, False)
      | M_Up btn \<Rightarrow> Some (case btn of MB_Left \<Rightarrow> 0 | MB_Middle \<Rightarrow> 1 | MB_Right \<Rightarrow> 2, True)
      | M_Drag btn \<Rightarrow> Some (case btn of MB_Left \<Rightarrow> 32 | MB_Middle \<Rightarrow> 33 | MB_Right \<Rightarrow> 34, False)
      | M_Moved \<Rightarrow> Some (35, False)
      | M_ScrollDown \<Rightarrow> Some (65, False)
      | M_ScrollUp \<Rightarrow> Some (64, False)
      | M_ScrollLeft \<Rightarrow> None
      | M_ScrollRight \<Rightarrow> None)"

lemma mouse_base_inj: "mouse_base k = Some p \<Longrightarrow> mouse_base k' = Some p \<Longrightarrow> k = k'"
  by (auto simp: mouse_base_def split: mouse_event_kind.splits mouse_button.splits)

lemma mouse_code_bits:
  assumes "mouse_code m = Some (cb, rel)"
  shows "mouse_base (mi_kind m) = Some (unat (cb AND 0xE3), rel)"
    and "visible_modifiers (mi_modifiers m)
           = (cb AND 4 \<noteq> 0, cb AND 8 \<noteq> 0, cb AND 16 \<noteq> 0)"
  using assms
  by (cases "mi_kind m"; cases "km_shift (mi_modifiers m)"; cases "km_alt (mi_modifiers m)";
      cases "km_control (mi_modifiers m)";
      auto simp: mouse_code_def Let_def sgr_button_code_def sgr_modifier_bits_def mouse_base_def
        visible_modifiers_def split: mouse_button.splits)+

lemma mouse_code_inj:
  assumes "mouse_code m = Some c" "mouse_code m' = Some c"
  shows "mi_kind m = mi_kind m' \<and> visible_modifiers (mi_modifiers m) = visible_modifiers (mi_modifiers m')"
  using assms mouse_code_bits [of m] mouse_code_bits [of m'] mouse_base_inj
  by (cases c) metis


section \<open>Newline policies\<close>

fun norm_lf :: "rstr \<Rightarrow> rstr" where
  "norm_lf [] = []"
| "norm_lf [c] = [if c = 0x0d then 0x0a else c]"
| "norm_lf (c # d # ds) =
     (if c = 0x0d \<and> d = 0x0a then 0x0a # norm_lf ds
      else (if c = 0x0d then 0x0a else c) # norm_lf (d # ds))"

fun norm_cr :: "rstr \<Rightarrow> rstr" where
  "norm_cr [] = []"
| "norm_cr [c] = [if c = 0x0a then 0x0d else c]"
| "norm_cr (c # d # ds) =
     (if c = 0x0d \<and> d = 0x0a then 0x0d # norm_cr ds
      else (if c = 0x0a then 0x0d else c) # norm_cr (d # ds))"

lemma paste_lf_one_pass:
  "str_replace [0x0d] [0x0a] (str_replace [0x0d, 0x0a] [0x0a] s) = norm_lf s"
  by (induction s rule: norm_lf.induct) auto

lemma paste_cr_one_pass:
  "str_replace [0x0a] [0x0d] (str_replace [0x0d, 0x0a] [0x0d] s) = norm_cr s"
  by (induction s rule: norm_cr.induct) auto

lemma norm_lf_no_cr: "0x0d \<notin> set (norm_lf s)"
  by (induction s rule: norm_lf.induct) auto

lemma norm_cr_no_lf: "0x0a \<notin> set (norm_cr s)"
  by (induction s rule: norm_cr.induct) auto

lemma norm_lf_id: "0x0d \<notin> set s \<Longrightarrow> norm_lf s = s"
  by (induction s rule: norm_lf.induct) auto

lemma norm_cr_id: "0x0a \<notin> set s \<Longrightarrow> norm_cr s = s"
  by (induction s rule: norm_cr.induct) auto


section \<open>Keys\<close>

lemma encode_key_total: "\<exists>bs. encode_key cfg key modes = Inr bs"
  by (simp add: encode_key_def Let_def)

lemma utf8_char_not_Nil [simp]: "utf8_char c \<noteq> []"
  by (simp add: utf8_char_def)

lemma encode_char_key_not_Nil [simp]: "encode_char_key c m [] \<noteq> []"
  by (simp add: encode_char_key_def split: option.splits)

definition silent_key :: "key_code \<Rightarrow> bool" where
  "silent_key k =
     (case k of
        K_Media _ \<Rightarrow> True | K_Modifier _ \<Rightarrow> True | K_F n \<Rightarrow> n = 0 \<or> 20 < n
      | K_CapsLock \<Rightarrow> True | K_ScrollLock \<Rightarrow> True | K_NumLock \<Rightarrow> True | K_PrintScreen \<Rightarrow> True
      | K_Pause \<Rightarrow> True | K_Menu \<Rightarrow> True | K_KeypadBegin \<Rightarrow> True | K_Null \<Rightarrow> True | _ \<Rightarrow> False)"

lemma u8_1_to_20: "0 < (n :: u8) \<and> n \<le> 20 \<longleftrightarrow> n \<in> set (map word_of_nat [1..<21])"
proof
  assume "0 < n \<and> n \<le> 20"
  then have "unat n \<in> set [1..<21]" by (simp add: word_less_nat_alt word_le_nat_alt)
  then have "word_of_nat (unat n) \<in> (word_of_nat ` set [1..<21] :: u8 set)" by (rule imageI)
  then show "n \<in> set (map word_of_nat [1..<21])" by simp
next
  have "\<forall>m\<in>set (map word_of_nat [1..<21]). 0 < (m :: u8) \<and> m \<le> 20" by (simp add: upt_rec)
  then show "n \<in> set (map word_of_nat [1..<21]) \<Longrightarrow> 0 < n \<and> n \<le> 20" by blast
qed

lemma key_bytes_Nil_iff: "key_bytes cfg app mods code = [] \<longleftrightarrow> silent_key code"
proof -
  have f: "(n :: u8) = 0 \<or> 20 < n \<longleftrightarrow> n \<notin> set (map word_of_nat [1..<21])" for n
    using u8_1_to_20 [of n] by (auto simp: word_neq_0_conv)
  show ?thesis
    by (cases code)
      (simp_all add: key_bytes_def silent_key_def f upt_rec
        split: enter_encoding.splits backspace_encoding.splits)
qed

lemma key_bytes_alt: "key_bytes cfg app (mods \<lparr>km_alt := a\<rparr>) code = key_bytes cfg app mods code"
  by (cases code) (simp_all add: key_bytes_def encode_char_key_def)

lemma encode_key_silent_iff:
  "encode_key cfg key modes = Inr [] \<longleftrightarrow> ki_kind key = Release \<or> silent_key (ki_code key)"
  by (simp add: encode_key_def Let_def key_bytes_Nil_iff)

lemma encode_key_alt:
  "encode_key cfg (key \<lparr>ki_modifiers := (ki_modifiers key) \<lparr>km_alt := True\<rparr>\<rparr>) modes =
   (case encode_key cfg (key \<lparr>ki_modifiers := (ki_modifiers key) \<lparr>km_alt := False\<rparr>\<rparr>) modes of
      Inl e \<Rightarrow> Inl e
    | Inr bs \<Rightarrow> Inr (if ic_alt_sends_escape cfg \<and> bs \<noteq> [] then 0x1b # bs else bs))"
  by (simp add: encode_key_def Let_def key_bytes_alt)


section \<open>Properties\<close>

text \<open>C34: SGR mouse reports lose nothing the protocol carries. Two mouse events
  inside the 65535 addressable rows and columns that the encoder turns into the
  same bytes have the same kind and button, the same position, and the same
  Shift, Alt and Control state; and the bytes decode, by the reading side of the
  protocol, to the 1-based position.\<close>

theorem mouse_report_injective:
  assumes "tm_mouse modes = MM_Sgr" "tm_mouse modes' = MM_Sgr"
    and "mi_column m \<noteq> 0xFFFF" "mi_row m \<noteq> 0xFFFF"
    and "mi_column m' \<noteq> 0xFFFF" "mi_row m' \<noteq> 0xFFFF"
    and "encode_mouse m modes = Inr (Some bs)" "encode_mouse m' modes' = Inr (Some bs)"
  shows "mi_kind m = mi_kind m' \<and> mi_column m = mi_column m' \<and> mi_row m = mi_row m'
    \<and> visible_modifiers (mi_modifiers m) = visible_modifiers (mi_modifiers m')
    \<and> (\<exists>b rel. sgr_decode bs = Some (b, unat (mi_column m) + 1, unat (mi_row m) + 1, rel))"
proof -
  obtain cb rel where c: "mouse_code m = Some (cb, rel)"
    using assms(1,7) by (cases "mouse_code m") (auto simp: encode_mouse_def)
  obtain cb' rel' where c': "mouse_code m' = Some (cb', rel')"
    using assms(2,8) by (cases "mouse_code m'") (auto simp: encode_mouse_def)
  have d: "sgr_decode bs = Some (unat cb, unat (mi_column m) + 1, unat (mi_row m) + 1, rel)"
    by (rule sgr_decode_encode [OF assms(1) c assms(3,4,7)])
  have d': "sgr_decode bs = Some (unat cb', unat (mi_column m') + 1, unat (mi_row m') + 1, rel')"
    by (rule sgr_decode_encode [OF assms(2) c' assms(5,6,8)])
  from d d' have e: "cb = cb'" "rel = rel'" "mi_column m = mi_column m'" "mi_row m = mi_row m'"
    by (auto simp: word_unat_eq_iff)
  show ?thesis using mouse_code_inj [of m "(cb, rel)" m'] c c' e d by auto
qed

lemma mouse_report_injective_witness:
  "let m = \<lparr>mi_kind = M_Drag MB_Right, mi_column = 9, mi_row = 299, mi_modifiers = no_modifiers\<rparr>;
       md = terminal_modes_default \<lparr>tm_mouse := MM_Sgr\<rparr>;
       bs = [0x1b, 0x5b, 0x3c, 0x33, 0x34, 0x3b, 0x31, 0x30, 0x3b, 0x33, 0x30, 0x30, 0x4d]
   in encode_mouse m md = Inr (Some bs) \<and>
      (\<exists>b rel. sgr_decode bs = Some (b, unat (mi_column m) + 1, unat (mi_row m) + 1, rel))"
proof -
  define m where "m = \<lparr>mi_kind = M_Drag MB_Right, mi_column = 9, mi_row = 299, mi_modifiers = no_modifiers\<rparr>"
  define md where "md = terminal_modes_default \<lparr>tm_mouse := MM_Sgr\<rparr>"
  define bs :: "u8 list" where
    "bs = [0x1b, 0x5b, 0x3c, 0x33, 0x34, 0x3b, 0x31, 0x30, 0x3b, 0x33, 0x30, 0x30, 0x4d]"
  have e: "encode_mouse m md = Inr (Some bs)" unfolding m_def md_def bs_def by code_simp
  have "tm_mouse md = MM_Sgr" "mi_column m \<noteq> 0xFFFF" "mi_row m \<noteq> 0xFFFF"
    by (simp_all add: m_def md_def)
  then show ?thesis
    using mouse_report_injective [of md md m m bs] e unfolding m_def md_def bs_def by (simp add: Let_def)
qed

text \<open>C35: the two successive replacements of the paste newline policies are one pass
  over the text that turns each CRLF, lone CR and lone LF into one line end of the
  chosen kind, so the other kind never reaches the child, and a text that already
  has only the chosen line ends is passed through unchanged.\<close>

theorem paste_newlines_one_pass:
  "paste_process NormalizeToLf t = norm_lf t \<and> paste_process NormalizeToCr t = norm_cr t
   \<and> 0x0d \<notin> set (paste_process NormalizeToLf t) \<and> 0x0a \<notin> set (paste_process NormalizeToCr t)
   \<and> paste_process NormalizeToLf (paste_process NormalizeToLf t) = paste_process NormalizeToLf t
   \<and> paste_process NormalizeToCr (paste_process NormalizeToCr t) = paste_process NormalizeToCr t"
  by (simp add: paste_process_def paste_lf_one_pass paste_cr_one_pass norm_lf_no_cr norm_cr_no_lf
      norm_lf_id norm_cr_id)

text \<open>C33: the key encoder never fails; it is silent exactly for releases and for the
  keys without an xterm sequence; and holding Alt changes its output only by one
  ESC in front, when the configuration asks for it and there is output.\<close>

theorem encode_key_laws:
  "(encode_key cfg key modes = Inr [] \<longleftrightarrow> ki_kind key = Release \<or> silent_key (ki_code key))
   \<and> (\<exists>bs. encode_key cfg (key \<lparr>ki_modifiers := (ki_modifiers key) \<lparr>km_alt := False\<rparr>\<rparr>) modes = Inr bs
        \<and> encode_key cfg (key \<lparr>ki_modifiers := (ki_modifiers key) \<lparr>km_alt := True\<rparr>\<rparr>) modes
            = Inr (if ic_alt_sends_escape cfg \<and> bs \<noteq> [] then 0x1b # bs else bs))"
  using encode_key_total [of cfg "key \<lparr>ki_modifiers := (ki_modifiers key) \<lparr>km_alt := False\<rparr>\<rparr>" modes]
  by (auto simp: encode_key_silent_iff encode_key_alt)

text \<open>C40: the coordinates wrap. A mouse event in the last column, 65535, is reported
  with column 0, which is not a coordinate of the 1-based protocol.\<close>

theorem mouse_column_overflow:
  assumes "tm_mouse modes = MM_Sgr" "mouse_code m = Some (cb, rel)"
    and "mi_column m = 0xFFFF" "mi_row m \<noteq> 0xFFFF"
  shows "\<exists>bs. encode_mouse m modes = Inr (Some bs)
           \<and> sgr_decode bs = Some (unat cb, 0, unat (mi_row m) + 1, rel)"
proof -
  have b: "unat cb \<le> 65535" using unat_u8_le [of cb] by linarith
  have y: "unat (mi_row m) + 1 \<le> 65535"
    using unat_succ_u16 [OF assms(4)] unat_u16_le [of "mi_row m + 1"] by linarith
  have "mi_column m + 1 = 0" using assms(3) by simp
  then show ?thesis
    using encode_mouse_bytes [OF assms(1,2)] sgr_decode_report [OF b _ y, of 0 rel]
    by (simp add: unat_succ_u16 assms(4))
qed

lemma mouse_column_overflow_witness:
  "let m = \<lparr>mi_kind = M_Moved, mi_column = 0xFFFF, mi_row = 0, mi_modifiers = no_modifiers\<rparr>
   in \<exists>bs. encode_mouse m (terminal_modes_default \<lparr>tm_mouse := MM_Sgr\<rparr>) = Inr (Some bs)
        \<and> sgr_decode bs = Some (35, 0, 1, False)"
  using mouse_column_overflow [of "terminal_modes_default \<lparr>tm_mouse := MM_Sgr\<rparr>"
      "\<lparr>mi_kind = M_Moved, mi_column = 0xFFFF, mi_row = 0, mi_modifiers = no_modifiers\<rparr>" 35 False]
  by (simp add: mouse_code_def sgr_modifier_bits_def no_modifiers_def)

end
