(* ===== verification/Mode_Overlay.thy ===== *)
theory Mode_Overlay
  imports Core_Types
begin

text \<open>
  The terminal mode overlay (\<open>mode_overlay.rs\<close>): a scanner for DEC private mode
  sequences and full resets in child output, with a tail of at most 64 bytes kept
  for sequences split over two reads. The index loop of the source runs over the
  remaining suffix of the data. A mode code is a number below 65536.

  The lemmas describe the scanner as the list of actions found at the positions
  of the data, show that actions assign independent slots, and conclude that
  scanning the tail again is harmless, so that the reads' boundaries do not matter.
\<close>

record mouse_mode_flags =
  mf_x10 :: bool
  mf_normal :: bool
  mf_button_event :: bool
  mf_any_event :: bool
  mf_sgr :: bool

definition mouse_mode_flags_default :: mouse_mode_flags where
  "mouse_mode_flags_default =
     \<lparr>mf_x10 = False, mf_normal = False, mf_button_event = False, mf_any_event = False,
      mf_sgr = False\<rparr>"

record mode_overlay =
  mo_modes :: terminal_modes
  mo_mouse_modes :: mouse_mode_flags
  mo_tail :: "u8 list"

definition mode_overlay_default :: mode_overlay where
  "mode_overlay_default =
     \<lparr>mo_modes = terminal_modes_default, mo_mouse_modes = mouse_mode_flags_default, mo_tail = []\<rparr>"

type_synonym mode_state = "terminal_modes \<times> mouse_mode_flags"

definition apply_private_mode ::
    "nat \<Rightarrow> bool \<Rightarrow> mouse_mode_flags \<Rightarrow> bool \<times> mouse_mode_flags" where
  "apply_private_mode code enabled f =
     (if code = 9 then (True, f \<lparr>mf_x10 := enabled\<rparr>)
      else if code = 1000 then (True, f \<lparr>mf_normal := enabled\<rparr>)
      else if code = 1002 then (True, f \<lparr>mf_button_event := enabled\<rparr>)
      else if code = 1003 then (True, f \<lparr>mf_any_event := enabled\<rparr>)
      else if code = 1006 then (True, f \<lparr>mf_sgr := enabled\<rparr>)
      else (False, f))"

definition active_mode :: "mouse_mode_flags \<Rightarrow> mouse_mode" where
  "active_mode f =
     (if mf_sgr f then MM_Sgr
      else if mf_any_event f then MM_AnyEvent
      else if mf_button_event f then MM_ButtonEvent
      else if mf_normal f then MM_Normal
      else if mf_x10 f then MM_X10
      else MM_None)"

definition apply_terminal_mode :: "nat \<Rightarrow> bool \<Rightarrow> mode_state \<Rightarrow> mode_state" where
  "apply_terminal_mode code enabled st =
     (let (modes, flags) = st;
          (handled, flags') = apply_private_mode code enabled flags
      in if handled then (modes \<lparr>tm_mouse := active_mode flags'\<rparr>, flags')
         else if code = 1 then (modes \<lparr>tm_application_cursor := enabled\<rparr>, flags')
         else if code = 1004 then (modes \<lparr>tm_focus_events := enabled\<rparr>, flags')
         else if code = 47 \<or> code = 1047 \<or> code = 1049
           then (modes \<lparr>tm_alternate_screen := enabled\<rparr>, flags')
         else if code = 2004 then (modes \<lparr>tm_bracketed_paste := enabled\<rparr>, flags')
         else (modes, flags'))"

text \<open>The loop of \<open>parse_private_mode\<close> with its checked 16-bit arithmetic.\<close>

fun parse_private_mode_from :: "nat \<Rightarrow> u8 list \<Rightarrow> nat option" where
  "parse_private_mode_from v [] = Some v"
| "parse_private_mode_from v (d # ds) =
     (if 65535 < v * 10 then None
      else if d < 0x30 then None
      else if 65535 < v * 10 + unat (d - 0x30) then None
      else parse_private_mode_from (v * 10 + unat (d - 0x30)) ds)"

definition parse_private_mode :: "u8 list \<Rightarrow> nat option" where
  "parse_private_mode part = parse_private_mode_from 0 part"

definition is_param_byte :: "u8 \<Rightarrow> bool" where
  "is_param_byte b = (is_digit b \<or> b = 0x3b)"

definition bad_params :: "u8 list \<Rightarrow> bool" where
  "bad_params params =
     (params = [] \<or> starts_with params [0x3b] \<or> last params = 0x3b
      \<or> list_ex (\<lambda>part. part = []) (split_on 0x3b params))"

definition apply_mode_params :: "u8 list \<Rightarrow> bool \<Rightarrow> mode_state \<Rightarrow> mode_state" where
  "apply_mode_params params enabled st =
     fold (\<lambda>part st. case parse_private_mode part of
                        Some code \<Rightarrow> apply_terminal_mode code enabled st
                      | None \<Rightarrow> st)
       (split_on 0x3b params) st"

function apply_terminal_mode_sequences :: "u8 list \<Rightarrow> mode_state \<Rightarrow> mode_state" where
  "apply_terminal_mode_sequences bytes st =
     (case position (\<lambda>b. b = 0x1b) bytes of
        None \<Rightarrow> st
      | Some esc \<Rightarrow>
          let rest = drop esc bytes in
          if starts_with rest [0x1b, 0x63] then
            apply_terminal_mode_sequences (drop 2 rest)
              (terminal_modes_default, mouse_mode_flags_default)
          else if \<not> starts_with rest [0x1b, 0x5b, 0x3f] then
            apply_terminal_mode_sequences (drop 1 rest) st
          else
            let params = takeWhile is_param_byte (drop 3 rest) in
            case dropWhile is_param_byte (drop 3 rest) of
              [] \<Rightarrow> st
            | action # after \<Rightarrow>
                if action \<noteq> 0x68 \<and> action \<noteq> 0x6c then
                  apply_terminal_mode_sequences (drop 1 rest) st
                else if bad_params params then
                  apply_terminal_mode_sequences (drop 1 rest) st
                else
                  apply_terminal_mode_sequences after
                    (apply_mode_params params (action = 0x68) st))"
  by pat_completeness auto
termination
  by (relation "measure (\<lambda>(bytes, st). length bytes)")
    (auto dest!: position_SomeD dest: dropWhile_drop_shorter)

declare apply_terminal_mode_sequences.simps [simp del]

definition update_from_output :: "mode_overlay \<Rightarrow> u8 list \<Rightarrow> bool \<times> mode_overlay" where
  "update_from_output o1 bytes =
     (let before = mo_modes o1;
          data = mo_tail o1 @ bytes;
          (modes, flags) = apply_terminal_mode_sequences data (mo_modes o1, mo_mouse_modes o1);
          keep = min (length data) 64
      in (modes \<noteq> before,
          \<lparr>mo_modes = modes, mo_mouse_modes = flags, mo_tail = drop (length data - keep) data\<rparr>))"

definition merge_with :: "mode_overlay \<Rightarrow> terminal_modes \<Rightarrow> terminal_modes" where
  "merge_with o1 surface_modes =
     \<lparr>tm_bracketed_paste = tm_bracketed_paste surface_modes \<or> tm_bracketed_paste (mo_modes o1),
      tm_focus_events = tm_focus_events surface_modes \<or> tm_focus_events (mo_modes o1),
      tm_application_cursor =
        tm_application_cursor surface_modes \<or> tm_application_cursor (mo_modes o1),
      tm_alternate_screen = tm_alternate_screen surface_modes \<or> tm_alternate_screen (mo_modes o1),
      tm_mouse =
        (if tm_mouse (mo_modes o1) \<noteq> MM_None then tm_mouse (mo_modes o1)
         else tm_mouse surface_modes)\<rparr>"


section \<open>The sequences as actions\<close>

datatype mode_action = MA_Reset | MA_Set "u8 list" bool

fun action_bytes :: "mode_action \<Rightarrow> u8 list" where
  "action_bytes MA_Reset = [0x1b, 0x63]"
| "action_bytes (MA_Set p en) = [0x1b, 0x5b, 0x3f] @ p @ [if en then 0x68 else 0x6c]"

fun action_ok :: "mode_action \<Rightarrow> bool" where
  "action_ok MA_Reset = True"
| "action_ok (MA_Set p en) = (list_all is_param_byte p \<and> \<not> bad_params p)"

fun do_action :: "mode_action \<Rightarrow> mode_state \<Rightarrow> mode_state" where
  "do_action MA_Reset st = (terminal_modes_default, mouse_mode_flags_default)"
| "do_action (MA_Set p en) st = apply_mode_params p en st"

text \<open>The action that starts at the head of the data, if one does.\<close>

definition mode_match :: "u8 list \<Rightarrow> mode_action option" where
  "mode_match s =
     (if starts_with s [0x1b, 0x63] then Some MA_Reset
      else if \<not> starts_with s [0x1b, 0x5b, 0x3f] then None
      else let p = takeWhile is_param_byte (drop 3 s)
           in case dropWhile is_param_byte (drop 3 s) of
                [] \<Rightarrow> None
              | b # _ \<Rightarrow> if (b = 0x68 \<or> b = 0x6c) \<and> \<not> bad_params p then Some (MA_Set p (b = 0x68))
                         else None)"

fun mode_actions :: "u8 list \<Rightarrow> mode_action list" where
  "mode_actions [] = []"
| "mode_actions (b # bs) =
     (case mode_match (b # bs) of None \<Rightarrow> mode_actions bs | Some a \<Rightarrow> a # mode_actions bs)"

lemma not_param_byte [simp]:
  "\<not> is_param_byte 0x68" "\<not> is_param_byte 0x6c" "\<not> is_param_byte 0x1b"
  by (simp_all add: is_param_byte_def is_digit_def)

lemma mode_match_iff: "mode_match s = Some a \<longleftrightarrow> action_ok a \<and> starts_with s (action_bytes a)"
proof
  assume m: "mode_match s = Some a"
  show "action_ok a \<and> starts_with s (action_bytes a)"
  proof (cases "starts_with s [0x1b, 0x63]")
    case True
    then show ?thesis using m by (auto simp: mode_match_def)
  next
    case False
    then obtain r where s: "s = 0x1b # 0x5b # 0x3f # r"
      using m by (auto simp: mode_match_def starts_with_iff split: if_splits)
    then obtain b q where d: "dropWhile is_param_byte r = b # q"
      using m False by (cases "dropWhile is_param_byte r") (auto simp: mode_match_def)
    have a: "a = MA_Set (takeWhile is_param_byte r) (b = 0x68)" "b = 0x68 \<or> b = 0x6c"
      "\<not> bad_params (takeWhile is_param_byte r)"
      using m False s d by (auto simp: mode_match_def Let_def split: if_splits)
    have "r = takeWhile is_param_byte r @ b # q"
      using takeWhile_dropWhile_id [of is_param_byte r] d by simp
    then have "starts_with s (action_bytes a)"
      unfolding starts_with_iff s using a by (intro exI [of _ q]) auto
    then show ?thesis using a by (auto simp: list_all_iff dest: set_takeWhileD)
  qed
next
  assume a: "action_ok a \<and> starts_with s (action_bytes a)"
  then obtain z where s: "s = action_bytes a @ z" by (auto simp: starts_with_iff)
  show "mode_match s = Some a"
  proof (cases a)
    case MA_Reset
    then show ?thesis using s by (simp add: mode_match_def)
  next
    case (MA_Set p en)
    have p: "\<forall>x\<in>set p. is_param_byte x" using a MA_Set by (simp add: list_all_iff)
    show ?thesis using s MA_Set a p
      by (simp add: mode_match_def takeWhile_append2 dropWhile_append2)
  qed
qed

lemma mode_match_head: "mode_match (b # bs) = Some a \<Longrightarrow> b = 0x1b"
  by (cases a) (auto simp: mode_match_iff)

lemma mode_match_no_head [simp]: "b \<noteq> 0x1b \<Longrightarrow> mode_match (b # bs) = None"
  using mode_match_head by (cases "mode_match (b # bs)") auto

lemma no_esc_in_param: "list_all is_param_byte p \<Longrightarrow> 0x1b \<notin> set p"
  by (auto simp: list_all_iff)

lemma action_bytes_tail: "action_ok a \<Longrightarrow> 0x1b \<notin> set (tl (action_bytes a))"
  by (cases a) (auto dest: no_esc_in_param)

lemma mode_actions_skip: "0x1b \<notin> set xs \<Longrightarrow> mode_actions (xs @ ys) = mode_actions ys"
  by (induction xs) auto

lemma mode_actions_none: "0x1b \<notin> set xs \<Longrightarrow> mode_actions xs = []"
  using mode_actions_skip [of xs "[]"] by simp

lemma mode_actions_hit:
  assumes "action_ok a"
  shows "mode_actions (action_bytes a @ ys) = a # mode_actions ys"
proof -
  obtain t where t: "action_bytes a = 0x1b # t" by (cases a) auto
  have "mode_match (action_bytes a @ ys) = Some a" using assms by (simp add: mode_match_iff)
  moreover have "mode_actions (t @ ys) = mode_actions ys"
    by (rule mode_actions_skip) (use action_bytes_tail [OF assms] t in simp)
  ultimately show ?thesis using t by simp
qed

text \<open>The scanner of the source finds the same actions in the same order: nothing it
  steps over can start a sequence.\<close>

lemma scan_is_actions:
  "apply_terminal_mode_sequences bytes st = fold do_action (mode_actions bytes) st"
proof (induction bytes st rule: apply_terminal_mode_sequences.induct)
  case (1 bytes st)
  show ?case
  proof (cases "position (\<lambda>b. b = 0x1b) bytes")
    case None
    then have "0x1b \<notin> set bytes" by (auto simp: position_None_iff)
    then show ?thesis using None
      by (simp add: apply_terminal_mode_sequences.simps [of bytes] mode_actions_none)
  next
    case (Some esc)
    define rest where "rest = drop esc bytes"
    obtain r where r: "rest = 0x1b # r"
      using position_SomeD [OF Some] by (metis rest_def Cons_nth_drop_Suc)
    have "0x1b \<notin> set (take esc bytes)" using position_SomeD [OF Some] by auto
    then have skip: "mode_actions bytes = mode_actions rest"
      using mode_actions_skip [of "take esc bytes" rest] by (simp add: rest_def)
    note eq = apply_terminal_mode_sequences.simps [of bytes st] skip
    show ?thesis
    proof (cases "mode_match rest")
      case (Some a)
      then obtain z where z: "action_ok a" "rest = action_bytes a @ z"
        by (auto simp: mode_match_iff starts_with_iff)
      have acts: "mode_actions rest = a # mode_actions z" using z by (simp add: mode_actions_hit)
      show ?thesis
      proof (cases a)
        case MA_Reset
        then show ?thesis
          using 1(1) [OF \<open>position _ _ = Some esc\<close> rest_def] z acts eq
            \<open>position _ _ = Some esc\<close> r by (simp add: rest_def [symmetric])
      next
        case (MA_Set p en)
        have p: "\<forall>x\<in>set p. is_param_byte x" using z MA_Set by (simp add: list_all_iff)
        have tw: "takeWhile is_param_byte (drop 3 rest) = p"
          "dropWhile is_param_byte (drop 3 rest) = (if en then 0x68 else 0x6c) # z"
          using z MA_Set p by (simp_all add: takeWhile_append2 dropWhile_append2)
        show ?thesis
          using 1(5) [OF \<open>position _ _ = Some esc\<close> rest_def _ _ tw(1) [symmetric] tw(2)]
            z acts eq \<open>position _ _ = Some esc\<close> tw MA_Set
          by (simp add: rest_def [symmetric] split: if_splits)
      qed
    next
      case None
      have acts: "mode_actions rest = mode_actions r" using None r by simp
      show ?thesis
      proof (cases "starts_with rest [0x1b, 0x5b, 0x3f]")
        case False
        then show ?thesis
          using 1(2) [OF \<open>position _ _ = Some esc\<close> rest_def] None acts eq
            \<open>position _ _ = Some esc\<close> r
          by (simp add: rest_def [symmetric] mode_match_def split: if_splits)
      next
        case True
        then obtain q where q: "rest = 0x1b # 0x5b # 0x3f # q" by (auto simp: starts_with_iff)
        show ?thesis
        proof (cases "dropWhile is_param_byte q")
          case Nil
          then have "list_all is_param_byte q" by (simp add: dropWhile_eq_Nil_conv list_all_iff)
          then have "mode_actions rest = []"
            using q acts r mode_actions_none [of r] no_esc_in_param [of q] by auto
          then show ?thesis using Nil q eq \<open>position _ _ = Some esc\<close>
            by (simp add: rest_def [symmetric] Let_def del: dropWhile_eq_Nil_conv mode_actions.simps)
        next
          case (Cons b after)
          have "(b \<noteq> 0x68 \<and> b \<noteq> 0x6c) \<or> bad_params (takeWhile is_param_byte q)"
            using None q Cons by (auto simp: mode_match_def split: if_splits)
          moreover have "apply_terminal_mode_sequences r st = fold do_action (mode_actions r) st"
            if "b \<noteq> 0x68 \<and> b \<noteq> 0x6c"
            using 1(3) [OF \<open>position _ _ = Some esc\<close> rest_def _ _ refl] that q Cons r by simp
          moreover have "apply_terminal_mode_sequences r st = fold do_action (mode_actions r) st"
            if "\<not> (b \<noteq> 0x68 \<and> b \<noteq> 0x6c)" "bad_params (takeWhile is_param_byte q)"
            using 1(4) [OF \<open>position _ _ = Some esc\<close> rest_def _ _ refl] that q Cons r by simp
          ultimately show ?thesis using Cons q eq acts r \<open>position _ _ = Some esc\<close>
            by (auto simp: rest_def [symmetric] Let_def)
        qed
      qed
    qed
  qed
qed


section \<open>Actions assign independent slots\<close>

datatype mode_slot =
  Slot_Paste | Slot_Focus | Slot_Cursor | Slot_Alternate | Slot_X10 | Slot_Normal | Slot_Button
  | Slot_Any | Slot_Sgr

definition slot_view :: "mode_state \<Rightarrow> mode_slot \<Rightarrow> bool" where
  "slot_view st s =
     (case s of
        Slot_Paste \<Rightarrow> tm_bracketed_paste (fst st)
      | Slot_Focus \<Rightarrow> tm_focus_events (fst st)
      | Slot_Cursor \<Rightarrow> tm_application_cursor (fst st)
      | Slot_Alternate \<Rightarrow> tm_alternate_screen (fst st)
      | Slot_X10 \<Rightarrow> mf_x10 (snd st)
      | Slot_Normal \<Rightarrow> mf_normal (snd st)
      | Slot_Button \<Rightarrow> mf_button_event (snd st)
      | Slot_Any \<Rightarrow> mf_any_event (snd st)
      | Slot_Sgr \<Rightarrow> mf_sgr (snd st))"

text \<open>The mouse protocol is always the one the flags select.\<close>

definition mode_state_ok :: "mode_state \<Rightarrow> bool" where
  "mode_state_ok st = (tm_mouse (fst st) = active_mode (snd st))"

definition slot_of_code :: "nat \<Rightarrow> mode_slot option" where
  "slot_of_code code =
     (if code = 9 then Some Slot_X10 else if code = 1000 then Some Slot_Normal
      else if code = 1002 then Some Slot_Button else if code = 1003 then Some Slot_Any
      else if code = 1006 then Some Slot_Sgr else if code = 1 then Some Slot_Cursor
      else if code = 1004 then Some Slot_Focus
      else if code = 47 \<or> code = 1047 \<or> code = 1049 then Some Slot_Alternate
      else if code = 2004 then Some Slot_Paste else None)"

definition assigns :: "(mode_state \<Rightarrow> mode_state) \<Rightarrow> bool" where
  "assigns f = (\<exists>e. \<forall>st. mode_state_ok st \<longrightarrow> mode_state_ok (f st)
     \<and> (\<forall>s. slot_view (f st) s = (case e s of Some v \<Rightarrow> v | None \<Rightarrow> slot_view st s)))"

lemma slot_view_inj:
  assumes "mode_state_ok st" "mode_state_ok st'" "\<And>s. slot_view st s = slot_view st' s"
  shows "st = st'"
proof -
  have "snd st = snd st'"
    using assms(3) [of Slot_X10] assms(3) [of Slot_Normal] assms(3) [of Slot_Button]
      assms(3) [of Slot_Any] assms(3) [of Slot_Sgr] by (simp add: slot_view_def)
  moreover from this have "fst st = fst st'"
    using assms(1,2) assms(3) [of Slot_Paste] assms(3) [of Slot_Focus] assms(3) [of Slot_Cursor]
      assms(3) [of Slot_Alternate] by (simp add: slot_view_def mode_state_ok_def)
  ultimately show ?thesis by (simp add: prod_eq_iff)
qed

lemma assigns_idem: "assigns f \<Longrightarrow> mode_state_ok st \<Longrightarrow> f (f st) = f st"
proof -
  assume f: "assigns f" and st: "mode_state_ok st"
  from f obtain e where e: "\<And>st. mode_state_ok st \<Longrightarrow> mode_state_ok (f st)
      \<and> (\<forall>s. slot_view (f st) s = (case e s of Some v \<Rightarrow> v | None \<Rightarrow> slot_view st s))"
    unfolding assigns_def by blast
  show ?thesis
    by (rule slot_view_inj) (use e st in \<open>auto split: option.splits\<close>)
qed

lemma assigns_ok: "assigns f \<Longrightarrow> mode_state_ok st \<Longrightarrow> mode_state_ok (f st)"
  unfolding assigns_def by blast

lemma assigns_id: "assigns (\<lambda>st. st)"
  unfolding assigns_def by (rule exI [of _ "\<lambda>_. None"]) simp

lemma assigns_comp: "assigns f \<Longrightarrow> assigns g \<Longrightarrow> assigns (\<lambda>st. g (f st))"
proof -
  assume "assigns f" "assigns g"
  then obtain e e' where
    "\<forall>st. mode_state_ok st \<longrightarrow> mode_state_ok (f st)
       \<and> (\<forall>s. slot_view (f st) s = (case e s of Some v \<Rightarrow> v | None \<Rightarrow> slot_view st s))"
    "\<forall>st. mode_state_ok st \<longrightarrow> mode_state_ok (g st)
       \<and> (\<forall>s. slot_view (g st) s = (case e' s of Some v \<Rightarrow> v | None \<Rightarrow> slot_view st s))"
    unfolding assigns_def by blast
  then show ?thesis unfolding assigns_def
    by (intro exI [of _ "\<lambda>s. case e' s of Some v \<Rightarrow> Some v | None \<Rightarrow> e s"])
      (auto split: option.splits simp del: split_paired_All split_paired_Ex)
qed

lemma assigns_code: "assigns (apply_terminal_mode code en)"
  unfolding assigns_def
proof (intro exI [of _ "\<lambda>s. if slot_of_code code = Some s then Some en else None"] allI impI conjI)
  fix st :: mode_state
  assume "mode_state_ok st"
  then show "mode_state_ok (apply_terminal_mode code en st)"
    by (cases st) (simp add: mode_state_ok_def apply_terminal_mode_def apply_private_mode_def Let_def)
next
  fix st :: mode_state and s
  show "slot_view (apply_terminal_mode code en st) s =
      (case (if slot_of_code code = Some s then Some en else None) of
         Some v \<Rightarrow> v | None \<Rightarrow> slot_view st s)"
    by (cases st; cases s)
      (auto simp: slot_view_def slot_of_code_def apply_terminal_mode_def apply_private_mode_def Let_def)
qed

lemma assigns_fold: "(\<And>x. x \<in> set xs \<Longrightarrow> assigns (f x)) \<Longrightarrow> assigns (fold f xs)"
proof (induction xs)
  case Nil
  then show ?case using assigns_id by (simp add: id_def)
next
  case (Cons x xs)
  then show ?case using assigns_comp [of "f x" "fold f xs"] by (simp add: comp_def)
qed

lemma default_state_ok: "mode_state_ok (terminal_modes_default, mouse_mode_flags_default)"
  by (simp add: mode_state_ok_def terminal_modes_default_def mouse_mode_flags_default_def active_mode_def)

lemma assigns_action: "assigns (do_action a)"
proof (cases a)
  case MA_Reset
  have "slot_view (terminal_modes_default, mouse_mode_flags_default) s = False" for s
    by (cases s) (simp_all add: slot_view_def terminal_modes_default_def mouse_mode_flags_default_def)
  then show ?thesis unfolding MA_Reset assigns_def
    by (intro exI [of _ "\<lambda>_. Some False"]) (simp add: default_state_ok)
next
  case (MA_Set p en)
  have "assigns (\<lambda>st. case parse_private_mode part of
      Some code \<Rightarrow> apply_terminal_mode code en st | None \<Rightarrow> st)" for part
    by (cases "parse_private_mode part") (simp_all add: assigns_id assigns_code)
  then have "assigns (apply_mode_params p en)"
    unfolding apply_mode_params_def by (intro assigns_fold)
  moreover have "do_action (MA_Set p en) = apply_mode_params p en" by (rule ext) simp
  ultimately show ?thesis by (simp add: MA_Set)
qed

lemma actions_idem:
  "mode_state_ok st \<Longrightarrow> fold do_action as (fold do_action as st) = fold do_action as st"
  by (rule assigns_idem) (auto intro: assigns_fold assigns_action)

lemma actions_ok: "mode_state_ok st \<Longrightarrow> mode_state_ok (fold do_action as st)"
  by (rule assigns_ok) (auto intro: assigns_fold assigns_action)


section \<open>Reads may be split anywhere\<close>

definition action_len :: "mode_action \<Rightarrow> nat" where
  "action_len a = length (action_bytes a)"

definition short_sequences :: "u8 list \<Rightarrow> bool" where
  "short_sequences bs = list_all (\<lambda>a. action_len a \<le> 64) (mode_actions bs)"

lemma mode_match_append: "mode_match s = Some a \<Longrightarrow> mode_match (s @ t) = Some a"
  by (auto simp: mode_match_iff starts_with_iff)

lemma mode_match_prefix:
  "mode_match (s @ t) = Some a \<Longrightarrow> action_len a \<le> length s \<Longrightarrow> mode_match s = Some a"
  by (auto simp: mode_match_iff starts_with_take action_len_def)

lemma mode_actions_extend: "\<exists>X. mode_actions (s @ t) = mode_actions s @ X"
proof (induction s)
  case (Cons b s)
  show ?case
  proof (cases "mode_match (b # s)")
    case (Some a)
    then show ?thesis using Cons mode_match_append [of "b # s" a t] by auto
  next
    case None
    show ?thesis
    proof (cases "mode_match (b # s @ t)")
      case (Some a)
      then have a: "action_ok a" "take (action_len a) (b # s @ t) = action_bytes a"
        by (simp_all add: mode_match_iff starts_with_take action_len_def)
      have "\<not> action_len a \<le> length (b # s)"
        using mode_match_prefix [of "b # s" t a] Some None by auto
      then have "take (length (b # s)) (action_bytes a) = b # s"
        using a(2) by (metis append_Cons append_eq_conv_conj linorder_not_le min.strict_order_iff
            take_take)
      then have "set s \<subseteq> set (tl (action_bytes a))"
        by (metis list.sel(3) set_take_subset tl_take)
      then have "mode_actions s = []"
        using action_bytes_tail [OF a(1)] by (intro mode_actions_none) auto
      then show ?thesis using None by simp
    qed (use None Cons in simp)
  qed
qed simp

lemma mode_actions_split:
  assumes "\<And>a. a \<in> set (mode_actions (P @ T @ B)) \<Longrightarrow> action_len a \<le> length T"
  shows "\<exists>A. mode_actions (P @ T @ B) = A @ mode_actions (T @ B)
           \<and> mode_actions (P @ T) = A @ mode_actions T"
  using assms
proof (induction P)
  case (Cons b P)
  have "\<exists>A. mode_actions (P @ T @ B) = A @ mode_actions (T @ B)
      \<and> mode_actions (P @ T) = A @ mode_actions T"
    by (rule Cons.IH) (use Cons.prems in \<open>auto split: option.splits\<close>)
  then obtain A where A: "mode_actions (P @ T @ B) = A @ mode_actions (T @ B)"
    "mode_actions (P @ T) = A @ mode_actions T" by blast
  show ?case
  proof (cases "mode_match (b # P @ T @ B)")
    case None
    then have "mode_match (b # P @ T) = None"
      using mode_match_append [of "b # P @ T" _ B] by (cases "mode_match (b # P @ T)") auto
    then show ?thesis using A None by auto
  next
    case (Some a)
    then have "action_len a \<le> length (b # P @ T)" using Cons.prems [of a] by simp
    then have "mode_match (b # P @ T) = Some a"
      using mode_match_prefix [of "b # P @ T" B a] Some by simp
    then show ?thesis using A Some by auto
  qed
qed simp

definition overlay_of_stream :: "u8 list \<Rightarrow> mode_overlay" where
  "overlay_of_stream bs =
     (let (modes, flags) =
            apply_terminal_mode_sequences bs (terminal_modes_default, mouse_mode_flags_default)
      in \<lparr>mo_modes = modes, mo_mouse_modes = flags, mo_tail = last_n 64 bs\<rparr>)"

lemma short_sequences_prefix: "short_sequences (s @ t) \<Longrightarrow> short_sequences s"
  using mode_actions_extend [of s t] by (auto simp: short_sequences_def)

lemma rescan_tail:
  assumes "short_sequences (s @ b)" "mode_state_ok st0"
  shows "fold do_action (mode_actions (last_n 64 s @ b)) (fold do_action (mode_actions s) st0)
       = fold do_action (mode_actions (s @ b)) st0"
proof -
  define T P where "T = last_n 64 s" and "P = take (length s - 64) s"
  have s: "s = P @ T" by (simp add: T_def P_def last_n_def)
  have "\<exists>A. mode_actions (P @ T @ b) = A @ mode_actions (T @ b)
      \<and> mode_actions (P @ T) = A @ mode_actions T"
  proof (cases "P = []")
    case False
    then have "length T = 64" by (simp add: T_def P_def)
    then show ?thesis
      using assms(1) s by (intro mode_actions_split) (auto simp: short_sequences_def list_all_iff)
  qed simp
  then obtain A where A: "mode_actions (s @ b) = A @ mode_actions (T @ b)"
    "mode_actions s = A @ mode_actions T" using s by auto
  obtain X where X: "mode_actions (T @ b) = mode_actions T @ X"
    using mode_actions_extend by blast
  have "mode_state_ok (fold do_action A st0)" using assms(2) by (rule actions_ok)
  then show ?thesis using A X actions_idem [of "fold do_action A st0" "mode_actions T"]
    by (simp add: T_def [symmetric])
qed

lemma last_n_append_last_n: "last_n n (last_n n s @ b) = last_n n (s @ b)"
  by (cases "length s \<le> n") (simp_all add: last_n_def add.commute)

lemma update_overlay_of_stream:
  assumes "short_sequences (s @ b)"
  shows "snd (update_from_output (overlay_of_stream s) b) = overlay_of_stream (s @ b)"
proof -
  have d: "drop (length d - min (length d) 64) d = last_n 64 d" for d :: "u8 list"
    by (simp add: last_n_def min_def)
  show ?thesis
    using rescan_tail [OF assms default_state_ok]
    by (simp add: overlay_of_stream_def update_from_output_def Let_def split_def scan_is_actions
        d last_n_append_last_n del: length_append)
qed

lemma overlay_of_Nil: "overlay_of_stream [] = mode_overlay_default"
  by (simp add: overlay_of_stream_def mode_overlay_default_def apply_terminal_mode_sequences.simps)


section \<open>Mode codes\<close>

lemma digit_word_val: "is_digit d \<Longrightarrow> unat (d - 0x30) = digit_val d"
  by (simp add: is_digit_def digit_val_def unat_sub word_le_nat_alt)

lemma parse_private_mode_digits:
  "list_all is_digit ds \<Longrightarrow> v \<le> 65535 \<Longrightarrow>
   parse_private_mode_from v ds = (if dec_val v ds \<le> 65535 then Some (dec_val v ds) else None)"
proof (induction ds arbitrary: v)
  case (Cons d ds)
  have ge: "v * 10 + digit_val d \<le> dec_val v (d # ds)"
    using dec_val_ge [of "v * 10 + digit_val d" ds] by (simp add: dec_val_Cons)
  have nl: "\<not> d < 0x30" using Cons.prems by (auto simp: is_digit_def)
  show ?case using Cons ge nl by (auto simp: digit_word_val dec_val_Cons)
qed simp


section \<open>Properties\<close>

text \<open>C18: where the child's output is cut into reads does not matter to the tracked
  modes. Feeding the overlay any sequence of reads gives the modes, mouse flags and
  tail of scanning the whole stream at once, as long as no complete mode sequence of
  the stream is longer than the 64-byte tail, although every tail is scanned again
  with the next read.\<close>

theorem overlay_chunking:
  assumes "short_sequences (concat chunks)"
  shows "fold (\<lambda>b o1. snd (update_from_output o1 b)) chunks mode_overlay_default
    = overlay_of_stream (concat chunks)"
  using assms
proof (induction chunks rule: rev_induct)
  case Nil
  then show ?case by (simp add: overlay_of_Nil)
next
  case (snoc b chunks)
  then have "short_sequences (concat chunks @ b)" by simp
  with snoc show ?case
    using update_overlay_of_stream [of "concat chunks" b]
      short_sequences_prefix [of "concat chunks" b] by simp
qed

lemma overlay_chunking_witness:
  "fold (\<lambda>b o1. snd (update_from_output o1 b))
     [asc ''x'' @ [0x1b, 0x5b], asc ''?10'', asc ''06;2004h''] mode_overlay_default
   = overlay_of_stream (asc ''x'' @ [0x1b, 0x5b] @ asc ''?1006;2004h'')
   \<and> tm_mouse (mo_modes (overlay_of_stream (asc ''x'' @ [0x1b, 0x5b] @ asc ''?1006;2004h''))) = MM_Sgr"
proof
  have "short_sequences (concat [asc ''x'' @ [0x1b, 0x5b], asc ''?10'', asc ''06;2004h''])"
    by code_simp
  from overlay_chunking [OF this]
  show "fold (\<lambda>b o1. snd (update_from_output o1 b))
     [asc ''x'' @ [0x1b, 0x5b], asc ''?10'', asc ''06;2004h''] mode_overlay_default
   = overlay_of_stream (asc ''x'' @ [0x1b, 0x5b] @ asc ''?1006;2004h'')"
    by simp
  have "mode_actions (asc ''x'' @ [0x1b, 0x5b] @ asc ''?1006;2004h'')
      = [MA_Set (asc ''1006;2004'') True]" by code_simp
  then show "tm_mouse (mo_modes (overlay_of_stream (asc ''x'' @ [0x1b, 0x5b] @ asc ''?1006;2004h''))) = MM_Sgr"
    unfolding overlay_of_stream_def scan_is_actions
    by (simp add: apply_mode_params_def parse_private_mode_def apply_terminal_mode_def
        apply_private_mode_def active_mode_def mouse_mode_flags_default_def
        terminal_modes_default_def del: mode_actions.simps)
qed

text \<open>The mode numbers of a sequence are read exactly: the decimal text of every
  16-bit code parses to that code, leading zeros or not, and a number that does not
  fit is skipped, never truncated.\<close>

theorem private_mode_exact:
  assumes "list_all is_digit ds"
  shows "parse_private_mode ds = (if dec_val 0 ds \<le> 65535 then Some (dec_val 0 ds) else None)
    \<and> (n \<le> 65535 \<longrightarrow> parse_private_mode (dec n) = Some n)"
  using assms by (simp add: parse_private_mode_def parse_private_mode_digits)

lemma private_mode_exact_witness:
  "parse_private_mode (asc ''65536'') = None \<and> parse_private_mode (dec 2004) = Some 2004"
proof -
  have "list_all is_digit (asc ''65536'')" by code_simp
  moreover have "dec_val 0 (asc ''65536'') = 65536" by (simp add: dec_val_def digit_val_def)
  ultimately show ?thesis using private_mode_exact [of "asc ''65536''" 2004] by simp
qed

end
