(* ===== verification/Detach_Encoding.thy ===== *)
theory Detach_Encoding
  imports Core_Types
begin

text \<open>
  Terminal-specific encodings of Ctrl-letter detach chords (\<open>detach_encoding.rs\<close>):
  CSI-u and xterm modifyOtherKeys sequences, normalised to the raw control byte.
  Key codes and modifier masks are naturals within the width they are parsed at.

  The lemmas bound what a match consumes and produces, show that every canonical
  encoding of the chord is recognised wherever it stands, and that input without
  escape sequences passes unchanged.
\<close>

record ctrl_match =
  cm_normalized :: u8
  cm_consumed :: nat

definition parse_uint_utf8 :: "nat \<Rightarrow> u8 list \<Rightarrow> nat option" where
  "parse_uint_utf8 mx bytes =
     (case from_utf8 bytes of
        U_Err _ _ \<Rightarrow> None
      | U_Ok _ \<Rightarrow> parse_uint mx bytes)"

definition parse_u32 :: "u8 list \<Rightarrow> nat option" where
  "parse_u32 bytes = parse_uint_utf8 (2 ^ 32 - 1) bytes"

definition parse_u16 :: "u8 list \<Rightarrow> nat option" where
  "parse_u16 bytes = parse_uint_utf8 (2 ^ 16 - 1) bytes"

definition main_param :: "u8 list \<Rightarrow> u8 list option" where
  "main_param field =
     (let main = hd (split_on 0x3a field) in if main \<noteq> [] then Some main else None)"

definition modifier_mask_has_control :: "nat \<Rightarrow> bool" where
  "modifier_mask_has_control mods = (1 \<le> mods \<and> ((mods - 1) AND 4) \<noteq> 0)"

definition ctrl_letter_detach_chord :: "u8 list \<Rightarrow> u8 option" where
  "ctrl_letter_detach_chord chord =
     (case chord of
        [b] \<Rightarrow> if 0x01 \<le> b \<and> b \<le> 0x1a then Some b else None
      | _ \<Rightarrow> None)"

definition key_code_matches_letter_or_raw_ctrl :: "nat \<Rightarrow> u8 \<Rightarrow> bool" where
  "key_code_matches_letter_or_raw_ctrl key_code raw =
     (let lower = 97 + unat raw - 1; upper = 65 + unat raw - 1
      in key_code = lower \<or> key_code = upper \<or> key_code = unat raw)"

definition csi_key_code_matches_detach_chord :: "nat \<Rightarrow> nat option \<Rightarrow> u8 \<Rightarrow> bool" where
  "csi_key_code_matches_detach_chord key_code mods raw =
     (if key_code = unat raw then True
      else (case mods of Some m \<Rightarrow> modifier_mask_has_control m | None \<Rightarrow> False)
        \<and> key_code_matches_letter_or_raw_ctrl key_code raw)"

definition parse_csi_u_detach_chord :: "u8 list \<Rightarrow> u8 \<Rightarrow> ctrl_match option" where
  "parse_csi_u_detach_chord bytes raw =
     (if \<not> starts_with bytes [0x1b, 0x5b] then None
      else do {
        e \<leftarrow> position (\<lambda>b. b = 0x75) bytes;
        let params = drop 2 (take e bytes);
        let fields = split_on 0x3b params;
        main \<leftarrow> main_param (hd fields);
        key_code \<leftarrow> parse_u32 main;
        let mods = (case tl fields of
                      [] \<Rightarrow> None
                    | f # _ \<Rightarrow> Option.bind (main_param f) parse_u16);
        if csi_key_code_matches_detach_chord key_code mods raw
        then Some \<lparr>cm_normalized = raw, cm_consumed = e + 1\<rparr>
        else None
      })"

text \<open>The next field of the iterator over the parameters, as \<open>fields.next()?\<close>.\<close>

definition next_field :: "'a list \<Rightarrow> ('a \<times> 'a list) option" where
  "next_field fs = (case fs of [] \<Rightarrow> None | f # rest \<Rightarrow> Some (f, rest))"

definition parse_xterm_modify_other_keys_detach_chord :: "u8 list \<Rightarrow> u8 \<Rightarrow> ctrl_match option" where
  "parse_xterm_modify_other_keys_detach_chord bytes raw =
     (if \<not> starts_with bytes [0x1b, 0x5b] then None
      else do {
        e \<leftarrow> position (\<lambda>b. b = 0x7e) bytes;
        let params = drop 2 (take e bytes);
        (f1, fs1) \<leftarrow> next_field (split_on 0x3b params);
        m1 \<leftarrow> main_param f1;
        introducer \<leftarrow> parse_u32 m1;
        if introducer \<noteq> 27 then None
        else do {
          (f2, fs2) \<leftarrow> next_field fs1;
          m2 \<leftarrow> main_param f2;
          mods \<leftarrow> parse_u16 m2;
          (f3, fs3) \<leftarrow> next_field fs2;
          m3 \<leftarrow> main_param f3;
          key_code \<leftarrow> parse_u32 m3;
          if fs3 \<noteq> [] \<or> \<not> modifier_mask_has_control mods then None
          else if key_code_matches_letter_or_raw_ctrl key_code raw
          then Some \<lparr>cm_normalized = raw, cm_consumed = e + 1\<rparr>
          else None
        }
      })"

definition parse_ctrl_detach_encoding :: "u8 list \<Rightarrow> u8 list \<Rightarrow> ctrl_match option" where
  "parse_ctrl_detach_encoding bytes chord =
     (case ctrl_letter_detach_chord chord of
        None \<Rightarrow> None
      | Some raw \<Rightarrow>
          (case parse_csi_u_detach_chord bytes raw of
             Some m \<Rightarrow> Some m
           | None \<Rightarrow> parse_xterm_modify_other_keys_detach_chord bytes raw))"

lemma parse_csi_u_SomeD:
  "parse_csi_u_detach_chord bytes raw = Some m \<Longrightarrow>
     cm_normalized m = raw \<and> 3 \<le> cm_consumed m \<and> cm_consumed m \<le> length bytes"
  unfolding parse_csi_u_detach_chord_def
  by (auto simp: starts_with_iff Let_def bind_eq_Some_conv dest!: position_SomeD split: if_splits)

lemma parse_xterm_SomeD:
  "parse_xterm_modify_other_keys_detach_chord bytes raw = Some m \<Longrightarrow>
     cm_normalized m = raw \<and> 3 \<le> cm_consumed m \<and> cm_consumed m \<le> length bytes"
  unfolding parse_xterm_modify_other_keys_detach_chord_def
  by (auto simp: starts_with_iff Let_def bind_eq_Some_conv dest!: position_SomeD split: if_splits)

lemma parse_ctrl_detach_SomeD:
  "parse_ctrl_detach_encoding bytes chord = Some m \<Longrightarrow>
     chord = [cm_normalized m] \<and> 3 \<le> cm_consumed m \<and> cm_consumed m \<le> length bytes"
  unfolding parse_ctrl_detach_encoding_def
  by (auto simp: ctrl_letter_detach_chord_def
      split: option.splits list.splits if_splits
      dest: parse_csi_u_SomeD parse_xterm_SomeD)

text \<open>The index loop of the source, over the bytes from the index on.\<close>

function normalize_attach_detach_input :: "u8 list \<Rightarrow> u8 list \<Rightarrow> u8 list" where
  "normalize_attach_detach_input [] chord = []"
| "normalize_attach_detach_input (b # bs) chord =
     (case parse_ctrl_detach_encoding (b # bs) chord of
        Some m \<Rightarrow>
          cm_normalized m # normalize_attach_detach_input (drop (cm_consumed m) (b # bs)) chord
      | None \<Rightarrow> b # normalize_attach_detach_input bs chord)"
  by pat_completeness auto
termination
  by (relation "measure (\<lambda>(bytes, chord). length bytes)") (auto dest: parse_ctrl_detach_SomeD)

definition hex_digit :: "nat \<Rightarrow> rchar" where
  "hex_digit n = (if n < 10 then 0x30 + n else 0x61 + (n - 10))"

definition hex_byte :: "u8 \<Rightarrow> rstr" where
  "hex_byte b = [hex_digit (unat b div 16), hex_digit (unat b mod 16)]"

fun hex_join :: "u8 list \<Rightarrow> rstr" where
  "hex_join [] = []"
| "hex_join [b] = hex_byte b"
| "hex_join (b # c # bs) = hex_byte b @ lit '' '' @ hex_join (c # bs)"

definition format_attach_bytes_for_trace :: "u8 list \<Rightarrow> rstr" where
  "format_attach_bytes_for_trace bytes =
     hex_join (take 64 bytes) @
     (if 64 < length bytes
      then lit '' ... +'' @ dec_str (length bytes - 64) @ lit '' bytes'' else [])"


section \<open>Canonical encodings\<close>

definition csi_u_key :: "nat \<Rightarrow> nat \<Rightarrow> u8 list" where
  "csi_u_key code mods = [0x1b, 0x5b] @ dec code @ [0x3b] @ dec mods @ [0x75]"

definition modify_other_key :: "nat \<Rightarrow> nat \<Rightarrow> u8 list" where
  "modify_other_key code mods =
     [0x1b, 0x5b] @ dec 27 @ [0x3b] @ dec mods @ [0x3b] @ dec code @ [0x7e]"

lemma sep_not_in_dec [simp]:
  "0x3a \<notin> set (dec n)" "0x3b \<notin> set (dec n)" "0x75 \<notin> set (dec n)" "0x7e \<notin> set (dec n)"
  "0x1b \<notin> set (dec n)"
  by (rule not_digit_in_dec, simp add: is_digit_def)+

lemma main_param_dec [simp]: "main_param (dec n) = Some (dec n)"
  by (simp add: main_param_def split_on_no_sep)

lemma parse_u32_dec: "n \<le> 4294967295 \<Longrightarrow> parse_u32 (dec n) = Some n"
  by (simp add: parse_u32_def parse_uint_utf8_def from_utf8_ascii digits_ascii parse_uint_dec)

lemma parse_u16_dec: "n \<le> 65535 \<Longrightarrow> parse_u16 (dec n) = Some n"
  by (simp add: parse_u16_def parse_uint_utf8_def from_utf8_ascii digits_ascii parse_uint_dec)

lemma position_app:
  "\<forall>x\<in>set xs. \<not> P x \<Longrightarrow> position P (xs @ ys) = map_option ((+) (length xs)) (position P ys)"
  by (induction xs; cases "position P ys") auto

lemma csi_u_recognised:
  assumes "code \<le> 4294967295" "mods \<le> 65535" "csi_key_code_matches_detach_chord code (Some mods) raw"
  shows "parse_csi_u_detach_chord (csi_u_key code mods @ post) raw
       = Some \<lparr>cm_normalized = raw, cm_consumed = length (csi_u_key code mods)\<rparr>"
proof -
  define body where "body = dec code @ [0x3b] @ dec mods"
  have "\<forall>x\<in>set ([0x1b, 0x5b] @ body). x \<noteq> 0x75"
    using sep_not_in_dec by (auto simp: body_def)
  then have p: "position (\<lambda>b. b = 0x75) ([0x1b, 0x5b] @ body @ 0x75 # post) = Some (length body + 2)"
    using position_app [of "[0x1b, 0x5b] @ body" "\<lambda>b. b = 0x75" "0x75 # post"] by simp
  have k: "csi_u_key code mods @ post = [0x1b, 0x5b] @ body @ 0x75 # post"
    "length (csi_u_key code mods) = length body + 3"
    by (simp_all add: csi_u_key_def body_def)
  have f: "split_on 0x3b body = [dec code, dec mods]"
    by (simp add: body_def split_on_append_sep split_on_no_sep)
  show ?thesis
    unfolding parse_csi_u_detach_chord_def k p
    using f assms by (simp add: parse_u32_dec parse_u16_dec Let_def)
qed

lemma modify_other_recognised:
  assumes "code \<le> 4294967295" "mods \<le> 65535" "modifier_mask_has_control mods"
    "key_code_matches_letter_or_raw_ctrl code raw"
  shows "parse_xterm_modify_other_keys_detach_chord (modify_other_key code mods @ post) raw
       = Some \<lparr>cm_normalized = raw, cm_consumed = length (modify_other_key code mods)\<rparr>"
proof -
  define body where "body = dec 27 @ [0x3b] @ dec mods @ [0x3b] @ dec code"
  have "\<forall>x\<in>set ([0x1b, 0x5b] @ body). x \<noteq> 0x7e"
    using sep_not_in_dec by (auto simp: body_def)
  then have p: "position (\<lambda>b. b = 0x7e) ([0x1b, 0x5b] @ body @ 0x7e # post) = Some (length body + 2)"
    using position_app [of "[0x1b, 0x5b] @ body" "\<lambda>b. b = 0x7e" "0x7e # post"] by simp
  have k: "modify_other_key code mods @ post = [0x1b, 0x5b] @ body @ 0x7e # post"
    "length (modify_other_key code mods) = length body + 3"
    by (simp_all add: modify_other_key_def body_def)
  have f: "split_on 0x3b body = [dec 27, dec mods, dec code]"
    by (simp add: body_def split_on_append_sep split_on_no_sep)
  show ?thesis
    unfolding parse_xterm_modify_other_keys_detach_chord_def k p
    using f assms by (simp add: parse_u32_dec parse_u16_dec Let_def next_field_def)
qed

text \<open>A modifyOtherKeys sequence is never taken for a CSI-u one, however the input
  goes on: its introducer 27 is not the code of a Ctrl-letter key.\<close>

lemma csi_u_rejects_27:
  assumes "unat raw \<le> 26"
  shows "parse_csi_u_detach_chord ([0x1b, 0x5b] @ dec 27 @ 0x3b # rest) raw = None"
proof (cases "position (\<lambda>b. b = 0x75) rest")
  case None
  have "position (\<lambda>b. b = 0x75) ([0x1b, 0x5b] @ dec 27 @ 0x3b # rest) = None"
    using None sep_not_in_dec(3) [of 27] by (auto simp: position_None_iff)
  then show ?thesis by (simp add: parse_csi_u_detach_chord_def)
next
  case (Some e)
  have "\<forall>x\<in>set ([0x1b, 0x5b] @ dec 27 @ [0x3b]). x \<noteq> 0x75"
    using sep_not_in_dec(3) [of 27] by auto
  then have p: "position (\<lambda>b. b = 0x75) ([0x1b, 0x5b] @ dec 27 @ 0x3b # rest)
      = Some (length (dec 27) + e + 3)"
    using position_app [of "[0x1b, 0x5b] @ dec 27 @ [0x3b]" "\<lambda>b. b = 0x75" rest] Some by simp
  have "drop 2 (take (length (dec 27) + e + 3) ([0x1b, 0x5b] @ dec 27 @ 0x3b # rest))
      = dec 27 @ 0x3b # take e rest"
    by (simp add: take_Cons' drop_Cons' numeral_3_eq_3)
  then have "split_on 0x3b (drop 2 (take (length (dec 27) + e + 3) ([0x1b, 0x5b] @ dec 27 @ 0x3b # rest)))
      = dec 27 # split_on 0x3b (take e rest)"
    by (simp add: split_on_append_sep)
  moreover have "\<not> csi_key_code_matches_detach_chord 27 m raw" for m
    using assms by (auto simp: csi_key_code_matches_detach_chord_def
        key_code_matches_letter_or_raw_ctrl_def Let_def split: option.splits)
  ultimately show ?thesis
    unfolding parse_csi_u_detach_chord_def p by (simp add: parse_u32_dec Let_def)
qed

lemma csi_u_dec27: "modify_other_key code mods @ post
    = [0x1b, 0x5b] @ dec 27 @ 0x3b # (dec mods @ [0x3b] @ dec code @ [0x7e] @ post)"
  by (simp add: modify_other_key_def)

lemma ctrl_letter_Some: "1 \<le> unat raw \<Longrightarrow> unat raw \<le> 26 \<Longrightarrow> ctrl_letter_detach_chord [raw] = Some raw"
  by (simp add: ctrl_letter_detach_chord_def word_le_nat_alt)

text \<open>The keys a terminal may report for Ctrl with the chord's letter.\<close>

definition chord_key_code :: "u8 \<Rightarrow> nat \<Rightarrow> bool" where
  "chord_key_code raw code = (code = 96 + unat raw \<or> code = 64 + unat raw \<or> code = unat raw)"

lemma chord_key_code_matches:
  assumes "1 \<le> unat raw" "chord_key_code raw code" "modifier_mask_has_control mods"
  shows "csi_key_code_matches_detach_chord code (Some mods) raw"
    and "key_code_matches_letter_or_raw_ctrl code raw"
  using assms
  by (auto simp: chord_key_code_def csi_key_code_matches_detach_chord_def
      key_code_matches_letter_or_raw_ctrl_def Let_def)

lemma encoded_key_recognised:
  assumes r: "1 \<le> unat raw" "unat raw \<le> 26"
    and k: "chord_key_code raw code" and m: "modifier_mask_has_control mods" "mods \<le> 65535"
    and e: "enc = csi_u_key code mods \<or> enc = modify_other_key code mods"
  shows "parse_ctrl_detach_encoding (enc @ post) [raw]
       = Some \<lparr>cm_normalized = raw, cm_consumed = length enc\<rparr>"
proof -
  have c: "code \<le> 4294967295" using k r by (auto simp: chord_key_code_def)
  note matches = chord_key_code_matches [OF r(1) k m(1)]
  from e show ?thesis
  proof
    assume "enc = csi_u_key code mods"
    then show ?thesis using csi_u_recognised [OF c m(2) matches(1), of post]
      by (simp add: parse_ctrl_detach_encoding_def ctrl_letter_Some [OF r])
  next
    assume "enc = modify_other_key code mods"
    moreover have "parse_csi_u_detach_chord (modify_other_key code mods @ post) raw = None"
      unfolding csi_u_dec27 by (rule csi_u_rejects_27 [OF r(2)])
    ultimately show ?thesis using modify_other_recognised [OF c m(2,1) matches(2), of post]
      by (simp add: parse_ctrl_detach_encoding_def ctrl_letter_Some [OF r])
  qed
qed

lemma no_esc_no_match: "b \<noteq> 0x1b \<Longrightarrow> parse_ctrl_detach_encoding (b # bs) chord = None"
  by (simp add: parse_ctrl_detach_encoding_def parse_csi_u_detach_chord_def
      parse_xterm_modify_other_keys_detach_chord_def split: option.splits)

lemma normalize_skip:
  "0x1b \<notin> set xs \<Longrightarrow>
   normalize_attach_detach_input (xs @ ys) chord = xs @ normalize_attach_detach_input ys chord"
  by (induction xs) (auto simp: no_esc_no_match)

lemma normalize_match:
  assumes "parse_ctrl_detach_encoding (enc @ post) chord
      = Some \<lparr>cm_normalized = raw, cm_consumed = length enc\<rparr>" "enc \<noteq> []"
  shows "normalize_attach_detach_input (enc @ post) chord
       = raw # normalize_attach_detach_input post chord"
  using assms by (cases enc) simp_all


section \<open>Other keys in front\<close>

text \<open>What both parsers look at first: the number that the parameters of a sequence begin with.\<close>

definition ends_param :: "u8 \<Rightarrow> bool" where
  "ends_param b = (b = 0x75 \<or> b = 0x7e \<or> b = 0x3b \<or> b = 0x3a)"

definition leading_param :: "u8 list \<Rightarrow> u8 list" where
  "leading_param ws = takeWhile (\<lambda>b. \<not> ends_param b) ws"

text \<open>No key in the input reports the code of the chord's key or the introducer 27 first.\<close>

fun other_keys :: "u8 \<Rightarrow> u8 list \<Rightarrow> bool" where
  "other_keys raw [] = True"
| "other_keys raw (b # bs) =
     ((b = 0x1b \<and> starts_with bs [0x5b] \<longrightarrow>
         leading_param (tl bs) = tl bs
         \<or> (case parse_u32 (leading_param (tl bs)) of None \<Rightarrow> True | Some n \<Rightarrow> \<not> chord_key_code raw n \<and> n \<noteq> 27))
      \<and> other_keys raw bs)"

lemma other_keys_no_esc: "0x1b \<notin> set pre \<Longrightarrow> other_keys raw pre"
  by (induction pre) auto

lemma hd_split_on: "hd (split_on d xs) = takeWhile (\<lambda>b. b \<noteq> d) xs"
proof (induction xs)
  case (Cons x xs)
  then show ?case by (cases "split_on d xs") auto
qed simp

lemma take_position: "position P xs = Some e \<Longrightarrow> take e xs = takeWhile (\<lambda>x. \<not> P x) xs"
  by (induction xs arbitrary: e) (auto split: if_splits)

lemma takeWhile_twice: "takeWhile P (takeWhile Q xs) = takeWhile (\<lambda>x. P x \<and> Q x) xs"
  by (induction xs) auto

lemma takeWhile_also: "\<forall>x\<in>set (takeWhile P xs). Q x \<Longrightarrow> takeWhile (\<lambda>x. P x \<and> Q x) xs = takeWhile P xs"
  by (induction xs) auto

lemma parse_digits_chars: "parse_digits mx acc bs = Some n \<Longrightarrow> \<forall>b\<in>set bs. is_digit b"
  by (induction bs arbitrary: acc) (auto simp: Let_def split: if_splits option.splits)

lemma parse_u32_chars: "parse_u32 bs = Some n \<Longrightarrow> \<forall>b\<in>set bs. is_digit b \<or> b = 0x2b"
  by (auto simp: parse_u32_def parse_uint_utf8_def parse_uint_def Let_def split: utf8_result.splits list.splits if_splits
      dest!: parse_digits_chars)

lemma leading_of:
  assumes "parse_u32 (takeWhile P ws) = Some n" "\<And>b. ends_param b \<Longrightarrow> P b \<Longrightarrow> b = 0x75 \<or> b = 0x7e"
    "\<And>b. \<not> ends_param b \<Longrightarrow> P b"
  shows "leading_param ws = takeWhile P ws"
proof -
  have "\<forall>b\<in>set (takeWhile P ws). \<not> ends_param b"
  proof
    fix b assume b: "b \<in> set (takeWhile P ws)"
    then have "is_digit b \<or> b = 0x2b" "P b" using parse_u32_chars [OF assms(1)] set_takeWhileD by fast+
    then show "\<not> ends_param b" using assms(2) [of b] by (auto simp: is_digit_def)
  qed
  from takeWhile_also [OF this] have "takeWhile (\<lambda>b. P b \<and> \<not> ends_param b) ws = takeWhile P ws" .
  moreover have "(\<lambda>b. P b \<and> \<not> ends_param b) = (\<lambda>b. \<not> ends_param b)" using assms(3) by auto
  ultimately show ?thesis by (simp add: leading_param_def)
qed

lemma csi_u_leading:
  assumes "parse_csi_u_detach_chord (0x1b # 0x5b # ws) raw = Some m" "1 \<le> unat raw"
  shows "\<exists>n. parse_u32 (leading_param ws) = Some n \<and> chord_key_code raw n"
proof -
  obtain e where e: "position (\<lambda>b. b = 0x75) ws = Some e"
    using assms(1) by (cases "position (\<lambda>b. b = 0x75) ws") (auto simp: parse_csi_u_detach_chord_def)
  let ?P = "\<lambda>b :: u8. b \<noteq> 0x3a \<and> b \<noteq> 0x3b \<and> b \<noteq> 0x75"
  have m: "hd (split_on 0x3a (hd (split_on 0x3b (take e ws)))) = takeWhile ?P ws"
    by (simp add: hd_split_on take_position [OF e] takeWhile_twice conj_ac)
  obtain n where n: "parse_u32 (takeWhile ?P ws) = Some n"
    and k: "\<exists>mods. csi_key_code_matches_detach_chord n mods raw"
    using assms(1) e
    by (auto simp: parse_csi_u_detach_chord_def Let_def bind_eq_Some_conv main_param_def m split: if_splits)
  have "leading_param ws = takeWhile ?P ws" by (rule leading_of [OF n]) (auto simp: ends_param_def)
  moreover have "chord_key_code raw n"
    using k assms(2) by (auto simp: csi_key_code_matches_detach_chord_def key_code_matches_letter_or_raw_ctrl_def
        chord_key_code_def Let_def split: option.splits if_splits)
  ultimately show ?thesis using n by auto
qed

lemma xterm_leading:
  assumes "parse_xterm_modify_other_keys_detach_chord (0x1b # 0x5b # ws) raw = Some m"
  shows "parse_u32 (leading_param ws) = Some 27"
proof -
  obtain e where e: "position (\<lambda>b. b = 0x7e) ws = Some e"
    using assms by (cases "position (\<lambda>b. b = 0x7e) ws") (auto simp: parse_xterm_modify_other_keys_detach_chord_def)
  let ?P = "\<lambda>b :: u8. b \<noteq> 0x3a \<and> b \<noteq> 0x3b \<and> b \<noteq> 0x7e"
  have "hd (split_on 0x3a (hd (split_on 0x3b (take e ws)))) = takeWhile ?P ws"
    by (simp add: hd_split_on take_position [OF e] takeWhile_twice conj_ac)
  moreover obtain f fs where f: "split_on 0x3b (take e ws) = f # fs" by (cases "split_on 0x3b (take e ws)") simp_all
  ultimately have m: "hd (split_on 0x3a f) = takeWhile ?P ws" by simp
  have n: "parse_u32 (takeWhile ?P ws) = Some 27"
    using assms e f m
    by (auto simp: parse_xterm_modify_other_keys_detach_chord_def Let_def bind_eq_Some_conv main_param_def next_field_def
        split: if_splits)
  have "leading_param ws = takeWhile ?P ws" by (rule leading_of [OF n]) (auto simp: ends_param_def)
  then show ?thesis using n by simp
qed

lemma other_key_no_match:
  assumes "1 \<le> unat raw" "\<And>n. parse_u32 (leading_param ws) = Some n \<Longrightarrow> \<not> chord_key_code raw n \<and> n \<noteq> 27"
  shows "parse_ctrl_detach_encoding (0x1b # 0x5b # ws) [raw] = None"
proof -
  have "parse_csi_u_detach_chord (0x1b # 0x5b # ws) raw = None"
    using csi_u_leading [OF _ assms(1), of ws] assms(2) by (metis option.exhaust)
  moreover have "parse_xterm_modify_other_keys_detach_chord (0x1b # 0x5b # ws) raw = None"
    using xterm_leading [of ws raw] assms(2) by (metis option.exhaust)
  ultimately show ?thesis by (simp add: parse_ctrl_detach_encoding_def ctrl_letter_detach_chord_def)
qed

lemma no_csi_no_match: "\<not> starts_with bs [0x1b, 0x5b] \<Longrightarrow> parse_ctrl_detach_encoding bs chord = None"
  by (simp add: parse_ctrl_detach_encoding_def parse_csi_u_detach_chord_def
      parse_xterm_modify_other_keys_detach_chord_def split: option.splits)

lemma normalize_other_keys:
  assumes "1 \<le> unat raw" "other_keys raw pre"
  shows "normalize_attach_detach_input (pre @ 0x1b # rest) [raw] = pre @ normalize_attach_detach_input (0x1b # rest) [raw]"
  using assms(2)
proof (induction pre)
  case (Cons b bs)
  have "parse_ctrl_detach_encoding (b # bs @ 0x1b # rest) [raw] = None"
  proof (cases "\<exists>ws. b = 0x1b \<and> bs = 0x5b # ws")
    case False
    then have "\<not> starts_with (b # bs @ 0x1b # rest) [0x1b, 0x5b]" by (cases bs) auto
    then show ?thesis by (rule no_csi_no_match)
  next
    case True
    then obtain ws where ws: "b = 0x1b" "bs = 0x5b # ws" by blast
    have "\<not> chord_key_code raw n \<and> n \<noteq> 27" if n: "parse_u32 (leading_param (ws @ 0x1b # rest)) = Some n" for n
    proof (cases "leading_param ws = ws")
      case True
      then have "\<forall>x\<in>set ws. \<not> ends_param x" unfolding leading_param_def by (metis takeWhile_eq_all_conv)
      then have "0x1b \<in> set (leading_param (ws @ 0x1b # rest))" by (simp add: leading_param_def ends_param_def)
      then show ?thesis using parse_u32_chars [OF n] by (auto simp: is_digit_def)
    next
      case False
      then have "\<exists>x\<in>set ws. ends_param x" unfolding leading_param_def by (metis takeWhile_eq_all_conv)
      then have "leading_param (ws @ 0x1b # rest) = leading_param ws"
        unfolding leading_param_def by (metis takeWhile_append1)
      then show ?thesis using n False Cons.prems ws by simp
    qed
    from other_key_no_match [OF assms(1) this] show ?thesis by (simp add: ws)
  qed
  then show ?case using Cons by simp
qed simp


section \<open>Properties\<close>

text \<open>C32: every encoding of the detach chord is normalised, in front of any input and behind other keys. For a
  chord Ctrl-A to Ctrl-Z, a CSI-u or modifyOtherKeys report of the letter (in either case) or of the
  control code itself, with any modifier mask that has Control, becomes the one raw control byte; what
  stands in front of it is kept, whatever bytes and escape sequences it consists of, as long as none of its
  CSI sequences has the code of the chord's key or 27 as its first parameter; and normalisation goes
  on behind it.\<close>

theorem detach_encodings_recognised:
  assumes "1 \<le> unat raw" "unat raw \<le> 26" "chord_key_code raw code"
    and "modifier_mask_has_control mods" "mods \<le> 65535"
    and "enc = csi_u_key code mods \<or> enc = modify_other_key code mods"
    and "other_keys raw pre"
  shows "normalize_attach_detach_input (pre @ enc @ post) [raw]
       = pre @ raw # normalize_attach_detach_input post [raw]"
proof -
  obtain e where e: "enc = 0x1b # e" using assms(6) by (auto simp: csi_u_key_def modify_other_key_def)
  then show ?thesis
    using normalize_match [OF encoded_key_recognised [OF assms(1-6)]] normalize_other_keys [OF assms(1,7), of "e @ post"]
    by simp
qed

lemma one_digit: "dec 1 = [0x31]" "dec 6 = [0x36]"
  by (subst dec.simps, simp add: digit_def)+

lemma one_is_one: "parse_u32 [0x31] = Some 1"
  using parse_u32_dec [of 1] by (simp add: one_digit [simplified])

text \<open>Ctrl-Right and a letter in front of Ctrl-F.\<close>

lemma detach_encodings_recognised_witness:
  "normalize_attach_detach_input ((0x1b # asc ''[1;5Cl'') @ csi_u_key 102 5 @ asc ''u'') [0x06]
   = (0x1b # asc ''[1;5Cl'') @ [0x06] @ asc ''u''"
proof -
  have m: "modifier_mask_has_control 5" by (simp add: modifier_mask_has_control_def)
  have "normalize_attach_detach_input (asc ''u'') [0x06] = asc ''u''"
    using normalize_skip [of "asc ''u''" "[]" "[0x06]"] by simp
  moreover have "other_keys 0x06 (0x1b # asc ''[1;5Cl'')"
    by (simp add: leading_param_def ends_param_def one_is_one chord_key_code_def)
  ultimately show ?thesis
    using detach_encodings_recognised [of "0x06" 102 5 "csi_u_key 102 5" "0x1b # asc ''[1;5Cl''" "asc ''u''"] m
    by (simp add: chord_key_code_def)
qed

text \<open>Normalisation never lengthens the input and never invents bytes: each byte of
  the result is a byte of the input or the configured chord; without an escape
  sequence, or with a chord that is not a single Ctrl-letter, the input is unchanged.\<close>

theorem normalize_conservative:
  "length (normalize_attach_detach_input bs chord) \<le> length bs
   \<and> set (normalize_attach_detach_input bs chord) \<subseteq> set bs \<union> set chord
   \<and> (0x1b \<notin> set bs \<or> ctrl_letter_detach_chord chord = None
        \<longrightarrow> normalize_attach_detach_input bs chord = bs)"
proof (intro conjI impI)
  show "length (normalize_attach_detach_input bs chord) \<le> length bs"
  proof (induction bs chord rule: normalize_attach_detach_input.induct)
    case (2 b bs chord)
    show ?case
    proof (cases "parse_ctrl_detach_encoding (b # bs) chord")
      case (Some m)
      have "3 \<le> cm_consumed m" using parse_ctrl_detach_SomeD [OF Some] by simp
      then show ?thesis using 2(2) [OF Some] Some by (simp del: drop_Suc_Cons)
    qed (use 2(1) in auto)
  qed simp
  show "set (normalize_attach_detach_input bs chord) \<subseteq> set bs \<union> set chord"
  proof (induction bs chord rule: normalize_attach_detach_input.induct)
    case (2 b bs chord)
    show ?case
    proof (cases "parse_ctrl_detach_encoding (b # bs) chord")
      case (Some m)
      then show ?thesis
        using 2(2) [OF Some] parse_ctrl_detach_SomeD [OF Some]
          set_drop_subset [of "cm_consumed m" "b # bs"] by auto
    qed (use 2(1) in auto)
  qed simp
  assume "0x1b \<notin> set bs \<or> ctrl_letter_detach_chord chord = None"
  then show "normalize_attach_detach_input bs chord = bs"
  proof
    assume "0x1b \<notin> set bs"
    then show ?thesis using normalize_skip [of bs "[]" chord] by simp
  next
    assume "ctrl_letter_detach_chord chord = None"
    then show ?thesis by (induction bs) (simp_all add: parse_ctrl_detach_encoding_def)
  qed
qed

lemma normalize_conservative_witness:
  "normalize_attach_detach_input (0x1b # asc ''[102;5u'') [0x1d] = 0x1b # asc ''[102;5u''"
  using normalize_conservative [of "0x1b # asc ''[102;5u''" "[0x1d]"]
  by (simp add: ctrl_letter_detach_chord_def)

text \<open>C39: The CSI-u parser does not stop at the end of a sequence. When the first parameter of any sequence is the
  control code of the chord, everything up to the next letter u is taken for the chord and swallowed,
  also the final byte of that sequence and whatever was typed behind it.\<close>

theorem csi_u_runs_on:
  assumes "1 \<le> unat raw" "unat raw \<le> 26" "0x75 \<notin> set ps"
  shows "parse_ctrl_detach_encoding ([0x1b, 0x5b] @ dec (unat raw) @ 0x3b # ps @ 0x75 # post) [raw]
      = Some \<lparr>cm_normalized = raw, cm_consumed = length (dec (unat raw)) + length ps + 4\<rparr>
    \<and> normalize_attach_detach_input ([0x1b, 0x5b] @ dec (unat raw) @ 0x3b # ps @ 0x75 # post) [raw]
      = raw # normalize_attach_detach_input post [raw]"
proof -
  define enc where "enc = [0x1b, 0x5b] @ dec (unat raw) @ 0x3b # ps @ [0x75]"
  have l: "length enc = length (dec (unat raw)) + length ps + 4" by (simp add: enc_def)
  let ?body = "[0x1b, 0x5b] @ dec (unat raw) @ 0x3b # ps"
  have all: "[0x1b, 0x5b] @ dec (unat raw) @ 0x3b # ps @ 0x75 # post = ?body @ 0x75 # post" by simp
  have "\<forall>x\<in>set ?body. x \<noteq> 0x75" using assms(3) sep_not_in_dec(3) [of "unat raw"] by auto
  then have p: "position (\<lambda>b. b = 0x75) (?body @ 0x75 # post) = Some (length ?body)"
    by (intro position_append_hit) simp_all
  have "drop 2 (take (length ?body) (?body @ 0x75 # post)) = dec (unat raw) @ 0x3b # ps" by simp
  then have f: "split_on 0x3b (drop 2 (take (length ?body) (?body @ 0x75 # post))) = dec (unat raw) # split_on 0x3b ps"
    by (simp only: split_on_append_sep [OF sep_not_in_dec(2)])
  have s: "starts_with (?body @ 0x75 # post) [0x1b, 0x5b]" by simp
  have "parse_csi_u_detach_chord (?body @ 0x75 # post) raw = Some \<lparr>cm_normalized = raw, cm_consumed = length enc\<rparr>"
    unfolding parse_csi_u_detach_chord_def p f bind.bind_lunit Let_def using s assms(2)
    by (simp add: parse_u32_dec csi_key_code_matches_detach_chord_def enc_def)
  then have "parse_ctrl_detach_encoding (enc @ post) [raw] = Some \<lparr>cm_normalized = raw, cm_consumed = length enc\<rparr>"
    unfolding all [symmetric] by (simp add: parse_ctrl_detach_encoding_def ctrl_letter_Some [OF assms(1,2)] enc_def)
  moreover from normalize_match [OF this] have "normalize_attach_detach_input (enc @ post) [raw]
      = raw # normalize_attach_detach_input post [raw]" by (simp add: enc_def)
  ultimately show ?thesis unfolding l by (simp add: enc_def)
qed

text \<open>Ctrl-PageDown and the letter u, with the chord Ctrl-F.\<close>

lemma csi_u_runs_on_witness:
  "normalize_attach_detach_input (0x1b # asc ''[6;5~u'') [0x06] = [0x06]"
  using csi_u_runs_on [of "0x06" "asc ''5~''" "[]"] by (simp add: one_digit)

end
