(* ===== verification/Detach_Matcher.thy ===== *)
theory Detach_Matcher
  imports Detach_Encoding "HOL-Library.Sublist"
begin

text \<open>
  The byte-level detach-chord matcher of attach mode. The program has it twice:
  \<open>DetachMatcher\<close> (\<open>panesmith-attach/src/detach.rs\<close>) and
  \<open>ManagerDetachMatcher\<close> (\<open>panesmith-core/src/manager/attach_support.rs\<close>); both are
  modelled, each from its own source. Instants are naturals, and
  \<open>duration_since\<close> is subtraction that stops at zero.

  The lemmas show that the matcher always holds the longest end of its input that
  can still grow into the chord, that it forwards, holds or consumes every byte in
  order, and that it detaches at the first occurrence of the chord. The locale
  \<open>chord_filter\<close> states what an attach session relies on, and is interpreted on both
  matchers.
\<close>

section \<open>The matcher of panesmith-attach\<close>

record detach_matcher =
  dm_chord :: "u8 list"
  dm_timeout :: nat
  dm_held :: "u8 list"
  dm_held_at :: "nat list"

datatype feed_step = ForwardNone | ForwardByte u8 | ForwardBytes "u8 list" | FeedDetach

datatype match_result = Forward "u8 list" | MatchDetach

record feed_result =
  fr_forward :: "u8 list"
  fr_detached :: bool
  fr_remaining :: "u8 list"

definition detach_matcher_new :: "detach_config \<Rightarrow> detach_matcher" where
  "detach_matcher_new cfg =
     \<lparr>dm_chord = dc_chord cfg, dm_timeout = dc_partial_timeout cfg, dm_held = [], dm_held_at = []\<rparr>"

definition dm_reset :: "detach_matcher \<Rightarrow> detach_matcher" where
  "dm_reset m = m \<lparr>dm_held := [], dm_held_at := []\<rparr>"

definition dm_push :: "u8 \<Rightarrow> nat \<Rightarrow> detach_matcher \<Rightarrow> detach_matcher" where
  "dm_push b now m = m \<lparr>dm_held := dm_held m @ [b], dm_held_at := dm_held_at m @ [now]\<rparr>"

text \<open>The search over suffix lengths \<open>k\<close>, from the longest down.\<close>

fun overlap_len :: "nat \<Rightarrow> u8 list \<Rightarrow> u8 list \<Rightarrow> nat" where
  "overlap_len 0 combined chord = 0"
| "overlap_len (Suc k) combined chord =
     (if drop (length combined - Suc k) combined = take (Suc k) chord then Suc k
      else overlap_len k combined chord)"

definition forward_step :: "u8 list \<Rightarrow> feed_step" where
  "forward_step forward =
     (if forward = [] then ForwardNone
      else if length forward = 1 then ForwardByte (forward ! 0)
      else ForwardBytes forward)"

definition feed_byte_inner :: "detach_matcher \<Rightarrow> u8 \<Rightarrow> nat \<Rightarrow> feed_step \<times> detach_matcher" where
  "feed_byte_inner m byte now =
     (if dm_chord m = [] then (ForwardByte byte, m)
      else if dm_held m = [] then
        (if byte = dm_chord m ! 0 then
           (let m = dm_push byte now m
            in if length (dm_chord m) = 1 then (FeedDetach, dm_reset m) else (ForwardNone, m))
         else (ForwardByte byte, m))
      else if length (dm_held m) < length (dm_chord m) \<and> byte = dm_chord m ! length (dm_held m) then
        (let m = dm_push byte now m
         in if length (dm_held m) = length (dm_chord m) then (FeedDetach, dm_reset m)
            else (ForwardNone, m))
      else
        (let combined = dm_held m @ [byte];
             combined_at = dm_held_at m @ [now];
             suffix_len = overlap_len (min (length combined) (length (dm_chord m))) combined (dm_chord m);
             split_idx = length combined - suffix_len
         in if suffix_len = 0
            then (forward_step combined, m \<lparr>dm_held := [], dm_held_at := []\<rparr>)
            else (forward_step (take split_idx combined),
                  m \<lparr>dm_held := drop split_idx combined, dm_held_at := drop split_idx combined_at\<rparr>)))"

definition check_timeout :: "detach_matcher \<Rightarrow> nat \<Rightarrow> u8 list option \<times> detach_matcher" where
  "check_timeout m now =
     (case dm_held_at m of
        [] \<Rightarrow> (None, m)
      | start # _ \<Rightarrow>
          if now - start \<ge> dm_timeout m then
            (if dm_held m \<noteq> [] then Some (dm_held m) else None,
             m \<lparr>dm_held := [], dm_held_at := []\<rparr>)
          else (None, m))"

definition feed_byte :: "detach_matcher \<Rightarrow> u8 \<Rightarrow> nat \<Rightarrow> match_result \<times> detach_matcher" where
  "feed_byte m byte now =
     (let (timed, m) = check_timeout m now;
          forward = (case timed of Some h \<Rightarrow> h | None \<Rightarrow> [])
      in case feed_byte_inner m byte now of
           (ForwardNone, m) \<Rightarrow> (Forward forward, m)
         | (ForwardByte b, m) \<Rightarrow> (Forward (forward @ [b]), m)
         | (ForwardBytes bs, m) \<Rightarrow> (Forward (forward @ bs), m)
         | (FeedDetach, m) \<Rightarrow> (MatchDetach, m))"

text \<open>The next byte the matcher sees and how much of the input it stands for.\<close>

definition next_input :: "u8 list \<Rightarrow> u8 list \<Rightarrow> u8 \<times> nat" where
  "next_input bytes chord =
     (case parse_ctrl_detach_encoding bytes chord of
        Some matched \<Rightarrow> (cm_normalized matched, cm_consumed matched)
      | None \<Rightarrow> (hd bytes, 1))"

lemma next_input_posD: "(b, n) = next_input bytes chord \<Longrightarrow> 0 < n"
  by (auto simp: next_input_def split: option.splits dest: parse_ctrl_detach_SomeD)

function feed_bytes_loop ::
    "detach_matcher \<Rightarrow> u8 list \<Rightarrow> nat \<Rightarrow> u8 list \<Rightarrow> feed_result \<times> detach_matcher" where
  "feed_bytes_loop m [] now forward =
     (\<lparr>fr_forward = forward, fr_detached = False, fr_remaining = []\<rparr>, m)"
| "feed_bytes_loop m (b # bs) now forward =
     (case next_input (b # bs) (dm_chord m) of
        (byte, consumed) \<Rightarrow>
          (case feed_byte_inner m byte now of
             (ForwardNone, m') \<Rightarrow> feed_bytes_loop m' (drop consumed (b # bs)) now forward
           | (ForwardByte c, m') \<Rightarrow>
               feed_bytes_loop m' (drop consumed (b # bs)) now (forward @ [c])
           | (ForwardBytes cs, m') \<Rightarrow>
               feed_bytes_loop m' (drop consumed (b # bs)) now (forward @ cs)
           | (FeedDetach, m') \<Rightarrow>
               (\<lparr>fr_forward = forward, fr_detached = True,
                 fr_remaining = drop consumed (b # bs)\<rparr>, m')))"
  by pat_completeness auto
termination
  by (relation "measure (\<lambda>(m, bytes, now, forward). length bytes)") (auto dest: next_input_posD)

definition feed_bytes :: "detach_matcher \<Rightarrow> u8 list \<Rightarrow> nat \<Rightarrow> feed_result \<times> detach_matcher" where
  "feed_bytes m bytes now =
     (let (timed, m) = check_timeout m now;
          forward = (case timed of Some h \<Rightarrow> h | None \<Rightarrow> [])
      in feed_bytes_loop m bytes now forward)"


section \<open>One byte\<close>

fun step_bytes :: "feed_step \<Rightarrow> u8 list" where
  "step_bytes ForwardNone = []"
| "step_bytes (ForwardByte b) = [b]"
| "step_bytes (ForwardBytes bs) = bs"
| "step_bytes FeedDetach = []"

definition dm_ok :: "detach_matcher \<Rightarrow> bool" where
  "dm_ok m = (length (dm_held_at m) = length (dm_held m) \<and> prefix (dm_held m) (dm_chord m)
     \<and> (dm_held m = [] \<or> length (dm_held m) < length (dm_chord m)))"

text \<open>The held bytes are the longest end of the input \<open>c\<close> that is a proper prefix of
  the chord.\<close>

definition holds_longest :: "u8 list \<Rightarrow> detach_matcher \<Rightarrow> bool" where
  "holds_longest c m = (suffix (dm_held m) c \<and>
     (\<forall>s. suffix s c \<and> prefix s (dm_chord m) \<and> length s < length (dm_chord m)
        \<longrightarrow> length s \<le> length (dm_held m)))"

lemma forward_step_bytes [simp]: "step_bytes (forward_step f) = f"
  by (cases f) (auto simp: forward_step_def length_Suc_conv)

lemma forward_step_not_detach [simp]: "forward_step f \<noteq> FeedDetach"
  by (simp add: forward_step_def)

lemma overlap_len_le: "overlap_len n comb chord \<le> n"
  by (induction n) auto

lemma overlap_len_hit:
  "0 < overlap_len n comb chord \<Longrightarrow>
   drop (length comb - overlap_len n comb chord) comb = take (overlap_len n comb chord) chord"
  by (induction n) auto

lemma overlap_len_longest:
  "overlap_len n comb chord < j \<Longrightarrow> j \<le> n \<Longrightarrow> drop (length comb - j) comb \<noteq> take j chord"
proof (induction n)
  case (Suc n)
  then show ?case by (cases "j = Suc n") (auto split: if_splits)
qed simp

lemma suffix_is_drop: "suffix s xs \<Longrightarrow> s = drop (length xs - length s) xs"
  by (auto simp: suffix_def)

lemma prefix_is_take: "prefix s xs \<Longrightarrow> s = take (length s) xs"
  by (auto simp: prefix_def)

lemma extend_held:
  assumes l: "holds_longest c m" and s: "suffix s (c @ [b])" "s \<noteq> []"
    "prefix s (dm_chord m)"
  shows "suffix s (dm_held m @ [b])"
proof -
  obtain s' where s': "s = s' @ [b]" "suffix s' c"
    using s(1,2) by (auto simp: suffix_snoc)
  have "prefix s' (dm_chord m)" "length s' < length (dm_chord m)"
    using s(3) s'(1) by (auto simp: prefix_def)
  then have "length s' \<le> length (dm_held m)" using l s'(2) by (auto simp: holds_longest_def)
  then have "suffix s' (dm_held m)"
    using l s'(2) by (auto simp: holds_longest_def intro: suffix_length_suffix)
  then show ?thesis using s'(1) by simp
qed

lemma suffix_snoc_trans: "suffix h c \<Longrightarrow> suffix (h @ [b]) (c @ [b])"
  by simp

lemma if_both: "P x \<Longrightarrow> P y \<Longrightarrow> P (if c then x else y)"
  by simp

lemma feed_byte_config:
  "dm_chord (snd (feed_byte_inner m b now)) = dm_chord m
   \<and> dm_timeout (snd (feed_byte_inner m b now)) = dm_timeout m"
  unfolding feed_byte_inner_def Let_def
  by (rule if_both [where P = "\<lambda>p. dm_chord (snd p) = dm_chord m \<and> dm_timeout (snd p) = dm_timeout m"]
      | simp add: dm_push_def dm_reset_def)+

lemma feed_byte_chord [simp]: "dm_chord (snd (feed_byte_inner m b now)) = dm_chord m"
  and feed_byte_timeout [simp]: "dm_timeout (snd (feed_byte_inner m b now)) = dm_timeout m"
  using feed_byte_config by auto

text \<open>The three outcomes for one byte, in terms of the held bytes alone.\<close>

lemma feed_byte_grow:
  assumes "dm_ok m" "dm_chord m \<noteq> []" "prefix (dm_held m @ [b]) (dm_chord m)"
  shows "feed_byte_inner m b now =
    (if dm_held m @ [b] = dm_chord m then (FeedDetach, dm_reset m)
     else (ForwardNone, dm_push b now m))"
proof -
  obtain z where z: "dm_chord m = dm_held m @ b # z" using assms(3) by (auto simp: prefix_def)
  have lt: "length (dm_held m) < length (dm_chord m)" "dm_chord m ! length (dm_held m) = b"
    using z by simp_all
  have eq: "dm_held m @ [b] = dm_chord m \<longleftrightarrow> length (dm_chord m) = Suc (length (dm_held m))"
    using z by auto
  have r: "dm_reset (dm_push b now m) = dm_reset m" by (simp add: dm_push_def dm_reset_def)
  show ?thesis
    using lt assms(2) unfolding eq
    by (cases "dm_held m") (auto simp: feed_byte_inner_def Let_def r, auto simp: dm_push_def)
qed

lemma feed_byte_shrink:
  assumes "dm_ok m" "dm_chord m \<noteq> []" "\<not> prefix (dm_held m @ [b]) (dm_chord m)"
  defines "comb \<equiv> dm_held m @ [b]"
  defines "k \<equiv> overlap_len (min (length comb) (length (dm_chord m))) comb (dm_chord m)"
  shows "\<exists>step m'. feed_byte_inner m b now = (step, m') \<and> step \<noteq> FeedDetach
    \<and> step_bytes step = take (length comb - k) comb \<and> dm_held m' = drop (length comb - k) comb
    \<and> length (dm_held_at m') = k"
proof (cases "dm_held m")
  case Nil
  have ne: "b \<noteq> dm_chord m ! 0" using assms(2,3) Nil by (cases "dm_chord m") auto
  have "k = 0" unfolding k_def comb_def using Nil ne assms(2)
    by (cases "dm_chord m") (simp_all add: min_def numeral_eq_Suc)
  then show ?thesis using ne Nil assms(1,2)
    by (simp add: feed_byte_inner_def comb_def dm_ok_def)
next
  case (Cons h hs)
  have ne: "\<not> (length (dm_held m) < length (dm_chord m) \<and> b = dm_chord m ! length (dm_held m))"
    using assms(1,3) by (auto simp: dm_ok_def prefix_def nth_append neq_Nil_conv)
  have kl: "k \<le> length comb" unfolding k_def using overlap_len_le le_trans min.cobounded1 by blast
  have held: "dm_held m \<noteq> []" using Cons by simp
  have "feed_byte_inner m b now =
    (if k = 0 then (forward_step comb, m \<lparr>dm_held := [], dm_held_at := []\<rparr>)
     else (forward_step (take (length comb - k) comb),
       m \<lparr>dm_held := drop (length comb - k) comb,
          dm_held_at := drop (length comb - k) (dm_held_at m @ [now])\<rparr>))"
    unfolding feed_byte_inner_def if_not_P [OF assms(2)] if_not_P [OF held] if_not_P [OF ne]
    by (simp add: Let_def comb_def k_def)
  then show ?thesis using kl assms(1) by (cases "k = 0") (simp_all add: dm_ok_def comb_def)
qed

lemma held_room: "dm_ok m \<Longrightarrow> dm_chord m \<noteq> [] \<Longrightarrow> length (dm_held m @ [b]) \<le> length (dm_chord m)"
  by (auto simp: dm_ok_def Suc_le_eq)

lemma no_chord_at_end:
  assumes "dm_ok m" "dm_chord m \<noteq> []" "holds_longest c m" "dm_held m @ [b] \<noteq> dm_chord m"
  shows "\<not> suffix (dm_chord m) (c @ [b])"
proof
  assume "suffix (dm_chord m) (c @ [b])"
  then have "suffix (dm_chord m) (dm_held m @ [b])"
    by (rule extend_held [OF assms(3)]) (use assms(2) in auto)
  moreover have "length (dm_held m @ [b]) \<le> length (dm_chord m)" by (rule held_room [OF assms(1,2)])
  ultimately show False
    using assms(4) suffix_length_less [of "dm_chord m" "dm_held m @ [b]"]
    by (auto simp: strict_suffix_def)
qed

lemma feed_byte_spec:
  assumes ok: "dm_ok m" and ch: "dm_chord m \<noteq> []" and l: "holds_longest c m"
  shows "if suffix (dm_chord m) (c @ [b])
    then feed_byte_inner m b now = (FeedDetach, dm_reset m) \<and> dm_held m @ [b] = dm_chord m
    else \<exists>step m'. feed_byte_inner m b now = (step, m') \<and> step \<noteq> FeedDetach \<and> dm_ok m'
      \<and> dm_chord m' = dm_chord m \<and> holds_longest (c @ [b]) m'
      \<and> step_bytes step @ dm_held m' = dm_held m @ [b]"
proof (cases "prefix (dm_held m @ [b]) (dm_chord m)")
  case True
  note grow = feed_byte_grow [OF ok ch True, of now]
  have suf: "suffix (dm_held m @ [b]) (c @ [b])" using l by (simp add: holds_longest_def)
  show ?thesis
  proof (cases "dm_held m @ [b] = dm_chord m")
    case eq: True
    then show ?thesis using grow suf by auto
  next
    case ne: False
    have "length (dm_held m @ [b]) < length (dm_chord m)"
      using True ne by (intro prefix_length_less) (simp add: strict_prefix_def)
    then have ok': "dm_ok (dm_push b now m)"
      using True ok by (simp add: dm_ok_def dm_push_def)
    have "holds_longest (c @ [b]) (dm_push b now m)"
      unfolding holds_longest_def
    proof (intro conjI allI impI)
      show "suffix (dm_held (dm_push b now m)) (c @ [b])" using suf by (simp add: dm_push_def)
      fix s assume s: "suffix s (c @ [b]) \<and> prefix s (dm_chord (dm_push b now m))
        \<and> length s < length (dm_chord (dm_push b now m))"
      show "length s \<le> length (dm_held (dm_push b now m))"
      proof (cases "s = []")
        case False
        then have "suffix s (dm_held m @ [b])"
          using s by (intro extend_held [OF l]) (auto simp: dm_push_def)
        then show ?thesis by (auto simp: dm_push_def dest: suffix_length_le)
      qed simp
    qed
    then show ?thesis
      using grow ne ok' no_chord_at_end [OF ok ch l ne] by (auto simp: dm_push_def)
  qed
next
  case False
  define comb where "comb = dm_held m @ [b]"
  define k where "k = overlap_len (min (length comb) (length (dm_chord m))) comb (dm_chord m)"
  obtain step m' where r: "feed_byte_inner m b now = (step, m')" "step \<noteq> FeedDetach"
    "step_bytes step = take (length comb - k) comb" "dm_held m' = drop (length comb - k) comb"
    "length (dm_held_at m') = k"
    using feed_byte_shrink [OF ok ch False, of now] unfolding comb_def k_def by blast
  have chord': "dm_chord m' = dm_chord m" using feed_byte_chord [of m b now] r(1) by simp
  have kle: "k \<le> min (length comb) (length (dm_chord m))" unfolding k_def by (rule overlap_len_le)
  have room: "length comb \<le> length (dm_chord m)" unfolding comb_def by (rule held_room [OF ok ch])
  have hit: "dm_held m' = take k (dm_chord m)"
    using r(4) kle overlap_len_hit [of _ comb "dm_chord m"] unfolding k_def by (cases "k = 0") (auto simp: k_def)
  have "k \<noteq> length comb"
  proof
    assume "k = length comb"
    then have "comb = take (length comb) (dm_chord m)" using hit r(4) by simp
    then show False using False unfolding comb_def by (metis take_is_prefix)
  qed
  then have klt: "k < length (dm_chord m)" using kle room by simp
  have "prefix (dm_held m') (dm_chord m)" unfolding hit by (rule take_is_prefix)
  then have ok': "dm_ok m'" using r(4,5) kle klt chord' by (simp add: dm_ok_def)
  have suf: "suffix comb (c @ [b])" using l by (simp add: holds_longest_def comb_def)
  have "holds_longest (c @ [b]) m'"
    unfolding holds_longest_def chord'
  proof (intro conjI allI impI)
    show "suffix (dm_held m') (c @ [b])"
      using suf r(4) suffix_drop suffix_order.trans by metis
    fix s assume s: "suffix s (c @ [b]) \<and> prefix s (dm_chord m) \<and> length s < length (dm_chord m)"
    show "length s \<le> length (dm_held m')"
    proof (rule ccontr)
      assume longer: "\<not> length s \<le> length (dm_held m')"
      then have "s \<noteq> []" by auto
      then have "suffix s comb" using s unfolding comb_def by (intro extend_held [OF l]) auto
      moreover have "k < length s" using longer r(4) kle by simp
      ultimately show False
        using overlap_len_longest [of "min (length comb) (length (dm_chord m))" comb "dm_chord m" "length s"]
          s suffix_is_drop [of s comb] prefix_is_take [of s "dm_chord m"] suffix_length_le [of s comb]
        unfolding k_def by simp
    qed
  qed
  moreover have ne: "dm_held m @ [b] \<noteq> dm_chord m" using False by auto
  moreover have "step_bytes step @ dm_held m' = dm_held m @ [b]"
    unfolding r(3,4) by (simp only: append_take_drop_id comb_def)
  ultimately show ?thesis
    unfolding if_not_P [OF no_chord_at_end [OF ok ch l ne]] using r(1,2) ok' chord' by blast
qed


section \<open>A chunk of input\<close>

lemma feed_bytes_loop_unfold:
  "feed_bytes_loop m (b # bs) now fw =
     (case next_input (b # bs) (dm_chord m) of
        (byte, n) \<Rightarrow>
          (case feed_byte_inner m byte now of
             (step, m') \<Rightarrow>
               if step = FeedDetach
               then (\<lparr>fr_forward = fw, fr_detached = True, fr_remaining = drop n (b # bs)\<rparr>, m')
               else feed_bytes_loop m' (drop n (b # bs)) now (fw @ step_bytes step)))"
  by (auto split: prod.splits feed_step.splits)

lemma normalize_next:
  assumes "next_input (b # bs) chord = (byte, n)"
  shows "normalize_attach_detach_input (b # bs) chord
       = byte # normalize_attach_detach_input (drop n (b # bs)) chord"
  using assms by (auto simp: next_input_def split: option.splits)

lemma feed_bytes_loop_no_chord:
  assumes "dm_chord m = []"
  shows "feed_bytes_loop m bytes now fw
       = (\<lparr>fr_forward = fw @ bytes, fr_detached = False, fr_remaining = []\<rparr>, m)"
  using assms
proof (induction bytes arbitrary: fw)
  case (Cons b bs)
  have "next_input (b # bs) [] = (b, 1)"
    by (simp add: next_input_def parse_ctrl_detach_encoding_def ctrl_letter_detach_chord_def)
  then show ?case using Cons by (simp add: feed_byte_inner_def)
qed simp

definition chord_absent :: "u8 list \<Rightarrow> u8 list \<Rightarrow> u8 list \<Rightarrow> bool" where
  "chord_absent chord c xs = (\<forall>p. p \<noteq> [] \<and> prefix p xs \<longrightarrow> \<not> suffix chord (c @ p))"

lemma chord_absent_Cons:
  "\<not> suffix chord (c @ [x]) \<Longrightarrow> chord_absent chord (c @ [x]) xs \<Longrightarrow> chord_absent chord c (x # xs)"
  unfolding chord_absent_def
proof (intro allI impI)
  fix p
  assume a: "\<not> suffix chord (c @ [x])"
    "\<forall>p. p \<noteq> [] \<and> prefix p xs \<longrightarrow> \<not> suffix chord ((c @ [x]) @ p)"
    and "p \<noteq> [] \<and> prefix p (x # xs)"
  then obtain p' where p: "p = x # p'" "prefix p' xs" by (auto simp: prefix_Cons)
  show "\<not> suffix chord (c @ p)"
  proof (cases "p' = []")
    case False
    then have "\<not> suffix chord ((c @ [x]) @ p')" using a(2) p(2) by blast
    then show ?thesis using p(1) by simp
  qed (use a(1) p(1) in simp)
qed

lemma chord_absent_Nil [simp]: "chord_absent chord c []"
  by (simp add: chord_absent_def)

text \<open>Where the chunk's normalised input \<open>N\<close> first completes the chord, the loop stops
  there; otherwise it runs through \<open>N\<close>. In both cases forwarded, held and consumed
  bytes together are the input, in order.\<close>

definition loop_result ::
    "detach_matcher \<Rightarrow> u8 list \<Rightarrow> u8 list \<Rightarrow> u8 list \<Rightarrow> feed_result \<Rightarrow> detach_matcher \<Rightarrow> bool" where
  "loop_result m c fw N r m' =
     (dm_ok m' \<and> dm_chord m' = dm_chord m \<and>
      (if fr_detached r then
         (\<exists>p x q. N = p @ x # q \<and> chord_absent (dm_chord m) c p \<and> suffix (dm_chord m) (c @ p @ [x])
            \<and> fr_forward r @ dm_chord m = fw @ dm_held m @ p @ [x]
            \<and> normalize_attach_detach_input (fr_remaining r) (dm_chord m) = q
            \<and> dm_held m' = [])
       else chord_absent (dm_chord m) c N \<and> holds_longest (c @ N) m'
            \<and> fr_forward r @ dm_held m' = fw @ dm_held m @ N \<and> fr_remaining r = []))"

lemma feed_bytes_loop_spec:
  assumes "dm_ok m" "dm_chord m \<noteq> []" "holds_longest c m"
    and "feed_bytes_loop m bytes now fw = (r, m')"
  shows "loop_result m c fw (normalize_attach_detach_input bytes (dm_chord m)) r m'"
  using assms
proof (induction "length bytes" arbitrary: bytes m c fw rule: less_induct)
  case less
  show ?case
  proof (cases bytes)
    case Nil
    then show ?thesis using less.prems by (auto simp: loop_result_def)
  next
    case (Cons b bs)
    obtain x n where x: "next_input (b # bs) (dm_chord m) = (x, n)" by (metis surj_pair)
    have n: "0 < n" using next_input_posD x by metis
    define N where "N = normalize_attach_detach_input (drop n (b # bs)) (dm_chord m)"
    have N: "normalize_attach_detach_input bytes (dm_chord m) = x # N"
      using normalize_next [OF x] Cons by (simp add: N_def)
    note spec = feed_byte_spec [OF less.prems(1-3), of x now]
    show ?thesis
    proof (cases "suffix (dm_chord m) (c @ [x])")
      case True
      then have "r = \<lparr>fr_forward = fw, fr_detached = True, fr_remaining = drop n (b # bs)\<rparr>"
        "m' = dm_reset m" "dm_held m @ [x] = dm_chord m"
        using spec [unfolded if_P [OF True]] less.prems(4) x
        unfolding Cons feed_bytes_loop_unfold by simp_all
      moreover have "dm_ok (dm_reset m)" by (simp add: dm_ok_def dm_reset_def)
      ultimately show ?thesis unfolding N loop_result_def
        using True by (auto simp: dm_reset_def N_def intro!: exI [of _ "[]"])
    next
      case False
      then obtain step m1 where s: "feed_byte_inner m x now = (step, m1)" "step \<noteq> FeedDetach"
        "dm_ok m1" "dm_chord m1 = dm_chord m" "holds_longest (c @ [x]) m1"
        "step_bytes step @ dm_held m1 = dm_held m @ [x]"
        using spec [unfolded if_not_P [OF False]] by blast
      have "feed_bytes_loop m1 (drop n (b # bs)) now (fw @ step_bytes step) = (r, m')"
        using less.prems(4) s(2) unfolding Cons feed_bytes_loop_unfold by (simp add: x s(1))
      then have ih: "loop_result m1 (c @ [x]) (fw @ step_bytes step) N r m'"
        unfolding N_def s(4) [symmetric]
        using less.hyps [of "drop n (b # bs)" m1 "c @ [x]"] s(3-5) n Cons less.prems(2) by simp
      show ?thesis
      proof (cases "fr_detached r")
        case True
        then obtain p y q where q: "N = p @ y # q" "chord_absent (dm_chord m) (c @ [x]) p"
          "suffix (dm_chord m) ((c @ [x]) @ p @ [y])"
          "fr_forward r @ dm_chord m = fw @ step_bytes step @ dm_held m1 @ p @ [y]"
          "normalize_attach_detach_input (fr_remaining r) (dm_chord m) = q" "dm_held m' = []"
          using ih s(4) by (auto simp: loop_result_def)
        have "fr_forward r @ dm_chord m = fw @ dm_held m @ (x # p) @ [y]"
          using q(4) s(6) by (metis append.assoc append_Cons append_Nil)
        then show ?thesis unfolding N loop_result_def
          using q ih s(4) True chord_absent_Cons [OF False q(2)]
          by (auto simp: loop_result_def intro!: exI [of _ "x # p"])
      next
        case nd: False
        have "fr_forward r @ dm_held m' = fw @ dm_held m @ x # N"
          using ih nd s(6) by (simp add: loop_result_def)
        then show ?thesis unfolding N loop_result_def
          using ih nd s(4) chord_absent_Cons [OF False, of N] by (auto simp: loop_result_def)
      qed
    qed
  qed
qed


section \<open>Timeouts, and what a session relies on\<close>

lemma check_timeout_spec:
  assumes "dm_ok m" "check_timeout m now = (t, m')"
  shows "dm_ok m' \<and> dm_chord m' = dm_chord m \<and> dm_timeout m' = dm_timeout m
    \<and> dm_held m = (case t of Some h \<Rightarrow> h | None \<Rightarrow> []) @ dm_held m'"
  using assms by (cases "dm_held_at m") (auto simp: check_timeout_def dm_ok_def split: if_splits)

lemma holds_longest_self: "holds_longest (dm_held m) m"
  by (auto simp: holds_longest_def dest: suffix_length_le)

lemma feed_bytes_split:
  "feed_bytes m bytes now =
     (case check_timeout m now of
        (t, m1) \<Rightarrow> feed_bytes_loop m1 bytes now (case t of Some h \<Rightarrow> h | None \<Rightarrow> []))"
  by (simp add: feed_bytes_def Let_def split_def)

lemma feed_bytes_conserves:
  assumes "dm_ok m" "feed_bytes m bytes now = (r, m')"
  shows "dm_ok m' \<and> dm_chord m' = dm_chord m
    \<and> dm_held m @ normalize_attach_detach_input bytes (dm_chord m)
      = fr_forward r @ (if fr_detached r
          then dm_chord m @ normalize_attach_detach_input (fr_remaining r) (dm_chord m)
          else dm_held m')"
proof -
  obtain t m1 where t: "check_timeout m now = (t, m1)" by (metis surj_pair)
  define fw where "fw = (case t of Some h \<Rightarrow> h | None \<Rightarrow> [])"
  have m1: "dm_ok m1" "dm_chord m1 = dm_chord m" "dm_held m = fw @ dm_held m1"
    using check_timeout_spec [OF assms(1) t] by (auto simp: fw_def)
  have run: "feed_bytes_loop m1 bytes now fw = (r, m')"
    using assms(2) t by (simp add: feed_bytes_split fw_def)
  show ?thesis
  proof (cases "dm_chord m = []")
    case True
    have "normalize_attach_detach_input bytes [] = bytes" for bytes
      by (induction bytes) (simp_all add: parse_ctrl_detach_encoding_def ctrl_letter_detach_chord_def)
    moreover have "dm_held m1 = []" using m1 True by (auto simp: dm_ok_def)
    ultimately show ?thesis using run feed_bytes_loop_no_chord [of m1 bytes now fw] m1 True by auto
  next
    case False
    then have "loop_result m1 (dm_held m1) fw (normalize_attach_detach_input bytes (dm_chord m)) r m'"
      using feed_bytes_loop_spec [OF m1(1) _ holds_longest_self run] m1(2) by simp
    then show ?thesis using m1(2,3) by (auto simp: loop_result_def split: if_splits)
  qed
qed

text \<open>What attach mode needs of a matcher, whichever it is: reads and idle ticks keep
  its state well formed and its chord, and neither loses nor reorders a byte.\<close>

datatype poll = Chunk "u8 list" nat | Tick nat

fun poll_input :: "u8 list \<Rightarrow> poll \<Rightarrow> u8 list" where
  "poll_input chord (Chunk bs now) = normalize_attach_detach_input bs chord"
| "poll_input chord (Tick now) = []"

text \<open>The stdin side of a session: the forwarded bytes and, when the chord was
  completed, the rest of that read.\<close>

fun filter_run ::
    "('m \<Rightarrow> u8 list \<Rightarrow> nat \<Rightarrow> feed_result \<times> 'm) \<Rightarrow> ('m \<Rightarrow> nat \<Rightarrow> u8 list option \<times> 'm) \<Rightarrow>
     'm \<Rightarrow> poll list \<Rightarrow> u8 list \<times> u8 list option \<times> 'm" where
  "filter_run feed tick m [] = ([], None, m)"
| "filter_run feed tick m (Chunk bs now # polls) =
     (case feed m bs now of
        (r, m1) \<Rightarrow>
          if fr_detached r then (fr_forward r, Some (fr_remaining r), m1)
          else (case filter_run feed tick m1 polls of
                  (fw, d, m2) \<Rightarrow> (fr_forward r @ fw, d, m2)))"
| "filter_run feed tick m (Tick now # polls) =
     (case tick m now of
        (t, m1) \<Rightarrow>
          (case filter_run feed tick m1 polls of
             (fw, d, m2) \<Rightarrow> ((case t of Some h \<Rightarrow> h | None \<Rightarrow> []) @ fw, d, m2)))"

locale chord_filter =
  fixes feed :: "'m \<Rightarrow> u8 list \<Rightarrow> nat \<Rightarrow> feed_result \<times> 'm"
    and tick :: "'m \<Rightarrow> nat \<Rightarrow> u8 list option \<times> 'm"
    and held :: "'m \<Rightarrow> u8 list"
    and chord :: "'m \<Rightarrow> u8 list"
    and ok :: "'m \<Rightarrow> bool"
  assumes feed_law: "ok m \<Longrightarrow> feed m bs now = (r, m') \<Longrightarrow>
      ok m' \<and> chord m' = chord m
      \<and> held m @ normalize_attach_detach_input bs (chord m)
        = fr_forward r @ (if fr_detached r
            then chord m @ normalize_attach_detach_input (fr_remaining r) (chord m)
            else held m')"
    and tick_law: "ok m \<Longrightarrow> tick m now = (t, m') \<Longrightarrow>
      ok m' \<and> chord m' = chord m \<and> held m = (case t of Some h \<Rightarrow> h | None \<Rightarrow> []) @ held m'"
begin

lemma run_conserves:
  "ok m \<Longrightarrow> filter_run feed tick m polls = (fw, d, m') \<Longrightarrow>
   ok m' \<and> chord m' = chord m \<and>
   (case d of
      None \<Rightarrow> held m @ concat (map (poll_input (chord m)) polls) = fw @ held m'
    | Some rest \<Rightarrow> \<exists>n \<le> length polls. held m @ concat (map (poll_input (chord m)) (take n polls))
          = fw @ chord m @ normalize_attach_detach_input rest (chord m))"
proof (induction polls arbitrary: m fw)
  case (Cons p polls)
  have step: ?case
    if ok1: "ok m1" "chord m1 = chord m" "held m @ poll_input (chord m) p = a @ held m1"
      and rest: "filter_run feed tick m1 polls = (fw', d, m')" "fw = a @ fw'" for m1 a fw'
  proof (cases d)
    case None
    then show ?thesis using Cons.IH [OF ok1(1) rest(1)] ok1 rest(2) by simp (metis append.assoc)
  next
    case (Some r)
    then obtain n where n: "n \<le> length polls"
      "held m1 @ concat (map (poll_input (chord m)) (take n polls))
         = fw' @ chord m @ normalize_attach_detach_input r (chord m)"
      using Cons.IH [OF ok1(1) rest(1)] ok1(2) by auto
    then have "held m @ concat (map (poll_input (chord m)) (take (Suc n) (p # polls)))
        = fw @ chord m @ normalize_attach_detach_input r (chord m)"
      using ok1(3) rest(2) by simp (metis append.assoc)
    then show ?thesis using n(1) Cons.IH [OF ok1(1) rest(1)] ok1(2) Some
      by (auto intro!: exI [of _ "Suc n"])
  qed
  show ?case
  proof (cases p)
    case (Chunk bs now)
    obtain r m1 where r: "feed m bs now = (r, m1)" by (metis surj_pair)
    note law = feed_law [OF Cons.prems(1) r]
    show ?thesis
    proof (cases "fr_detached r")
      case True
      then have "fw = fr_forward r" "d = Some (fr_remaining r)" "m' = m1"
        using Cons.prems(2) Chunk r by auto
      then show ?thesis using law True Chunk by (auto intro!: exI [of _ "Suc 0"])
    next
      case False
      then obtain fw' where "filter_run feed tick m1 polls = (fw', d, m')" "fw = fr_forward r @ fw'"
        using Cons.prems(2) Chunk r by (auto split: prod.splits)
      then show ?thesis
        by (intro step [of m1 "fr_forward r" fw']) (use law False Chunk in simp_all)
    qed
  next
    case (Tick now)
    obtain t m1 where t: "tick m now = (t, m1)" by (metis surj_pair)
    then obtain fw' where "filter_run feed tick m1 polls = (fw', d, m')"
      "fw = (case t of Some h \<Rightarrow> h | None \<Rightarrow> []) @ fw'"
      using Cons.prems(2) Tick by (auto split: prod.splits)
    then show ?thesis
      by (intro step [of m1 "case t of Some h \<Rightarrow> h | None \<Rightarrow> []" fw'])
        (use tick_law [OF Cons.prems(1) t] Tick in simp_all)
  qed
qed auto

end

interpretation attach_matcher: chord_filter feed_bytes check_timeout dm_held dm_chord dm_ok
  using feed_bytes_conserves check_timeout_spec by unfold_locales blast+


section \<open>The matcher of the pane manager\<close>

record manager_detach_matcher =
  mm_chord :: "u8 list"
  mm_timeout :: nat
  mm_held :: "u8 list"
  mm_held_at :: "nat list"

datatype manager_feed_step =
  M_ForwardNone | M_ForwardByte u8 | M_ForwardBytes "u8 list" | M_Detach

definition mm_new :: "detach_config \<Rightarrow> manager_detach_matcher" where
  "mm_new cfg =
     \<lparr>mm_chord = dc_chord cfg, mm_timeout = dc_partial_timeout cfg, mm_held = [], mm_held_at = []\<rparr>"

definition mm_reset :: "manager_detach_matcher \<Rightarrow> manager_detach_matcher" where
  "mm_reset m = m \<lparr>mm_held := [], mm_held_at := []\<rparr>"

definition mm_feed_byte_inner ::
    "manager_detach_matcher \<Rightarrow> u8 \<Rightarrow> nat \<Rightarrow> manager_feed_step \<times> manager_detach_matcher" where
  "mm_feed_byte_inner m byte now =
     (if mm_chord m = [] then (M_ForwardByte byte, m)
      else if mm_held m = [] then
        (if byte = mm_chord m ! 0 then
           (let m = m \<lparr>mm_held := mm_held m @ [byte], mm_held_at := mm_held_at m @ [now]\<rparr>
            in if length (mm_chord m) = 1 then (M_Detach, mm_reset m) else (M_ForwardNone, m))
         else (M_ForwardByte byte, m))
      else if length (mm_held m) < length (mm_chord m) \<and> byte = mm_chord m ! length (mm_held m) then
        (let m = m \<lparr>mm_held := mm_held m @ [byte], mm_held_at := mm_held_at m @ [now]\<rparr>
         in if length (mm_held m) = length (mm_chord m) then (M_Detach, mm_reset m)
            else (M_ForwardNone, m))
      else
        (let combined = mm_held m @ [byte];
             combined_at = mm_held_at m @ [now];
             suffix_len = overlap_len (min (length combined) (length (mm_chord m))) combined (mm_chord m);
             (held, held_at, forward) =
               (if suffix_len = 0 then ([], [], combined)
                else (drop (length combined - suffix_len) combined,
                      drop (length combined - suffix_len) combined_at,
                      take (length combined - suffix_len) combined))
         in (if forward = [] then M_ForwardNone
             else if length forward = 1 then M_ForwardByte (forward ! 0)
             else M_ForwardBytes forward,
             m \<lparr>mm_held := held, mm_held_at := held_at\<rparr>)))"

definition mm_check_timeout ::
    "manager_detach_matcher \<Rightarrow> nat \<Rightarrow> u8 list option \<times> manager_detach_matcher" where
  "mm_check_timeout m now =
     (case mm_held_at m of
        [] \<Rightarrow> (None, m)
      | start # _ \<Rightarrow>
          if now - start \<ge> mm_timeout m then
            (if mm_held m \<noteq> [] then Some (mm_held m) else None,
             m \<lparr>mm_held := [], mm_held_at := []\<rparr>)
          else (None, m))"

function mm_feed_bytes_loop ::
    "manager_detach_matcher \<Rightarrow> u8 list \<Rightarrow> nat \<Rightarrow> u8 list \<Rightarrow> feed_result \<times> manager_detach_matcher"
where
  "mm_feed_bytes_loop m [] now forward =
     (\<lparr>fr_forward = forward, fr_detached = False, fr_remaining = []\<rparr>, m)"
| "mm_feed_bytes_loop m (b # bs) now forward =
     (case next_input (b # bs) (mm_chord m) of
        (byte, consumed) \<Rightarrow>
          (case mm_feed_byte_inner m byte now of
             (M_ForwardNone, m') \<Rightarrow> mm_feed_bytes_loop m' (drop consumed (b # bs)) now forward
           | (M_ForwardByte c, m') \<Rightarrow>
               mm_feed_bytes_loop m' (drop consumed (b # bs)) now (forward @ [c])
           | (M_ForwardBytes cs, m') \<Rightarrow>
               mm_feed_bytes_loop m' (drop consumed (b # bs)) now (forward @ cs)
           | (M_Detach, m') \<Rightarrow>
               (\<lparr>fr_forward = forward, fr_detached = True,
                 fr_remaining = drop consumed (b # bs)\<rparr>, m')))"
  by pat_completeness auto
termination
  by (relation "measure (\<lambda>(m, bytes, now, forward). length bytes)") (auto dest: next_input_posD)

definition mm_feed_bytes ::
    "manager_detach_matcher \<Rightarrow> u8 list \<Rightarrow> nat \<Rightarrow> feed_result \<times> manager_detach_matcher" where
  "mm_feed_bytes m bytes now =
     (let (timed, m) = mm_check_timeout m now;
          forward = (case timed of Some h \<Rightarrow> h | None \<Rightarrow> [])
      in mm_feed_bytes_loop m bytes now forward)"

text \<open>The manager's matcher seen as the attach crate's.\<close>

definition as_dm :: "manager_detach_matcher \<Rightarrow> detach_matcher" where
  "as_dm m = \<lparr>dm_chord = mm_chord m, dm_timeout = mm_timeout m, dm_held = mm_held m,
     dm_held_at = mm_held_at m\<rparr>"

fun as_step :: "manager_feed_step \<Rightarrow> feed_step" where
  "as_step M_ForwardNone = ForwardNone"
| "as_step (M_ForwardByte b) = ForwardByte b"
| "as_step (M_ForwardBytes bs) = ForwardBytes bs"
| "as_step M_Detach = FeedDetach"

lemma as_dm_simps [simp]:
  "dm_chord (as_dm m) = mm_chord m" "dm_timeout (as_dm m) = mm_timeout m"
  "dm_held (as_dm m) = mm_held m" "dm_held_at (as_dm m) = mm_held_at m"
  by (simp_all add: as_dm_def)

lemma as_dm_feed_byte:
  "feed_byte_inner (as_dm m) b now = map_prod as_step as_dm (mm_feed_byte_inner m b now)"
proof -
  have s: "as_step (if f = [] then M_ForwardNone else if length f = 1 then M_ForwardByte (f ! 0)
      else M_ForwardBytes f) = forward_step f" for f
    by (simp add: forward_step_def)
  show ?thesis
    unfolding feed_byte_inner_def mm_feed_byte_inner_def as_dm_simps Let_def if_distrib [of "map_prod as_step as_dm"]
    by (intro if_cong refl)
      (simp_all add: dm_push_def mm_reset_def dm_reset_def as_dm_def s split del: if_split,
       simp_all add: forward_step_def)
qed

lemma as_dm_check_timeout:
  "check_timeout (as_dm m) now = map_prod id as_dm (mm_check_timeout m now)"
  by (simp add: check_timeout_def mm_check_timeout_def as_dm_def split: list.split)

lemma as_dm_feed_loop:
  "feed_bytes_loop (as_dm m) bytes now fw = map_prod id as_dm (mm_feed_bytes_loop m bytes now fw)"
proof (induction "length bytes" arbitrary: bytes m fw rule: less_induct)
  case less
  show ?case
  proof (cases bytes)
    case (Cons b bs)
    obtain x n where x: "next_input (b # bs) (mm_chord m) = (x, n)" by (metis surj_pair)
    obtain st m1 where s: "mm_feed_byte_inner m x now = (st, m1)" by (metis surj_pair)
    have f: "feed_byte_inner (as_dm m) x now = (as_step st, as_dm m1)"
      by (simp add: as_dm_feed_byte s)
    have ih: "feed_bytes_loop (as_dm m1) (drop n (b # bs)) now fw'
        = map_prod id as_dm (mm_feed_bytes_loop m1 (drop n (b # bs)) now fw')" for fw'
      using less.hyps [of "drop n (b # bs)"] next_input_posD [OF x [symmetric]] Cons by simp
    show ?thesis unfolding Cons by (cases st) (simp_all add: x s f ih del: drop_Suc_Cons)
  qed simp
qed

lemma as_dm_feed_bytes:
  "feed_bytes (as_dm m) bytes now = map_prod id as_dm (mm_feed_bytes m bytes now)"
  by (simp add: feed_bytes_def mm_feed_bytes_def as_dm_check_timeout as_dm_feed_loop Let_def split_def)

definition mm_ok :: "manager_detach_matcher \<Rightarrow> bool" where
  "mm_ok m = dm_ok (as_dm m)"

interpretation manager_matcher:
  chord_filter mm_feed_bytes mm_check_timeout mm_held mm_chord mm_ok
proof
  fix m bs now r m'
  assume "mm_ok m" "mm_feed_bytes m bs now = (r, m')"
  then show "mm_ok m' \<and> mm_chord m' = mm_chord m
      \<and> mm_held m @ normalize_attach_detach_input bs (mm_chord m)
        = fr_forward r @ (if fr_detached r
            then mm_chord m @ normalize_attach_detach_input (fr_remaining r) (mm_chord m)
            else mm_held m')"
    using feed_bytes_conserves [of "as_dm m" bs now r "as_dm m'"]
    by (simp add: mm_ok_def as_dm_feed_bytes)
next
  fix m now t m'
  assume "mm_ok m" "mm_check_timeout m now = (t, m')"
  then show "mm_ok m' \<and> mm_chord m' = mm_chord m
      \<and> mm_held m = (case t of Some h \<Rightarrow> h | None \<Rightarrow> []) @ mm_held m'"
    using check_timeout_spec [of "as_dm m" now t "as_dm m'"]
    by (simp add: mm_ok_def as_dm_check_timeout)
qed


section \<open>Several reads within the timeout\<close>

lemma feed_byte_held_at:
  "set (dm_held_at (snd (feed_byte_inner m b now))) \<subseteq> insert now (set (dm_held_at m))"
proof -
  have d: "set (drop n (dm_held_at m @ [now])) \<subseteq> insert now (set (dm_held_at m))" for n
    using set_drop_subset [of n "dm_held_at m @ [now]"] by simp
  show ?thesis
    unfolding feed_byte_inner_def Let_def
    by (rule if_both [where P = "\<lambda>p. set (dm_held_at (snd p)) \<subseteq> insert now (set (dm_held_at m))"]
        | simp add: dm_push_def dm_reset_def d subset_insertI del: drop_append)+
qed

lemma feed_loop_held_at:
  "set (dm_held_at (snd (feed_bytes_loop m bytes now fw))) \<subseteq> insert now (set (dm_held_at m))"
proof (induction "length bytes" arbitrary: bytes m fw rule: less_induct)
  case less
  show ?case
  proof (cases bytes)
    case (Cons b bs)
    obtain x n where x: "next_input (b # bs) (dm_chord m) = (x, n)" by (metis surj_pair)
    obtain st m1 where s: "feed_byte_inner m x now = (st, m1)" by (metis surj_pair)
    have m1: "set (dm_held_at m1) \<subseteq> insert now (set (dm_held_at m))"
      using feed_byte_held_at [of m x now] s by simp
    have "set (dm_held_at (snd (feed_bytes_loop m1 (drop n (b # bs)) now (fw @ step_bytes st))))
        \<subseteq> insert now (set (dm_held_at m1))"
      using less.hyps [of "drop n (b # bs)"] next_input_posD [OF x [symmetric]] Cons by simp
    then show ?thesis using m1 unfolding Cons feed_bytes_loop_unfold by (auto simp: x s)
  qed auto
qed

lemma feed_loop_timeout: "dm_timeout (snd (feed_bytes_loop m bytes now fw)) = dm_timeout m"
proof (induction "length bytes" arbitrary: bytes m fw rule: less_induct)
  case less
  show ?case
  proof (cases bytes)
    case (Cons b bs)
    obtain x n where x: "next_input (b # bs) (dm_chord m) = (x, n)" by (metis surj_pair)
    obtain st m1 where s: "feed_byte_inner m x now = (st, m1)" by (metis surj_pair)
    have "dm_timeout m1 = dm_timeout m" using feed_byte_timeout [of m x now] s by simp
    moreover have "dm_timeout (snd (feed_bytes_loop m1 (drop n (b # bs)) now (fw @ step_bytes st)))
        = dm_timeout m1"
      using less.hyps [of "drop n (b # bs)"] next_input_posD [OF x [symmetric]] Cons by simp
    ultimately show ?thesis unfolding Cons feed_bytes_loop_unfold by (simp add: x s)
  qed simp
qed

lemma chord_absent_append:
  assumes "chord_absent chord c xs" "chord_absent chord (c @ xs) ys"
  shows "chord_absent chord c (xs @ ys)"
  unfolding chord_absent_def
proof (intro allI impI)
  fix p assume p: "p \<noteq> [] \<and> prefix p (xs @ ys)"
  show "\<not> suffix chord (c @ p)"
  proof (cases "prefix p xs")
    case False
    then obtain z where "p = xs @ z" "prefix z ys" using p by (auto simp: prefix_append)
    moreover from this False have "z \<noteq> []" by auto
    ultimately show ?thesis using assms(2) by (auto simp: chord_absent_def)
  qed (use p assms(1) in \<open>auto simp: chord_absent_def\<close>)
qed

lemma chord_absent_iff: "chord \<noteq> [] \<Longrightarrow> chord_absent chord [] xs \<longleftrightarrow> \<not> sublist chord xs"
proof
  assume ch: "chord \<noteq> []" and a: "chord_absent chord [] xs"
  show "\<not> sublist chord xs"
  proof
    assume "sublist chord xs"
    then obtain u v where "xs = u @ chord @ v" by (auto simp: sublist_def)
    then have "prefix (u @ chord) xs" "u @ chord \<noteq> []" using ch by auto
    then have "\<not> suffix chord ([] @ u @ chord)" using a unfolding chord_absent_def by blast
    then show False by (auto simp: suffix_def)
  qed
next
  assume "\<not> sublist chord xs"
  show "chord_absent chord [] xs"
    unfolding chord_absent_def
  proof (intro allI impI notI)
    fix p assume p: "p \<noteq> [] \<and> prefix p xs" "suffix chord ([] @ p)"
    obtain u where "p = u @ chord" using p(2) by (auto simp: suffix_def)
    moreover obtain v where "xs = p @ v" using p(1) by (auto simp: prefix_def)
    ultimately have "sublist chord xs" by (auto simp: sublist_def)
    then show False using \<open>\<not> sublist chord xs\<close> by blast
  qed
qed

definition chunk_polls :: "(u8 list \<times> nat) list \<Rightarrow> poll list" where
  "chunk_polls cs = map (\<lambda>(bs, now). Chunk bs now) cs"

definition chunk_input :: "u8 list \<Rightarrow> (u8 list \<times> nat) list \<Rightarrow> u8 list" where
  "chunk_input chord cs = concat (map (\<lambda>(bs, now). normalize_attach_detach_input bs chord) cs)"

lemma chunk_simps [simp]:
  "chunk_polls [] = []" "chunk_polls ((bs, now) # cs) = Chunk bs now # chunk_polls cs"
  "chunk_input ch [] = []"
  "chunk_input ch ((bs, now) # cs) = normalize_attach_detach_input bs ch @ chunk_input ch cs"
  by (simp_all add: chunk_polls_def chunk_input_def)

lemma chunks_spec:
  assumes "dm_ok m" "dm_chord m \<noteq> []" "holds_longest c m"
    and "\<forall>t\<in>set (dm_held_at m). t0 \<le> t"
    and "\<forall>(bs, now)\<in>set cs. t0 \<le> now \<and> now < t0 + dm_timeout m"
    and "filter_run feed_bytes check_timeout m (chunk_polls cs) = (fw, d, m')"
  shows "case d of
      None \<Rightarrow> chord_absent (dm_chord m) c (chunk_input (dm_chord m) cs)
        \<and> fw @ dm_held m' = dm_held m @ chunk_input (dm_chord m) cs
    | Some rest \<Rightarrow> \<exists>p x q. chunk_input (dm_chord m) cs = p @ x # q
        \<and> chord_absent (dm_chord m) c p \<and> suffix (dm_chord m) (c @ p @ [x])
        \<and> fw @ dm_chord m = dm_held m @ p @ [x]"
  using assms
proof (induction cs arbitrary: m c fw)
  case (Cons bn cs)
  obtain bs now where bn: "bn = (bs, now)" by fastforce
  have now: "t0 \<le> now" "now < t0 + dm_timeout m" using Cons.prems(5) bn by auto
  have "check_timeout m now = (None, m)"
    using now Cons.prems(4) by (cases "dm_held_at m") (auto simp: check_timeout_def)
  then have fb: "feed_bytes m bs now = feed_bytes_loop m bs now []"
    by (simp add: feed_bytes_split)
  obtain r m1 where r: "feed_bytes_loop m bs now [] = (r, m1)" by (metis surj_pair)
  define N where "N = normalize_attach_detach_input bs (dm_chord m)"
  have lr: "loop_result m c [] N r m1"
    unfolding N_def by (rule feed_bytes_loop_spec [OF Cons.prems(1-3) r])
  have input: "chunk_input (dm_chord m) (bn # cs) = N @ chunk_input (dm_chord m) cs"
    by (simp add: bn N_def)
  show ?case
  proof (cases "fr_detached r")
    case True
    then have "fw = fr_forward r" "d = Some (fr_remaining r)"
      using Cons.prems(6) fb r by (auto simp: bn)
    then show ?thesis using lr True unfolding input by (auto simp: loop_result_def)
  next
    case False
    then obtain fw' where rest: "filter_run feed_bytes check_timeout m1 (chunk_polls cs) = (fw', d, m')"
      "fw = fr_forward r @ fw'"
      using Cons.prems(6) fb r by (auto simp: bn split: prod.splits)
    have lr': "dm_ok m1" "dm_chord m1 = dm_chord m" "chord_absent (dm_chord m) c N"
      "holds_longest (c @ N) m1" "fr_forward r @ dm_held m1 = dm_held m @ N"
      using lr False by (auto simp: loop_result_def)
    have t1: "\<forall>t\<in>set (dm_held_at m1). t0 \<le> t"
      using feed_loop_held_at [of m bs now "[]"] r Cons.prems(4) now by auto
    have to: "dm_timeout m1 = dm_timeout m"
      using feed_loop_timeout [of m bs now "[]"] r by simp
    have p2: "dm_chord m1 \<noteq> []" using Cons.prems(2) lr'(2) by simp
    have p5: "\<forall>(bs, now)\<in>set cs. t0 \<le> now \<and> now < t0 + dm_timeout m1"
      using Cons.prems(5) to by auto
    have ih: "case d of
        None \<Rightarrow> chord_absent (dm_chord m) (c @ N) (chunk_input (dm_chord m) cs)
          \<and> fw' @ dm_held m' = dm_held m1 @ chunk_input (dm_chord m) cs
      | Some rest \<Rightarrow> \<exists>p x q. chunk_input (dm_chord m) cs = p @ x # q
          \<and> chord_absent (dm_chord m) (c @ N) p \<and> suffix (dm_chord m) ((c @ N) @ p @ [x])
          \<and> fw' @ dm_chord m = dm_held m1 @ p @ [x]"
      using Cons.IH [OF lr'(1) p2 lr'(4) t1 p5 rest(1)] unfolding lr'(2) .
    show ?thesis
    proof (cases d)
      case None
      then show ?thesis using ih lr' rest(2) unfolding input
        by (auto intro: chord_absent_append)
    next
      case (Some z)
      then obtain p x q where "chunk_input (dm_chord m) cs = p @ x # q"
        "chord_absent (dm_chord m) (c @ N) p" "suffix (dm_chord m) ((c @ N) @ p @ [x])"
        "fw' @ dm_chord m = dm_held m1 @ p @ [x]"
        using ih by auto
      moreover from this have "fw @ dm_chord m = dm_held m @ (N @ p) @ [x]"
        using lr'(5) rest(2) by (metis append.assoc)
      ultimately show ?thesis using Some lr'(3) unfolding input
        by (auto intro!: exI [of _ "N @ p"] chord_absent_append)
    qed
  qed
qed auto


lemma new_matcher_ok:
  "dm_ok (detach_matcher_new cfg)" "holds_longest [] (detach_matcher_new cfg)"
  by (auto simp: dm_ok_def holds_longest_def detach_matcher_new_def)


section \<open>Properties\<close>

text \<open>C8: the chord is recognised exactly. A session's reads, however they are cut, as
  long as they all fall within the partial-match timeout, detach if and only if the
  chord occurs in the normalised input; then exactly the bytes in front of its first
  occurrence have been forwarded, and otherwise everything but the held bytes has.\<close>

theorem matcher_detects_first:
  assumes "dc_chord cfg \<noteq> []"
    and "\<forall>(bs, now)\<in>set cs. t0 \<le> now \<and> now < t0 + dc_partial_timeout cfg"
    and "filter_run feed_bytes check_timeout (detach_matcher_new cfg) (chunk_polls cs) = (fw, d, m')"
  shows "(d = None \<longleftrightarrow> \<not> sublist (dc_chord cfg) (chunk_input (dc_chord cfg) cs))
    \<and> (d = None \<longrightarrow> fw @ dm_held m' = chunk_input (dc_chord cfg) cs)
    \<and> (d \<noteq> None \<longrightarrow> (\<exists>q. chunk_input (dc_chord cfg) cs = fw @ dc_chord cfg @ q)
          \<and> \<not> sublist (dc_chord cfg) (fw @ butlast (dc_chord cfg)))"
proof -
  let ?m = "detach_matcher_new cfg" and ?N = "chunk_input (dc_chord cfg) cs"
  have c: "dm_chord ?m = dc_chord cfg" "dm_held ?m = []" "dm_held_at ?m = []"
    "dm_timeout ?m = dc_partial_timeout cfg" by (simp_all add: detach_matcher_new_def)
  note absent = chord_absent_iff [OF assms(1)]
  have ch: "dm_chord ?m \<noteq> []" and h: "\<forall>t\<in>set (dm_held_at ?m). t0 \<le> t"
    and tm: "\<forall>(bs, now)\<in>set cs. t0 \<le> now \<and> now < t0 + dm_timeout ?m"
    using assms(1,2) c by simp_all
  have "case d of
      None \<Rightarrow> chord_absent (dc_chord cfg) [] ?N \<and> fw @ dm_held m' = ?N
    | Some rest \<Rightarrow> \<exists>p x q. ?N = p @ x # q \<and> chord_absent (dc_chord cfg) [] p
        \<and> suffix (dc_chord cfg) ([] @ p @ [x]) \<and> fw @ dc_chord cfg = p @ [x]"
    using chunks_spec [OF new_matcher_ok(1) ch new_matcher_ok(2) h tm assms(3)]
    unfolding c append_Nil .
  then show ?thesis
  proof (cases d)
    case (Some rest)
    then obtain p x q where e: "?N = p @ x # q" "chord_absent (dc_chord cfg) [] p"
      "fw @ dc_chord cfg = p @ [x]"
      using \<open>case d of None \<Rightarrow> _ | Some rest \<Rightarrow> _ rest\<close> by auto
    have "p = fw @ butlast (dc_chord cfg)"
      using e(3) assms(1) by (metis butlast_append butlast_snoc)
    moreover have n: "?N = fw @ dc_chord cfg @ q" using e(1,3) by (metis append.assoc append_Cons append_Nil)
    moreover have "sublist (dc_chord cfg) ?N" unfolding n by (auto simp: sublist_def)
    ultimately show ?thesis using e(2) absent Some by auto
  qed (use absent in auto)
qed

lemma matcher_detects_first_witness:
  "let cfg = \<lparr>dc_chord = [0x01, 0x64], dc_partial_timeout = 500\<rparr>;
       cs = [([0x6c, 0x01], 10), ([0x01], 20), ([0x64, 0x78], 30)]
   in fst (filter_run feed_bytes check_timeout (detach_matcher_new cfg) (chunk_polls cs)) = [0x6c, 0x01]
      \<and> fst (snd (filter_run feed_bytes check_timeout (detach_matcher_new cfg) (chunk_polls cs))) \<noteq> None
      \<and> sublist [0x01, 0x64] (chunk_input [0x01, 0x64] cs)"
proof -
  define cfg where "cfg = \<lparr>dc_chord = [0x01, 0x64 :: u8], dc_partial_timeout = 500\<rparr>"
  define cs where "cs = [([0x6c, 0x01 :: u8], 10 :: nat), ([0x01], 20), ([0x64, 0x78], 30)]"
  obtain fw d m' where run:
    "filter_run feed_bytes check_timeout (detach_matcher_new cfg) (chunk_polls cs) = (fw, d, m')"
    by (metis surj_pair)
  have a: "dc_chord cfg \<noteq> []" "dc_chord cfg = [0x01, 0x64]"
    "\<forall>(bs, now)\<in>set cs. 0 \<le> now \<and> now < 0 + dc_partial_timeout cfg"
    by (simp_all add: cfg_def cs_def)
  have n: "chunk_input [0x01, 0x64] cs = [0x6c, 0x01, 0x01, 0x64, 0x78]"
    by (simp add: cs_def parse_ctrl_detach_encoding_def ctrl_letter_detach_chord_def)
  note det = matcher_detects_first [OF a(1,3) run, unfolded a(2) n]
  have s: "sublist [0x01, 0x64] [0x6c, 0x01, 0x01, 0x64, 0x78 :: u8]"
    unfolding sublist_def by (intro exI [of _ "[0x6c, 0x01]"] exI [of _ "[0x78]"]) simp
  then have d: "d \<noteq> None" using det by simp
  then obtain q where q: "[0x6c, 0x01, 0x01, 0x64, 0x78 :: u8] = fw @ [0x01, 0x64] @ q" using det by blast
  have "fw = [0x6c, 0x01]"
    using q by (cases fw; cases "tl fw"; cases "tl (tl fw)"; cases "tl (tl (tl fw))") auto
  then show ?thesis using run d s n by (simp add: cfg_def cs_def Let_def)
qed

text \<open>C23: nothing typed is lost, whatever the timing. Over any sequence of reads and
  idle ticks of an attached session of the pane manager, the bytes held at the start
  followed by the normalised input are the forwarded bytes followed by the bytes
  still held; and when the chord ends the session, the forwarded bytes, the chord
  and the normalised rest of the read are the input up to that read.\<close>

theorem manager_input_conserved:
  assumes "mm_ok m"
    and "filter_run mm_feed_bytes mm_check_timeout m polls = (fw, d, m')"
  shows "mm_ok m' \<and> mm_chord m' = mm_chord m \<and>
   (case d of
      None \<Rightarrow> mm_held m @ concat (map (poll_input (mm_chord m)) polls) = fw @ mm_held m'
    | Some rest \<Rightarrow> \<exists>n \<le> length polls.
        mm_held m @ concat (map (poll_input (mm_chord m)) (take n polls))
          = fw @ mm_chord m @ normalize_attach_detach_input rest (mm_chord m))"
  by (rule manager_matcher.run_conserves [OF assms])

lemma manager_input_conserved_witness:
  "\<exists>fw m'. filter_run mm_feed_bytes mm_check_timeout (mm_new \<lparr>dc_chord = [0x01, 0x64], dc_partial_timeout = 5\<rparr>)
       [Chunk [0x01] 0, Tick 7] = (fw, None, m') \<and> [0x01] = fw @ mm_held m'"
proof -
  let ?m = "mm_new \<lparr>dc_chord = [0x01, 0x64], dc_partial_timeout = 5\<rparr>"
  obtain fw d m' where run: "filter_run mm_feed_bytes mm_check_timeout ?m [Chunk [0x01] 0, Tick 7] = (fw, d, m')"
    by (metis surj_pair)
  have ok: "mm_ok ?m" by (simp add: mm_ok_def dm_ok_def mm_new_def)
  have "d = None" using run
    by (auto simp: mm_feed_bytes_def mm_check_timeout_def mm_new_def next_input_def
        parse_ctrl_detach_encoding_def ctrl_letter_detach_chord_def mm_feed_byte_inner_def
        split: prod.splits)
  then show ?thesis using manager_input_conserved [OF ok run] run
    by (simp add: mm_new_def parse_ctrl_detach_encoding_def ctrl_letter_detach_chord_def)
qed

text \<open>C24: the two copies of the matcher agree. From corresponding states the manager's
  matcher and the attach crate's give the same result for every read and every
  timeout check, and end in corresponding states.\<close>

theorem matchers_agree:
  "feed_bytes (as_dm m) bytes now = map_prod id as_dm (mm_feed_bytes m bytes now)
   \<and> check_timeout (as_dm m) now = map_prod id as_dm (mm_check_timeout m now)
   \<and> detach_matcher_new cfg = as_dm (mm_new cfg)"
proof -
  have "detach_matcher_new cfg = as_dm (mm_new cfg)"
    by (simp add: detach_matcher_new_def as_dm_def mm_new_def)
  then show ?thesis by (simp only: as_dm_feed_bytes as_dm_check_timeout simp_thms)
qed

text \<open>Feeding single bytes never loses a timed-out partial match: when a byte
  completes the chord, no timed-out bytes are pending, so nothing is dropped with the
  detach; otherwise held and forwarded bytes account for the input.\<close>

lemma feed_byte_conserves:
  assumes "dm_ok m" "feed_byte m b now = (res, m')"
  shows "case res of
      Forward f \<Rightarrow> dm_held m @ [b] = f @ dm_held m'
    | MatchDetach \<Rightarrow> dm_held m @ [b] = dm_chord m \<and> dm_held m' = []"
proof -
  obtain t m1 where t: "check_timeout m now = (t, m1)" by (metis surj_pair)
  define fw where "fw = (case t of Some h \<Rightarrow> h | None \<Rightarrow> [])"
  have m1: "dm_ok m1" "dm_chord m1 = dm_chord m" "dm_held m = fw @ dm_held m1"
    using check_timeout_spec [OF assms(1) t] by (auto simp: fw_def)
  have fw1: "fw \<noteq> [] \<Longrightarrow> dm_held m1 = []"
    using t by (auto simp: check_timeout_def fw_def split: list.splits if_splits)
  obtain st m2 where s: "feed_byte_inner m1 b now = (st, m2)" by (metis surj_pair)
  have res: "res = (if st = FeedDetach then MatchDetach else Forward (fw @ step_bytes st))" "m' = m2"
    using assms(2) t s by (cases st; simp add: feed_byte_def fw_def)+
  show ?thesis
  proof (cases "dm_chord m = []")
    case True
    then show ?thesis using res s m1 by (auto simp: feed_byte_inner_def dm_ok_def)
  next
    case False
    then have ch: "dm_chord m1 \<noteq> []" using m1 by simp
    note spec = feed_byte_spec [OF m1(1) ch holds_longest_self, of b now]
    show ?thesis
    proof (cases "suffix (dm_chord m1) (dm_held m1 @ [b])")
      case True
      then have e: "st = FeedDetach" "m2 = dm_reset m1" "dm_held m1 @ [b] = dm_chord m1"
        using spec [unfolded if_P [OF True]] s by auto
      have "fw = []"
      proof (rule ccontr)
        assume "fw \<noteq> []"
        then have "dm_chord m1 = [b]" "dm_held m = fw" using fw1 e(3) m1(3) by auto
        moreover have "prefix fw (dm_chord m)" "length fw < length (dm_chord m)"
          using assms(1) \<open>fw \<noteq> []\<close> \<open>dm_held m = fw\<close> by (auto simp: dm_ok_def)
        ultimately show False using m1(2) \<open>fw \<noteq> []\<close> by (cases fw) auto
      qed
      then show ?thesis using e res m1 by (simp add: dm_reset_def)
    next
      case nf: False
      then have "st \<noteq> FeedDetach" "step_bytes st @ dm_held m2 = dm_held m1 @ [b]"
        using spec [unfolded if_not_P [OF nf]] s by auto
      then show ?thesis using res m1(3) by simp
    qed
  qed
qed

lemma feed_byte_conserves_witness:
  "fst (feed_byte (detach_matcher_new detach_config_default) 0x1d 0) = MatchDetach
   \<and> dm_held (snd (feed_byte (detach_matcher_new detach_config_default) 0x1d 0)) = []"
proof -
  have r: "feed_byte (detach_matcher_new detach_config_default) 0x1d 0
      = (MatchDetach, detach_matcher_new detach_config_default)"
    by (simp add: feed_byte_def check_timeout_def detach_matcher_new_def detach_config_default_def
        feed_byte_inner_def dm_push_def dm_reset_def)
  show ?thesis using feed_byte_conserves [OF new_matcher_ok(1) r] r by simp
qed

end
