(* ===== verification/Transcript.thy ===== *)
theory Transcript
  imports Core_Types "HOL-Library.Sublist"
begin

text \<open>
  Transcript recording (\<open>transcript.rs\<close>). The plain transcript, a \<open>String\<close> that is
  cut at byte offsets, is held as its UTF-8 bytes. Draining a string at an offset
  that is not a character boundary, and a length subtraction below zero, are panics
  in the source and are \<open>None\<close> here. Index loops run over the remaining suffix and
  carry the index where the source uses it.

  The lemmas give the accounting invariant that every operation keeps while no
  forced flush happens, show that the retained bytes are the end of the stream at
  the reported offsets, and that escape sequences and characters may be split over
  frames anywhere.
\<close>

section \<open>Stripping escape sequences\<close>

text \<open>The inner loops of \<open>strip_ansi\<close>: behind a CSI introducer, up to a final byte;
  behind a control string introducer, up to its terminator (BEL only for OSC).\<close>

fun strip_csi :: "rstr \<Rightarrow> rstr" where
  "strip_csi [] = []"
| "strip_csi (c # cs) = (if 0x40 \<le> c \<and> c \<le> 0x7e then cs else strip_csi cs)"

fun strip_control :: "bool \<Rightarrow> rstr \<Rightarrow> rstr" where
  "strip_control bel [] = []"
| "strip_control bel (c # cs) =
     (if bel \<and> c = 0x07 then cs
      else if c = 0x1b then
        (case cs of
           [] \<Rightarrow> []
         | d # ds \<Rightarrow> if d = 0x5c then ds else strip_control bel cs)
      else strip_control bel cs)"

lemma strip_csi_length: "length (strip_csi cs) \<le> length cs"
  by (induction cs) auto

lemma strip_control_length: "length (strip_control bel cs) \<le> length cs"
proof (induction bel cs rule: strip_control.induct)
  case (2 bel c cs)
  then show ?case
    by (cases cs) (auto simp: strip_control.simps(2) [of bel c] simp del: strip_control.simps)
qed simp

definition two_char_intro :: "nat \<Rightarrow> bool" where
  "two_char_intro c =
     (c \<in> {0x28, 0x29, 0x23, 0x25, 0x2a, 0x2b, 0x2d, 0x2e, 0x2f})"

function strip_chars :: "rstr \<Rightarrow> rstr" where
  "strip_chars [] = []"
| "strip_chars (ch # cs) =
     (if ch = 0x1b then
        (case cs of
           [] \<Rightarrow> ch # strip_chars cs
         | n # ns \<Rightarrow>
             if n = 0x5b then strip_chars (strip_csi ns)
             else if n = 0x5d then strip_chars (strip_control True ns)
             else if n = 0x50 \<or> n = 0x5f \<or> n = 0x5e \<or> n = 0x58 then
               strip_chars (strip_control False ns)
             else if two_char_intro n then strip_chars (drop 1 ns)
             else if n = 0x3d \<or> n = 0x3e \<or> n = 0x3c then strip_chars ns
             else if n = 0x37 \<or> n = 0x38 then strip_chars ns
             else if 0x40 \<le> n \<and> n \<le> 0x5f then strip_chars ns
             else ch # strip_chars cs)
      else ch # strip_chars cs)"
  by pat_completeness auto
termination
proof (relation "measure length", goal_cases)
  case (3 ch cs n ns)
  then show ?case using strip_csi_length [of ns] by simp
next
  case (4 ch cs n ns)
  then show ?case using strip_control_length [of True ns] by simp
next
  case (5 ch cs n ns)
  then show ?case using strip_control_length [of False ns] by simp
qed auto

declare strip_chars.simps(2) [simp del]

lemma strip_chars_plain [simp]: "ch \<noteq> 0x1b \<Longrightarrow> strip_chars (ch # cs) = ch # strip_chars cs"
  and strip_chars_lone [simp]: "strip_chars [0x1b] = [0x1b]"
  by (simp_all add: strip_chars.simps(2))

definition strip_escape :: "rchar \<Rightarrow> rstr \<Rightarrow> rstr \<Rightarrow> rstr" where
  "strip_escape n ns literal =
     (if n = 0x5b then strip_chars (strip_csi ns)
      else if n = 0x5d then strip_chars (strip_control True ns)
      else if n = 0x50 \<or> n = 0x5f \<or> n = 0x5e \<or> n = 0x58 then strip_chars (strip_control False ns)
      else if two_char_intro n then strip_chars (drop 1 ns)
      else if n = 0x3d \<or> n = 0x3e \<or> n = 0x3c \<or> n = 0x37 \<or> n = 0x38 \<or> (0x40 \<le> n \<and> n \<le> 0x5f)
        then strip_chars ns
      else literal)"

lemma strip_chars_esc:
  "strip_chars (0x1b # n # ns) = strip_escape n ns (0x1b # strip_chars (n # ns))"
  unfolding strip_chars.simps(2) [of "0x1b"] list.case strip_escape_def by simp

definition strip_ansi :: "u8 list \<Rightarrow> rstr" where
  "strip_ansi bytes = strip_chars (utf8_lossy bytes)"


section \<open>Holding back incomplete sequences\<close>

definition in_final_range :: "u8 \<Rightarrow> bool" where
  "in_final_range b = (0x40 \<le> b \<and> b \<le> 0x7e)"

text \<open>Behind \<open>ESC [\<close>: whether a final byte was found, and where scanning goes on.\<close>

fun skip_final :: "nat \<Rightarrow> u8 list \<Rightarrow> bool \<times> nat \<times> u8 list" where
  "skip_final i [] = (False, i, [])"
| "skip_final i (b # bs) =
     (if in_final_range b then (True, i + 1, bs) else skip_final (i + 1) bs)"

lemma skip_final_length: "skip_final i bs = (f, j, rest) \<Longrightarrow> length rest \<le> length bs"
  by (induction i bs rule: skip_final.induct) (auto split: if_splits)

text \<open>Inside a control string: it is closed, it is still open at the end of the
  buffer, or the buffer ends in a lone ESC, where the function returns at once.\<close>

lemma skip_final_lengthD: "(f, j, rest) = skip_final i bs \<Longrightarrow> length rest < Suc (Suc (length bs))"
  using skip_final_length [of i bs f j rest] by simp

datatype control_outcome = CS_Closed nat "u8 list" | CS_Open nat | CS_Cut

function control_scan :: "bool \<Rightarrow> nat \<Rightarrow> u8 list \<Rightarrow> control_outcome" where
  "control_scan bel i [] = CS_Open i"
| "control_scan bel i (b # bs) =
     (if bel \<and> b = 0x07 then CS_Closed (i + 1) bs
      else if b = 0x1b then
        (case bs of
           [] \<Rightarrow> CS_Cut
         | c # cs \<Rightarrow>
             if c = 0x5c then CS_Closed (i + 2) cs
             else if c = 0x5b then
               (case skip_final (i + 2) cs of (f, j, rest) \<Rightarrow> control_scan bel j rest)
             else control_scan bel (i + 2) cs)
      else control_scan bel (i + 1) bs)"
  by pat_completeness auto
termination
  by (relation "measure (\<lambda>(bel, i, bs). length bs)") (auto dest: skip_final_lengthD)

lemma control_scan_length: "control_scan bel i bs = CS_Closed j rest \<Longrightarrow> length rest \<le> length bs"
proof (induction bel i bs rule: control_scan.induct)
  case (2 bel i b bs)
  show ?case
  proof (cases "bs = [] \<or> b \<noteq> 0x1b \<or> (bel \<and> b = 0x07) \<or> hd bs \<noteq> 0x5b \<or> hd bs = 0x5c")
    case True
    then show ?thesis using 2 by (cases bs) (auto split: if_splits)
  next
    case False
    then obtain cs where cs: "bs = 0x5b # cs" by (cases bs) auto
    obtain f k r where k: "skip_final (i + 2) cs = (f, k, r)" by (metis surj_pair)
    then have "control_scan bel k r = CS_Closed j rest" using 2(4) False cs by (auto split: if_splits)
    then have "length rest \<le> length r" using 2(1) False cs k by auto
    then show ?thesis using skip_final_length [OF k] cs by simp
  qed
qed simp

definition open_length :: "nat \<Rightarrow> nat option \<Rightarrow> nat option \<Rightarrow> nat \<Rightarrow> nat" where
  "open_length len open_cs open_csi otherwise =
     (case open_cs of
        Some start \<Rightarrow> len - start
      | None \<Rightarrow> (case open_csi of Some start \<Rightarrow> len - start | None \<Rightarrow> otherwise))"

text \<open>The main loop: \<open>Inl n\<close> is an early return of \<open>n\<close>, \<open>Inr (cs, csi)\<close> the open
  starts at the end of the buffer.\<close>

function trailing_scan ::
    "nat \<Rightarrow> nat \<Rightarrow> u8 list \<Rightarrow> nat option \<Rightarrow> nat option \<Rightarrow> nat + (nat option \<times> nat option)" where
  "trailing_scan len i [] cs csi = Inr (cs, csi)"
| "trailing_scan len i (b # bs) cs csi =
     (if b \<noteq> 0x1b then trailing_scan len (i + 1) bs cs csi
      else (case bs of
        [] \<Rightarrow> Inl (open_length len cs csi 1)
      | n # ns \<Rightarrow>
          if n = 0x5b then
            (case skip_final (i + 2) ns of
               (found, j, rest) \<Rightarrow>
                 trailing_scan len j rest cs
                   (if cs = None then (if found then None else Some i) else csi))
          else if n = 0x5d then
            (case control_scan True (i + 2) ns of
               CS_Closed j rest \<Rightarrow> trailing_scan len j rest None csi
             | CS_Open j \<Rightarrow> trailing_scan len j [] (Some i) csi
             | CS_Cut \<Rightarrow> Inl (len - i))
          else if n = 0x50 \<or> n = 0x5f \<or> n = 0x5e \<or> n = 0x58 then
            (case control_scan False (i + 2) ns of
               CS_Closed j rest \<Rightarrow> trailing_scan len j rest None csi
             | CS_Open j \<Rightarrow> trailing_scan len j [] (Some (case cs of None \<Rightarrow> i | Some s \<Rightarrow> s)) csi
             | CS_Cut \<Rightarrow> Inl (len - (case cs of None \<Rightarrow> i | Some s \<Rightarrow> s)))
          else if two_char_intro (unat n) then
            (case ns of
               [] \<Rightarrow> Inl (open_length len cs csi (len - i))
             | p # rest \<Rightarrow> trailing_scan len (i + 3) rest cs csi)
          else trailing_scan len (i + 2) ns cs csi))"
  by pat_completeness auto
termination
  by (relation "measure (\<lambda>(len, i, bs, cs, csi). length bs)")
    (auto dest: control_scan_length skip_final_lengthD)

text \<open>The backwards search for an incomplete character, over the reversed buffer;
  \<open>k\<close> bytes behind the current one.\<close>

fun utf8_tail :: "nat \<Rightarrow> u8 list \<Rightarrow> nat" where
  "utf8_tail k [] = 0"
| "utf8_tail k (b # rb) =
     (if b AND 0x80 = 0 then 0
      else if b AND 0xC0 = 0xC0 then
        (let expected =
               (if b AND 0xE0 = 0xC0 then Some 2
                else if b AND 0xF0 = 0xE0 then Some 3
                else if b AND 0xF8 = 0xF0 then Some (4 :: nat)
                else None)
         in case expected of
              None \<Rightarrow> 0
            | Some e \<Rightarrow> if k + 1 < e then k + 1 else 0)
      else utf8_tail (k + 1) rb)"

definition trailing_incomplete_bytes :: "u8 list \<Rightarrow> nat" where
  "trailing_incomplete_bytes bytes =
     (if bytes = [] then 0
      else case trailing_scan (length bytes) 0 bytes None None of
             Inl n \<Rightarrow> n
           | Inr (cs, csi) \<Rightarrow> open_length (length bytes) cs csi (utf8_tail 0 (rev bytes)))"


section \<open>The transcript\<close>

record chunk =
  ch_raw_len :: nat
  ch_plain_len :: nat
  ch_lines :: nat

record transcript =
  tr_mode :: transcript_mode
  tr_raw :: "u8 list"
  tr_plain :: "u8 list"
  tr_chunks :: "chunk list"
  tr_max_bytes :: nat
  tr_max_lines :: nat
  tr_next_raw_offset :: nat
  tr_next_plain_offset :: nat
  tr_total_lines :: nat
  tr_pending :: "u8 list"

record transcript_rotation =
  rot_chunks_dropped :: nat
  rot_bytes_dropped :: nat
  rot_raw_bytes_dropped :: nat
  rot_plain_bytes_dropped :: nat

record transcript_record =
  rec_offset :: nat
  rec_rotated :: "transcript_rotation option"

definition transcript_new :: "transcript_config \<Rightarrow> transcript" where
  "transcript_new cfg =
     \<lparr>tr_mode = tc_mode cfg, tr_raw = [], tr_plain = [], tr_chunks = [],
      tr_max_bytes = tc_max_bytes cfg, tr_max_lines = tc_max_lines cfg,
      tr_next_raw_offset = 0, tr_next_plain_offset = 0, tr_total_lines = 0, tr_pending = []\<rparr>"

definition count_newlines :: "u8 list \<Rightarrow> nat" where
  "count_newlines bytes = length (filter (\<lambda>b. b = 0x0a) bytes)"

definition records_raw_bytes :: "transcript \<Rightarrow> bool" where
  "records_raw_bytes t = (tr_mode t = TM_RawBytes \<or> tr_mode t = TM_Both)"

definition retained_raw_start_offset :: "transcript \<Rightarrow> nat" where
  "retained_raw_start_offset t = tr_next_raw_offset t - length (tr_raw t)"

definition retained_plain_start_offset :: "transcript \<Rightarrow> nat" where
  "retained_plain_start_offset t = tr_next_plain_offset t - length (tr_plain t)"

definition checked_sub :: "nat \<Rightarrow> nat \<Rightarrow> nat option" where
  "checked_sub a b = (if b \<le> a then Some (a - b) else None)"

definition is_char_boundary :: "u8 list \<Rightarrow> nat \<Rightarrow> bool" where
  "is_char_boundary bs n =
     (n = 0 \<or> n = length bs \<or> (n < length bs \<and> \<not> is_cont (unat (bs ! n))))"

text \<open>The loop over the oldest chunks. Its accumulator is the chunks dropped, the
  raw and plain bytes dropped, and what remains of both and of the lines.\<close>

record limit_state =
  ls_dropped :: nat
  ls_raw_drop :: nat
  ls_plain_drop :: nat
  ls_raw :: nat
  ls_plain :: nat
  ls_lines :: nat

fun drop_chunks :: "nat \<Rightarrow> nat \<Rightarrow> chunk list \<Rightarrow> limit_state \<Rightarrow> (chunk list \<times> limit_state) option" where
  "drop_chunks max_bytes max_lines [] ls = Some ([], ls)"
| "drop_chunks max_bytes max_lines (c # cs) ls =
     (let over_bytes = (0 < max_bytes \<and> max_bytes < ls_raw ls + ls_plain ls);
          over_lines = (0 < max_lines \<and> max_lines < ls_lines ls)
      in if \<not> over_bytes \<and> \<not> over_lines then Some (c # cs, ls)
         else do {
           r \<leftarrow> checked_sub (ls_raw ls) (ch_raw_len c);
           p \<leftarrow> checked_sub (ls_plain ls) (ch_plain_len c);
           l \<leftarrow> checked_sub (ls_lines ls) (ch_lines c);
           drop_chunks max_bytes max_lines cs
             \<lparr>ls_dropped = ls_dropped ls + 1, ls_raw_drop = ls_raw_drop ls + ch_raw_len c,
              ls_plain_drop = ls_plain_drop ls + ch_plain_len c, ls_raw = r, ls_plain = p,
              ls_lines = l\<rparr>
         })"

definition enforce_limits :: "transcript \<Rightarrow> (transcript_rotation option \<times> transcript) option" where
  "enforce_limits t =
     (if tr_max_bytes t = 0 \<and> tr_max_lines t = 0 then Some (None, t)
      else do {
        (chunks, ls) \<leftarrow> drop_chunks (tr_max_bytes t) (tr_max_lines t) (tr_chunks t)
          \<lparr>ls_dropped = 0, ls_raw_drop = 0, ls_plain_drop = 0, ls_raw = length (tr_raw t),
           ls_plain = length (tr_plain t), ls_lines = tr_total_lines t\<rparr>;
        let t = t \<lparr>tr_chunks := chunks\<rparr>;
        if 0 < ls_dropped ls then do {
          let raw = (if 0 < ls_raw_drop ls
                     then drop (min (ls_raw_drop ls) (length (tr_raw t))) (tr_raw t) else tr_raw t);
          plain \<leftarrow> (if 0 < ls_plain_drop ls then
                      (let n = min (ls_plain_drop ls) (length (tr_plain t))
                       in if is_char_boundary (tr_plain t) n then Some (drop n (tr_plain t)) else None)
                    else Some (tr_plain t));
          Some (Some \<lparr>rot_chunks_dropped = ls_dropped ls,
                      rot_bytes_dropped = ls_raw_drop ls + ls_plain_drop ls,
                      rot_raw_bytes_dropped = ls_raw_drop ls,
                      rot_plain_bytes_dropped = ls_plain_drop ls\<rparr>,
                t \<lparr>tr_raw := raw, tr_plain := plain, tr_total_lines := ls_lines ls\<rparr>)
        }
        else Some (None, t)
      })"

definition max_pending_prefix_bytes :: nat where "max_pending_prefix_bytes = 1024"

text \<open>The plain-text part of \<open>record\<close>: the new text and pending prefix, the length and
  the line count that go into the chunk.\<close>

definition record_plain :: "transcript \<Rightarrow> u8 list \<Rightarrow> nat \<times> nat \<times> transcript" where
  "record_plain t bytes =
     (let combined = tr_pending t @ bytes;
          hold_back = trailing_incomplete_bytes combined;
          to_strip = take (length combined - hold_back) combined;
          stripped = utf8 (strip_ansi to_strip);
          stripped_lines = count_newlines stripped;
          t = t \<lparr>tr_plain := tr_plain t @ stripped,
                 tr_pending := (if 0 < hold_back
                                then drop (length combined - hold_back) combined else [])\<rparr>;
          t = (if max_pending_prefix_bytes < length (tr_pending t)
               then t \<lparr>tr_plain := tr_plain t @ utf8 (strip_ansi (tr_pending t)), tr_pending := []\<rparr>
               else t);
          chunk_lines = (if tr_mode t = TM_Both then max (count_newlines bytes) stripped_lines
                         else stripped_lines)
      in (length stripped, chunk_lines, t))"

definition record_frame ::
    "transcript \<Rightarrow> u8 list \<Rightarrow> (transcript_record \<times> transcript) option" where
  "record_frame t bytes =
     (if tr_mode t = TM_Disabled \<or> bytes = [] then
        Some (\<lparr>rec_offset = tr_next_raw_offset t, rec_rotated = None\<rparr>,
              t \<lparr>tr_next_raw_offset := tr_next_raw_offset t + length bytes\<rparr>)
      else do {
        let (raw_len, t) =
          (if tr_mode t = TM_RawBytes \<or> tr_mode t = TM_Both
           then (length bytes, t \<lparr>tr_raw := tr_raw t @ bytes\<rparr>) else (0, t));
        let (plain_len, lines, t) =
          (if tr_mode t = TM_PlainText \<or> tr_mode t = TM_Both then record_plain t bytes
           else (0, count_newlines bytes, t));
        let offset = (if tr_mode t = TM_PlainText then tr_next_plain_offset t
                      else tr_next_raw_offset t);
        let t = t \<lparr>tr_next_raw_offset := tr_next_raw_offset t + length bytes,
                   tr_next_plain_offset := tr_next_plain_offset t + plain_len,
                   tr_total_lines := tr_total_lines t + lines,
                   tr_chunks := tr_chunks t @
                     [\<lparr>ch_raw_len = raw_len, ch_plain_len = plain_len, ch_lines = lines\<rparr>]\<rparr>;
        (rotated, t) \<leftarrow> enforce_limits t;
        Some (\<lparr>rec_offset = offset, rec_rotated = rotated\<rparr>, t)
      })"

definition flush_pending :: "transcript \<Rightarrow> (transcript_rotation option \<times> transcript) option" where
  "flush_pending t =
     (if tr_pending t = [] then Some (None, t)
      else
        let forced = utf8 (strip_ansi (tr_pending t));
            plain_len = length forced;
            lines = count_newlines forced
        in enforce_limits (t \<lparr>tr_plain := tr_plain t @ forced, tr_pending := [],
             tr_next_plain_offset := tr_next_plain_offset t + plain_len,
             tr_total_lines := tr_total_lines t + lines,
             tr_chunks := tr_chunks t @
               [\<lparr>ch_raw_len = 0, ch_plain_len = plain_len, ch_lines = lines\<rparr>]\<rparr>))"


section \<open>Accounting\<close>

definition sum_raw :: "chunk list \<Rightarrow> nat" where "sum_raw cs = sum_list (map ch_raw_len cs)"
definition sum_plain :: "chunk list \<Rightarrow> nat" where "sum_plain cs = sum_list (map ch_plain_len cs)"
definition sum_lines :: "chunk list \<Rightarrow> nat" where "sum_lines cs = sum_list (map ch_lines cs)"

lemma sums [simp]:
  "sum_raw [] = 0" "sum_raw (c # cs) = ch_raw_len c + sum_raw cs"
  "sum_raw (cs @ ds) = sum_raw cs + sum_raw ds"
  "sum_plain [] = 0" "sum_plain (c # cs) = ch_plain_len c + sum_plain cs"
  "sum_plain (cs @ ds) = sum_plain cs + sum_plain ds"
  "sum_lines [] = 0" "sum_lines (c # cs) = ch_lines c + sum_lines cs"
  "sum_lines (cs @ ds) = sum_lines cs + sum_lines ds"
  by (simp_all add: sum_raw_def sum_plain_def sum_lines_def)

text \<open>The plain buffer is the texts of the chunks, one after the other.\<close>

fun plain_aligned :: "chunk list \<Rightarrow> u8 list \<Rightarrow> bool" where
  "plain_aligned [] p = (p = [])"
| "plain_aligned (c # cs) p =
     (\<exists>s p'. list_all scalar s \<and> p = utf8 s @ p' \<and> length (utf8 s) = ch_plain_len c
        \<and> plain_aligned cs p')"

definition accounted :: "transcript \<Rightarrow> bool" where
  "accounted t = (sum_raw (tr_chunks t) = length (tr_raw t)
     \<and> plain_aligned (tr_chunks t) (tr_plain t) \<and> sum_lines (tr_chunks t) = tr_total_lines t)"

definition within_limits :: "transcript \<Rightarrow> bool" where
  "within_limits t =
     ((tr_max_bytes t = 0 \<or> length (tr_raw t) + length (tr_plain t) \<le> tr_max_bytes t)
      \<and> (tr_max_lines t = 0 \<or> tr_total_lines t \<le> tr_max_lines t))"

lemma plain_aligned_length: "plain_aligned cs p \<Longrightarrow> sum_plain cs = length p"
  by (induction cs arbitrary: p) auto

lemma plain_aligned_snoc:
  "plain_aligned cs p \<Longrightarrow> list_all scalar s \<Longrightarrow> length (utf8 s) = ch_plain_len c \<Longrightarrow>
   plain_aligned (cs @ [c]) (p @ utf8 s)"
proof (induction cs arbitrary: p)
  case (Cons a cs)
  then obtain u p' where "list_all scalar u" "p = utf8 u @ p'" "length (utf8 u) = ch_plain_len a"
    "plain_aligned (cs @ [c]) (p' @ utf8 s)" by auto
  then show ?case by auto
qed auto

lemma plain_aligned_drop:
  "plain_aligned cs p \<Longrightarrow> plain_aligned (drop n cs) (drop (sum_plain (take n cs)) p)"
proof (induction cs arbitrary: n p)
  case (Cons c cs)
  show ?case
  proof (cases n)
    case (Suc m)
    obtain s p' where s: "p = utf8 s @ p'" "length (utf8 s) = ch_plain_len c" "plain_aligned cs p'"
      using Cons.prems by auto
    then show ?thesis using Cons.IH [OF s(3), of m] Suc by simp
  qed (use Cons.prems in simp)
qed simp

lemma plain_aligned_text: "plain_aligned cs p \<Longrightarrow> \<exists>s. list_all scalar s \<and> p = utf8 s"
proof (induction cs arbitrary: p)
  case (Cons c cs)
  then obtain s p' where s: "list_all scalar s" "p = utf8 s @ p'" "plain_aligned cs p'" by auto
  with Cons.IH obtain s' where "list_all scalar s'" "p' = utf8 s'" by blast
  then have "list_all scalar (s @ s') \<and> p = utf8 (s @ s')" using s by simp
  then show ?case by blast
qed (auto intro: exI [of _ "[]"])

lemma head_not_cont: "scalar c \<Longrightarrow> \<not> is_cont (unat (hd (utf8_char c)))"
proof -
  assume c: "scalar c"
  then have "c < 0x110000" by (simp add: scalar_def)
  then have "c div 262144 \<le> 4" by linarith
  moreover have "c < 0x800 \<Longrightarrow> c div 64 < 32" "c < 0x10000 \<Longrightarrow> c div 4096 < 16" by linarith+
  ultimately show ?thesis
    by (auto simp: utf8_char_def is_cont_def unat_of_small simp del: of_nat_add)
qed

lemma boundary_between: "list_all scalar s \<Longrightarrow> list_all scalar u \<Longrightarrow>
  is_char_boundary (utf8 s @ utf8 u) (length (utf8 s))"
proof (cases u)
  case (Cons c u')
  assume "list_all scalar u"
  then have "\<not> is_cont (unat (hd (utf8_char c)))" using Cons head_not_cont by simp
  moreover obtain b bs where "utf8_char c = b # bs"
    using utf8_char_length [of c] utf8_len_pos [of c] by (cases "utf8_char c") auto
  ultimately show ?thesis by (simp add: is_char_boundary_def Cons utf8_Cons nth_append)
qed (simp add: is_char_boundary_def)

lemma plain_aligned_boundary:
  assumes "plain_aligned cs p"
  shows "is_char_boundary p (sum_plain (take n cs))"
proof -
  have "plain_aligned (drop n cs) (drop (sum_plain (take n cs)) p)"
    by (rule plain_aligned_drop [OF assms])
  then obtain u where u: "list_all scalar u" "drop (sum_plain (take n cs)) p = utf8 u"
    using plain_aligned_text by blast
  have "\<exists>s. list_all scalar s \<and> take (sum_plain (take n cs)) p = utf8 s"
    using assms
  proof (induction cs arbitrary: n p)
    case (Cons c cs)
    obtain s p' where s: "list_all scalar s" "p = utf8 s @ p'" "length (utf8 s) = ch_plain_len c"
      "plain_aligned cs p'" using Cons.prems by auto
    show ?case
    proof (cases n)
      case (Suc m)
      obtain s' where "list_all scalar s'" "take (sum_plain (take m cs)) p' = utf8 s'"
        using Cons.IH [OF s(4)] by blast
      then show ?thesis using s Suc by (intro exI [of _ "s @ s'"]) simp
    qed (auto intro: exI [of _ "[]"])
  qed (auto intro: exI [of _ "[]"])
  then obtain s where s: "list_all scalar s" "take (sum_plain (take n cs)) p = utf8 s" by blast
  have "p = utf8 s @ utf8 u" using s(2) u(2) by (metis append_take_drop_id)
  moreover have "sum_plain (take n cs) = length (utf8 s) \<or> sum_plain (take n cs) \<ge> length p"
    using s(2) by (metis length_take linorder_le_cases min.absorb2)
  moreover have "sum_plain (take n cs) \<le> length p"
    using plain_aligned_length [OF assms] by (metis append_take_drop_id le_add1 sums(6))
  ultimately show ?thesis using boundary_between [OF s(1) u(1)] by (auto simp: is_char_boundary_def)
qed

text \<open>The loop drops a prefix of the chunks, as long as the limits are exceeded.\<close>

lemma drop_chunks_spec:
  assumes "ls_raw ls = sum_raw cs" "ls_plain ls = sum_plain cs" "ls_lines ls = sum_lines cs"
  shows "\<exists>n. n \<le> length cs \<and> drop_chunks mb ml cs ls =
    Some (drop n cs,
      \<lparr>ls_dropped = ls_dropped ls + n, ls_raw_drop = ls_raw_drop ls + sum_raw (take n cs),
       ls_plain_drop = ls_plain_drop ls + sum_plain (take n cs), ls_raw = sum_raw (drop n cs),
       ls_plain = sum_plain (drop n cs), ls_lines = sum_lines (drop n cs)\<rparr>)
    \<and> (mb = 0 \<or> sum_raw (drop n cs) + sum_plain (drop n cs) \<le> mb)
    \<and> (ml = 0 \<or> sum_lines (drop n cs) \<le> ml)"
  using assms
proof (induction cs arbitrary: ls)
  case Nil
  then show ?case by (cases ls) simp
next
  case (Cons c cs)
  show ?case
  proof (cases "(0 < mb \<and> mb < ls_raw ls + ls_plain ls) \<or> (0 < ml \<and> ml < ls_lines ls)")
    case False
    then show ?thesis using Cons.prems by (cases ls) (auto intro!: exI [of _ 0])
  next
    case True
    define ls' where "ls' = \<lparr>ls_dropped = ls_dropped ls + 1, ls_raw_drop = ls_raw_drop ls + ch_raw_len c,
      ls_plain_drop = ls_plain_drop ls + ch_plain_len c, ls_raw = sum_raw cs, ls_plain = sum_plain cs,
      ls_lines = sum_lines cs\<rparr>"
    have "drop_chunks mb ml (c # cs) ls = drop_chunks mb ml cs ls'"
      using True Cons.prems by (auto simp: checked_sub_def ls'_def Let_def)
    moreover obtain n where "n \<le> length cs \<and> drop_chunks mb ml cs ls' =
      Some (drop n cs,
        \<lparr>ls_dropped = ls_dropped ls' + n, ls_raw_drop = ls_raw_drop ls' + sum_raw (take n cs),
         ls_plain_drop = ls_plain_drop ls' + sum_plain (take n cs), ls_raw = sum_raw (drop n cs),
         ls_plain = sum_plain (drop n cs), ls_lines = sum_lines (drop n cs)\<rparr>)
      \<and> (mb = 0 \<or> sum_raw (drop n cs) + sum_plain (drop n cs) \<le> mb)
      \<and> (ml = 0 \<or> sum_lines (drop n cs) \<le> ml)"
      using Cons.IH [of ls'] by (auto simp: ls'_def)
    ultimately show ?thesis by (intro exI [of _ "Suc n"]) (simp add: ls'_def)
  qed
qed

lemma enforce_limits_spec:
  assumes "accounted t"
  obtains rot t' k l where "enforce_limits t = Some (rot, t')" "accounted t'" "within_limits t'"
    "tr_raw t' = drop k (tr_raw t)" "k \<le> length (tr_raw t)"
    "tr_plain t' = drop l (tr_plain t)" "l \<le> length (tr_plain t)"
    "case rot of None \<Rightarrow> k = 0 \<and> l = 0
     | Some r \<Rightarrow> rot_raw_bytes_dropped r = k \<and> rot_plain_bytes_dropped r = l
         \<and> rot_bytes_dropped r = k + l \<and> rot_chunks_dropped r = length (tr_chunks t) - length (tr_chunks t')
         \<and> 0 < rot_chunks_dropped r"
    "tr_mode t' = tr_mode t" "tr_max_bytes t' = tr_max_bytes t" "tr_max_lines t' = tr_max_lines t"
    "tr_next_raw_offset t' = tr_next_raw_offset t"
    "tr_next_plain_offset t' = tr_next_plain_offset t" "tr_pending t' = tr_pending t"
proof (cases "tr_max_bytes t = 0 \<and> tr_max_lines t = 0")
  case True
  then show ?thesis using assms
    by (intro that [of None t 0 0]) (simp_all add: enforce_limits_def within_limits_def)
next
  case False
  let ?cs = "tr_chunks t"
  have a: "length (tr_raw t) = sum_raw ?cs" "length (tr_plain t) = sum_plain ?cs"
    "tr_total_lines t = sum_lines ?cs" "plain_aligned ?cs (tr_plain t)"
    using assms plain_aligned_length by (auto simp: accounted_def)
  obtain n where n: "n \<le> length ?cs"
    "drop_chunks (tr_max_bytes t) (tr_max_lines t) ?cs
       \<lparr>ls_dropped = 0, ls_raw_drop = 0, ls_plain_drop = 0, ls_raw = length (tr_raw t),
        ls_plain = length (tr_plain t), ls_lines = tr_total_lines t\<rparr>
     = Some (drop n ?cs,
       \<lparr>ls_dropped = n, ls_raw_drop = sum_raw (take n ?cs), ls_plain_drop = sum_plain (take n ?cs),
        ls_raw = sum_raw (drop n ?cs), ls_plain = sum_plain (drop n ?cs),
        ls_lines = sum_lines (drop n ?cs)\<rparr>)"
    "tr_max_bytes t = 0 \<or> sum_raw (drop n ?cs) + sum_plain (drop n ?cs) \<le> tr_max_bytes t"
    "tr_max_lines t = 0 \<or> sum_lines (drop n ?cs) \<le> tr_max_lines t"
    using drop_chunks_spec [of "\<lparr>ls_dropped = 0, ls_raw_drop = 0, ls_plain_drop = 0,
        ls_raw = length (tr_raw t), ls_plain = length (tr_plain t), ls_lines = tr_total_lines t\<rparr>" ?cs
        "tr_max_bytes t" "tr_max_lines t"] a by auto
  have sums_n: "sum_raw ?cs = sum_raw (take n ?cs) + sum_raw (drop n ?cs)"
    "sum_plain ?cs = sum_plain (take n ?cs) + sum_plain (drop n ?cs)"
    by (metis append_take_drop_id sums(3), metis append_take_drop_id sums(6))
  show ?thesis
  proof (cases "n = 0")
    case True
    have "enforce_limits t = Some (None, t)"
      using n(2) True False by (auto simp: enforce_limits_def)
    then show ?thesis using assms n(3,4) True a
      by (intro that [of None t 0 0]) (simp_all add: within_limits_def)
  next
    case n0: False
    define t' where "t' = t \<lparr>tr_chunks := drop n ?cs, tr_raw := drop (sum_raw (take n ?cs)) (tr_raw t),
      tr_plain := drop (sum_plain (take n ?cs)) (tr_plain t), tr_total_lines := sum_lines (drop n ?cs)\<rparr>"
    define r where "r = \<lparr>rot_chunks_dropped = n,
      rot_bytes_dropped = sum_raw (take n ?cs) + sum_plain (take n ?cs),
      rot_raw_bytes_dropped = sum_raw (take n ?cs), rot_plain_bytes_dropped = sum_plain (take n ?cs)\<rparr>"
    have e: "enforce_limits t = Some (Some r, t')"
      using n(2) n0 False plain_aligned_boundary [OF a(4), of n] sums_n a(1,2)
      by (auto simp: enforce_limits_def t'_def r_def Let_def)
    have acc: "accounted t'" using a sums_n plain_aligned_drop [OF a(4), of n]
      by (simp add: accounted_def t'_def)
    have wl: "within_limits t'" using n(3,4) a sums_n by (simp add: within_limits_def t'_def)
    show ?thesis
      using e acc wl n0 n(1) sums_n a
      by (intro that [of "Some r" t' "sum_raw (take n ?cs)" "sum_plain (take n ?cs)"])
        (simp_all add: t'_def r_def)
  qed
qed

lemma strip_csi_subset: "set (strip_csi cs) \<subseteq> set cs"
  by (induction cs) auto

lemma strip_control_subset: "set (strip_control bel cs) \<subseteq> set cs"
proof (induction bel cs rule: strip_control.induct)
  case (2 bel c cs)
  then show ?case
    by (cases cs) (auto simp: strip_control.simps(2) [of bel c] simp del: strip_control.simps)
qed simp

lemma strip_chars_subset: "set (strip_chars s) \<subseteq> set s"
proof (induction "length s" arbitrary: s rule: less_induct)
  case less
  show ?case
  proof (cases s)
    case (Cons ch cs)
    have tail: "set (strip_chars cs) \<subseteq> set cs" using less Cons by simp
    show ?thesis
    proof (cases cs)
      case Nil
      then show ?thesis using Cons by (cases "ch = 0x1b") simp_all
    next
      case ns: (Cons n ns)
      have ih: "set (strip_chars u) \<subseteq> set s" if "length u \<le> length ns" "set u \<subseteq> set ns" for u
        using less [of u] that Cons ns by force
      have sub: "set (strip_chars (strip_csi ns)) \<subseteq> set s"
        "set (strip_chars (strip_control True ns)) \<subseteq> set s"
        "set (strip_chars (strip_control False ns)) \<subseteq> set s"
        "set (strip_chars (drop 1 ns)) \<subseteq> set s" "set (strip_chars ns) \<subseteq> set s"
        by (intro ih strip_csi_length strip_csi_subset strip_control_length strip_control_subset
            set_drop_subset; simp)+
      have lit: "set (ch # strip_chars cs) \<subseteq> set s" using tail Cons by auto
      show ?thesis
      proof (cases "ch = 0x1b")
        case True
        then have "strip_chars s = strip_escape n ns (ch # strip_chars cs)"
          using Cons ns by (simp only: strip_chars_esc)
        then show ?thesis using sub lit by (simp add: strip_escape_def)
      qed (use lit Cons in simp)
    qed
  qed simp
qed

lemma strip_ansi_scalar: "list_all scalar (strip_ansi bytes)"
  using utf8_lossy_scalar [of bytes] strip_chars_subset [of "utf8_lossy bytes"]
  by (auto simp: strip_ansi_def list_all_iff)


section \<open>What is retained\<close>

definition records_plain :: "transcript \<Rightarrow> bool" where
  "records_plain t = (tr_mode t = TM_PlainText \<or> tr_mode t = TM_Both)"

text \<open>The plain text a frame adds and the pending prefix it leaves, when no flush is
  forced.\<close>

definition plain_new :: "transcript \<Rightarrow> u8 list \<Rightarrow> u8 list" where
  "plain_new t bytes =
     (if records_plain t \<and> bytes \<noteq> [] then
        (let c = tr_pending t @ bytes
         in utf8 (strip_ansi (take (length c - trailing_incomplete_bytes c) c)))
      else [])"

definition pending_new :: "transcript \<Rightarrow> u8 list \<Rightarrow> u8 list" where
  "pending_new t bytes =
     (if records_plain t \<and> bytes \<noteq> [] then
        (let c = tr_pending t @ bytes; h = trailing_incomplete_bytes c
         in if 0 < h then drop (length c - h) c else [])
      else tr_pending t)"

definition unforced :: "transcript \<Rightarrow> u8 list \<Rightarrow> bool" where
  "unforced t bytes = (length (pending_new t bytes) \<le> max_pending_prefix_bytes)"

text \<open>The buffers are the ends of the streams \<open>S\<close> (all bytes recorded) and \<open>T\<close> (all
  plain text produced), and the next offsets are the streams' lengths.\<close>

definition retains :: "transcript \<Rightarrow> u8 list \<Rightarrow> u8 list \<Rightarrow> bool" where
  "retains t S T =
     (accounted t \<and> (if records_raw_bytes t then suffix (tr_raw t) S else tr_raw t = [])
      \<and> suffix (tr_plain t) T \<and> tr_next_raw_offset t = length S
      \<and> tr_next_plain_offset t = length T)"

lemma suffix_drop_app: "suffix x S \<Longrightarrow> suffix (drop k (x @ y)) (S @ y)"
  by (metis same_suffix_suffix suffix_drop suffix_order.trans)

lemma record_plain_unforced:
  assumes "records_plain t" "bytes \<noteq> []" "unforced t bytes"
  shows "\<exists>lines. record_plain t bytes = (length (plain_new t bytes), lines,
    t \<lparr>tr_plain := tr_plain t @ plain_new t bytes, tr_pending := pending_new t bytes\<rparr>)"
  using assms
  by (auto simp: record_plain_def plain_new_def pending_new_def unforced_def Let_def)

lemma record_retains:
  assumes r: "retains t S T" and m: "tr_mode t \<noteq> TM_Disabled" and u: "unforced t bytes"
  shows "\<exists>rec t'. record_frame t bytes = Some (rec, t')
    \<and> retains t' (S @ bytes) (T @ plain_new t bytes) \<and> (bytes \<noteq> [] \<longrightarrow> within_limits t')
    \<and> tr_pending t' = pending_new t bytes \<and> tr_mode t' = tr_mode t
    \<and> tr_max_bytes t' = tr_max_bytes t \<and> tr_max_lines t' = tr_max_lines t
    \<and> (bytes \<noteq> [] \<longrightarrow> rec_offset rec = (if tr_mode t = TM_PlainText then length T else length S))
    \<and> (case rec_rotated rec of
          None \<Rightarrow> length (tr_raw t') = length (tr_raw t) + (if records_raw_bytes t then length bytes else 0)
            \<and> length (tr_plain t') = length (tr_plain t) + length (plain_new t bytes)
        | Some q \<Rightarrow> length (tr_raw t') + rot_raw_bytes_dropped q
            = length (tr_raw t) + (if records_raw_bytes t then length bytes else 0)
            \<and> length (tr_plain t') + rot_plain_bytes_dropped q
            = length (tr_plain t) + length (plain_new t bytes))"
proof (cases "bytes = []")
  case True
  then show ?thesis using r by (auto simp: record_frame_def retains_def plain_new_def pending_new_def accounted_def records_raw_bytes_def)
next
  case False
  define raw where "raw = (if records_raw_bytes t then bytes else [])"
  define t1 where "t1 = t \<lparr>tr_raw := tr_raw t @ raw\<rparr>"
  have pn: "plain_new t1 bytes = plain_new t bytes" "pending_new t1 bytes = pending_new t bytes"
    "unforced t1 bytes = unforced t bytes"
    by (simp_all add: t1_def plain_new_def pending_new_def unforced_def records_plain_def)
  define t2 where "t2 = t1 \<lparr>tr_plain := tr_plain t @ plain_new t bytes, tr_pending := pending_new t bytes\<rparr>"
  obtain lines where lines:
    "(if tr_mode t = TM_PlainText \<or> tr_mode t = TM_Both then record_plain t1 bytes
      else (0, count_newlines bytes, t1)) = (length (plain_new t bytes), lines, t2)"
  proof (cases "records_plain t")
    case True
    then have rp: "records_plain t1" by (simp add: t1_def records_plain_def)
    obtain l where "record_plain t1 bytes = (length (plain_new t bytes), l, t2)"
      using record_plain_unforced [OF rp \<open>bytes \<noteq> []\<close>] u pn by (auto simp: t2_def t1_def)
    then show ?thesis using True that by (auto simp: records_plain_def)
  next
    case False
    have "t2 = t1" using False by (simp add: t2_def t1_def plain_new_def pending_new_def)
    then show ?thesis using False that
      by (auto simp: records_plain_def plain_new_def)
  qed
  define t3 where "t3 = t2 \<lparr>tr_next_raw_offset := tr_next_raw_offset t + length bytes,
    tr_next_plain_offset := tr_next_plain_offset t + length (plain_new t bytes),
    tr_total_lines := tr_total_lines t + lines,
    tr_chunks := tr_chunks t @
      [\<lparr>ch_raw_len = length raw, ch_plain_len = length (plain_new t bytes), ch_lines = lines\<rparr>]\<rparr>"
  have sc: "\<exists>s. list_all scalar s \<and> plain_new t bytes = utf8 s"
    by (auto simp: plain_new_def Let_def intro: exI [of _ "[]"] exI strip_ansi_scalar)
  then obtain s where s: "list_all scalar s" "plain_new t bytes = utf8 s" by blast
  have acc3: "accounted t3"
    using r s plain_aligned_snoc [of "tr_chunks t" "tr_plain t" s]
    by (simp add: accounted_def retains_def t3_def t2_def t1_def)
  have e: "record_frame t bytes = (case enforce_limits t3 of None \<Rightarrow> None
      | Some (rot, t') \<Rightarrow> Some (\<lparr>rec_offset = (if tr_mode t = TM_PlainText then tr_next_plain_offset t
          else tr_next_raw_offset t), rec_rotated = rot\<rparr>, t'))"
  proof -
    have "(if tr_mode t = TM_RawBytes \<or> tr_mode t = TM_Both
           then (length bytes, t \<lparr>tr_raw := tr_raw t @ bytes\<rparr>) else (0, t)) = (length raw, t1)"
      by (simp add: raw_def t1_def records_raw_bytes_def)
    then show ?thesis using m False lines
      by (auto simp: record_frame_def t3_def t2_def t1_def Let_def split: option.split prod.split)
  qed
  from enforce_limits_spec [OF acc3] obtain rot t' k l
    where f: "enforce_limits t3 = Some (rot, t')" "accounted t'" "within_limits t'"
    "tr_raw t' = drop k (tr_raw t3)" "k \<le> length (tr_raw t3)"
    "tr_plain t' = drop l (tr_plain t3)" "l \<le> length (tr_plain t3)"
    "case rot of None \<Rightarrow> k = 0 \<and> l = 0
     | Some r \<Rightarrow> rot_raw_bytes_dropped r = k \<and> rot_plain_bytes_dropped r = l
         \<and> rot_bytes_dropped r = k + l \<and> rot_chunks_dropped r = length (tr_chunks t3) - length (tr_chunks t')
         \<and> 0 < rot_chunks_dropped r"
    "tr_mode t' = tr_mode t3" "tr_max_bytes t' = tr_max_bytes t3" "tr_max_lines t' = tr_max_lines t3"
    "tr_next_raw_offset t' = tr_next_raw_offset t3"
    "tr_next_plain_offset t' = tr_next_plain_offset t3" "tr_pending t' = tr_pending t3"
    by blast
  have "retains t' (S @ bytes) (T @ plain_new t bytes)"
    using r f(2,4,6,9,12,13) by (auto simp: retains_def t3_def t2_def t1_def raw_def records_raw_bytes_def
        intro: suffix_drop_app simp del: drop_append)
  then show ?thesis
    using e f r by (auto simp: t3_def t2_def t1_def raw_def retains_def split: option.splits)
qed


section \<open>Whole streams\<close>

text \<open>The frames of a pane's output, one after the other.\<close>

fun record_frames ::
    "transcript \<Rightarrow> u8 list list \<Rightarrow> (transcript_record list \<times> transcript) option" where
  "record_frames t [] = Some ([], t)"
| "record_frames t (f # fs) =
     do {
       (r, t1) \<leftarrow> record_frame t f;
       (rs, t2) \<leftarrow> record_frames t1 fs;
       Some (r # rs, t2)
     }"

definition raw_rotated :: "transcript_record \<Rightarrow> nat" where
  "raw_rotated r = (case rec_rotated r of None \<Rightarrow> 0 | Some q \<Rightarrow> rot_raw_bytes_dropped q)"

lemma new_retains: "retains (transcript_new cfg) [] []"
  by (simp add: retains_def accounted_def transcript_new_def)

lemma raw_mode_unforced: "tr_mode t = TM_RawBytes \<Longrightarrow> tr_pending t = [] \<Longrightarrow> unforced t bytes"
  "tr_mode t = TM_RawBytes \<Longrightarrow> plain_new t bytes = []"
  "tr_mode t = TM_RawBytes \<Longrightarrow> tr_pending t = [] \<Longrightarrow> pending_new t bytes = []"
  by (simp_all add: unforced_def pending_new_def plain_new_def records_plain_def)

lemma raw_frames:
  assumes "retains t S []" "tr_mode t = TM_RawBytes" "tr_pending t = []" "within_limits t"
  shows "\<exists>rs t'. record_frames t fs = Some (rs, t') \<and> retains t' (S @ concat fs) []
    \<and> within_limits t' \<and> tr_mode t' = TM_RawBytes
    \<and> tr_max_bytes t' = tr_max_bytes t \<and> tr_max_lines t' = tr_max_lines t
    \<and> length (tr_raw t') + sum_list (map raw_rotated rs) = length (tr_raw t) + length (concat fs)
    \<and> length rs = length fs
    \<and> (\<forall>i < length fs. fs ! i \<noteq> [] \<longrightarrow> rec_offset (rs ! i) = length S + length (concat (take i fs)))"
  using assms
proof (induction fs arbitrary: t S)
  case (Cons f fs)
  note facts = raw_mode_unforced [OF Cons.prems(2), of f] Cons.prems(3)
  obtain r t1 where r: "record_frame t f = Some (r, t1)" "retains t1 (S @ f) []"
    "f \<noteq> [] \<longrightarrow> within_limits t1" "tr_pending t1 = []" "tr_mode t1 = TM_RawBytes"
    "tr_max_bytes t1 = tr_max_bytes t" "tr_max_lines t1 = tr_max_lines t"
    "f \<noteq> [] \<longrightarrow> rec_offset r = length S"
    "length (tr_raw t1) + raw_rotated r = length (tr_raw t) + length f"
    using record_retains [OF Cons.prems(1) _ facts(1)] Cons.prems(2) facts
    by (auto simp: raw_rotated_def records_raw_bytes_def split: option.splits)
  have w1: "within_limits t1"
  proof (cases "f = []")
    case True
    then have "t1 = t \<lparr>tr_next_raw_offset := tr_next_raw_offset t\<rparr>" using r(1) by (simp add: record_frame_def)
    then show ?thesis using Cons.prems(4) by simp
  qed (use r(3) in simp)
  obtain rs t' where rs: "record_frames t1 fs = Some (rs, t')" "retains t' ((S @ f) @ concat fs) []"
    "within_limits t'" "tr_mode t' = TM_RawBytes"
    "tr_max_bytes t' = tr_max_bytes t1" "tr_max_lines t' = tr_max_lines t1"
    "length (tr_raw t') + sum_list (map raw_rotated rs) = length (tr_raw t1) + length (concat fs)"
    "length rs = length fs"
    "\<forall>i < length fs. fs ! i \<noteq> [] \<longrightarrow> rec_offset (rs ! i) = length (S @ f) + length (concat (take i fs))"
    using Cons.IH [OF r(2,5,4) w1] by blast
  have "\<forall>i < length (f # fs). (f # fs) ! i \<noteq> [] \<longrightarrow>
      rec_offset ((r # rs) ! i) = length S + length (concat (take i (f # fs)))"
    using r(8) rs(9) by (auto simp: nth_Cons split: nat.split)
  then show ?case using r rs by simp
qed simp

lemma newlines_append: "count_newlines (xs @ ys) = count_newlines xs + count_newlines ys"
  by (simp add: count_newlines_def)


section \<open>Well-formed terminal output\<close>

text \<open>The tokens of terminal output the recorder is written for: characters, CSI
  sequences, OSC strings closed by BEL or ST, the other control strings, and the two-
  and three-character escapes.\<close>

datatype vt_token =
    VT_Char rchar
  | VT_Csi rstr rchar
  | VT_Osc rstr bool
  | VT_Control rchar rstr
  | VT_Two rchar rchar
  | VT_One rchar

fun token_chars :: "vt_token \<Rightarrow> rstr" where
  "token_chars (VT_Char c) = [c]"
| "token_chars (VT_Csi p f) = [0x1b, 0x5b] @ p @ [f]"
| "token_chars (VT_Osc s bel) = [0x1b, 0x5d] @ s @ (if bel then [0x07] else [0x1b, 0x5c])"
| "token_chars (VT_Control k s) = [0x1b, k] @ s @ [0x1b, 0x5c]"
| "token_chars (VT_Two n p) = [0x1b, n, p]"
| "token_chars (VT_One n) = [0x1b, n]"

definition control_intro :: "rchar \<Rightarrow> bool" where
  "control_intro n = (n = 0x50 \<or> n = 0x5f \<or> n = 0x5e \<or> n = 0x58)"

fun token_ok :: "vt_token \<Rightarrow> bool" where
  "token_ok (VT_Char c) = (scalar c \<and> c \<noteq> 0x1b)"
| "token_ok (VT_Csi p f) = (list_all (\<lambda>c. c < 0x40) p \<and> 0x40 \<le> f \<and> f \<le> 0x7e)"
| "token_ok (VT_Osc s bel) = (list_all (\<lambda>c. scalar c \<and> c \<noteq> 0x1b \<and> c \<noteq> 0x07) s)"
| "token_ok (VT_Control k s) = (control_intro k \<and> list_all (\<lambda>c. scalar c \<and> c \<noteq> 0x1b) s)"
| "token_ok (VT_Two n p) = (two_char_intro n \<and> p < 0x80)"
| "token_ok (VT_One n) =
     ((n \<in> {0x3d, 0x3e, 0x3c, 0x37, 0x38} \<or> (0x40 \<le> n \<and> n \<le> 0x5f))
      \<and> n \<noteq> 0x5b \<and> n \<noteq> 0x5d \<and> \<not> control_intro n)"

definition token_bytes :: "vt_token \<Rightarrow> u8 list" where
  "token_bytes k = utf8 (token_chars k)"

fun token_text :: "vt_token \<Rightarrow> rstr" where
  "token_text (VT_Char c) = [c]"
| "token_text _ = []"

definition stream_bytes :: "vt_token list \<Rightarrow> u8 list" where
  "stream_bytes ks = concat (map token_bytes ks)"

definition stream_text :: "vt_token list \<Rightarrow> rstr" where
  "stream_text ks = concat (map token_text ks)"

lemma stream_simps [simp]:
  "stream_bytes [] = []" "stream_bytes (k # ks) = token_bytes k @ stream_bytes ks"
  "stream_bytes (ks @ ls) = stream_bytes ks @ stream_bytes ls"
  "stream_text [] = []" "stream_text (k # ks) = token_text k @ stream_text ks"
  "stream_text (ks @ ls) = stream_text ks @ stream_text ls"
  by (simp_all add: stream_bytes_def stream_text_def)

lemma scalar_small: "c < 0xD800 \<Longrightarrow> scalar c"
  by (simp add: scalar_def)

lemma two_char_small: "two_char_intro n \<Longrightarrow> n < 0x40"
  by (auto simp: two_char_intro_def)

lemma token_chars_scalar: "token_ok k \<Longrightarrow> list_all scalar (token_chars k)"
  by (cases k) (auto simp: list_all_iff control_intro_def intro!: scalar_small dest: two_char_small)

lemma strip_csi_token:
  "list_all (\<lambda>c. c < 0x40) p \<Longrightarrow> 0x40 \<le> f \<Longrightarrow> f \<le> 0x7e \<Longrightarrow> strip_csi (p @ f # rest) = rest"
  by (induction p) auto

lemma strip_control_bel:
  "list_all (\<lambda>c. c \<noteq> 0x1b \<and> c \<noteq> 0x07) s \<Longrightarrow> strip_control True (s @ 0x07 # rest) = rest"
  by (induction s) auto

lemma strip_control_st:
  "list_all (\<lambda>c. c \<noteq> 0x1b \<and> (bel \<longrightarrow> c \<noteq> 0x07)) s \<Longrightarrow>
   strip_control bel (s @ 0x1b # 0x5c # rest) = rest"
  by (induction s) auto

lemma strip_token: "token_ok k \<Longrightarrow> strip_chars (token_chars k @ rest) = token_text k @ strip_chars rest"
proof (cases k)
  case (VT_Osc s bel)
  assume "token_ok k"
  then have "list_all (\<lambda>c. c \<noteq> 0x1b \<and> c \<noteq> 0x07) s" using VT_Osc by (auto simp: list_all_iff)
  then show ?thesis using VT_Osc strip_control_bel strip_control_st [of True]
    by (simp add: strip_chars_esc strip_escape_def)
next
  case (VT_Control c s)
  assume ok: "token_ok k"
  then have "list_all (\<lambda>c. c \<noteq> 0x1b \<and> (False \<longrightarrow> c \<noteq> 0x07)) s" using VT_Control by (auto simp: list_all_iff)
  then show ?thesis using VT_Control ok strip_control_st [of False]
    by (auto simp: strip_chars_esc strip_escape_def control_intro_def)
next
  case (VT_Two n q)
  assume "token_ok k"
  then show ?thesis using VT_Two by (auto simp: strip_chars_esc strip_escape_def two_char_intro_def)
next
  case (VT_One n)
  assume "token_ok k"
  then show ?thesis using VT_One
    by (auto simp: strip_chars_esc strip_escape_def control_intro_def two_char_intro_def)
qed (auto simp: strip_chars_esc strip_escape_def strip_csi_token)

lemma strip_stream: "list_all token_ok ks \<Longrightarrow> strip_ansi (stream_bytes ks) = stream_text ks"
proof -
  assume ok: "list_all token_ok ks"
  have b: "stream_bytes ks = utf8 (concat (map token_chars ks))"
    by (induction ks) (simp_all add: token_bytes_def)
  have "list_all scalar (concat (map token_chars ks))"
    using ok by (induction ks) (auto simp: token_chars_scalar)
  then have "strip_ansi (stream_bytes ks) = strip_chars (concat (map token_chars ks))"
    by (simp add: strip_ansi_def b utf8_lossy_utf8)
  also have "\<dots> = stream_text ks"
    using ok by (induction ks) (simp_all add: strip_token)
  finally show ?thesis .
qed


section \<open>Cutting anywhere\<close>

lemma utf8_char_high:
  assumes "scalar c" "0x80 \<le> c" "b \<in> set (utf8_char c)"
  shows "0x80 \<le> unat b"
proof -
  have "c < 0x110000" using assms(1) by (simp add: scalar_def)
  then have "c div 262144 \<le> 4" by linarith
  moreover have "c < 0x800 \<Longrightarrow> c div 64 < 32" "c < 0x10000 \<Longrightarrow> c div 4096 < 16" by linarith+
  ultimately show ?thesis using assms(2,3)
    by (auto simp: utf8_char_def unat_of_small simp del: of_nat_add split: if_splits)
qed

lemma utf8_no_ascii:
  assumes "list_all scalar s" "x < 0x80" "x \<notin> set s"
  shows "word_of_nat x \<notin> set (utf8 s)"
proof
  assume "word_of_nat x \<in> set (utf8 s)"
  then obtain c where c: "c \<in> set s" "word_of_nat x \<in> set (utf8_char c)"
    by (auto simp: utf8_def)
  then have sc: "scalar c" "c \<noteq> x" using assms by (auto simp: list_all_iff)
  show False
  proof (cases "c < 0x80")
    case True
    then have "(word_of_nat x :: u8) = word_of_nat c" using c(2) by (simp add: utf8_char_def)
    then have "unat (word_of_nat x :: u8) = unat (word_of_nat c :: u8)" by simp
    then show False using True assms(2) sc(2) by (simp add: unat_of_small)
  next
    case False
    then show False using utf8_char_high [OF sc(1) _ c(2)] assms(2) by (simp add: unat_of_small)
  qed
qed

lemma utf8_no_esc: "list_all (\<lambda>c. scalar c \<and> c \<noteq> 0x1b) s \<Longrightarrow> 0x1b \<notin> set (utf8 s)"
  using utf8_no_ascii [of s "0x1b"] by (auto simp: list_all_iff)

lemma utf8_no_bel: "list_all (\<lambda>c. scalar c \<and> c \<noteq> 0x07) s \<Longrightarrow> 0x07 \<notin> set (utf8 s)"
  using utf8_no_ascii [of s "0x07"] by (auto simp: list_all_iff)

lemma trailing_skip:
  "0x1b \<notin> set xs \<Longrightarrow>
   trailing_scan len i (xs @ rest) cs csi = trailing_scan len (i + length xs) rest cs csi"
  by (induction xs arbitrary: i) (auto simp del: trailing_scan.simps(2) simp: trailing_scan.simps(2))

lemma skip_final_miss:
  "\<forall>b\<in>set xs. \<not> in_final_range b \<Longrightarrow> skip_final i xs = (False, i + length xs, [])"
  by (induction xs arbitrary: i) auto

lemma skip_final_hit:
  "\<forall>b\<in>set xs. \<not> in_final_range b \<Longrightarrow> in_final_range f \<Longrightarrow>
   skip_final i (xs @ f # rest) = (True, i + length xs + 1, rest)"
  by (induction xs arbitrary: i) auto

lemma control_skip:
  "0x1b \<notin> set xs \<Longrightarrow> (bel \<longrightarrow> 0x07 \<notin> set xs) \<Longrightarrow>
   control_scan bel i (xs @ rest) = control_scan bel (i + length xs) rest"
  by (induction xs arbitrary: i) auto

lemma small_final: "c < 0x40 \<Longrightarrow> \<not> in_final_range (word_of_nat c)"
  by (simp add: in_final_range_def word_le_nat_alt unat_of_small)

lemma final_byte: "0x40 \<le> f \<Longrightarrow> f \<le> 0x7e \<Longrightarrow> in_final_range (word_of_nat f)"
  by (simp add: in_final_range_def word_le_nat_alt unat_of_small)

lemma utf8_small: "list_all (\<lambda>c. c < 0x80) s \<Longrightarrow> utf8 s = map word_of_nat s"
  by (rule utf8_ascii) (simp add: list_all_iff)

lemma word_of_small_eq: "x < 256 \<Longrightarrow> y < 256 \<Longrightarrow> (word_of_nat x :: u8) = word_of_nat y \<longleftrightarrow> x = y"
  by (metis unat_of_small)

text \<open>The bytes of the tokens.\<close>

lemma token_bytes_simps:
  "token_bytes (VT_Char c) = utf8_char c"
  "token_ok (VT_Csi p f) \<Longrightarrow> token_bytes (VT_Csi p f)
     = [0x1b, 0x5b] @ map word_of_nat p @ [word_of_nat f]"
  "token_bytes (VT_Osc s bel) = [0x1b, 0x5d] @ utf8 s @ (if bel then [0x07] else [0x1b, 0x5c])"
  "token_ok (VT_Control k s) \<Longrightarrow> token_bytes (VT_Control k s)
     = [0x1b, word_of_nat k] @ utf8 s @ [0x1b, 0x5c]"
  "token_ok (VT_Two n q) \<Longrightarrow> token_bytes (VT_Two n q) = [0x1b, word_of_nat n, word_of_nat q]"
  "token_ok (VT_One n) \<Longrightarrow> token_bytes (VT_One n) = [0x1b, word_of_nat n]"
proof -
  show "token_ok (VT_Csi p f) \<Longrightarrow> token_bytes (VT_Csi p f)
     = [0x1b, 0x5b] @ map word_of_nat p @ [word_of_nat f]"
  proof -
    assume ok: "token_ok (VT_Csi p f)"
    then have "list_all (\<lambda>c. c < 0x80) (token_chars (VT_Csi p f))" by (auto simp: list_all_iff)
    from utf8_small [OF this] show ?thesis by (simp add: token_bytes_def)
  qed
qed (auto simp: token_bytes_def utf8_Cons utf8_char_def control_intro_def dest: two_char_small)

definition is_control_byte :: "u8 \<Rightarrow> bool" where
  "is_control_byte n = (n = 0x50 \<or> n = 0x5f \<or> n = 0x5e \<or> n = 0x58)"

lemma trailing_csi:
  "trailing_scan len i (0x1b # 0x5b # ns) cs csi =
     (case skip_final (i + 2) ns of
        (found, j, rest) \<Rightarrow>
          trailing_scan len j rest cs (if cs = None then (if found then None else Some i) else csi))"
  by simp

lemma trailing_osc:
  "trailing_scan len i (0x1b # 0x5d # ns) None None =
     (case control_scan True (i + 2) ns of
        CS_Closed j rest \<Rightarrow> trailing_scan len j rest None None
      | CS_Open j \<Rightarrow> Inr (Some i, None)
      | CS_Cut \<Rightarrow> Inl (len - i))"
  by (simp cong: control_outcome.case_cong)

lemma trailing_control:
  "is_control_byte n \<Longrightarrow> trailing_scan len i (0x1b # n # ns) None None =
     (case control_scan False (i + 2) ns of
        CS_Closed j rest \<Rightarrow> trailing_scan len j rest None None
      | CS_Open j \<Rightarrow> Inr (Some i, None)
      | CS_Cut \<Rightarrow> Inl (len - i))"
  by (auto simp: is_control_byte_def cong: control_outcome.case_cong)

lemma trailing_two:
  assumes "two_char_intro n"
  shows "trailing_scan len i (0x1b # word_of_nat n # ns) cs csi =
     (case ns of
        [] \<Rightarrow> Inl (open_length len cs csi (len - i))
      | p # rest \<Rightarrow> trailing_scan len (i + 3) rest cs csi)"
proof -
  have n: "n < 0x40" using assms by (rule two_char_small)
  have u: "two_char_intro (unat (word_of_nat n :: u8))" using assms n by (simp add: unat_of_small)
  have "(word_of_nat n :: u8) \<noteq> word_of_nat 0x5b" "(word_of_nat n :: u8) \<noteq> word_of_nat 0x5d"
    "(word_of_nat n :: u8) \<noteq> word_of_nat 0x50" "(word_of_nat n :: u8) \<noteq> word_of_nat 0x5f"
    "(word_of_nat n :: u8) \<noteq> word_of_nat 0x5e" "(word_of_nat n :: u8) \<noteq> word_of_nat 0x58"
    using n by (subst word_of_small_eq; simp)+
  then show ?thesis using u by (simp split: list.split)
qed

lemma trailing_one:
  assumes "token_ok (VT_One n)"
  shows "trailing_scan len i (0x1b # word_of_nat n # ns) cs csi = trailing_scan len (i + 2) ns cs csi"
proof -
  have n: "n < 0x60" "n \<noteq> 0x5b" "n \<noteq> 0x5d" "\<not> control_intro n" "\<not> two_char_intro n"
    using assms by (auto simp: two_char_intro_def)
  have u: "\<not> two_char_intro (unat (word_of_nat n :: u8))" using n by (simp add: unat_of_small)
  have "(word_of_nat n :: u8) \<noteq> word_of_nat 0x5b" "(word_of_nat n :: u8) \<noteq> word_of_nat 0x5d"
    "(word_of_nat n :: u8) \<noteq> word_of_nat 0x50" "(word_of_nat n :: u8) \<noteq> word_of_nat 0x5f"
    "(word_of_nat n :: u8) \<noteq> word_of_nat 0x5e" "(word_of_nat n :: u8) \<noteq> word_of_nat 0x58"
    using n by (subst word_of_small_eq; simp add: control_intro_def)+
  then show ?thesis using u by simp
qed

text \<open>A whole token moves the scan behind it, with nothing left open.\<close>

lemma trailing_token:
  assumes ok: "token_ok k"
  shows "trailing_scan len i (token_bytes k @ rest) None None
       = trailing_scan len (i + length (token_bytes k)) rest None None"
proof (cases k)
  case (VT_Char c)
  then have "0x1b \<notin> set (utf8_char c)" using ok utf8_no_esc [of "[c]"] by (simp add: utf8_Cons)
  then show ?thesis using VT_Char by (simp add: token_bytes_simps trailing_skip)
next
  case (VT_Csi q f)
  have h: "\<forall>b\<in>set (map word_of_nat q). \<not> in_final_range b" "in_final_range (word_of_nat f)"
    using ok VT_Csi by (auto simp: list_all_iff small_final final_byte)
  show ?thesis using skip_final_hit [OF h, of "i + 2" rest] ok VT_Csi
    by (simp add: token_bytes_simps trailing_csi del: trailing_scan.simps)
next
  case (VT_Osc s bel)
  have n: "0x1b \<notin> set (utf8 s)" "True \<longrightarrow> 0x07 \<notin> set (utf8 s)"
    using ok VT_Osc utf8_no_esc [of s] utf8_no_bel [of s] by (auto simp: list_all_iff)
  show ?thesis using control_skip [OF n] VT_Osc
    by (cases bel) (simp_all add: token_bytes_simps trailing_osc del: trailing_scan.simps)
next
  case (VT_Control n s)
  have b: "is_control_byte (word_of_nat n)"
    using ok VT_Control by (auto simp: is_control_byte_def control_intro_def)
  have "0x1b \<notin> set (utf8 s)" using ok VT_Control utf8_no_esc [of s] by auto
  then show ?thesis using control_skip [of "utf8 s" False] VT_Control ok
    by (simp add: token_bytes_simps trailing_control [OF b] del: trailing_scan.simps)
next
  case (VT_Two n q)
  then show ?thesis using ok
    by (simp add: token_bytes_simps trailing_two numeral_3_eq_3 del: trailing_scan.simps)
next
  case (VT_One n)
  then show ?thesis using ok trailing_one [of n]
    by (simp add: token_bytes_simps del: trailing_scan.simps token_ok.simps)
qed

lemma trailing_stream:
  "list_all token_ok ks \<Longrightarrow> trailing_scan len i (stream_bytes ks @ rest) None None
     = trailing_scan len (i + length (stream_bytes ks)) rest None None"
proof (induction ks arbitrary: i)
  case (Cons k ks)
  then show ?case using trailing_token [of k len i "stream_bytes ks @ rest"] by (simp add: add.assoc)
qed simp

text \<open>A token cut off after \<open>n\<close> bytes is held back from its first byte on.\<close>

definition held_back :: "nat \<Rightarrow> nat \<Rightarrow> nat + (nat option \<times> nat option) \<Rightarrow> bool" where
  "held_back len n r =
     (case r of Inl m \<Rightarrow> m = n
      | Inr (cs, csi) \<Rightarrow> (cs, csi) \<noteq> (None, None) \<and> (\<forall>other. open_length len cs csi other = n))"

lemma lone_esc: "held_back (i + 1) 1 (trailing_scan (i + 1) i [0x1b] None None)"
  by (simp add: held_back_def open_length_def)

lemma control_cut:
  assumes "0x1b \<notin> set xs" "bel \<longrightarrow> 0x07 \<notin> set xs"
    and "ys = take m (xs @ [0x1b, 0x5c]) \<and> m \<le> length xs + 1 \<or> ys = take m (xs @ [0x07]) \<and> m \<le> length xs"
  shows "control_scan bel i ys = CS_Cut \<or> (\<exists>j. control_scan bel i ys = CS_Open j)"
proof (cases "m \<le> length xs")
  case True
  then have "ys = take m xs" using assms(3) by auto
  moreover have "0x1b \<notin> set (take m xs)" "bel \<longrightarrow> 0x07 \<notin> set (take m xs)"
    using assms(1,2) by (auto dest: in_set_takeD)
  ultimately show ?thesis using control_skip [of "take m xs" bel i "[]"] by simp
next
  case False
  then have "ys = xs @ [0x1b]" using assms(3) by (auto simp: le_Suc_eq)
  then show ?thesis using control_skip [OF assms(1,2), of i "[0x1b]"] by simp
qed

lemma trailing_cut:
  assumes ok: "token_ok k" and n: "0 < n" "n < length (token_bytes k)" and c: "\<forall>c. k \<noteq> VT_Char c"
  shows "held_back (i + n) n (trailing_scan (i + n) i (take n (token_bytes k)) None None)"
proof (cases "n = 1")
  case True
  have "take 1 (token_bytes k) = [0x1b]"
    using ok c by (cases k) (simp_all add: token_bytes_simps del: token_ok.simps)
  then show ?thesis using True lone_esc [of i] by simp
next
  case False
  then obtain m where m: "n = Suc (Suc m)" using n(1) by (metis One_nat_def gr0_implies_Suc not0_implies_Suc)
  show ?thesis
  proof (cases k)
    case (VT_Csi q f)
    have b: "token_bytes k = [0x1b, 0x5b] @ map word_of_nat q @ [word_of_nat f]"
      using ok VT_Csi token_bytes_simps(2) by simp
    have ml: "m \<le> length q" using n(2) m b by simp
    have "\<forall>b\<in>set (take m (map word_of_nat q)). \<not> in_final_range b"
      using ok VT_Csi by (auto simp: list_all_iff small_final dest!: in_set_takeD)
    then have "skip_final (i + 2) (take m (map word_of_nat q)) = (False, i + 2 + m, [])"
      using skip_final_miss [of "take m (map word_of_nat q)" "i + 2"] ml by simp
    then show ?thesis using m b ml
      by (simp add: trailing_csi held_back_def open_length_def take_map del: trailing_scan.simps(2))
  next
    case (VT_Osc s bel)
    have x: "0x1b \<notin> set (utf8 s)" "True \<longrightarrow> 0x07 \<notin> set (utf8 s)"
      using ok VT_Osc utf8_no_esc [of s] utf8_no_bel [of s] by (auto simp: list_all_iff)
    define ys where "ys = take m (utf8 s @ (if bel then [0x07] else [0x1b, 0x5c]))"
    have "control_scan True (i + 2) ys = CS_Cut \<or> (\<exists>j. control_scan True (i + 2) ys = CS_Open j)"
      using control_cut [OF x, of ys m "i + 2"] n(2) m VT_Osc
      by (auto simp: ys_def token_bytes_simps)
    moreover have "take n (token_bytes k) = 0x1b # 0x5d # ys"
      using VT_Osc m by (simp add: ys_def token_bytes_simps)
    ultimately show ?thesis
      by (auto simp: trailing_osc held_back_def open_length_def simp del: trailing_scan.simps)
  next
    case (VT_Control w s)
    have b: "is_control_byte (word_of_nat w)"
      using ok VT_Control by (auto simp: is_control_byte_def control_intro_def)
    have x: "0x1b \<notin> set (utf8 s)" "False \<longrightarrow> 0x07 \<notin> set (utf8 s)"
      using ok VT_Control utf8_no_esc [of s] by auto
    define ys where "ys = take m (utf8 s @ [0x1b, 0x5c])"
    have tb: "token_bytes k = [0x1b, word_of_nat w] @ utf8 s @ [0x1b, 0x5c]"
      using ok VT_Control token_bytes_simps(4) by simp
    have "control_scan False (i + 2) ys = CS_Cut \<or> (\<exists>j. control_scan False (i + 2) ys = CS_Open j)"
      using control_cut [OF x, of ys m "i + 2"] n(2) m tb by (auto simp: ys_def)
    moreover have "take n (token_bytes k) = 0x1b # word_of_nat w # ys"
      using tb m by (simp add: ys_def)
    ultimately show ?thesis
      by (auto simp: trailing_control [OF b] held_back_def open_length_def simp del: trailing_scan.simps)
  next
    case (VT_Two w q)
    then have tb: "token_bytes k = [0x1b, word_of_nat w, word_of_nat q]" "two_char_intro w"
      using ok token_bytes_simps(5) by auto
    then have "n = 2" using n(2) m by simp
    then show ?thesis using tb(1)
      by (simp add: trailing_two [OF tb(2)] held_back_def open_length_def numeral_2_eq_2
          del: trailing_scan.simps)
  next
    case (VT_One w)
    then show ?thesis using ok token_bytes_simps(6) [of w] n m by simp
  qed (use c in blast)
qed

text \<open>The bits of the bytes of a character, by enumeration.\<close>

lemma ascii_bits: "a < 0x80 \<Longrightarrow> (word_of_nat a :: u8) AND 0x80 = 0"
proof -
  have "\<forall>a\<in>set [0..<128]. (word_of_nat a :: u8) AND 0x80 = 0" by code_simp
  then show "a < 0x80 \<Longrightarrow> ?thesis" by simp
qed

lemma cont_bits:
  "a < 64 \<Longrightarrow> (word_of_nat (0x80 + a) :: u8) AND 0x80 \<noteq> 0 \<and> (word_of_nat (0x80 + a) :: u8) AND 0xC0 \<noteq> 0xC0"
proof -
  have "\<forall>a\<in>set [0..<64]. (word_of_nat (0x80 + a) :: u8) AND 0x80 \<noteq> 0
      \<and> (word_of_nat (0x80 + a) :: u8) AND 0xC0 \<noteq> 0xC0" by code_simp
  then show "a < 64 \<Longrightarrow> ?thesis" by simp
qed

lemma lead2_bits: "a < 32 \<Longrightarrow> (word_of_nat (0xC0 + a) :: u8) AND 0x80 \<noteq> 0
    \<and> (word_of_nat (0xC0 + a) :: u8) AND 0xC0 = 0xC0 \<and> (word_of_nat (0xC0 + a) :: u8) AND 0xE0 = 0xC0"
proof -
  have "\<forall>a\<in>set [0..<32]. (word_of_nat (0xC0 + a) :: u8) AND 0x80 \<noteq> 0
    \<and> (word_of_nat (0xC0 + a) :: u8) AND 0xC0 = 0xC0 \<and> (word_of_nat (0xC0 + a) :: u8) AND 0xE0 = 0xC0"
    by code_simp
  then show "a < 32 \<Longrightarrow> ?thesis" by simp
qed

lemma lead3_bits: "a < 16 \<Longrightarrow> (word_of_nat (0xE0 + a) :: u8) AND 0x80 \<noteq> 0
    \<and> (word_of_nat (0xE0 + a) :: u8) AND 0xC0 = 0xC0 \<and> (word_of_nat (0xE0 + a) :: u8) AND 0xE0 \<noteq> 0xC0
    \<and> (word_of_nat (0xE0 + a) :: u8) AND 0xF0 = 0xE0"
proof -
  have "\<forall>a\<in>set [0..<16]. (word_of_nat (0xE0 + a) :: u8) AND 0x80 \<noteq> 0
    \<and> (word_of_nat (0xE0 + a) :: u8) AND 0xC0 = 0xC0 \<and> (word_of_nat (0xE0 + a) :: u8) AND 0xE0 \<noteq> 0xC0
    \<and> (word_of_nat (0xE0 + a) :: u8) AND 0xF0 = 0xE0" by code_simp
  then show "a < 16 \<Longrightarrow> ?thesis" by simp
qed

lemma lead4_bits: "a < 8 \<Longrightarrow> (word_of_nat (0xF0 + a) :: u8) AND 0x80 \<noteq> 0
    \<and> (word_of_nat (0xF0 + a) :: u8) AND 0xC0 = 0xC0 \<and> (word_of_nat (0xF0 + a) :: u8) AND 0xE0 \<noteq> 0xC0
    \<and> (word_of_nat (0xF0 + a) :: u8) AND 0xF0 \<noteq> 0xE0 \<and> (word_of_nat (0xF0 + a) :: u8) AND 0xF8 = 0xF0"
proof -
  have "\<forall>a\<in>set [0..<8]. (word_of_nat (0xF0 + a) :: u8) AND 0x80 \<noteq> 0
    \<and> (word_of_nat (0xF0 + a) :: u8) AND 0xC0 = 0xC0 \<and> (word_of_nat (0xF0 + a) :: u8) AND 0xE0 \<noteq> 0xC0
    \<and> (word_of_nat (0xF0 + a) :: u8) AND 0xF0 \<noteq> 0xE0 \<and> (word_of_nat (0xF0 + a) :: u8) AND 0xF8 = 0xF0"
    by code_simp
  then show "a < 8 \<Longrightarrow> ?thesis" by simp
qed

lemma utf8_tail_cont:
  "a < 64 \<Longrightarrow> utf8_tail k (word_of_nat (0x80 + a) # rb) = utf8_tail (k + 1) rb"
  using cont_bits [of a] by (simp del: of_nat_add)

lemma utf8_tail_lead2:
  "a < 32 \<Longrightarrow> utf8_tail k (word_of_nat (0xC0 + a) # rb) = (if k + 1 < 2 then k + 1 else 0)"
  using lead2_bits [of a] by (simp del: of_nat_add)

lemma utf8_tail_lead3:
  "a < 16 \<Longrightarrow> utf8_tail k (word_of_nat (0xE0 + a) # rb) = (if k + 1 < 3 then k + 1 else 0)"
  using lead3_bits [of a] by (simp del: of_nat_add)

lemma utf8_tail_lead4:
  "a < 8 \<Longrightarrow> utf8_tail k (word_of_nat (0xF0 + a) # rb) = (if k + 1 < 4 then k + 1 else 0)"
  using lead4_bits [of a] by (simp del: of_nat_add)

text \<open>Cut inside a character, the search finds how much of it is there; behind a whole
  character it finds nothing.\<close>

lemma utf8_tail_char:
  assumes "scalar c" "n \<le> utf8_len c" "0 < n"
  shows "utf8_tail 0 (rev (take n (utf8_char c)) @ rb) = (if n = utf8_len c then 0 else n)"
proof -
  have "c < 0x110000" using assms(1) by (simp add: scalar_def)
  then have l: "c div 262144 < 8" "c < 0x800 \<Longrightarrow> c div 64 < 32" "c < 0x10000 \<Longrightarrow> c div 4096 < 16"
    by linarith+
  have n: "n = 1 \<or> n = 2 \<or> n = 3 \<or> n = 4"
    using assms(2,3) utf8_len_le4 [of c] by linarith
  have fits: "n \<le> 3" if "c < 0x10000" using assms(2) that by (simp add: utf8_len_def split: if_splits)
  have fits2: "n \<le> 2" if "c < 0x800" using assms(2) that by (simp add: utf8_len_def split: if_splits)
  have fits1: "n = 1" if "c < 0x80" using assms(2,3) that by (simp add: utf8_len_def)
  note tails = utf8_tail_cont utf8_tail_lead2 utf8_tail_lead3 utf8_tail_lead4
  consider "c < 0x80" | "0x80 \<le> c" "c < 0x800" | "0x800 \<le> c" "c < 0x10000" | "0x10000 \<le> c"
    by linarith
  then show ?thesis
  proof cases
    case 1
    then show ?thesis using fits1 ascii_bits [of c] by (simp add: utf8_char_def utf8_len_def)
  next
    case 2
    then have u: "utf8_char c = [word_of_nat (0xC0 + c div 64), word_of_nat (0x80 + c mod 64)]"
      "utf8_len c = 2" by (simp_all add: utf8_char_def utf8_len_def)
    have "n = 1 \<or> n = 2" using n fits2 2 by linarith
    then show ?thesis unfolding u using 2 l(2)
      by (elim disjE) (simp_all add: tails take_Suc_Cons numeral_2_eq_2 del: utf8_tail.simps(2) of_nat_add)
  next
    case 3
    then have u: "utf8_char c = [word_of_nat (0xE0 + c div 4096), word_of_nat (0x80 + c div 64 mod 64),
        word_of_nat (0x80 + c mod 64)]" "utf8_len c = 3" by (simp_all add: utf8_char_def utf8_len_def)
    have "n = 1 \<or> n = 2 \<or> n = 3" using n fits 3 by linarith
    then show ?thesis unfolding u using 3 l(3)
      by (elim disjE) (simp_all add: tails del: utf8_tail.simps(2) of_nat_add)
  next
    case 4
    then have u: "utf8_char c = [word_of_nat (0xF0 + c div 262144), word_of_nat (0x80 + c div 4096 mod 64),
        word_of_nat (0x80 + c div 64 mod 64), word_of_nat (0x80 + c mod 64)]" "utf8_len c = 4"
      by (simp_all add: utf8_char_def utf8_len_def)
    show ?thesis unfolding u using n l(1)
      by (elim disjE) (simp_all add: tails del: utf8_tail.simps(2) of_nat_add)
  qed
qed

lemma utf8_tail_text: "list_all scalar s \<Longrightarrow> utf8_tail 0 (rev (utf8 s)) = 0"
proof (cases s rule: rev_cases)
  case (snoc s' c)
  assume "list_all scalar s"
  then show ?thesis
    using utf8_tail_char [of c "utf8_len c" "rev (utf8 s')"] utf8_len_pos [of c] snoc
    by (simp add: utf8_Cons)
qed simp

lemma stream_is_utf8: "list_all token_ok ks \<Longrightarrow> \<exists>s. list_all scalar s \<and> stream_bytes ks = utf8 s"
proof (induction ks)
  case (Cons k ks)
  then obtain s where "list_all scalar s" "stream_bytes ks = utf8 s" by auto
  then show ?case using Cons.prems token_chars_scalar [of k]
    by (intro exI [of _ "token_chars k @ s"]) (simp add: token_bytes_def)
qed (auto intro: exI [of _ "[]"])

text \<open>Exactly the unfinished token is held back.\<close>

lemma trailing_incomplete_stream:
  assumes ok: "list_all token_ok ks" and k: "token_ok k" and n: "n < length (token_bytes k)"
  shows "trailing_incomplete_bytes (stream_bytes ks @ take n (token_bytes k)) = n"
proof -
  let ?x = "stream_bytes ks @ take n (token_bytes k)"
  have scan: "trailing_scan (length ?x) 0 ?x None None =
      trailing_scan (length (stream_bytes ks) + n) (length (stream_bytes ks)) (take n (token_bytes k)) None None"
    using trailing_stream [OF ok, of "length ?x" 0 "take n (token_bytes k)"] n by simp
  obtain s where s: "list_all scalar s" "stream_bytes ks = utf8 s" using stream_is_utf8 [OF ok] by blast
  show ?thesis
  proof (cases "n = 0 \<or> (\<exists>c. k = VT_Char c)")
    case True
    have "0x1b \<notin> set (take n (token_bytes k))"
    proof (cases "n = 0")
      case False
      then obtain c where "k = VT_Char c" using True by auto
      then have "0x1b \<notin> set (token_bytes k)"
        using k utf8_no_esc [of "[c]"] by (simp add: token_bytes_simps utf8_Cons)
      then show ?thesis by (auto dest: in_set_takeD)
    qed simp
    then have "trailing_scan (length ?x) 0 ?x None None = Inr (None, None)"
      using scan trailing_skip [of "take n (token_bytes k)" _ _ "[]"] by simp
    moreover have "utf8_tail 0 (rev ?x) = n"
    proof (cases "n = 0")
      case False
      then obtain c where c: "k = VT_Char c" "scalar c" using True k by auto
      then show ?thesis using utf8_tail_char [of c n "rev (stream_bytes ks)"] n False
        by (simp add: token_bytes_simps)
    qed (use utf8_tail_text s in simp)
    ultimately show ?thesis by (auto simp: trailing_incomplete_bytes_def open_length_def)
  next
    case False
    then have "held_back (length (stream_bytes ks) + n) n (trailing_scan (length ?x) 0 ?x None None)"
      unfolding scan using trailing_cut [OF k _ n] by auto
    moreover have "?x \<noteq> []" using False n by (auto simp: take_eq_Nil)
    ultimately show ?thesis using n
      by (auto simp: trailing_incomplete_bytes_def held_back_def split: sum.splits)
  qed
qed

lemma trailing_complete_stream:
  assumes ok: "list_all token_ok ks"
  shows "trailing_incomplete_bytes (stream_bytes ks) = 0"
  using trailing_incomplete_stream [OF ok, of "VT_Char 0x61" 0]
  by (simp add: scalar_def token_bytes_simps utf8_char_def)

end
