(* ===== verification/Transcript_Streams.thy ===== *)
theory Transcript_Streams
  imports Transcript
begin

text \<open>
  The transcript over whole output streams: what is retained when the frames of a
  pane's output are recorded one after the other, independent of where the frames
  are cut, and the cases in which the recorder (\<open>transcript.rs\<close>) leaves its contract.
\<close>

section \<open>Raw recording\<close>

lemma new_simps [simp]:
  "tr_mode (transcript_new cfg) = tc_mode cfg" "tr_pending (transcript_new cfg) = []"
  "tr_raw (transcript_new cfg) = []" "tr_plain (transcript_new cfg) = []"
  "tr_max_bytes (transcript_new cfg) = tc_max_bytes cfg"
  "tr_max_lines (transcript_new cfg) = tc_max_lines cfg"
  by (simp_all add: transcript_new_def)

lemma new_within: "within_limits (transcript_new cfg)"
  by (simp add: within_limits_def transcript_new_def)

text \<open>C16: In \<open>RawBytes\<close> mode recording never panics; whatever the frames, the retained bytes
  are the end of the whole output, they start at the reported absolute offset, each frame is
  reported at the offset where it starts in the output, what the rotations report as dropped
  is exactly what is missing at the front, and the configured limits hold.\<close>

theorem raw_transcript_exact:
  assumes "tc_mode cfg = TM_RawBytes"
  shows "\<exists>rs t. record_frames (transcript_new cfg) fs = Some (rs, t)
    \<and> tr_raw t = drop (retained_raw_start_offset t) (concat fs)
    \<and> tr_next_raw_offset t = length (concat fs)
    \<and> retained_raw_start_offset t = sum_list (map raw_rotated rs)
    \<and> (\<forall>i < length fs. fs ! i \<noteq> [] \<longrightarrow> rec_offset (rs ! i) = length (concat (take i fs)))
    \<and> (tc_max_bytes cfg = 0 \<or> length (tr_raw t) \<le> tc_max_bytes cfg)
    \<and> (tc_max_lines cfg = 0 \<or> tr_total_lines t \<le> tc_max_lines cfg)"
proof -
  have m: "tr_mode (transcript_new cfg) = TM_RawBytes" using assms by simp
  obtain rs t where r: "record_frames (transcript_new cfg) fs = Some (rs, t)"
    "retains t (concat fs) []" "within_limits t" "tr_mode t = TM_RawBytes"
    "tr_max_bytes t = tc_max_bytes cfg" "tr_max_lines t = tc_max_lines cfg"
    "length (tr_raw t) + sum_list (map raw_rotated rs) = length (concat fs)"
    "\<forall>i < length fs. fs ! i \<noteq> [] \<longrightarrow> rec_offset (rs ! i) = length (concat (take i fs))"
    using raw_frames [OF new_retains m, of fs] new_within by auto
  have s: "suffix (tr_raw t) (concat fs)" "tr_next_raw_offset t = length (concat fs)"
    using r(2,4) by (auto simp: retains_def records_raw_bytes_def)
  then have "tr_raw t = drop (length (concat fs) - length (tr_raw t)) (concat fs)"
    by (auto simp: suffix_def)
  then show ?thesis using r s by (auto simp: retained_raw_start_offset_def within_limits_def)
qed

theorem raw_transcript_exact_witness:
  "\<exists>rs t. record_frames (transcript_new
       \<lparr>tc_mode = TM_RawBytes, tc_max_lines = 0, tc_max_bytes = 4\<rparr>) [[1, 2, 3], [4, 5]] = Some (rs, t)
    \<and> tr_raw t = [4, 5] \<and> retained_raw_start_offset t = 3"
proof -
  let ?cfg = "\<lparr>tc_mode = TM_RawBytes, tc_max_lines = 0, tc_max_bytes = 4\<rparr>"
  obtain rs t where r: "record_frames (transcript_new ?cfg) [[1, 2, 3], [4, 5]] = Some (rs, t)"
    "tr_raw t = drop (retained_raw_start_offset t) [1, 2, 3, 4, 5]"
    "retained_raw_start_offset t = sum_list (map raw_rotated rs)"
    using raw_transcript_exact [of ?cfg "[[1, 2, 3], [4, 5]]"] by auto
  have "sum_list (map raw_rotated rs) = 3"
    using r(1) by (auto simp: record_frame_def enforce_limits_def transcript_new_def count_newlines_def
        checked_sub_def Let_def raw_rotated_def)
  then show ?thesis using r by (auto simp: eval_nat_numeral)
qed


section \<open>Plain text recording\<close>

text \<open>A prefix of a token stream is some whole tokens and a proper part of the next.\<close>

lemma stream_prefix:
  "prefix p (stream_bytes ks) \<Longrightarrow>
   \<exists>ms rest. ks = ms @ rest \<and> prefix (stream_bytes ms) p
     \<and> (if rest = [] then p = stream_bytes ms
        else \<exists>n < length (token_bytes (hd rest)). p = stream_bytes ms @ take n (token_bytes (hd rest)))"
proof (induction ks arbitrary: p)
  case Nil
  then show ?case by simp
next
  case (Cons k ks)
  show ?case
  proof (cases "length p < length (token_bytes k)")
    case True
    then have "p = take (length p) (token_bytes k)"
      using Cons.prems by (metis append_eq_conv_conj order_less_imp_le prefix_def prefix_length_prefix
          prefixI stream_simps(2))
    then show ?thesis using True by (intro exI [of _ "[]"] exI [of _ "k # ks"]) auto
  next
    case False
    then obtain q where q: "p = token_bytes k @ q" "prefix q (stream_bytes ks)"
      using Cons.prems by (metis linorder_not_less prefix_def prefix_length_prefix prefixI
          same_prefix_prefix stream_simps(2))
    obtain ms rest where "ks = ms @ rest" "prefix (stream_bytes ms) q"
      "if rest = [] then q = stream_bytes ms
       else \<exists>n < length (token_bytes (hd rest)). q = stream_bytes ms @ take n (token_bytes (hd rest))"
      using Cons.IH [OF q(2)] by blast
    then show ?thesis using q(1) by (intro exI [of _ "k # ms"] exI [of _ rest]) auto
  qed
qed

text \<open>One frame of such a stream: \<open>ks\<close> are the tokens not yet recorded as a whole; their
  beginning is pending.\<close>

lemma stream_frame:
  assumes ok: "list_all token_ok ks" and m: "records_plain t" and f: "f \<noteq> []"
    and p: "prefix (tr_pending t @ f) (stream_bytes ks)"
  shows "\<exists>ms rest. ks = ms @ rest \<and> plain_new t f = utf8 (stream_text ms)
    \<and> tr_pending t @ f = stream_bytes ms @ pending_new t f
    \<and> (if rest = [] then pending_new t f = []
       else length (pending_new t f) < length (token_bytes (hd rest)))"
proof -
  let ?c = "tr_pending t @ f"
  obtain ms rest where s: "ks = ms @ rest" "if rest = [] then ?c = stream_bytes ms
     else \<exists>n < length (token_bytes (hd rest)). ?c = stream_bytes ms @ take n (token_bytes (hd rest))"
    using stream_prefix [OF p] by blast
  have oks: "list_all token_ok ms" "rest \<noteq> [] \<Longrightarrow> token_ok (hd rest)"
    using ok s(1) by (auto simp: list_all_iff hd_in_set)
  obtain u where u: "?c = stream_bytes ms @ u" "trailing_incomplete_bytes ?c = length u"
    "if rest = [] then u = [] else length u < length (token_bytes (hd rest))"
  proof (cases "rest = []")
    case True
    then show ?thesis using that [of "[]"] s(2) trailing_complete_stream [OF oks(1)] by simp
  next
    case False
    then obtain n where n: "n < length (token_bytes (hd rest))"
      "?c = stream_bytes ms @ take n (token_bytes (hd rest))" using s(2) by auto
    then show ?thesis
      using that [of "take n (token_bytes (hd rest))"] False
        trailing_incomplete_stream [OF oks(1) oks(2) [OF False] n(1)] by simp
  qed
  have "plain_new t f = utf8 (strip_ansi (stream_bytes ms))"
    using m f u by (simp add: plain_new_def)
  moreover have "pending_new t f = u"
    using m f u(1,2) by (simp add: pending_new_def Let_def)
  ultimately show ?thesis using s(1) u(1,3) strip_stream [OF oks(1)]
    by (intro exI [of _ ms] exI [of _ rest] conjI) simp_all
qed

definition plain_rotated :: "transcript_record \<Rightarrow> nat" where
  "plain_rotated r = (case rec_rotated r of None \<Rightarrow> 0 | Some q \<Rightarrow> rot_plain_bytes_dropped q)"

lemma plain_frames:
  assumes "retains t S (utf8 T)" "records_plain t" "within_limits t"
    "list_all (\<lambda>k. token_ok k \<and> length (token_bytes k) \<le> max_pending_prefix_bytes) ks"
    "tr_pending t @ concat fs = stream_bytes ks"
    "ks = [] \<or> length (tr_pending t) < length (token_bytes (hd ks))"
  shows "\<exists>rs t'. record_frames t fs = Some (rs, t')
    \<and> retains t' (S @ concat fs) (utf8 (T @ stream_text ks)) \<and> within_limits t' \<and> tr_pending t' = []
    \<and> tr_max_bytes t' = tr_max_bytes t \<and> tr_max_lines t' = tr_max_lines t
    \<and> length (tr_plain t') + sum_list (map plain_rotated rs)
      = length (tr_plain t) + length (utf8 (stream_text ks))"
  using assms
proof (induction fs arbitrary: t S T ks)
  case Nil
  then have "ks = []" by (cases ks) auto
  then show ?case using Nil by simp
next
  case (Cons f fs)
  have m: "tr_mode t \<noteq> TM_Disabled" using Cons.prems(2) by (auto simp: records_plain_def)
  obtain ms rest where s: "ks = ms @ rest" "plain_new t f = utf8 (stream_text ms)"
    "tr_pending t @ f = stream_bytes ms @ pending_new t f"
    "if rest = [] then pending_new t f = [] else length (pending_new t f) < length (token_bytes (hd rest))"
  proof (cases "f = []")
    case True
    then have "plain_new t f = []" "pending_new t f = tr_pending t"
      by (simp_all add: plain_new_def pending_new_def)
    moreover have "ks = [] \<Longrightarrow> tr_pending t = []" using Cons.prems(5) by simp
    ultimately show ?thesis using that [of "[]" ks] Cons.prems(6) True by (cases "ks = []") auto
  next
    case False
    have "prefix (tr_pending t @ f) (stream_bytes ks)"
      using Cons.prems(5) by (metis append.assoc concat.simps(2) prefixI)
    moreover have "list_all token_ok ks" using Cons.prems(4) by (simp add: list_all_iff)
    ultimately show ?thesis using that stream_frame [OF _ Cons.prems(2) False] by blast
  qed
  have rest_small: "rest \<noteq> [] \<Longrightarrow> length (token_bytes (hd rest)) \<le> max_pending_prefix_bytes"
    using Cons.prems(4) s(1) by (auto simp: list_all_iff)
  then have u: "unforced t f" using s(4) by (cases "rest = []") (auto simp: unforced_def)
  obtain r t1 where r: "record_frame t f = Some (r, t1)" "retains t1 (S @ f) (utf8 (T @ stream_text ms))"
    "f \<noteq> [] \<longrightarrow> within_limits t1" "tr_pending t1 = pending_new t f" "tr_mode t1 = tr_mode t"
    "tr_max_bytes t1 = tr_max_bytes t" "tr_max_lines t1 = tr_max_lines t"
    "length (tr_plain t1) + plain_rotated r = length (tr_plain t) + length (utf8 (stream_text ms))"
    using record_retains [OF Cons.prems(1) m u] s(2)
    by (auto simp: plain_rotated_def split: option.splits)
  have w1: "within_limits t1"
  proof (cases "f = []")
    case True
    then have "t1 = t \<lparr>tr_next_raw_offset := tr_next_raw_offset t\<rparr>"
      using r(1) by (simp add: record_frame_def)
    then show ?thesis using Cons.prems(3) by simp
  qed (use r(3) in simp)
  have m1: "records_plain t1" using r(5) Cons.prems(2) by (simp add: records_plain_def)
  have k1: "list_all (\<lambda>k. token_ok k \<and> length (token_bytes k) \<le> max_pending_prefix_bytes) rest"
    using Cons.prems(4) s(1) by simp
  have p1: "tr_pending t1 @ concat fs = stream_bytes rest"
  proof -
    have "(tr_pending t @ f) @ concat fs = stream_bytes ms @ stream_bytes rest"
      using Cons.prems(5) s(1) by simp
    then show ?thesis unfolding s(3) r(4) by simp
  qed
  have h1: "rest = [] \<or> length (tr_pending t1) < length (token_bytes (hd rest))"
    using s(4) r(4) by (auto split: if_splits)
  obtain rs t' where rs: "record_frames t1 fs = Some (rs, t')"
    "retains t' ((S @ f) @ concat fs) (utf8 ((T @ stream_text ms) @ stream_text rest))"
    "within_limits t'" "tr_pending t' = []"
    "tr_max_bytes t' = tr_max_bytes t1" "tr_max_lines t' = tr_max_lines t1"
    "length (tr_plain t') + sum_list (map plain_rotated rs)
      = length (tr_plain t1) + length (utf8 (stream_text rest))"
    using Cons.IH [OF r(2) m1 w1 k1 p1 h1] by blast
  then show ?case using r(1,6-8) s(1) by simp
qed

text \<open>C7: In a mode that keeps plain text, output made of characters and well-formed escape
  sequences of at most 1024 bytes each gives its text with the escapes removed, however the
  output is cut into frames, inside escape sequences and UTF-8 characters too: the retained
  text is the end of that text, at the reported absolute offset, nothing stays pending, what
  rotations dropped is exactly what is missing, and the limits hold.\<close>

theorem plain_transcript_any_split:
  assumes "tc_mode cfg = TM_PlainText \<or> tc_mode cfg = TM_Both"
    "list_all (\<lambda>k. token_ok k \<and> length (token_bytes k) \<le> max_pending_prefix_bytes) ks"
    "concat fs = stream_bytes ks"
  shows "\<exists>rs t. record_frames (transcript_new cfg) fs = Some (rs, t)
    \<and> tr_plain t = drop (retained_plain_start_offset t) (utf8 (stream_text ks))
    \<and> retained_plain_start_offset t + length (tr_plain t) = length (utf8 (stream_text ks))
    \<and> retained_plain_start_offset t = sum_list (map plain_rotated rs)
    \<and> tr_pending t = []
    \<and> (tc_max_bytes cfg = 0 \<or> length (tr_raw t) + length (tr_plain t) \<le> tc_max_bytes cfg)
    \<and> (tc_max_lines cfg = 0 \<or> tr_total_lines t \<le> tc_max_lines cfg)"
proof -
  have m: "records_plain (transcript_new cfg)" using assms(1) by (simp add: records_plain_def)
  have h: "ks = [] \<or> length (tr_pending (transcript_new cfg)) < length (token_bytes (hd ks))"
  proof (cases ks)
    case (Cons k ls)
    then show ?thesis by (cases k) (auto simp: token_bytes_def utf8_Cons utf8_char_def)
  qed simp
  obtain rs t where r: "record_frames (transcript_new cfg) fs = Some (rs, t)"
    "retains t (concat fs) (utf8 (stream_text ks))" "within_limits t" "tr_pending t = []"
    "tr_max_bytes t = tc_max_bytes cfg" "tr_max_lines t = tc_max_lines cfg"
    "length (tr_plain t) + sum_list (map plain_rotated rs) = length (utf8 (stream_text ks))"
    using plain_frames [of "transcript_new cfg" "[]" "[]" ks fs] new_retains [of cfg] m new_within assms(2,3) h
    by (auto simp: utf8_def)
  have s: "suffix (tr_plain t) (utf8 (stream_text ks))" "tr_next_plain_offset t = length (utf8 (stream_text ks))"
    using r(2) by (auto simp: retains_def)
  then have "tr_plain t = drop (length (utf8 (stream_text ks)) - length (tr_plain t)) (utf8 (stream_text ks))"
    by (auto simp: suffix_def)
  then show ?thesis using r s by (auto simp: retained_plain_start_offset_def within_limits_def)
qed

theorem plain_transcript_any_split_witness:
  "\<exists>rs t. record_frames (transcript_new \<lparr>tc_mode = TM_PlainText, tc_max_lines = 0, tc_max_bytes = 0\<rparr>)
       [[0x61, 0x1b], [0x5b, 0x33], [0x31, 0x6d, 0x62]] = Some (rs, t)
    \<and> tr_plain t = drop (retained_plain_start_offset t) [0x61, 0x62] \<and> tr_pending t = []"
proof -
  let ?cfg = "\<lparr>tc_mode = TM_PlainText, tc_max_lines = 0, tc_max_bytes = 0\<rparr>"
  let ?ks = "[VT_Char 0x61, VT_Csi [0x33, 0x31] 0x6d, VT_Char 0x62]"
  have b: "stream_bytes ?ks = [0x61, 0x1b, 0x5b, 0x33, 0x31, 0x6d, 0x62]"
    "utf8 (stream_text ?ks) = [0x61, 0x62]"
    by (simp_all add: token_bytes_def utf8_Cons utf8_char_def)
  have ok: "list_all (\<lambda>k. token_ok k \<and> length (token_bytes k) \<le> max_pending_prefix_bytes) ?ks"
    by (simp add: token_bytes_def utf8_Cons utf8_char_def max_pending_prefix_bytes_def scalar_def)
  show ?thesis
    using plain_transcript_any_split [of ?cfg ?ks "[[0x61, 0x1b], [0x5b, 0x33], [0x31, 0x6d, 0x62]]", OF _ ok] b
    by auto
qed


section \<open>Where the bookkeeping fails\<close>

text \<open>An OSC string whose terminating BEL stands behind \<open>ESC [\<close>, followed by text: the
  hold-back scan skips the BEL as part of a CSI sequence, the stripper ends the string at it.\<close>

definition masked_bel :: "nat \<Rightarrow> u8 list" where
  "masked_bel n = [0x1b, 0x5d, 0x1b, 0x5b, 0x07] @ utf8 (replicate n 0xe9)"

lemma e_acute: "utf8_char 0xe9 = [0xc3, 0xa9]"
  by (simp add: utf8_char_def)

lemma e_acute_text: "utf8 (replicate n 0xe9) = concat (replicate n [0xc3, 0xa9])"
  by (induction n) (simp_all add: utf8_Cons e_acute)

lemma e_acute_props: "b \<in> set (utf8 (replicate n 0xe9)) \<Longrightarrow> b = 0xc3 \<or> b = 0xa9"
  "length (utf8 (replicate n 0xe9)) = 2 * n"
  unfolding e_acute_text by (induction n) auto

lemma masked_bel_held: "trailing_incomplete_bytes (masked_bel n) = length (masked_bel n)"
proof -
  have "\<forall>b\<in>set (0x07 # utf8 (replicate n 0xe9)). \<not> in_final_range b"
    by (auto dest!: e_acute_props(1) simp: in_final_range_def)
  then have "skip_final 4 (0x07 # utf8 (replicate n 0xe9))
      = (False, 4 + length (0x07 # utf8 (replicate n 0xe9)), [])"
    by (rule skip_final_miss)
  then have "control_scan True 2 ([0x1b, 0x5b, 0x07] @ utf8 (replicate n 0xe9))
      = CS_Open (4 + length (0x07 # utf8 (replicate n 0xe9)))"
    by simp
  then show ?thesis
    by (simp add: trailing_incomplete_bytes_def masked_bel_def trailing_osc open_length_def
        numeral_2_eq_2 del: trailing_scan.simps(2) control_scan.simps(2))
qed

lemma masked_bel_text: "strip_ansi (masked_bel n) = replicate n 0xe9"
proof -
  have b: "masked_bel n = utf8 ([0x1b, 0x5d, 0x1b, 0x5b, 0x07] @ replicate n 0xe9)"
    by (simp add: masked_bel_def utf8_Cons utf8_char_def)
  have "list_all scalar ([0x1b, 0x5d, 0x1b, 0x5b, 0x07] @ replicate n 0xe9)"
    by (simp add: scalar_def list_all_iff)
  then have "utf8_lossy (masked_bel n) = [0x1b, 0x5d, 0x1b, 0x5b, 0x07] @ replicate n 0xe9"
    unfolding b by (rule utf8_lossy_utf8)
  moreover have "strip_chars (replicate n 0xe9) = replicate n 0xe9"
    by (induction n) simp_all
  ultimately show ?thesis
    by (simp add: strip_ansi_def strip_chars_esc strip_escape_def)
qed

lemma masked_bel_frame:
  assumes "tc_mode cfg = TM_PlainText" "510 \<le> n" "0 < tc_max_bytes cfg" "tc_max_bytes cfg < 2 * n"
  shows "\<exists>r t. record_frame (transcript_new cfg) (masked_bel n) = Some (r, t)
    \<and> tr_plain t = utf8 (replicate n 0xe9) \<and> tr_raw t = [] \<and> tr_next_plain_offset t = 0
    \<and> tr_chunks t = [] \<and> tr_pending t = [] \<and> tr_mode t = TM_PlainText \<and> tr_total_lines t = 0
    \<and> tr_max_bytes t = tc_max_bytes cfg \<and> tr_max_lines t = tc_max_lines cfg"
proof -
  have len: "length (masked_bel n) = 5 + 2 * n" by (simp add: masked_bel_def e_acute_props)
  have ne: "masked_bel n \<noteq> []" by (simp add: masked_bel_def)
  have strip_nil: "strip_ansi [] = []" by (simp add: strip_ansi_def utf8_lossy_Nil)
  have "record_plain (transcript_new cfg) (masked_bel n) =
      (0, 0, (transcript_new cfg) \<lparr>tr_plain := utf8 (replicate n 0xe9), tr_pending := []\<rparr>)"
    using assms(1,2) len
    by (simp add: record_plain_def masked_bel_held masked_bel_text max_pending_prefix_bytes_def
        strip_nil count_newlines_def Let_def transcript_new_def)
  then show ?thesis
    using assms ne
    by (simp add: record_frame_def enforce_limits_def transcript_new_def checked_sub_def
        e_acute_props Let_def)
qed

text \<open>C36: The forced flush of an over-long pending prefix adds text that no chunk accounts
  for. With a byte limit in plain-text mode, such a frame leaves more text than the limit and
  an absolute offset of 0, and the next frame drops bytes at an offset inside a character: the
  recorder panics on output alone.\<close>

theorem forced_flush_panics:
  assumes "tc_mode cfg = TM_PlainText" "510 \<le> n" "0 < tc_max_bytes cfg" "tc_max_bytes cfg < 2 * n"
  shows "record_frames (transcript_new cfg) [masked_bel n, [0x61]] = None
    \<and> (\<exists>r t. record_frame (transcript_new cfg) (masked_bel n) = Some (r, t)
          \<and> tc_max_bytes cfg < length (tr_plain t) \<and> tr_next_plain_offset t = 0)"
proof -
  obtain r t where t: "record_frame (transcript_new cfg) (masked_bel n) = Some (r, t)"
    "tr_plain t = utf8 (replicate n 0xe9)" "tr_raw t = []" "tr_next_plain_offset t = 0"
    "tr_chunks t = []" "tr_pending t = []" "tr_mode t = TM_PlainText" "tr_total_lines t = 0"
    "tr_max_bytes t = tc_max_bytes cfg" "tr_max_lines t = tc_max_lines cfg"
    using masked_bel_frame [OF assms] by blast
  have a: "trailing_incomplete_bytes [0x61] = 0" "utf8 (strip_ansi [0x61]) = [0x61]"
    using trailing_complete_stream [of "[VT_Char 0x61]"] strip_stream [of "[VT_Char 0x61]"]
    by (simp_all add: token_bytes_def utf8_Cons utf8_char_def scalar_def)
  obtain k where k: "n = Suc k" using assms(2) by (cases n) auto
  have "record_plain t [0x61] = (1, 0, t \<lparr>tr_plain := tr_plain t @ [0x61]\<rparr>)"
    using t a by (simp add: record_plain_def max_pending_prefix_bytes_def count_newlines_def Let_def)
  moreover have "\<not> is_char_boundary (utf8 (replicate n 0xe9) @ [0x61]) 1"
    by (simp add: k is_char_boundary_def utf8_Cons e_acute is_cont_def)
  ultimately have "record_frame t [0x61] = None"
    using t assms by (simp add: record_frame_def enforce_limits_def checked_sub_def
        e_acute_props Let_def)
  then show ?thesis using t assms by (simp add: e_acute_props)
qed

theorem forced_flush_panics_witness:
  "record_frames (transcript_new \<lparr>tc_mode = TM_PlainText, tc_max_lines = 0, tc_max_bytes = 100\<rparr>)
     [masked_bel 512, [0x61]] = None"
  using forced_flush_panics [of "\<lparr>tc_mode = TM_PlainText, tc_max_lines = 0, tc_max_bytes = 100\<rparr>" 512]
  by simp

end
