(* ===== verification/Pty_Queue.thy ===== *)
theory Pty_Queue
  imports Core_Types "HOL-Library.Sublist"
begin

text \<open>
  The bounded frame queue between the reader thread of a child process and the pane
  manager (\<open>PtyFrame\<close>, \<open>PtyFrameQueueState\<close> in \<open>pty.rs\<close>), and the loop of the reader
  thread that fills it. The mutex around the state makes every push and every receive
  one atomic operation, so an execution is a sequence of them; a poisoned mutex is
  entered all the same and needs no case. The counters are \<open>u64\<close>, here naturals.

  The lemmas show that nothing is lost silently: over any sequence of operations the
  frames handed out and still queued account for every frame pushed, in order. The
  locale \<open>frame_source\<close> states what a consumer relies on.
\<close>

section \<open>Frames\<close>

datatype pty_frame =
    PF_Output nat "u8 list" nat
  | PF_CursorPositionRequest nat nat
  | PF_Exited nat "int option" nat
  | PF_Overflow nat nat nat nat
  | PF_Error nat rstr nat

text \<open>The fields in the order of the source: the sequence number, then for an overflow the
  dropped frames and bytes, last the time of capture.\<close>

fun frame_seq :: "pty_frame \<Rightarrow> nat" where
  "frame_seq (PF_Output s _ _) = s"
| "frame_seq (PF_CursorPositionRequest s _) = s"
| "frame_seq (PF_Exited s _ _) = s"
| "frame_seq (PF_Overflow s _ _ _) = s"
| "frame_seq (PF_Error s _ _) = s"

fun is_output :: "pty_frame \<Rightarrow> bool" where
  "is_output (PF_Output _ _ _) = True"
| "is_output _ = False"

fun is_overflow :: "pty_frame \<Rightarrow> bool" where
  "is_overflow (PF_Overflow _ _ _ _) = True"
| "is_overflow _ = False"

fun output_bytes :: "pty_frame \<Rightarrow> u8 list" where
  "output_bytes (PF_Output _ bs _) = bs"
| "output_bytes _ = []"


section \<open>The queue\<close>

datatype queued_frame =
    Q_Frame pty_frame
  | Q_Summary nat nat nat nat

record overflow_stats =
  os_dropped_frames :: nat
  os_dropped_bytes :: nat

record frame_queue =
  fq_frames :: "queued_frame list"
  fq_output_capacity :: nat
  fq_queued_output_frames :: nat
  fq_overflow_summary_queued :: bool
  fq_cumulative_dropped_frames :: nat
  fq_cumulative_dropped_bytes :: nat

definition queue_new :: "nat \<Rightarrow> frame_queue" where
  "queue_new output_capacity =
     \<lparr>fq_frames = [], fq_output_capacity = max output_capacity 1, fq_queued_output_frames = 0,
      fq_overflow_summary_queued = False, fq_cumulative_dropped_frames = 0,
      fq_cumulative_dropped_bytes = 0\<rparr>"

definition queue_overflow_stats :: "frame_queue \<Rightarrow> overflow_stats" where
  "queue_overflow_stats q =
     \<lparr>os_dropped_frames = fq_cumulative_dropped_frames q,
      os_dropped_bytes = fq_cumulative_dropped_bytes q\<rparr>"

text \<open>The search for a summary already queued: \<open>Q_Summary seq at frames bytes\<close>.\<close>

fun coalesce :: "nat \<Rightarrow> queued_frame list \<Rightarrow> queued_frame list option" where
  "coalesce dropped [] = None"
| "coalesce dropped (Q_Summary s a n b # fs) = Some (Q_Summary s a (n + 1) (b + dropped) # fs)"
| "coalesce dropped (Q_Frame f # fs) = map_option (\<lambda>fs'. Q_Frame f # fs') (coalesce dropped fs)"

definition record_output_overflow :: "nat \<Rightarrow> nat \<Rightarrow> nat \<Rightarrow> frame_queue \<Rightarrow> frame_queue" where
  "record_output_overflow seq dropped_bytes at1 q =
     (let q = q \<lparr>fq_cumulative_dropped_frames := fq_cumulative_dropped_frames q + 1,
                 fq_cumulative_dropped_bytes := fq_cumulative_dropped_bytes q + dropped_bytes\<rparr>
      in case coalesce dropped_bytes (fq_frames q) of
           Some fs \<Rightarrow> q \<lparr>fq_frames := fs\<rparr>
         | None \<Rightarrow> q \<lparr>fq_frames := fq_frames q @ [Q_Summary seq at1 1 dropped_bytes],
                      fq_overflow_summary_queued := True\<rparr>)"

definition push_output :: "nat \<Rightarrow> u8 list \<Rightarrow> nat \<Rightarrow> frame_queue \<Rightarrow> frame_queue" where
  "push_output seq bytes at1 q =
     (if fq_overflow_summary_queued q \<or> fq_output_capacity q \<le> fq_queued_output_frames q then
        record_output_overflow seq (length bytes) at1 q
      else q \<lparr>fq_frames := fq_frames q @ [Q_Frame (PF_Output seq bytes at1)],
              fq_queued_output_frames := fq_queued_output_frames q + 1\<rparr>)"

definition queue_push :: "pty_frame \<Rightarrow> frame_queue \<Rightarrow> frame_queue" where
  "queue_push frame q =
     (case frame of
        PF_Output seq bytes at1 \<Rightarrow> push_output seq bytes at1 q
      | _ \<Rightarrow> q \<lparr>fq_frames := fq_frames q @ [Q_Frame frame]\<rparr>)"

definition queue_try_recv :: "frame_queue \<Rightarrow> pty_frame option \<times> frame_queue" where
  "queue_try_recv q =
     (case fq_frames q of
        [] \<Rightarrow> (None, q)
      | Q_Frame frame # fs \<Rightarrow>
          (Some frame,
           q \<lparr>fq_frames := fs,
              fq_queued_output_frames :=
                (if is_output frame then fq_queued_output_frames q - 1
                 else fq_queued_output_frames q)\<rparr>)
      | Q_Summary seq at1 n b # fs \<Rightarrow>
          (Some (PF_Overflow seq n b at1),
           q \<lparr>fq_frames := fs, fq_overflow_summary_queued := False\<rparr>))"


section \<open>The interface of a frame source\<close>

text \<open>What the manager relies on when it drains a process: a receive hands out the
  frames that wait, one by one, and \<open>None\<close> when there are none.\<close>

locale frame_source =
  fixes recv :: "'q \<Rightarrow> pty_frame option \<times> 'q"
    and waiting :: "'q \<Rightarrow> pty_frame list"
  assumes recv_None: "waiting q = [] \<Longrightarrow> recv q = (None, q)"
    and recv_Some: "waiting q = f # fs \<Longrightarrow> \<exists>q'. recv q = (Some f, q') \<and> waiting q' = fs"
begin

lemma recv_cases:
  obtains "waiting q = []" "recv q = (None, q)"
  | f q' where "waiting q = f # waiting q'" "recv q = (Some f, q')"
proof (cases "waiting q")
  case (Cons f fs)
  then show ?thesis using recv_Some that(2) by blast
qed (use recv_None that(1) in blast)

fun recv_n :: "nat \<Rightarrow> 'q \<Rightarrow> pty_frame list \<times> 'q" where
  "recv_n 0 q = ([], q)"
| "recv_n (Suc n) q =
     (case recv q of
        (None, q') \<Rightarrow> ([], q')
      | (Some f, q') \<Rightarrow> (case recv_n n q' of (fs, q'') \<Rightarrow> (f # fs, q'')))"

lemma recv_n_spec:
  "\<exists>q'. recv_n n q = (take n (waiting q), q') \<and> waiting q' = drop n (waiting q)"
proof (induction n arbitrary: q)
  case (Suc n)
  show ?case
  proof (cases rule: recv_cases [of q])
    case (2 f q1)
    then show ?thesis using Suc [of q1] by auto
  qed simp
qed simp

end

fun frame_of :: "queued_frame \<Rightarrow> pty_frame" where
  "frame_of (Q_Frame f) = f"
| "frame_of (Q_Summary s a n b) = PF_Overflow s n b a"

definition queue_waiting :: "frame_queue \<Rightarrow> pty_frame list" where
  "queue_waiting q = map frame_of (fq_frames q)"

interpretation pty_queue: frame_source queue_try_recv queue_waiting
proof
  show "queue_waiting q = [] \<Longrightarrow> queue_try_recv q = (None, q)" for q
    by (simp add: queue_waiting_def queue_try_recv_def)
next
  show "\<exists>q'. queue_try_recv q = (Some f, q') \<and> queue_waiting q' = fs"
    if "queue_waiting q = f # fs" for q f fs
    using that by (auto simp: queue_waiting_def queue_try_recv_def split: queued_frame.split)
qed


section \<open>The invariant of the queue\<close>

fun is_summary :: "queued_frame \<Rightarrow> bool" where
  "is_summary (Q_Summary _ _ _ _) = True"
| "is_summary (Q_Frame _) = False"

definition queued_outputs :: "queued_frame list \<Rightarrow> nat" where
  "queued_outputs fs = length (filter (\<lambda>f. is_output (frame_of f)) fs)"

definition queue_inv :: "frame_queue \<Rightarrow> bool" where
  "queue_inv q =
     (fq_queued_output_frames q = queued_outputs (fq_frames q)
      \<and> fq_queued_output_frames q \<le> fq_output_capacity q
      \<and> 1 \<le> fq_output_capacity q
      \<and> length (filter is_summary (fq_frames q)) = (if fq_overflow_summary_queued q then 1 else 0))"

lemma queue_new_inv [inv_intros]: "queue_inv (queue_new n)"
  by (simp add: queue_inv_def queue_new_def queued_outputs_def)

lemma coalesce_None: "coalesce d fs = None \<longleftrightarrow> filter is_summary fs = []"
  by (induction d fs rule: coalesce.induct) auto

text \<open>Coalescing changes nothing but the counts of one overflow frame.\<close>

definition dropped_frames :: "pty_frame \<Rightarrow> nat" where
  "dropped_frames f = (case f of PF_Overflow _ n _ _ \<Rightarrow> n | _ \<Rightarrow> 0)"

definition dropped_bytes :: "pty_frame \<Rightarrow> nat" where
  "dropped_bytes f = (case f of PF_Overflow _ _ b _ \<Rightarrow> b | _ \<Rightarrow> 0)"

lemma dropped_simps [simp]:
  "dropped_frames (PF_Overflow s n b a) = n" "dropped_bytes (PF_Overflow s n b a) = b"
  "\<not> is_overflow f \<Longrightarrow> dropped_frames f = 0" "\<not> is_overflow f \<Longrightarrow> dropped_bytes f = 0"
  by (cases f; simp add: dropped_frames_def dropped_bytes_def)+

lemma coalesce_spec:
  assumes "coalesce d fs = Some fs'"
  shows "map frame_seq (map frame_of fs') = map frame_seq (map frame_of fs)"
    "filter (\<lambda>f. \<not> is_overflow f) (map frame_of fs') = filter (\<lambda>f. \<not> is_overflow f) (map frame_of fs)"
    "filter is_summary fs' \<noteq> []" "length (filter is_summary fs') = length (filter is_summary fs)"
    "queued_outputs fs' = queued_outputs fs"
    "sum_list (map dropped_frames (map frame_of fs')) = sum_list (map dropped_frames (map frame_of fs)) + 1"
    "sum_list (map dropped_bytes (map frame_of fs')) = sum_list (map dropped_bytes (map frame_of fs)) + d"
  using assms
  by (induction d fs arbitrary: fs' rule: coalesce.induct) (auto simp: queued_outputs_def)

lemma queue_push_inv [inv_intros]: "queue_inv q \<Longrightarrow> queue_inv (queue_push f q)"
proof (cases f)
  case (PF_Output s bs a)
  assume q: "queue_inv q"
  show ?thesis
  proof (cases "fq_overflow_summary_queued q \<or> fq_output_capacity q \<le> fq_queued_output_frames q")
    case True
    show ?thesis
    proof (cases "coalesce (length bs) (fq_frames q)")
      case None
      then have "\<not> fq_overflow_summary_queued q" using q by (auto simp: queue_inv_def coalesce_None)
      then show ?thesis using q True None PF_Output
        by (auto simp: queue_inv_def queue_push_def push_output_def record_output_overflow_def
            queued_outputs_def Let_def)
    next
      case (Some fs)
      then show ?thesis using q True PF_Output coalesce_spec [OF Some]
        by (auto simp: queue_inv_def queue_push_def push_output_def record_output_overflow_def Let_def)
    qed
  next
    case False
    then show ?thesis using q PF_Output
      by (auto simp: queue_inv_def queue_push_def push_output_def queued_outputs_def)
  qed
qed (auto simp: queue_inv_def queue_push_def queued_outputs_def)

lemma queue_try_recv_inv [inv_intros]: "queue_inv q \<Longrightarrow> queue_inv (snd (queue_try_recv q))"
  by (auto simp: queue_inv_def queue_try_recv_def queued_outputs_def split: list.split queued_frame.split
      if_splits)


section \<open>Executions\<close>

text \<open>Pushes by the reader thread and receives by the manager, in any order; the result is
  what was handed out and the queue left.\<close>

datatype queue_op = Op_Push pty_frame | Op_Recv

fun queue_run :: "queue_op list \<Rightarrow> frame_queue \<Rightarrow> pty_frame list \<times> frame_queue" where
  "queue_run [] q = ([], q)"
| "queue_run (Op_Push f # ops) q = queue_run ops (queue_push f q)"
| "queue_run (Op_Recv # ops) q =
     (case queue_try_recv q of
        (None, q') \<Rightarrow> queue_run ops q'
      | (Some f, q') \<Rightarrow> (case queue_run ops q' of (fs, q'') \<Rightarrow> (f # fs, q'')))"

fun pushes :: "queue_op list \<Rightarrow> pty_frame list" where
  "pushes [] = []"
| "pushes (Op_Push f # ops) = f # pushes ops"
| "pushes (Op_Recv # ops) = pushes ops"

definition total_bytes :: "pty_frame list \<Rightarrow> nat" where
  "total_bytes fs = sum_list (map (\<lambda>f. length (output_bytes f)) fs)"

lemma total_bytes_simps [simp]:
  "total_bytes [] = 0" "total_bytes (f # fs) = length (output_bytes f) + total_bytes fs"
  "total_bytes (fs @ gs) = total_bytes fs + total_bytes gs"
  by (simp_all add: total_bytes_def)

text \<open>\<open>accounts h P\<close>: the history \<open>h\<close>, what was handed out and what waits, accounts for the
  pushed frames \<open>P\<close>.\<close>

definition accounts :: "pty_frame list \<Rightarrow> pty_frame list \<Rightarrow> bool" where
  "accounts h P =
     (filter (\<lambda>f. \<not> is_output f \<and> \<not> is_overflow f) h = filter (\<lambda>f. \<not> is_output f) P
      \<and> subseq (filter is_output h) (filter is_output P)
      \<and> length (filter is_output P) = length (filter is_output h) + sum_list (map dropped_frames h)
      \<and> total_bytes P = total_bytes h + sum_list (map dropped_bytes h)
      \<and> (sorted_wrt (<) (map frame_seq P) \<longrightarrow>
           sorted_wrt (<) (map frame_seq h) \<and> set (map frame_seq h) \<subseteq> set (map frame_seq P)))"

lemma total_bytes_outputs: "total_bytes (filter (\<lambda>f. \<not> is_overflow f) h) = total_bytes h"
proof -
  have "is_overflow f \<Longrightarrow> output_bytes f = []" for f by (cases f) auto
  then show ?thesis by (induction h) auto
qed

lemma filter_output_not_overflow:
  "filter is_output (filter (\<lambda>f. \<not> is_overflow f) h) = filter is_output h"
proof -
  have "is_output f \<Longrightarrow> \<not> is_overflow f" for f by (cases f) auto
  then show ?thesis by (induction h) auto
qed

lemma accounts_snoc:
  assumes "accounts h P" "\<not> is_overflow f"
  shows "accounts (h @ [f]) (P @ [f])"
proof -
  have "sorted_wrt (<) (map frame_seq (h @ [f]))" if "sorted_wrt (<) (map frame_seq (P @ [f]))"
    using assms(1) that by (auto simp: accounts_def sorted_wrt_append)
  then show ?thesis
    using assms by (auto simp: accounts_def sorted_wrt_append list_emb_append_mono)
qed

lemma accounts_drop:
  assumes h: "accounts h P"
  shows "accounts (h @ [PF_Overflow s 1 (length bs) a]) (P @ [PF_Output s bs t])"
proof -
  have "sorted_wrt (<) (map frame_seq (h @ [PF_Overflow s 1 (length bs) a]))"
    if "sorted_wrt (<) (map frame_seq (P @ [PF_Output s bs t]))"
    using assms that by (auto simp: accounts_def sorted_wrt_append)
  then show ?thesis using assms
    by (auto simp: accounts_def sorted_wrt_append intro: subseq_order.trans)
qed

lemma accounts_replace:
  assumes h: "accounts (d @ w) P" and seqs: "map frame_seq w' = map frame_seq w"
    and n: "filter (\<lambda>f. \<not> is_overflow f) w' = filter (\<lambda>f. \<not> is_overflow f) w"
    and drops: "sum_list (map dropped_frames w') = sum_list (map dropped_frames w) + 1"
      "sum_list (map dropped_bytes w') = sum_list (map dropped_bytes w) + length bs"
  shows "accounts (d @ w') (P @ [PF_Output s bs t])"
proof -
  have o: "filter is_output w' = filter is_output w"
    by (metis n filter_output_not_overflow)
  have nn: "filter (\<lambda>f. \<not> is_output f \<and> \<not> is_overflow f) w'
      = filter (\<lambda>f. \<not> is_output f \<and> \<not> is_overflow f) w"
    using arg_cong [OF n, of "filter (\<lambda>f. \<not> is_output f)"] by (simp add: conj_commute)
  have b: "total_bytes w' = total_bytes w"
    by (metis n total_bytes_outputs)
  have sub: "subseq (filter is_output (d @ w')) (filter is_output P @ [PF_Output s bs t])"
    using h o unfolding accounts_def by (auto intro: subseq_order.trans)
  have "map frame_seq (d @ w') = map frame_seq (d @ w)" using seqs by simp
  then have sorted: "sorted_wrt (<) (map frame_seq (d @ w')) \<and>
      set (map frame_seq (d @ w')) \<subseteq> set (map frame_seq (P @ [PF_Output s bs t]))"
    if "sorted_wrt (<) (map frame_seq (P @ [PF_Output s bs t]))"
    using h that unfolding accounts_def by (simp only:) (auto simp: sorted_wrt_append)
  show ?thesis
    unfolding accounts_def
    using h sub sorted by (intro conjI) (simp_all add: accounts_def o nn b drops)
qed

lemma accounts_coalesce:
  assumes h: "accounts (d @ map frame_of fs) P" and c: "coalesce (length bs) fs = Some fs'"
  shows "accounts (d @ map frame_of fs') (P @ [PF_Output s bs t])"
  by (rule accounts_replace [OF h coalesce_spec(1,2,6,7) [OF c]])

lemma push_accounts:
  assumes "accounts (d @ queue_waiting q) P" "\<not> is_overflow f"
  shows "accounts (d @ queue_waiting (queue_push f q)) (P @ [f])"
proof (cases f)
  case (PF_Output s bs t)
  then show ?thesis
    using assms accounts_snoc [OF assms] accounts_drop [OF assms(1), of s bs t t]
      accounts_coalesce [of d "fq_frames q" P bs _ s t]
    by (auto simp: queue_push_def push_output_def record_output_overflow_def queue_waiting_def Let_def
        split: option.split)
qed (use assms accounts_snoc [OF assms] in \<open>auto simp: queue_push_def queue_waiting_def\<close>)

lemma push_stats:
  "fq_cumulative_dropped_frames (queue_push f q) + sum_list (map dropped_frames (queue_waiting q))
     = fq_cumulative_dropped_frames q + sum_list (map dropped_frames (queue_waiting (queue_push f q)))
   \<or> is_overflow f"
  "fq_cumulative_dropped_bytes (queue_push f q) + sum_list (map dropped_bytes (queue_waiting q))
     = fq_cumulative_dropped_bytes q + sum_list (map dropped_bytes (queue_waiting (queue_push f q)))
   \<or> is_overflow f"
  by (cases f; auto simp: queue_push_def push_output_def record_output_overflow_def queue_waiting_def
      Let_def coalesce_spec(6,7) simp del: map_map split: option.split)+

lemma recv_waiting:
  "queue_try_recv q = (r, q') \<Longrightarrow>
   (case r of None \<Rightarrow> queue_waiting q = [] \<and> q' = q | Some f \<Rightarrow> queue_waiting q = f # queue_waiting q')
   \<and> fq_cumulative_dropped_frames q' = fq_cumulative_dropped_frames q
   \<and> fq_cumulative_dropped_bytes q' = fq_cumulative_dropped_bytes q
   \<and> fq_output_capacity q' = fq_output_capacity q"
  by (auto simp: queue_try_recv_def queue_waiting_def split: list.splits queued_frame.splits)

lemma queue_run_accounts:
  assumes "accounts (d @ queue_waiting q) P" "\<forall>f\<in>set (pushes ops). \<not> is_overflow f" "queue_inv q"
    "fq_cumulative_dropped_frames q = sum_list (map dropped_frames (d @ queue_waiting q))"
    "fq_cumulative_dropped_bytes q = sum_list (map dropped_bytes (d @ queue_waiting q))"
    "queue_run ops q = (fs, q')"
  shows "accounts (d @ fs @ queue_waiting q') (P @ pushes ops) \<and> queue_inv q'
    \<and> fq_cumulative_dropped_frames q' = sum_list (map dropped_frames (d @ fs @ queue_waiting q'))
    \<and> fq_cumulative_dropped_bytes q' = sum_list (map dropped_bytes (d @ fs @ queue_waiting q'))
    \<and> fq_output_capacity q' = fq_output_capacity q"
  using assms
proof (induction ops q arbitrary: d P fs rule: queue_run.induct)
  case (2 f ops q)
  have f: "\<not> is_overflow f" using "2.prems"(2) by simp
  have cap: "fq_output_capacity (queue_push f q) = fq_output_capacity q"
    by (simp add: queue_push_def push_output_def record_output_overflow_def Let_def
        split: pty_frame.split option.split)
  have "fq_cumulative_dropped_frames (queue_push f q)
      = sum_list (map dropped_frames (d @ queue_waiting (queue_push f q)))"
    "fq_cumulative_dropped_bytes (queue_push f q)
      = sum_list (map dropped_bytes (d @ queue_waiting (queue_push f q)))"
    using push_stats [of f q] f "2.prems"(4,5) by auto
  then show ?case
    using "2.IH" [of d "P @ [f]" fs] push_accounts [OF "2.prems"(1) f] queue_push_inv [OF "2.prems"(3)]
      "2.prems"(2,6) cap by simp
next
  case (3 ops q)
  obtain r q1 where r: "queue_try_recv q = (r, q1)" by fastforce
  have inv: "queue_inv q1" using queue_try_recv_inv [OF "3.prems"(3)] r by simp
  note w = recv_waiting [OF r]
  show ?case
  proof (cases r)
    case None
    then show ?thesis using "3.IH"(1) [OF r [symmetric]] "3.prems" r w by simp
  next
    case (Some f)
    then obtain gs where gs: "queue_run ops q1 = (gs, q')" "fs = f # gs"
      using "3.prems"(6) r by (auto split: prod.splits)
    have "accounts ((d @ [f]) @ queue_waiting q1) P" using "3.prems"(1) w Some by simp
    then show ?thesis
      using "3.IH"(2) [OF r [symmetric], of f "d @ [f]" P gs] "3.prems"(2,4,5) inv gs w Some by simp
  qed
qed simp

text \<open>C4: Nothing the child prints is lost silently. Over any interleaving of pushes by the
  reader and receives by the manager, every frame that is not output (exit, error) reaches the
  manager in order; the output frames handed out or still queued are those pushed, in order,
  less exactly as many frames and bytes as the overflow notices and the statistics report; no
  more output waits than the capacity; and with increasing sequence numbers the frames come
  in that order, the overflow notice in the place of the first frame it stands for.\<close>

theorem queue_accounts_for_all:
  assumes "\<forall>f\<in>set (pushes ops). \<not> is_overflow f" "queue_run ops (queue_new cap) = (got, q)"
  shows "filter (\<lambda>f. \<not> is_output f \<and> \<not> is_overflow f) (got @ queue_waiting q)
       = filter (\<lambda>f. \<not> is_output f) (pushes ops)
    \<and> subseq (filter is_output (got @ queue_waiting q)) (filter is_output (pushes ops))
    \<and> length (filter is_output (pushes ops))
       = length (filter is_output (got @ queue_waiting q)) + os_dropped_frames (queue_overflow_stats q)
    \<and> total_bytes (pushes ops)
       = total_bytes (got @ queue_waiting q) + os_dropped_bytes (queue_overflow_stats q)
    \<and> os_dropped_frames (queue_overflow_stats q)
       = sum_list (map dropped_frames (got @ queue_waiting q))
    \<and> os_dropped_bytes (queue_overflow_stats q)
       = sum_list (map dropped_bytes (got @ queue_waiting q))
    \<and> length (filter is_output (queue_waiting q)) \<le> max cap 1
    \<and> (sorted_wrt (<) (map frame_seq (pushes ops)) \<longrightarrow>
        sorted_wrt (<) (map frame_seq (got @ queue_waiting q)))"
proof -
  have e: "accounts ([] @ queue_waiting (queue_new cap)) []"
    by (simp add: accounts_def queue_waiting_def queue_new_def)
  have r: "accounts (got @ queue_waiting q) (pushes ops)" "queue_inv q"
    "fq_cumulative_dropped_frames q = sum_list (map dropped_frames (got @ queue_waiting q))"
    "fq_cumulative_dropped_bytes q = sum_list (map dropped_bytes (got @ queue_waiting q))"
    "fq_output_capacity q = max cap 1"
    using queue_run_accounts [OF e assms(1) queue_new_inv _ _ assms(2)]
    by (simp_all add: queue_waiting_def queue_new_def)
  have "length (filter is_output (queue_waiting q)) = queued_outputs (fq_frames q)"
    by (simp add: queue_waiting_def queued_outputs_def filter_map comp_def)
  then show ?thesis using r by (simp add: accounts_def queue_overflow_stats_def queue_inv_def)
qed

theorem queue_accounts_for_all_witness:
  "fst (queue_run [Op_Push (PF_Output 1 [7] 0), Op_Push (PF_Output 2 [8, 9] 0), Op_Push (PF_Exited 3 None 0),
       Op_Recv, Op_Recv] (queue_new 1)) = [PF_Output 1 [7] 0, PF_Overflow 2 1 2 0]
   \<and> os_dropped_bytes (queue_overflow_stats (snd (queue_run [Op_Push (PF_Output 1 [7] 0),
       Op_Push (PF_Output 2 [8, 9] 0), Op_Push (PF_Exited 3 None 0), Op_Recv, Op_Recv] (queue_new 1)))) = 2"
proof -
  let ?ops = "[Op_Push (PF_Output 1 [7] 0), Op_Push (PF_Output 2 [8, 9] 0), Op_Push (PF_Exited 3 None 0),
    Op_Recv, Op_Recv]"
  define q where "q = (queue_new 1) \<lparr>fq_frames := [Q_Frame (PF_Exited 3 None 0)],
    fq_cumulative_dropped_frames := 1, fq_cumulative_dropped_bytes := 2\<rparr>"
  have q: "queue_run ?ops (queue_new 1) = ([PF_Output 1 [7] 0, PF_Overflow 2 1 2 0], q)"
    "queue_waiting q = [PF_Exited 3 None 0]"
    by (simp_all add: queue_new_def queue_push_def push_output_def record_output_overflow_def
        queue_try_recv_def queue_waiting_def q_def)
  have "\<forall>f\<in>set (pushes ?ops). \<not> is_overflow f" by simp
  from queue_accounts_for_all [OF this q(1)]
  have "os_dropped_bytes (queue_overflow_stats q)
      = sum_list (map dropped_bytes ([PF_Output 1 [7] 0, PF_Overflow 2 1 2 0] @ queue_waiting q))"
    by (elim conjE)
  then have "os_dropped_bytes (queue_overflow_stats q) = 2"
    unfolding q(2) by (simp add: dropped_bytes_def)
  then show ?thesis unfolding q(1) by simp
qed

end
