(* ===== verification/Pty_Io.thy ===== *)
theory Pty_Io
  imports Pty_Queue "HOL-Library.List_Lexorder"
begin

text \<open>
  The operations of a child process behind its pseudo-terminal (\<open>pty.rs\<close>): the writer
  with its retry loop, the reader thread, the child's environment and the termination
  protocol on Unix. The operating system and the crate \<open>portable_pty\<close> are parameters: a
  record of the calls the source makes, over a state of their own. A call that sleeps only
  lets time pass and is left out where nothing reads the clock.
\<close>

section \<open>The writer\<close>

datatype io_error_kind = WouldBlock | Interrupted | OtherKind

record io_error =
  ie_kind :: io_error_kind
  ie_text :: rstr

text \<open>\<open>PtyWriter\<close>: the boxed \<open>Write\<close> behind a mutex, which is shared with the process.\<close>

record 'p pty_writer =
  pw_lock_poisoned :: "'p \<Rightarrow> bool"
  pw_write :: "'p \<Rightarrow> u8 list \<Rightarrow> (io_error + nat) \<times> 'p"
  pw_write_all :: "'p \<Rightarrow> u8 list \<Rightarrow> (io_error + unit) \<times> 'p"
  pw_flush :: "'p \<Rightarrow> (io_error + unit) \<times> 'p"

text \<open>The trait \<open>PtyProcess\<close>.\<close>

record 'p pty_process =
  pp_writer :: "'p pty_writer"
  pp_try_recv :: "'p \<Rightarrow> pty_frame option \<times> 'p"
  pp_resize :: "'p \<Rightarrow> pane_size \<Rightarrow> (pane_error + unit) \<times> 'p"
  pp_kill :: "'p \<Rightarrow> (pane_error + unit) \<times> 'p"

record write_failure =
  wf_bytes_written :: nat
  wf_error :: pane_error

definition io_failure :: "io_operation \<Rightarrow> io_error \<Rightarrow> pane_error" where
  "io_failure operation e = Io_Error operation (ie_text e)"

definition is_transient_io :: "io_error_kind \<Rightarrow> bool" where
  "is_transient_io k = (k = WouldBlock \<or> k = Interrupted)"

definition poisoned :: "io_operation \<Rightarrow> pane_error" where
  "poisoned operation = Io_Error operation (lit ''pty writer lock poisoned'')"

definition write_bytes :: "'p pty_writer \<Rightarrow> 'p \<Rightarrow> u8 list \<Rightarrow> (pane_error + unit) \<times> 'p" where
  "write_bytes w p bytes =
     (if pw_lock_poisoned w p then (Inl (poisoned Io_Write), p)
      else case pw_write_all w p bytes of
        (Inl e, p1) \<Rightarrow> (Inl (io_failure Io_Write e), p1)
      | (Inr _, p1) \<Rightarrow>
          (case pw_flush w p1 of
             (Inl e, p2) \<Rightarrow> (Inl (io_failure Io_Flush e), p2)
           | (Inr _, p2) \<Rightarrow> (Inr (), p2)))"

definition writer_flush :: "'p pty_writer \<Rightarrow> 'p \<Rightarrow> (pane_error + unit) \<times> 'p" where
  "writer_flush w p =
     (if pw_lock_poisoned w p then (Inl (poisoned Io_Flush), p)
      else case pw_flush w p of
        (Inl e, p1) \<Rightarrow> (Inl (io_failure Io_Flush e), p1)
      | (Inr _, p1) \<Rightarrow> (Inr (), p1))"

function retry_flush ::
    "'p pty_writer \<Rightarrow> nat \<Rightarrow> nat \<Rightarrow> nat \<Rightarrow> 'p \<Rightarrow> (write_failure + unit) \<times> 'p" where
  "retry_flush w bytes_written max_transient_retries retries p =
     (case pw_flush w p of
        (Inr _, p1) \<Rightarrow> (Inr (), p1)
      | (Inl e, p1) \<Rightarrow>
          if is_transient_io (ie_kind e) \<and> retries < max_transient_retries
          then retry_flush w bytes_written max_transient_retries (retries + 1) p1
          else (Inl \<lparr>wf_bytes_written = bytes_written, wf_error = io_failure Io_Flush e\<rparr>, p1))"
  by pat_completeness auto
termination by (relation "measure (\<lambda>(w, n, m, r, p). m - r)") auto

declare retry_flush.simps [simp del]

function write_loop ::
    "'p pty_writer \<Rightarrow> u8 list \<Rightarrow> nat \<Rightarrow> nat \<Rightarrow> nat \<Rightarrow> 'p \<Rightarrow> (write_failure + nat) \<times> 'p" where
  "write_loop w bytes max_transient_retries bytes_written retries p =
     (if bytes_written < length bytes then
        (case pw_write w p (drop bytes_written bytes) of
           (Inr written, p1) \<Rightarrow>
             if written = 0 then
               (Inl \<lparr>wf_bytes_written = bytes_written,
                     wf_error = Io_Error Io_Write (lit ''write returned zero bytes'')\<rparr>, p1)
             else write_loop w bytes max_transient_retries (bytes_written + written) 0 p1
         | (Inl e, p1) \<Rightarrow>
             if is_transient_io (ie_kind e) \<and> retries < max_transient_retries
             then write_loop w bytes max_transient_retries bytes_written (retries + 1) p1
             else (Inl \<lparr>wf_bytes_written = bytes_written, wf_error = io_failure Io_Write e\<rparr>, p1))
      else (Inr bytes_written, p))"
  by pat_completeness auto
termination
  by (relation "measures [\<lambda>(w, bs, m, n, r, p). length bs - n, \<lambda>(w, bs, m, n, r, p). m - r]") auto

declare write_loop.simps [simp del]

definition write_bytes_retrying ::
    "'p pty_writer \<Rightarrow> 'p \<Rightarrow> u8 list \<Rightarrow> nat \<Rightarrow> (write_failure + nat) \<times> 'p" where
  "write_bytes_retrying w p bytes max_transient_retries =
     (if pw_lock_poisoned w p then (Inl \<lparr>wf_bytes_written = 0, wf_error = poisoned Io_Write\<rparr>, p)
      else case write_loop w bytes max_transient_retries 0 0 p of
        (Inl f, p1) \<Rightarrow> (Inl f, p1)
      | (Inr n, p1) \<Rightarrow>
          (case retry_flush w n max_transient_retries 0 p1 of
             (Inl f, p2) \<Rightarrow> (Inl f, p2)
           | (Inr _, p2) \<Rightarrow> (Inr n, p2)))"

text \<open>The documented behaviour of \<open>Write\<close>: \<open>Ok(n)\<close> takes the first \<open>n\<close> bytes, an error
  none, a flush none; \<open>sunk\<close> is what the child's terminal has been given.\<close>

definition honest_writer :: "'p pty_writer \<Rightarrow> ('p \<Rightarrow> u8 list) \<Rightarrow> bool" where
  "honest_writer w sunk =
     ((\<forall>p bs n p'. pw_write w p bs = (Inr n, p') \<longrightarrow> n \<le> length bs \<and> sunk p' = sunk p @ take n bs)
      \<and> (\<forall>p bs e p'. pw_write w p bs = (Inl e, p') \<longrightarrow> sunk p' = sunk p)
      \<and> (\<forall>p r p'. pw_flush w p = (r, p') \<longrightarrow> sunk p' = sunk p))"

lemma retry_flush_sunk:
  "honest_writer w sunk \<Longrightarrow> retry_flush w n m r p = (res, p') \<Longrightarrow>
   sunk p' = sunk p \<and> (\<forall>f. res = Inl f \<longrightarrow> wf_bytes_written f = n)"
proof (induction w n m r p rule: retry_flush.induct)
  case (1 w n m r p)
  obtain x p1 where x: "pw_flush w p = (x, p1)" by fastforce
  have s: "sunk p1 = sunk p" using "1.prems"(1) x by (auto simp: honest_writer_def)
  show ?case
  proof (cases "\<exists>e. x = Inl e \<and> is_transient_io (ie_kind e) \<and> r < m")
    case True
    then obtain e where e: "x = Inl e" "is_transient_io (ie_kind e)" "r < m" by blast
    then have "retry_flush w n m (r + 1) p1 = (res, p')"
      using "1.prems"(2) x by (subst (asm) retry_flush.simps) simp
    then show ?thesis using "1.IH" [of x p1 e] x e "1.prems"(1) s by simp
  next
    case False
    then show ?thesis using "1.prems"(2) x s
      by (subst (asm) retry_flush.simps) (auto split: sum.splits if_splits)
  qed
qed

lemma write_loop_sunk:
  "honest_writer w sunk \<Longrightarrow> n \<le> length bs \<Longrightarrow> write_loop w bs m n r p = (res, p') \<Longrightarrow>
   (case res of
      Inr k \<Rightarrow> k = length bs \<and> sunk p' = sunk p @ drop n bs
    | Inl f \<Rightarrow> n \<le> wf_bytes_written f \<and> wf_bytes_written f \<le> length bs
        \<and> sunk p' = sunk p @ drop n (take (wf_bytes_written f) bs))"
proof (induction w bs m n r p rule: write_loop.induct)
  case (1 w bs m n r p)
  note unfold = "1.prems"(3) [unfolded write_loop.simps [of w bs m n r p]]
  show ?case
  proof (cases "n < length bs")
    case False
    then show ?thesis using unfold "1.prems"(2) by (auto split: sum.split)
  next
    case True
    obtain x p1 where x: "pw_write w p (drop n bs) = (x, p1)" by fastforce
    show ?thesis
    proof (cases x)
      case (Inr k)
      have k: "k \<le> length bs - n" "sunk p1 = sunk p @ take k (drop n bs)"
        using "1.prems"(1) x Inr unfolding honest_writer_def by (metis length_drop, metis)
      show ?thesis
      proof (cases "k = 0")
        case True
        then show ?thesis using unfold x Inr k \<open>n < length bs\<close> by (auto split: sum.split)
      next
        case False
        then have l: "write_loop w bs m (n + k) 0 p1 = (res, p')"
          using unfold x Inr True by simp
        have nk: "n + k \<le> length bs" using k True by simp
        have d: "take k (drop n bs) @ drop (n + k) bs = drop n bs"
          by (metis append_take_drop_id drop_drop add.commute)
        have d2: "take k (drop n bs) @ drop (n + k) (take j bs) = drop n (take j bs)" if "n + k \<le> j" for j
        proof -
          have "take k (drop n bs) = take k (drop n (take j bs))" using that by (simp add: drop_take)
          then show ?thesis by (metis append_take_drop_id drop_drop add.commute)
        qed
        show ?thesis using "1.IH"(2) [OF True x [symmetric] Inr False "1.prems"(1) nk l] k d d2
          by (auto split: sum.splits)
      qed
    next
      case (Inl e)
      have s: "sunk p1 = sunk p" using "1.prems"(1) x Inl by (auto simp: honest_writer_def)
      show ?thesis
      proof (cases "is_transient_io (ie_kind e) \<and> r < m")
        case t: True
        then have l: "write_loop w bs m n (r + 1) p1 = (res, p')"
          using unfold x Inl True by simp
        show ?thesis
          using "1.IH"(1) [OF True x [symmetric] Inl t "1.prems"(1) _ l] "1.prems"(2) s
          by (simp split: sum.splits)
      next
        case False
        then show ?thesis using unfold x Inl True s "1.prems"(2) by (auto split: sum.split)
      qed
    qed
  qed
qed

lemma write_retrying_sunk:
  assumes "honest_writer w sunk" "write_bytes_retrying w p bytes retries = (res, p')"
  shows "case res of
      Inr n \<Rightarrow> n = length bytes \<and> sunk p' = sunk p @ bytes
    | Inl f \<Rightarrow> wf_bytes_written f \<le> length bytes \<and> sunk p' = sunk p @ take (wf_bytes_written f) bytes"
proof (cases "pw_lock_poisoned w p")
  case True
  then show ?thesis using assms(2) by (auto simp: write_bytes_retrying_def)
next
  case False
  obtain x p1 where x: "write_loop w bytes retries 0 0 p = (x, p1)" by fastforce
  note l = write_loop_sunk [OF assms(1) _ x]
  show ?thesis
  proof (cases x)
    case (Inl f)
    then show ?thesis using l assms(2) x False by (auto simp: write_bytes_retrying_def)
  next
    case (Inr n)
    obtain y p2 where y: "retry_flush w n retries 0 p1 = (y, p2)" by fastforce
    show ?thesis using l retry_flush_sunk [OF assms(1) y] assms(2) x y Inr False
      by (auto simp: write_bytes_retrying_def split: sum.splits)
  qed
qed

text \<open>C25: The retrying writer reports exactly what the child got: on success all bytes, once
  and in order, on any failure the first \<open>bytes_written\<close> of them, so that a caller can resume
  without losing or repeating input. It always returns.\<close>

theorem write_retrying_exact:
  assumes "honest_writer w sunk" "write_bytes_retrying w p bytes retries = (res, p')"
  shows "case res of
      Inr n \<Rightarrow> n = length bytes \<and> sunk p' = sunk p @ bytes
    | Inl f \<Rightarrow> wf_bytes_written f \<le> length bytes \<and> sunk p' = sunk p @ take (wf_bytes_written f) bytes"
  using assms by (rule write_retrying_sunk)

text \<open>A terminal that takes one byte at a time and blocks once on the second.\<close>

definition slow_writer :: "(u8 list \<times> bool) pty_writer" where
  "slow_writer =
     \<lparr>pw_lock_poisoned = (\<lambda>_. False),
      pw_write = (\<lambda>(s, b) bs.
        if length s = 1 \<and> \<not> b then (Inl \<lparr>ie_kind = WouldBlock, ie_text = []\<rparr>, (s, True))
        else (Inr (min 1 (length bs)), (s @ take 1 bs, b))),
      pw_write_all = (\<lambda>(s, b) bs. (Inr (), (s @ bs, b))),
      pw_flush = (\<lambda>p. (Inr (), p))\<rparr>"

lemma slow_writer_honest: "honest_writer slow_writer fst"
proof -
  have "take (min (Suc 0) (length bs)) bs = take (Suc 0) bs" for bs :: "u8 list" by (cases bs) auto
  then show ?thesis by (auto simp: honest_writer_def slow_writer_def split: if_splits)
qed

theorem write_retrying_exact_witness:
  "\<exists>p'. write_bytes_retrying slow_writer ([], False) [1, 2, 3] 3 = (Inr 3, p') \<and> fst p' = [1, 2, 3]"
proof -
  have r: "write_bytes_retrying slow_writer ([], False) [1, 2, 3] 3 = (Inr 3, ([1, 2, 3], True))"
    by (simp add: write_bytes_retrying_def write_loop.simps retry_flush.simps slow_writer_def
        is_transient_io_def numeral_2_eq_2 numeral_3_eq_3)
  show ?thesis using write_retrying_exact [OF slow_writer_honest r] r by simp
qed


section \<open>The reader thread\<close>

text \<open>The calls of the loop: the results of the successive \<open>read\<close>s (an empty read is the end
  of the stream), what polling the child answers after a failed read, and what waiting for
  it answers. When the results run out the thread waits in \<open>read\<close>. The exit status is that
  of \<open>portable_pty\<close>: a signal name, or the exit code as an unsigned 32-bit number.\<close>

record exit_status =
  es_signal :: "rstr option"
  es_exit_code :: "32 word"

definition exit_code :: "exit_status \<Rightarrow> int option" where
  "exit_code status =
     (if es_signal status \<noteq> None then None else Some (sint (es_exit_code status)))"

datatype read_end = RE_Blocked | RE_Wait | RE_Status exit_status

fun reader_loop ::
    "(nat \<Rightarrow> nat) \<Rightarrow> io_error + exit_status option \<Rightarrow> nat \<Rightarrow> (io_error + u8 list) list \<Rightarrow>
     pty_frame list \<times> nat \<times> read_end" where
  "reader_loop clock try_wait seq [] = ([], seq, RE_Blocked)"
| "reader_loop clock try_wait seq (Inr bytes # reads) =
     (if bytes = [] then ([], seq, RE_Wait)
      else (case reader_loop clock try_wait (seq + 1) reads of
        (fs, n, e) \<Rightarrow> (PF_Output (seq + 1) bytes (clock (seq + 1)) # fs, n, e)))"
| "reader_loop clock try_wait seq (Inl e # reads) =
     (if ie_kind e = Interrupted then reader_loop clock try_wait seq reads
      else case try_wait of
        Inr (Some status) \<Rightarrow> ([], seq, RE_Status status)
      | Inr None \<Rightarrow> ([PF_Error (seq + 1) (ie_text e) (clock (seq + 1))], seq + 1, RE_Wait)
      | Inl w \<Rightarrow>
          ([PF_Error (seq + 1) (lit ''pty reader failed: '' @ ie_text e
               @ lit ''; child status poll failed: '' @ ie_text w) (clock (seq + 1))],
           seq + 1, RE_Wait))"

definition run_reader_thread ::
    "(nat \<Rightarrow> nat) \<Rightarrow> io_error + exit_status option \<Rightarrow> io_error + exit_status \<Rightarrow>
     (io_error + u8 list) list \<Rightarrow> pty_frame list" where
  "run_reader_thread clock try_wait wait1 reads =
     (case reader_loop clock try_wait 0 reads of
        (fs, seq, RE_Blocked) \<Rightarrow> fs
      | (fs, seq, e) \<Rightarrow>
          fs @ [case (case e of RE_Status status \<Rightarrow> Inr status | _ \<Rightarrow> wait1) of
                  Inr status \<Rightarrow> PF_Exited (seq + 1) (exit_code status) (clock (seq + 1))
                | Inl w \<Rightarrow> PF_Error (seq + 1) (lit ''child wait failed: '' @ ie_text w) (clock (seq + 1))])"

definition read_bytes :: "(io_error + u8 list) list \<Rightarrow> u8 list list" where
  "read_bytes reads =
     [bs. Inr bs \<leftarrow> takeWhile (\<lambda>r. case r of Inr bs \<Rightarrow> bs \<noteq> [] | Inl e \<Rightarrow> ie_kind e = Interrupted) reads]"

lemma reader_loop_spec:
  "reader_loop clock tw seq reads = (fs, n, e) \<Longrightarrow>
   map frame_seq fs = [seq + 1..<n + 1] \<and> seq \<le> n \<and> (\<forall>f\<in>set fs. \<not> is_overflow f)
   \<and> map output_bytes (filter is_output fs) = read_bytes reads
   \<and> (\<exists>os. (fs = os \<or> (\<exists>x. fs = os @ [x] \<and> \<not> is_output x \<and> e = RE_Wait)) \<and> (\<forall>f\<in>set os. is_output f))"
proof (induction clock tw seq reads arbitrary: fs rule: reader_loop.induct)
  case (1 clock tw seq)
  then show ?case by (auto simp: read_bytes_def)
next
  case (2 clock tw seq bytes reads)
  show ?case
  proof (cases "bytes = []")
    case True
    then show ?thesis using 2 by (auto simp: read_bytes_def)
  next
    case False
    then obtain gs where gs: "reader_loop clock tw (seq + 1) reads = (gs, n, e)"
      "fs = PF_Output (seq + 1) bytes (clock (seq + 1)) # gs"
      using "2.prems" by (auto split: prod.splits)
    from "2.IH" [OF False gs(1)] obtain os where ih:
      "map frame_seq gs = [seq + 1 + 1..<n + 1]" "seq + 1 \<le> n" "\<forall>f\<in>set gs. \<not> is_overflow f"
      "map output_bytes (filter is_output gs) = read_bytes reads"
      "gs = os \<or> (\<exists>x. gs = os @ [x] \<and> \<not> is_output x \<and> e = RE_Wait)" "\<forall>f\<in>set os. is_output f"
      by blast
    have "[seq + 1..<n + 1] = (seq + 1) # [seq + 1 + 1..<n + 1]"
      using ih(2) by (simp add: upt_conv_Cons)
    then show ?thesis using ih gs(2) False
      by (intro conjI exI [of _ "PF_Output (seq + 1) bytes (clock (seq + 1)) # os"])
        (auto simp: read_bytes_def)
  qed
next
  case (3 clock tw seq x reads)
  show ?case
  proof (cases "ie_kind x = Interrupted")
    case True
    then show ?thesis using "3.IH" [OF True, of fs] "3.prems" by (simp add: read_bytes_def)
  next
    case False
    then show ?thesis using "3.prems"
      by (auto simp: read_bytes_def split: sum.splits option.splits intro: exI [of _ "[]"])
  qed
qed

text \<open>The reader thread numbers its frames 1, 2, 3 without a gap, hands on every non-empty
  read as one output frame in order, never invents an overflow notice, and once the stream
  has ended closes with one frame that is not output: the exit, or why it is not known.\<close>

lemma reader_frames:
  "map frame_seq (run_reader_thread clock tw w reads)
     = [1..<length (run_reader_thread clock tw w reads) + 1]
   \<and> (\<forall>f\<in>set (run_reader_thread clock tw w reads). \<not> is_overflow f)
   \<and> map output_bytes (filter is_output (run_reader_thread clock tw w reads)) = read_bytes reads
   \<and> (snd (snd (reader_loop clock tw 0 reads)) = RE_Blocked
      \<or> (\<exists>fs last. run_reader_thread clock tw w reads = fs @ [last]
           \<and> (\<exists>s m a. last = PF_Exited s m a \<or> (\<exists>t. last = PF_Error s t a))))"
proof -
  obtain fs n e where r: "reader_loop clock tw 0 reads = (fs, n, e)" by (metis surj_pair)
  note s = reader_loop_spec [OF r]
  then have len: "length fs = n" by (metis add_0 diff_add_inverse2 length_map length_upt)
  have seqs: "map frame_seq fs = [1..<n + 1]" using s by simp
  show ?thesis
  proof (cases e)
    case RE_Blocked
    then show ?thesis using r s seqs len by (simp add: run_reader_thread_def del: filter_True)
  next
    case RE_Wait
    then show ?thesis using r s seqs len
      by (cases w) (simp_all add: run_reader_thread_def del: upt_Suc add: upt_Suc_append)
  next
    case (RE_Status st)
    then show ?thesis using r s seqs len
      by (simp add: run_reader_thread_def del: upt_Suc filter_True add: upt_Suc_append)
  qed
qed

lemma reader_loop_no_exit:
  "reader_loop clock tw seq reads = (fs, n, e) \<Longrightarrow> PF_Exited s c a \<notin> set fs"
  by (induction clock tw seq reads arbitrary: fs rule: reader_loop.induct)
    (auto split: if_splits prod.splits sum.splits option.splits)

lemma exit_is_last:
  assumes "PF_Exited s c a \<in> set (run_reader_thread clock tw w reads)"
  shows "s = length (run_reader_thread clock tw w reads)"
proof -
  obtain fs n e where r: "reader_loop clock tw 0 reads = (fs, n, e)" by (metis surj_pair)
  have "length fs = n" using reader_loop_spec [OF r] by (metis add_0 diff_add_inverse2 length_map length_upt)
  then show ?thesis using assms reader_loop_no_exit [OF r, of s c a] r
    by (auto simp: run_reader_thread_def split: read_end.splits sum.splits)
qed

text \<open>The latest frame of a strictly ordered history is its last one.\<close>

lemma latest_is_last:
  assumes "sorted_wrt (<) (map frame_seq h)" "f \<in> set h" "\<forall>g\<in>set h. frame_seq g \<le> frame_seq f"
  shows "last h = f"
proof -
  obtain xs where h: "h = xs @ [last h]" using assms(2) by (metis append_butlast_last_id empty_iff list.set(1))
  have "\<forall>g\<in>set xs. frame_seq g < frame_seq (last h)"
    using assms(1) by (subst (asm) h) (simp add: sorted_wrt_append)
  moreover have "f \<in> set xs \<or> f = last h" using assms(2) by (subst (asm) h) auto
  moreover have "frame_seq (last h) \<le> frame_seq f" using assms(2,3) by (metis empty_iff last_in_set list.set(1))
  ultimately show ?thesis by force
qed

lemma total_bytes_concat: "total_bytes fs = length (concat (map output_bytes (filter is_output fs)))"
proof (induction fs)
  case (Cons f fs)
  then show ?case by (cases f) simp_all
qed simp

text \<open>The frame a reader thread ends with, unless it still waits in \<open>read\<close>.\<close>

definition closes :: "read_end \<Rightarrow> io_error + exit_status \<Rightarrow> pty_frame \<Rightarrow> bool" where
  "closes e wait1 frame =
     (case (case e of RE_Status status \<Rightarrow> Inr status | _ \<Rightarrow> wait1) of
        Inr status \<Rightarrow> (\<exists>s a. frame = PF_Exited s (exit_code status) a)
      | Inl w \<Rightarrow> (\<exists>s a. frame = PF_Error s (lit ''child wait failed: '' @ ie_text w) a))"

lemma reader_shape:
  obtains os xs where "run_reader_thread clock tw w reads = os @ xs" "\<forall>f\<in>set os. is_output f" "\<forall>f\<in>set xs. \<not> is_output f"
    "map output_bytes os = read_bytes reads"
    "snd (snd (reader_loop clock tw 0 reads)) \<noteq> RE_Blocked \<longrightarrow>
       xs \<noteq> [] \<and> closes (snd (snd (reader_loop clock tw 0 reads))) w (last xs)"
proof -
  obtain fs n e where r: "reader_loop clock tw 0 reads = (fs, n, e)" by (metis surj_pair)
  obtain os ys where o: "fs = os @ ys" "\<forall>f\<in>set os. is_output f" "\<forall>f\<in>set ys. \<not> is_output f"
  proof -
    obtain os where "fs = os \<or> (\<exists>x. fs = os @ [x] \<and> \<not> is_output x \<and> e = RE_Wait)" "\<forall>f\<in>set os. is_output f"
      using reader_loop_spec [OF r] by blast
    then show thesis using that [of os "[]"] that [of os "[_]"] by auto
  qed
  have "filter is_output fs = os" using o by (simp add: filter_empty_conv)
  then have d: "map output_bytes os = read_bytes reads" using reader_loop_spec [OF r] by metis
  show thesis
  proof (cases "e = RE_Blocked")
    case True
    show thesis by (rule that [of os ys]) (use r o d True in \<open>simp_all add: run_reader_thread_def\<close>)
  next
    case False
    define l where "l = (case (case e of RE_Status status \<Rightarrow> Inr status | _ \<Rightarrow> w) of
                  Inr status \<Rightarrow> PF_Exited (n + 1) (exit_code status) (clock (n + 1))
                | Inl w \<Rightarrow> PF_Error (n + 1) (lit ''child wait failed: '' @ ie_text w) (clock (n + 1)))"
    have l: "run_reader_thread clock tw w reads = os @ ys @ [l]"
      using r o(1) False unfolding l_def by (cases e) (simp_all add: run_reader_thread_def)
    have c: "closes e w l" "\<not> is_output l"
      unfolding l_def closes_def by (cases e; cases w; simp)+
    show thesis by (rule that [of os "ys @ [l]"]) (use l o d c r in simp_all)
  qed
qed




section \<open>The child's environment\<close>

text \<open>A \<open>BTreeMap\<close> of OS strings: its entries in key order.\<close>

type_synonym env_map = "(u8 list \<times> u8 list) list"

fun env_insert :: "u8 list \<Rightarrow> u8 list \<Rightarrow> env_map \<Rightarrow> env_map" where
  "env_insert k v [] = [(k, v)]"
| "env_insert k v ((k', v') # m) =
     (if k < k' then (k, v) # (k', v') # m
      else if k = k' then (k, v) # m
      else (k', v') # env_insert k v m)"

definition env_extend :: "env_map \<Rightarrow> (u8 list \<times> u8 list) list \<Rightarrow> env_map" where
  "env_extend m kvs = fold (\<lambda>(k, v) m. env_insert k v m) kvs m"

abbreviation os_string :: "rstr \<Rightarrow> u8 list" where "os_string s \<equiv> utf8 s"

definition term_key :: "u8 list" where "term_key = asc ''TERM''"

text \<open>\<open>vars\<close> is the environment of the host process, \<open>env::vars_os\<close> and \<open>env::var_os\<close>.\<close>

definition effective_child_environment :: "(u8 list \<times> u8 list) list \<Rightarrow> pane_config \<Rightarrow> env_map" where
  "effective_child_environment vars config =
     (let envs = (case pc_env_policy config of
            Env_Inherit \<Rightarrow> env_extend [] vars
          | Env_Clear \<Rightarrow> []
          | Env_Allowlist keys \<Rightarrow>
              fold (\<lambda>key envs. case map_of vars (os_string key) of
                      Some value \<Rightarrow> env_insert (os_string key) value envs
                    | None \<Rightarrow> envs) keys []);
          envs = (case pc_term_fallback config of
            Some t \<Rightarrow> if map_of envs term_key = None then env_insert term_key (os_string t) envs else envs
          | None \<Rightarrow> envs)
      in env_extend envs (map (\<lambda>(k, v). (os_string k, os_string v)) (pc_env config)))"

definition env_assignment :: "u8 list \<Rightarrow> u8 list \<Rightarrow> u8 list" where
  "env_assignment key value = key @ [0x3d] @ value"

definition should_wrap_command_env :: "pane_config \<Rightarrow> bool" where
  "should_wrap_command_env config = (pc_env_policy config \<noteq> Env_Inherit)"

text \<open>The builder of \<open>portable_pty\<close>: its calls over a builder state.\<close>

record 'b command_builder =
  cb_new :: "u8 list \<Rightarrow> 'b"
  cb_arg :: "u8 list \<Rightarrow> 'b \<Rightarrow> 'b"
  cb_cwd :: "u8 list \<Rightarrow> 'b \<Rightarrow> 'b"
  cb_env :: "u8 list \<Rightarrow> u8 list \<Rightarrow> 'b \<Rightarrow> 'b"
  cb_env_clear :: "'b \<Rightarrow> 'b"
  cb_get_env :: "'b \<Rightarrow> u8 list \<Rightarrow> u8 list option"

definition builder_args :: "'b command_builder \<Rightarrow> u8 list list \<Rightarrow> 'b \<Rightarrow> 'b" where
  "builder_args cb args b = fold (cb_arg cb) args b"

definition apply_child_environment ::
    "'b command_builder \<Rightarrow> (u8 list \<times> u8 list) list \<Rightarrow> pane_config \<Rightarrow> 'b \<Rightarrow> 'b" where
  "apply_child_environment cb vars config command =
     (let command = (case pc_env_policy config of
            Env_Inherit \<Rightarrow> command
          | Env_Clear \<Rightarrow> cb_env_clear cb command
          | Env_Allowlist keys \<Rightarrow>
              fold (\<lambda>key command. case map_of vars (os_string key) of
                      Some value \<Rightarrow> cb_env cb (os_string key) value command
                    | None \<Rightarrow> command) keys (cb_env_clear cb command));
          command = (case pc_term_fallback config of
            Some t \<Rightarrow> if cb_get_env cb command term_key = None
                       then cb_env cb term_key (os_string t) command else command
          | None \<Rightarrow> command)
      in fold (\<lambda>(k, v). cb_env cb (os_string k) (os_string v)) (pc_env config) command)"

definition cwd_command :: "'b command_builder \<Rightarrow> pane_config \<Rightarrow> 'b \<Rightarrow> 'b" where
  "cwd_command cb config b =
     (case pc_cwd config of Some cwd \<Rightarrow> cb_cwd cb (os_string cwd) b | None \<Rightarrow> b)"

definition program_of :: "pane_config \<Rightarrow> u8 list" where
  "program_of config = os_string (cs_program (pc_command config))"

definition args_of :: "pane_config \<Rightarrow> u8 list list" where
  "args_of config = map os_string (cs_args (pc_command config))"

definition build_unix_env_wrapper_command ::
    "'b command_builder \<Rightarrow> (u8 list \<times> u8 list) list \<Rightarrow> pane_config \<Rightarrow> 'b" where
  "build_unix_env_wrapper_command cb vars config =
     (let command = cb_arg cb (asc ''-i'') (cb_new cb (asc ''/usr/bin/env''));
          command = builder_args cb
            (map (\<lambda>(k, v). env_assignment k v) (effective_child_environment vars config)) command;
          command = builder_args cb (args_of config) (cb_arg cb (program_of config) command)
      in cb_env_clear cb (cwd_command cb config command))"

definition build_command ::
    "bool \<Rightarrow> 'b command_builder \<Rightarrow> (u8 list \<times> u8 list) list \<Rightarrow> pane_config \<Rightarrow> 'b" where
  "build_command unix cb vars config =
     (if unix \<and> should_wrap_command_env config then build_unix_env_wrapper_command cb vars config
      else apply_child_environment cb vars config
        (cwd_command cb config (builder_args cb (args_of config) (cb_new cb (program_of config)))))"

text \<open>The map laws of sorted entries.\<close>

lemma env_insert_keys: "set (map fst (env_insert k v m)) = insert k (set (map fst m))"
  by (induction k v m rule: env_insert.induct) auto

lemma env_insert_sorted: "sorted_wrt (<) (map fst m) \<Longrightarrow> sorted_wrt (<) (map fst (env_insert k v m))"
proof (induction k v m rule: env_insert.induct)
  case (2 k v k' v' m)
  then show ?case using env_insert_keys [of k v m] by (auto dest: less_trans)
qed simp

lemma env_insert_lookup: "sorted_wrt (<) (map fst m) \<Longrightarrow> map_of (env_insert k v m) = (map_of m)(k \<mapsto> v)"
proof (induction k v m rule: env_insert.induct)
  case (2 k v k' v' m)
  then show ?case by (auto simp: fun_eq_iff)
qed simp

definition env_ok :: "env_map \<Rightarrow> bool" where "env_ok m = sorted_wrt (<) (map fst m)"

lemma env_extend_lookup:
  "env_ok m \<Longrightarrow> env_ok (env_extend m kvs) \<and> map_of (env_extend m kvs) = map_of m ++ map_of (rev kvs)"
proof (induction kvs arbitrary: m)
  case (Cons kv kvs)
  obtain k v where kv: "kv = (k, v)" by fastforce
  have "env_ok (env_insert k v m)" using Cons.prems by (simp add: env_ok_def env_insert_sorted)
  then show ?case using Cons.IH [of "env_insert k v m"] Cons.prems kv
    by (simp add: env_extend_def env_ok_def env_insert_lookup fun_eq_iff map_add_def split: option.split)
qed (simp add: env_extend_def)

text \<open>What the child sees of a variable before the pane's own settings.\<close>

definition policy_env :: "(u8 list \<times> u8 list) list \<Rightarrow> env_policy \<Rightarrow> u8 list \<Rightarrow> u8 list option" where
  "policy_env vars policy k =
     (case policy of
        Env_Inherit \<Rightarrow> map_of (rev vars) k
      | Env_Clear \<Rightarrow> None
      | Env_Allowlist keys \<Rightarrow> if k \<in> os_string ` set keys then map_of vars k else None)"

definition expected_env :: "(u8 list \<times> u8 list) list \<Rightarrow> pane_config \<Rightarrow> u8 list \<Rightarrow> u8 list option" where
  "expected_env vars config k =
     (case map_of (rev (map (\<lambda>(k, v). (os_string k, os_string v)) (pc_env config))) k of
        Some v \<Rightarrow> Some v
      | None \<Rightarrow>
          (case policy_env vars (pc_env_policy config) k of
             Some v \<Rightarrow> Some v
           | None \<Rightarrow> if k = term_key then map_option os_string (pc_term_fallback config) else None))"

lemma allowlist_fold:
  "env_ok m \<Longrightarrow>
   (let m' = fold (\<lambda>key envs. case map_of vars (os_string key) of
                      Some value \<Rightarrow> env_insert (os_string key) value envs
                    | None \<Rightarrow> envs) keys m
    in env_ok m' \<and> (\<forall>k. map_of m' k =
        (if k \<in> os_string ` set keys \<and> map_of vars k \<noteq> None then map_of vars k else map_of m k)))"
proof (induction keys arbitrary: m)
  case (Cons key keys)
  show ?case
  proof (cases "map_of vars (os_string key)")
    case None
    then show ?thesis using Cons.IH [OF Cons.prems] by (auto simp: Let_def)
  next
    case (Some v)
    have ok: "env_ok (env_insert (os_string key) v m)"
      using Cons.prems by (simp add: env_ok_def env_insert_sorted)
    show ?thesis using Cons.IH [OF ok] Some Cons.prems
      by (auto simp: Let_def env_ok_def env_insert_lookup)
  qed
qed (simp add: Let_def)

lemma effective_env_lookup:
  "env_ok (effective_child_environment vars config)
   \<and> map_of (effective_child_environment vars config) k = expected_env vars config k"
proof -
  define e1 where "e1 = (case pc_env_policy config of
      Env_Inherit \<Rightarrow> env_extend [] vars
    | Env_Clear \<Rightarrow> []
    | Env_Allowlist keys \<Rightarrow>
        fold (\<lambda>key envs. case map_of vars (os_string key) of
                Some value \<Rightarrow> env_insert (os_string key) value envs
              | None \<Rightarrow> envs) keys [])"
  have e1: "env_ok e1 \<and> (\<forall>k. map_of e1 k = policy_env vars (pc_env_policy config) k)"
    using env_extend_lookup [of "[]" vars] allowlist_fold [of "[]" vars]
    by (auto simp: e1_def policy_env_def env_ok_def Let_def split: env_policy.split)
  define e2 where "e2 = (case pc_term_fallback config of
      Some t \<Rightarrow> if map_of e1 term_key = None then env_insert term_key (os_string t) e1 else e1
    | None \<Rightarrow> e1)"
  have e2: "env_ok e2 \<and> (\<forall>k. map_of e2 k = (case policy_env vars (pc_env_policy config) k of
      Some v \<Rightarrow> Some v
    | None \<Rightarrow> if k = term_key then map_option os_string (pc_term_fallback config) else None))"
    using e1 by (auto simp: e2_def env_ok_def env_insert_sorted env_insert_lookup split: option.split)
  have "effective_child_environment vars config
      = env_extend e2 (map (\<lambda>(k, v). (os_string k, os_string v)) (pc_env config))"
    unfolding effective_child_environment_def e2_def e1_def Let_def ..
  then show ?thesis using env_extend_lookup [of e2] e2
    by (auto simp: expected_env_def map_add_def split: option.split)
qed

text \<open>The documented behaviour of the builder as far as the environment goes.\<close>

definition builder_laws :: "'b command_builder \<Rightarrow> ('b \<Rightarrow> u8 list \<Rightarrow> u8 list option) \<Rightarrow> bool" where
  "builder_laws cb envs =
     ((\<forall>b k v. envs (cb_env cb k v b) = (envs b)(k \<mapsto> v)) \<and> (\<forall>b k. envs (cb_env_clear cb b) k = None)
      \<and> (\<forall>b k. cb_get_env cb b k = envs b k))"

lemma builder_fold:
  assumes "builder_laws cb envs"
  shows "envs (fold (\<lambda>(k, v). cb_env cb (os_string k) (os_string v)) kvs b)
    = envs b ++ map_of (rev (map (\<lambda>(k, v). (os_string k, os_string v)) kvs))"
proof (induction kvs arbitrary: b)
  case (Cons kv kvs)
  then show ?case using assms
    by (cases kv) (auto simp: builder_laws_def fun_eq_iff map_add_def split: option.split)
qed simp

lemma builder_allowlist:
  assumes "builder_laws cb envs"
  shows "envs (fold (\<lambda>key command. case map_of vars (os_string key) of
            Some value \<Rightarrow> cb_env cb (os_string key) value command
          | None \<Rightarrow> command) keys b) k
    = (if k \<in> os_string ` set keys \<and> map_of vars k \<noteq> None then map_of vars k else envs b k)"
  using assms by (induction keys arbitrary: b) (auto simp: builder_laws_def split: option.split)

text \<open>C29: The child's environment is the same whether it is set on the command or passed
  through the \<open>env -i\<close> wrapper: the pane's own variables win, then what the policy lets
  through of the host's, then the fallback for an unset TERM; the wrapper names no variable
  twice.\<close>

theorem environment_paths_agree:
  assumes "builder_laws cb envs" "pc_env_policy config = Env_Inherit \<longrightarrow> envs b = map_of (rev vars)"
  shows "envs (apply_child_environment cb vars config b)
      = map_of (effective_child_environment vars config)
    \<and> envs (apply_child_environment cb vars config b) = expected_env vars config
    \<and> distinct (map fst (effective_child_environment vars config))"
proof -
  let ?e = "effective_child_environment vars config"
  define b1 where "b1 = (case pc_env_policy config of
      Env_Inherit \<Rightarrow> b
    | Env_Clear \<Rightarrow> cb_env_clear cb b
    | Env_Allowlist keys \<Rightarrow>
        fold (\<lambda>key command. case map_of vars (os_string key) of
                Some value \<Rightarrow> cb_env cb (os_string key) value command
              | None \<Rightarrow> command) keys (cb_env_clear cb b))"
  have b1: "envs b1 = policy_env vars (pc_env_policy config)"
    using assms builder_allowlist [OF assms(1), of vars]
    by (auto simp: b1_def policy_env_def builder_laws_def fun_eq_iff split: env_policy.split)
  define b2 where "b2 = (case pc_term_fallback config of
      Some t \<Rightarrow> if cb_get_env cb b1 term_key = None then cb_env cb term_key (os_string t) b1 else b1
    | None \<Rightarrow> b1)"
  have b2: "envs b2 k = (case policy_env vars (pc_env_policy config) k of
      Some v \<Rightarrow> Some v
    | None \<Rightarrow> if k = term_key then map_option os_string (pc_term_fallback config) else None)" for k
    using b1 assms(1) by (auto simp: b2_def builder_laws_def split: option.split)
  have "apply_child_environment cb vars config b
      = fold (\<lambda>(k, v). cb_env cb (os_string k) (os_string v)) (pc_env config) b2"
    unfolding apply_child_environment_def b2_def b1_def Let_def ..
  then have "envs (apply_child_environment cb vars config b) k = expected_env vars config k" for k
    using builder_fold [OF assms(1), of "pc_env config" b2] b2 [of k]
    by (auto simp: expected_env_def map_add_def split: option.split)
  moreover have "distinct (map fst ?e)"
    using effective_env_lookup [of vars config] unfolding env_ok_def
    by (metis strict_sorted_iff)
  ultimately show ?thesis using effective_env_lookup [of vars config] by (auto simp: fun_eq_iff)
qed

definition env_builder :: "(u8 list \<Rightarrow> u8 list option) command_builder" where
  "env_builder =
     \<lparr>cb_new = (\<lambda>_ _. None), cb_arg = (\<lambda>_ b. b), cb_cwd = (\<lambda>_ b. b),
      cb_env = (\<lambda>k v b. b(k \<mapsto> v)), cb_env_clear = (\<lambda>_ _. None), cb_get_env = (\<lambda>b. b)\<rparr>"

theorem environment_paths_agree_witness:
  "builder_laws env_builder id
   \<and> apply_child_environment env_builder [(asc ''TERM'', asc ''xterm'')]
       (pane_config_default \<lparr>pc_env_policy := Env_Allowlist [lit ''TERM'']\<rparr>) (\<lambda>_. None) (asc ''TERM'')
     = Some (asc ''xterm'')"
proof -
  let ?c = "pane_config_default \<lparr>pc_env_policy := Env_Allowlist [lit ''TERM'']\<rparr>"
  have l: "builder_laws env_builder id" by (simp add: builder_laws_def env_builder_def)
  have p: "pc_env_policy ?c = Env_Inherit \<longrightarrow>
    id (\<lambda>_ :: u8 list. None :: u8 list option) = map_of (rev [(asc ''TERM'', asc ''xterm'')])"
    by simp
  have "id (apply_child_environment env_builder [(asc ''TERM'', asc ''xterm'')] ?c (\<lambda>_. None))
      = expected_env [(asc ''TERM'', asc ''xterm'')] ?c"
    using environment_paths_agree [OF l, OF p] by (elim conjE)
  then show ?thesis using l
    by (simp add: expected_env_def policy_env_def pane_config_default_def utf8_Cons utf8_char_def)
qed

end
