(* ===== verification/Pty_Kill.thy ===== *)
theory Pty_Kill
  imports Pty_Io
begin

text \<open>
  Terminating a child on Unix (\<open>terminate_child_unix\<close> and its helpers in \<open>pty.rs\<close>):
  SIGTERM to the process group or the process, a grace period in which the child may
  exit, then SIGKILL. The operating system is a record of the calls made, over a state of
  its own in which other processes and the reader thread run on between the calls. A
  \<open>pid_t\<close> is 32 bits and signed.
\<close>

section \<open>The protocol\<close>

datatype os_errno = ESRCH | EPERM | Errno nat

record 'o os_ops =
  os_kill :: "int \<Rightarrow> nat \<Rightarrow> 'o \<Rightarrow> os_errno option \<times> 'o"
  os_killer_kill :: "'o \<Rightarrow> (rstr + unit) \<times> 'o"
  os_child_exited :: "'o \<Rightarrow> bool \<times> 'o"
  os_now :: "'o \<Rightarrow> nat \<times> 'o"
  os_sleep :: "nat \<Rightarrow> 'o \<Rightarrow> 'o"
  os_error_text :: "os_errno \<Rightarrow> rstr"

definition sigterm :: nat where "sigterm = 15"
definition sigkill :: nat where "sigkill = 9"

definition kill_grace_poll_interval :: nat where "kill_grace_poll_interval = 10"

datatype kill_target = KT_Process int | KT_ProcessGroup int

fun signal_pid :: "kill_target \<Rightarrow> int" where
  "signal_pid (KT_Process pid) = pid"
| "signal_pid (KT_ProcessGroup pgid) = - pgid"

definition unix_pid :: "nat \<Rightarrow> pane_error + int" where
  "unix_pid pid =
     (if pid < 2 ^ 31 then Inr (int pid)
      else Inl (Io_Error Io_Kill (lit ''child pid '' @ dec_str pid @ lit '' exceeds the platform pid_t range'')))"

definition send_unix_signal ::
    "'o os_ops \<Rightarrow> kill_target \<Rightarrow> nat \<Rightarrow> 'o \<Rightarrow> (pane_error + bool) \<times> 'o" where
  "send_unix_signal os target signal s =
     (case os_kill os (signal_pid target) signal s of
        (None, s1) \<Rightarrow> (Inr True, s1)
      | (Some e, s1) \<Rightarrow>
          (if e = ESRCH then Inr False else Inl (Io_Error Io_Kill (os_error_text os e)), s1))"

definition probe_unix_target_exists ::
    "'o os_ops \<Rightarrow> kill_target \<Rightarrow> 'o \<Rightarrow> (pane_error + bool) \<times> 'o" where
  "probe_unix_target_exists os target s =
     (case os_kill os (signal_pid target) 0 s of
        (None, s1) \<Rightarrow> (Inr True, s1)
      | (Some ESRCH, s1) \<Rightarrow> (Inr False, s1)
      | (Some EPERM, s1) \<Rightarrow> (Inr True, s1)
      | (Some e, s1) \<Rightarrow> (Inl (Io_Error Io_Kill (os_error_text os e)), s1))"

fun is_process :: "kill_target \<Rightarrow> bool" where
  "is_process (KT_Process _) = True"
| "is_process (KT_ProcessGroup _) = False"

definition should_skip_unix_sigkill ::
    "'o os_ops \<Rightarrow> kill_target \<Rightarrow> 'o \<Rightarrow> (pane_error + bool) \<times> 'o" where
  "should_skip_unix_sigkill os target s =
     (let (exited, s1) = (if is_process target then os_child_exited os s else (False, s))
      in if exited then (Inr True, s1)
         else case probe_unix_target_exists os target s1 of
                (Inl e, s2) \<Rightarrow> (Inl e, s2)
              | (Inr alive, s2) \<Rightarrow> (Inr (\<not> alive), s2))"

definition resolve_initial_unix_kill_target ::
    "'o os_ops \<Rightarrow> int \<Rightarrow> bool \<Rightarrow> 'o \<Rightarrow> (pane_error + kill_target option) \<times> 'o" where
  "resolve_initial_unix_kill_target os child_pid kill_descendants s =
     (if \<not> kill_descendants then
        (case os_child_exited os s of
           (True, s1) \<Rightarrow> (Inr None, s1)
         | (False, s1) \<Rightarrow>
             (case probe_unix_target_exists os (KT_Process child_pid) s1 of
                (Inl e, s2) \<Rightarrow> (Inl e, s2)
              | (Inr alive, s2) \<Rightarrow> (Inr (if alive then Some (KT_Process child_pid) else None), s2)))
      else case probe_unix_target_exists os (KT_ProcessGroup child_pid) s of
        (Inl e, s1) \<Rightarrow> (Inl e, s1)
      | (Inr True, s1) \<Rightarrow> (Inr (Some (KT_ProcessGroup child_pid)), s1)
      | (Inr False, s1) \<Rightarrow>
          (case should_skip_unix_sigkill os (KT_Process child_pid) s1 of
             (Inl e, s2) \<Rightarrow> (Inl e, s2)
           | (Inr skip, s2) \<Rightarrow> (Inr (if skip then None else Some (KT_Process child_pid)), s2)))"

text \<open>The grace loop; \<open>None\<close> is a loop that does not end.\<close>

partial_function (option) grace_loop ::
    "'o os_ops \<Rightarrow> kill_target \<Rightarrow> nat \<Rightarrow> 'o \<Rightarrow> ((pane_error + bool) \<times> 'o) option" where
  "grace_loop os target deadline s =
     (case should_skip_unix_sigkill os target s of
        (Inl e, s1) \<Rightarrow> Some (Inl e, s1)
      | (Inr skip, s1) \<Rightarrow>
          if skip then Some (Inr True, s1)
          else case os_now os s1 of (now, s2) \<Rightarrow>
             if deadline \<le> now then Some (should_skip_unix_sigkill os target s2)
             else grace_loop os target deadline
               (os_sleep os (min (deadline - now) kill_grace_poll_interval) s2))"

definition wait_for_unix_kill_grace ::
    "'o os_ops \<Rightarrow> kill_target \<Rightarrow> nat \<Rightarrow> 'o \<Rightarrow> ((pane_error + bool) \<times> 'o) option" where
  "wait_for_unix_kill_grace os target grace s =
     (case should_skip_unix_sigkill os target s of
        (Inl e, s1) \<Rightarrow> Some (Inl e, s1)
      | (Inr True, s1) \<Rightarrow> Some (Inr True, s1)
      | (Inr False, s1) \<Rightarrow>
          if grace = 0 then Some (Inr False, s1)
          else case os_now os s1 of (now, s2) \<Rightarrow> grace_loop os target (now + grace) s2)"

definition terminate_child_unix ::
    "'o os_ops \<Rightarrow> nat option \<Rightarrow> kill_config \<Rightarrow> 'o \<Rightarrow> ((pane_error + unit) \<times> 'o) option" where
  "terminate_child_unix os child_pid kill_config s =
     (case child_pid of
        None \<Rightarrow>
          (case os_killer_kill os s of
             (Inl m, s1) \<Rightarrow> Some (Inl (Io_Error Io_Kill m), s1)
           | (Inr _, s1) \<Rightarrow> Some (Inr (), s1))
      | Some pid \<Rightarrow>
          (case unix_pid pid of
             Inl e \<Rightarrow> Some (Inl e, s)
           | Inr pid \<Rightarrow>
               (case resolve_initial_unix_kill_target os pid (kc_kill_descendants kill_config) s of
                  (Inl e, s1) \<Rightarrow> Some (Inl e, s1)
                | (Inr None, s1) \<Rightarrow> Some (Inr (), s1)
                | (Inr (Some target), s1) \<Rightarrow>
                    (case send_unix_signal os target sigterm s1 of
                       (Inl e, s2) \<Rightarrow> Some (Inl e, s2)
                     | (Inr False, s2) \<Rightarrow> Some (Inr (), s2)
                     | (Inr True, s2) \<Rightarrow>
                         (case wait_for_unix_kill_grace os target (kc_term_grace kill_config) s2 of
                            None \<Rightarrow> None
                          | Some (Inl e, s3) \<Rightarrow> Some (Inl e, s3)
                          | Some (Inr True, s3) \<Rightarrow> Some (Inr (), s3)
                          | Some (Inr False, s3) \<Rightarrow>
                              (case send_unix_signal os target sigkill s3 of
                                 (Inl e, s4) \<Rightarrow> Some (Inl e, s4)
                               | (Inr _, s4) \<Rightarrow> Some (Inr (), s4)))))))"


section \<open>What it sends, and that it ends\<close>

text \<open>The clock of the system only goes forward, and a sleep takes at least the time asked
  for; a signal is recorded by the kernel when it is sent, the probe with signal 0 is not a
  signal. \<open>sent\<close> is the record, \<open>time\<close> the clock.\<close>

definition os_laws :: "'o os_ops \<Rightarrow> ('o \<Rightarrow> (int \<times> nat) list) \<Rightarrow> ('o \<Rightarrow> nat) \<Rightarrow> bool" where
  "os_laws os sent time =
     ((\<forall>p sig s r s'. os_kill os p sig s = (r, s') \<longrightarrow>
         sent s' = sent s @ (if sig = 0 then [] else [(p, sig)]) \<and> time s \<le> time s')
      \<and> (\<forall>s b s'. os_child_exited os s = (b, s') \<longrightarrow> sent s' = sent s \<and> time s \<le> time s')
      \<and> (\<forall>s n s'. os_now os s = (n, s') \<longrightarrow> sent s' = sent s \<and> time s \<le> n \<and> n \<le> time s')
      \<and> (\<forall>d s. sent (os_sleep os d s) = sent s \<and> time s + d \<le> time (os_sleep os d s)))"

lemma os_law_simps:
  assumes "os_laws os sent time"
  shows "os_kill os p sig s = (r, s') \<Longrightarrow> sent s' = sent s @ (if sig = 0 then [] else [(p, sig)]) \<and> time s \<le> time s'"
    "os_child_exited os s = (b, s') \<Longrightarrow> sent s' = sent s \<and> time s \<le> time s'"
    "os_now os s = (n, s') \<Longrightarrow> sent s' = sent s \<and> time s \<le> n \<and> n \<le> time s'"
    "sent (os_sleep os d s) = sent s" "time s + d \<le> time (os_sleep os d s)"
  using assms by (auto simp: os_laws_def)

text \<open>The machine is prompt: no call takes longer than \<open>lag\<close>, and a sleep at most that much longer than it
  was asked for. What the answers mean: a target that a signal cannot find is gone, and so is a child
  that the reader thread saw exit.\<close>

definition prompt :: "'o os_ops \<Rightarrow> ('o \<Rightarrow> nat) \<Rightarrow> nat \<Rightarrow> bool" where
  "prompt os time lag =
     ((\<forall>p sig s. time (snd (os_kill os p sig s)) \<le> time s + lag)
      \<and> (\<forall>s. time (snd (os_child_exited os s)) \<le> time s + lag)
      \<and> (\<forall>s. time (snd (os_now os s)) \<le> time s + lag)
      \<and> (\<forall>d s. time (os_sleep os d s) \<le> time s + d + lag))"

definition tells_gone :: "'o os_ops \<Rightarrow> nat \<Rightarrow> (int \<Rightarrow> 'o \<Rightarrow> bool) \<Rightarrow> bool" where
  "tells_gone os pid gone =
     ((\<forall>p sig s s'. os_kill os p sig s = (Some ESRCH, s') \<longrightarrow> gone p s')
      \<and> (\<forall>s s'. os_child_exited os s = (True, s') \<longrightarrow> gone (int pid) s'))"

lemma prompt_simps:
  assumes "prompt os time lag"
  shows "os_kill os p sig s = (r, s') \<Longrightarrow> time s' \<le> time s + lag"
    "os_child_exited os s = (b, s') \<Longrightarrow> time s' \<le> time s + lag"
    "os_now os s = (n, s') \<Longrightarrow> time s' \<le> time s + lag"
    "time (os_sleep os d s) \<le> time s + d + lag"
  using assms unfolding prompt_def by (metis snd_conv)+

lemma probe_quiet:
  assumes "os_laws os sent time" "prompt os time lag" "tells_gone os pid gone" "probe_unix_target_exists os t s = (r, s')"
  shows "sent s' = sent s \<and> time s \<le> time s' \<and> time s' \<le> time s + lag \<and> (r = Inr False \<longrightarrow> gone (signal_pid t) s')"
  using assms(4) os_law_simps(1) [OF assms(1)] prompt_simps(1) [OF assms(2)] assms(3)
  by (auto simp: probe_unix_target_exists_def tells_gone_def split: prod.splits option.splits os_errno.splits)

text \<open>The targets that the protocol picks.\<close>

definition picked :: "nat \<Rightarrow> kill_target \<Rightarrow> bool" where
  "picked pid t = (t = KT_Process (int pid) \<or> t = KT_ProcessGroup (int pid))"

lemma skip_quiet:
  assumes "os_laws os sent time" "prompt os time lag" "tells_gone os pid gone" "should_skip_unix_sigkill os t s = (r, s')"
    and "picked pid t"
  shows "sent s' = sent s \<and> time s \<le> time s' \<and> time s' \<le> time s + 2 * lag \<and> (r = Inr True \<longrightarrow> gone (signal_pid t) s')"
proof -
  obtain e s1 where e: "(if is_process t then os_child_exited os s else (False, s)) = (e, s1)" by fastforce
  then have s1: "sent s1 = sent s \<and> time s \<le> time s1 \<and> time s1 \<le> time s + lag \<and> (e \<longrightarrow> gone (signal_pid t) s1)"
    using os_law_simps(2) [OF assms(1)] prompt_simps(2) [OF assms(2)] assms(3,5)
    by (auto simp: tells_gone_def picked_def split: if_splits)
  obtain x s2 where x: "probe_unix_target_exists os t s1 = (x, s2)" by fastforce
  note quiet = probe_quiet [OF assms(1-3) x]
  show ?thesis using assms(4) e x s1 quiet
    by (cases e; cases x) (auto simp: should_skip_unix_sigkill_def)
qed

lemma resolve_quiet:
  assumes "os_laws os sent time" "prompt os time lag" "tells_gone os pid gone"
    and "resolve_initial_unix_kill_target os (int pid) d s = (r, s')"
  shows "sent s' = sent s \<and> time s \<le> time s' \<and> time s' \<le> time s + 3 * lag"
    "r = Inr None \<Longrightarrow> gone (int pid) s'"
    "r = Inr (Some t) \<Longrightarrow> t = KT_Process (int pid) \<or> (d \<and> t = KT_ProcessGroup (int pid))"
proof -
  let ?P = "KT_Process (int pid)"
  note kinds = picked_def [of pid] and laws = assms(1-3)
  obtain b s1 where b: "os_child_exited os s = (b, s1)" by fastforce
  obtain x s2 where x: "probe_unix_target_exists os ?P s1 = (x, s2)" by fastforce
  obtain y s3 where y: "probe_unix_target_exists os (KT_ProcessGroup (int pid)) s = (y, s3)" by fastforce
  obtain z s4 where z: "should_skip_unix_sigkill os ?P s3 = (z, s4)" by fastforce
  note quiet = os_law_simps(2) [OF laws(1) b] prompt_simps(2) [OF laws(2) b] probe_quiet [OF laws x] probe_quiet [OF laws y]
    skip_quiet [OF laws z]
  have exited: "b \<Longrightarrow> gone (int pid) s1" using laws(3) b by (simp add: tells_gone_def)
  have "(sent s' = sent s \<and> time s \<le> time s' \<and> time s' \<le> time s + 3 * lag) \<and> (r = Inr None \<longrightarrow> gone (int pid) s')
      \<and> (r = Inr (Some t) \<longrightarrow> t = ?P \<or> (d \<and> t = KT_ProcessGroup (int pid)))"
    using assms(4) b x y z quiet exited
    by (cases d; cases b; cases x; cases y; cases z) (auto simp: resolve_initial_unix_kill_target_def kinds split: if_splits bool.splits)
  then show "sent s' = sent s \<and> time s \<le> time s' \<and> time s' \<le> time s + 3 * lag" "r = Inr None \<Longrightarrow> gone (int pid) s'"
    "r = Inr (Some t) \<Longrightarrow> t = ?P \<or> (d \<and> t = KT_ProcessGroup (int pid))" by blast+
qed

lemma send_quiet:
  assumes "os_laws os sent time" "prompt os time lag" "tells_gone os pid gone" "send_unix_signal os t sig s = (r, s')" "sig \<noteq> 0"
  shows "sent s' = sent s @ [(signal_pid t, sig)] \<and> time s \<le> time s' \<and> time s' \<le> time s + lag
    \<and> (r = Inr False \<longrightarrow> gone (signal_pid t) s')"
  using assms(4) os_law_simps(1) [OF assms(1)] prompt_simps(1) [OF assms(2)] assms(3,5)
  by (fastforce simp: send_unix_signal_def tells_gone_def split: prod.splits option.splits if_splits)

text \<open>The loop is left at the deadline or, when the target is gone, before it; never later than the calls of
  the last round take.\<close>

lemma grace_loop_ends:
  assumes "os_laws os sent time" "prompt os time lag" "tells_gone os pid gone" "picked pid t"
  shows "\<exists>r s'. grace_loop os t deadline s = Some (r, s') \<and> sent s' = sent s \<and> time s \<le> time s'
    \<and> (r = Inr False \<longrightarrow> deadline \<le> time s') \<and> (r = Inr True \<longrightarrow> gone (signal_pid t) s')
    \<and> time s' \<le> max (time s) (deadline + 2 * lag) + 5 * lag"
proof (induction "deadline - time s" arbitrary: s rule: less_induct)
  case less
  note quiet = skip_quiet [OF assms(1-3) _ assms(4)]
  obtain x s1 where x: "should_skip_unix_sigkill os t s = (x, s1)" by fastforce
  obtain n s2 where n: "os_now os s1 = (n, s2)" by fastforce
  note t = quiet [OF x] os_law_simps(3) [OF assms(1) n] prompt_simps(3) [OF assms(2) n]
  show ?case
  proof (cases "x = Inr False \<and> n < deadline")
    case True
    define d where "d = min (deadline - n) kill_grace_poll_interval"
    let ?s3 = "os_sleep os d s2"
    have d: "0 < d" "d \<le> deadline - n" using True by (simp_all add: d_def kill_grace_poll_interval_def)
    note slept = os_law_simps(4,5) [OF assms(1), where d = d and s = s2] prompt_simps(4) [OF assms(2), where d = d and s = s2]
    have "time s < time ?s3 \<and> time s < deadline" using t slept d True by linarith
    then have shorter: "deadline - time ?s3 < deadline - time s" by linarith
    have "time ?s3 \<le> deadline + 2 * lag" using t slept d True by linarith
    then have m: "max (time ?s3) (deadline + 2 * lag) = deadline + 2 * lag" by simp
    obtain r s' where ih: "grace_loop os t deadline ?s3 = Some (r, s')" "sent s' = sent ?s3" "time ?s3 \<le> time s'"
      "r = Inr False \<longrightarrow> deadline \<le> time s'" "r = Inr True \<longrightarrow> gone (signal_pid t) s'"
      "time s' \<le> (deadline + 2 * lag) + 5 * lag"
      using less [OF shorter] unfolding m by blast
    have "grace_loop os t deadline s = Some (r, s')"
      using True x n ih(1) by (subst grace_loop.simps) (simp add: d_def)
    moreover have "sent s' = sent s" "time s \<le> time s'" "time s' \<le> max (time s) (deadline + 2 * lag) + 5 * lag"
      using ih(2,3,6) t slept by simp_all
    ultimately show ?thesis using ih(4,5) by blast
  next
    case False
    obtain y s3 where y: "should_skip_unix_sigkill os t s2 = (y, s3)" by fastforce
    note ty = quiet [OF y]
    show ?thesis
    proof (cases "x = Inr False")
      case late: True
      then have "grace_loop os t deadline s = Some (y, s3)" using False x n y by (subst grace_loop.simps) simp
      moreover have "sent s3 = sent s" "time s \<le> time s3" "deadline \<le> time s3" "time s3 \<le> time s + 5 * lag"
        using t ty False late by simp_all
      moreover have "time s3 \<le> max (time s) (deadline + 2 * lag) + 5 * lag" using calculation(5) by (simp add: max_def)
      ultimately show ?thesis using ty by blast
    next
      case early: False
      then have "grace_loop os t deadline s = Some (x, s1)"
        using x by (subst grace_loop.simps) (auto split: sum.split)
      moreover have "time s1 \<le> max (time s) (deadline + 2 * lag) + 5 * lag" using t by (simp add: max_def)
      ultimately show ?thesis using t early by blast
    qed
  qed
qed

lemma wait_grace_ends:
  assumes "os_laws os sent time" "prompt os time lag" "tells_gone os pid gone" "picked pid t"
  shows "\<exists>r s'. wait_for_unix_kill_grace os t grace s = Some (r, s') \<and> sent s' = sent s \<and> time s \<le> time s'
    \<and> (r = Inr False \<longrightarrow> time s + grace \<le> time s') \<and> (r = Inr True \<longrightarrow> gone (signal_pid t) s')
    \<and> time s' \<le> time s + grace + 10 * lag"
proof -
  obtain x s1 where x: "should_skip_unix_sigkill os t s = (x, s1)" by fastforce
  note q = skip_quiet [OF assms(1-3) x assms(4)]
  show ?thesis
  proof (cases "x = Inr False \<and> 0 < grace")
    case False
    then have "wait_for_unix_kill_grace os t grace s = Some (x, s1)"
      using x by (auto simp: wait_for_unix_kill_grace_def split: sum.split bool.split)
    then show ?thesis using q False by auto
  next
    case True
    obtain n s2 where n: "os_now os s1 = (n, s2)" by fastforce
    note t = os_law_simps(3) [OF assms(1) n] prompt_simps(3) [OF assms(2) n]
    obtain r s3 where l: "grace_loop os t (n + grace) s2 = Some (r, s3)" "sent s3 = sent s2" "time s2 \<le> time s3"
      "r = Inr False \<longrightarrow> n + grace \<le> time s3" "r = Inr True \<longrightarrow> gone (signal_pid t) s3"
      "time s3 \<le> max (time s2) (n + grace + 2 * lag) + 5 * lag"
      using grace_loop_ends [OF assms] by blast
    have "wait_for_unix_kill_grace os t grace s = Some (r, s3)"
      using x True n l(1) by (simp add: wait_for_unix_kill_grace_def)
    moreover have "time s3 \<le> time s + grace + 10 * lag" using l(6) t q by simp
    moreover have "sent s3 = sent s" "time s \<le> time s3" "r = Inr False \<longrightarrow> time s + grace \<le> time s3"
      using l(2-4) t q by auto
    ultimately show ?thesis using l(5) by blast
  qed
qed

text \<open>C21: Terminating a child whose pid is known returns within the grace period and the time of fifteen calls.
  It sends nothing, or SIGTERM, or SIGTERM and then SIGKILL, always to the same target, the child
  or, only when descendants are to be killed, its process group. When it succeeds, SIGKILL was sent
  or the target is gone; and SIGKILL goes out only once the whole grace period has passed.\<close>

theorem kill_protocol:
  assumes "os_laws os sent time" "prompt os time lag" "tells_gone os pid gone"
  shows "\<exists>res s' target. terminate_child_unix os (Some pid) cfg s = Some (res, s')
    \<and> (target = int pid \<or> kc_kill_descendants cfg \<and> target = - int pid)
    \<and> sent s' \<in> {sent s, sent s @ [(target, sigterm)], sent s @ [(target, sigterm), (target, sigkill)]}
    \<and> (res = Inr () \<longrightarrow> gone target s' \<or> sent s' = sent s @ [(target, sigterm), (target, sigkill)])
    \<and> (length (sent s') = length (sent s) + 2 \<longrightarrow> time s + kc_term_grace cfg \<le> time s')
    \<and> time s' \<le> time s + kc_term_grace cfg + 15 * lag"
proof (cases "unix_pid pid")
  case (Inl e)
  then show ?thesis by (auto simp: terminate_child_unix_def)
next
  case (Inr p)
  then have p: "p = int pid" by (auto simp: unix_pid_def split: if_splits)
  let ?grace = "kc_term_grace cfg"
  obtain x s1 where x: "resolve_initial_unix_kill_target os (int pid) (kc_kill_descendants cfg) s = (x, s1)"
    by fastforce
  note r = resolve_quiet [OF assms x]
  show ?thesis
  proof (cases "\<exists>t. x = Inr (Some t)")
    case False
    then obtain res where "terminate_child_unix os (Some pid) cfg s = Some (res, s1)" "res = Inr () \<longrightarrow> x = Inr None"
      using Inr x p by (cases x) (auto simp: terminate_child_unix_def split: option.splits)
    then show ?thesis using r by auto
  next
    case True
    then obtain t where t: "x = Inr (Some t)" by blast
    then have target: "signal_pid t = int pid \<or> kc_kill_descendants cfg \<and> signal_pid t = - int pid" "picked pid t"
      using r(3) by (auto simp: picked_def)
    obtain y s2 where y: "send_unix_signal os t sigterm s1 = (y, s2)" by fastforce
    obtain z s3 where z: "wait_for_unix_kill_grace os t ?grace s2 = Some (z, s3)"
      "sent s3 = sent s2" "time s2 \<le> time s3" "z = Inr False \<longrightarrow> time s2 + ?grace \<le> time s3"
      "z = Inr True \<longrightarrow> gone (signal_pid t) s3" "time s3 \<le> time s2 + ?grace + 10 * lag"
      using wait_grace_ends [OF assms target(2)] by blast
    obtain w s4 where w: "send_unix_signal os t sigkill s3 = (w, s4)" by fastforce
    have sy: "sent s2 = sent s @ [(signal_pid t, sigterm)]" "time s \<le> time s2" "time s2 \<le> time s + 4 * lag"
      "y = Inr False \<longrightarrow> gone (signal_pid t) s2"
      using send_quiet [OF assms y] r(1) by (auto simp: sigterm_def)
    have sw: "sent s4 = sent s @ [(signal_pid t, sigterm), (signal_pid t, sigkill)]" "time s3 \<le> time s4" "time s4 \<le> time s3 + lag"
      using send_quiet [OF assms w] z(2) sy(1) by (auto simp: sigkill_def)
    consider (term_failed) e where "y = Inl e" | (none) "y = Inr False" | (wait_failed) e where "y = Inr True" "z = Inl e"
      | (left) "y = Inr True" "z = Inr True" | (stays) "y = Inr True" "z = Inr False"
      by (metis sum.exhaust bool.exhaust)
    then show ?thesis
    proof cases
      case stays
      have "terminate_child_unix os (Some pid) cfg s = Some (map_sum id (\<lambda>_. ()) w, s4)"
        using Inr p x t y z(1) w stays by (cases w) (simp_all add: terminate_child_unix_def)
      moreover have "time s + ?grace \<le> time s4" "time s4 \<le> time s + ?grace + 15 * lag"
        using stays sy sw z by simp_all
      ultimately show ?thesis using target(1) sw(1) by blast
    qed (use Inr p x t y z sy target(1) in \<open>auto simp: terminate_child_unix_def intro!: exI [of _ "signal_pid t"]\<close>)
  qed
qed

text \<open>A child that ignores SIGTERM, on a machine whose clock moves only in sleeps.\<close>

definition stubborn_os :: "((int \<times> nat) list \<times> nat) os_ops" where
  "stubborn_os =
     \<lparr>os_kill = (\<lambda>p sig (l, t). (None, (if sig = 0 then l else l @ [(p, sig)], t))),
      os_killer_kill = (\<lambda>s. (Inr (), s)), os_child_exited = (\<lambda>s. (False, s)),
      os_now = (\<lambda>(l, t). (t, (l, t))), os_sleep = (\<lambda>d (l, t). (l, t + d)),
      os_error_text = (\<lambda>_. [])\<rparr>"

lemma stubborn_laws:
  "os_laws stubborn_os fst snd" "prompt stubborn_os snd 0" "tells_gone stubborn_os pid (\<lambda>_ _. False)"
  by (auto simp: os_laws_def prompt_def tells_gone_def stubborn_os_def)

lemma stubborn_skip: "should_skip_unix_sigkill stubborn_os t s = (Inr False, s)"
  by (cases s) (simp add: should_skip_unix_sigkill_def probe_unix_target_exists_def stubborn_os_def)

lemma stubborn_now: "os_now stubborn_os (l, k) = (k, l, k)" "os_sleep stubborn_os d (l, k) = (l, k + d)"
  by (simp_all add: stubborn_os_def)

lemma stubborn_grace: "grace_loop stubborn_os t 25 (l, 0) = Some (Inr False, l, 25)"
proof -
  have "grace_loop stubborn_os t 25 (l, 25) = Some (Inr False, l, 25)"
    by (subst grace_loop.simps) (simp add: stubborn_skip stubborn_now)
  moreover have "k < 25 \<Longrightarrow> grace_loop stubborn_os t 25 (l, k)
      = grace_loop stubborn_os t 25 (l, k + min (25 - k) kill_grace_poll_interval)" for k
    by (subst grace_loop.simps) (simp add: stubborn_skip stubborn_now)
  ultimately show ?thesis by (simp add: kill_grace_poll_interval_def)
qed

text \<open>With 25 milliseconds of grace it is killed after exactly 25 milliseconds.\<close>

theorem kill_protocol_witness:
  "\<exists>s'. terminate_child_unix stubborn_os (Some 42) \<lparr>kc_term_grace = 25, kc_kill_descendants = True\<rparr> ([], 0)
       = Some (Inr (), s')
     \<and> fst s' = [(- 42, sigterm), (- 42, sigkill)] \<and> snd s' = 25"
proof -
  let ?cfg = "\<lparr>kc_term_grace = 25, kc_kill_descendants = True\<rparr>"
  have kill: "os_kill stubborn_os p sig (l, k) = (None, (if sig = 0 then l else l @ [(p, sig)]), k)" for p sig l k
    by (simp add: stubborn_os_def)
  have r: "terminate_child_unix stubborn_os (Some 42) ?cfg ([], 0) = Some (Inr (), [(- 42, sigterm), (- 42, sigkill)], 25)"
    by (simp add: terminate_child_unix_def unix_pid_def resolve_initial_unix_kill_target_def
        probe_unix_target_exists_def send_unix_signal_def wait_for_unix_kill_grace_def
        stubborn_skip stubborn_grace kill stubborn_now sigterm_def sigkill_def)
  then have "snd ([(- 42 :: int, sigterm), (- 42, sigkill)], 25 :: nat) \<le> snd ([] :: (int \<times> nat) list, 0 :: nat) + kc_term_grace ?cfg + 15 * 0"
    using kill_protocol [OF stubborn_laws, of 42 ?cfg "([], 0)"] by auto
  then show ?thesis using r by simp
qed

end
