(* ===== verification/Manager.thy ===== *)
theory Manager
  imports Transcript Mode_Overlay Pty_Io
begin

text \<open>
  The pane manager (\<open>manager.rs\<close>): its state, the event stream, the handling of frames
  and the life cycle of a pane. Surface backends, child processes, their factories, the
  system clock and the monotonic clock are operations of the configuration, over states \<open>'s\<close> and \<open>'p\<close> of their
  own; the \<open>n\<close>-th reading of a clock and the \<open>n\<close>-th call of a factory get the number of
  the reading, which the manager counts in \<open>mg_ticks\<close>.

  Every operation returns an option: \<open>None\<close> is a panic (an \<open>expect\<close> on a missing pane, or a
  panic of the transcript) or a drain loop that never ends. The result of an operation
  that can fail is a sum. Counters of type \<open>u64\<close> that cannot reach their limit
  in the life of a process are naturals; the next pane id is a word.
\<close>

section \<open>State\<close>

datatype pane_exit =
    PX_Exited "int option"
  | PX_Killed kill_reason
  | PX_Failed pane_error

datatype event_log_retention = ELR_Unlimited | ELR_Bounded nat | ELR_Disabled

definition event_log_bounded :: "nat \<Rightarrow> event_log_retention" where
  "event_log_bounded max_events = (if max_events = 0 then ELR_Disabled else ELR_Bounded max_events)"

record pane_stats =
  st_scrollback_lines_dropped :: nat
  st_event_log_events_dropped :: nat

record repro_size_event =
  rse_transcript_offset :: nat
  rse_size :: pane_size

record ('s, 'p) pane =
  pn_title :: "rstr option"
  pn_spawn_config :: pane_config
  pn_state :: pane_state
  pn_interaction_mode :: interaction_mode
  pn_input_config :: input_config
  pn_stats :: pane_stats
  pn_surface_generation :: nat
  pn_next_seq :: nat
  pn_size_history :: "repro_size_event list"
  pn_event_log :: "pane_event list"
  pn_surface :: 's
  pn_process :: "'p option"
  pn_exit :: "pane_exit option"
  pn_exit_event_observed :: bool
  pn_transcript :: transcript
  pn_mode_overlay :: mode_overlay

record ('s, 'p) manager_config =
  mc_pty_spawner :: "nat \<Rightarrow> pane_config \<Rightarrow> pane_error + 'p"
  mc_surface_factory :: "nat \<Rightarrow> pane_id \<Rightarrow> pane_config \<Rightarrow> pane_error + 's"
  mc_default_scrollback :: scrollback_config
  mc_event_log_retention :: event_log_retention
  mc_max_pty_frames_per_drain :: nat
  mc_max_pty_frames_per_repro_dump :: nat
  mc_surface :: "'s surface_backend"
  mc_process :: "'p pty_process"
  mc_system_time :: "nat \<Rightarrow> nat"
  mc_instant :: "nat \<Rightarrow> nat"

text \<open>A subscriber is a channel whose receiver may have been dropped; the event sink is the
  events it has been called with.\<close>

record subscriber =
  sub_connected :: bool
  sub_received :: "pane_event list"

record ('s, 'p) pane_manager =
  mg_next_pane_id :: pane_id
  mg_panes :: "pane_id \<Rightarrow> ('s, 'p) pane option"
  mg_events :: "pane_event list"
  mg_subscribers :: "subscriber list"
  mg_event_sink :: "pane_event list option"
  mg_config :: "('s, 'p) manager_config"
  mg_ticks :: nat

definition manager_new :: "('s, 'p) manager_config \<Rightarrow> ('s, 'p) pane_manager" where
  "manager_new config =
     \<lparr>mg_next_pane_id = 0, mg_panes = (\<lambda>_. None), mg_events = [], mg_subscribers = [],
      mg_event_sink = None, mg_config = config, mg_ticks = 0\<rparr>"

definition put_pane :: "pane_id \<Rightarrow> ('s, 'p) pane \<Rightarrow> ('s, 'p) pane_manager \<Rightarrow> ('s, 'p) pane_manager" where
  "put_pane pane_id p m = m \<lparr>mg_panes := (mg_panes m)(pane_id \<mapsto> p)\<rparr>"

text \<open>\<open>get_mut(..).expect(..)\<close> and an update of the pane.\<close>

definition modify_pane ::
    "pane_id \<Rightarrow> (('s, 'p) pane \<Rightarrow> ('s, 'p) pane) \<Rightarrow> ('s, 'p) pane_manager \<Rightarrow> ('s, 'p) pane_manager option" where
  "modify_pane pane_id f m = map_option (\<lambda>p. put_pane pane_id (f p) m) (mg_panes m pane_id)"


section \<open>Events\<close>

definition add_u64 :: "nat \<Rightarrow> nat \<Rightarrow> nat" where "add_u64 a b = min (a + b) u64_max"

definition increment_event_log_drop_count :: "pane_stats \<Rightarrow> nat \<Rightarrow> pane_stats" where
  "increment_event_log_drop_count stats count =
     stats \<lparr>st_event_log_events_dropped := add_u64 (st_event_log_events_dropped stats) (min count u64_max)\<rparr>"

definition retain_event_log ::
    "('s, 'p) pane \<Rightarrow> pane_event \<Rightarrow> event_log_retention \<Rightarrow> ('s, 'p) pane" where
  "retain_event_log pane event retention =
     (case retention of
        ELR_Unlimited \<Rightarrow> pane \<lparr>pn_event_log := pn_event_log pane @ [event]\<rparr>
      | ELR_Disabled \<Rightarrow> pane \<lparr>pn_stats := increment_event_log_drop_count (pn_stats pane) 1\<rparr>
      | ELR_Bounded max_events \<Rightarrow>
          if max_events = 0 then pane \<lparr>pn_stats := increment_event_log_drop_count (pn_stats pane) 1\<rparr>
          else
            (let log = pn_event_log pane @ [event];
                 excess = length log - max_events
             in if 0 < excess
                then pane \<lparr>pn_event_log := drop excess log,
                           pn_stats := increment_event_log_drop_count (pn_stats pane) excess\<rparr>
                else pane \<lparr>pn_event_log := log\<rparr>))"

text \<open>Sending fails when the receiver is gone, and such a subscriber is forgotten.\<close>

definition notify_subscribers :: "pane_event \<Rightarrow> subscriber list \<Rightarrow> subscriber list" where
  "notify_subscribers event subs =
     map (\<lambda>s. s \<lparr>sub_received := sub_received s @ [event]\<rparr>) (filter sub_connected subs)"

definition push_event ::
    "pane_id \<Rightarrow> event_kind \<Rightarrow> ('s, 'p) pane_manager \<Rightarrow> ('s, 'p) pane_manager option" where
  "push_event pane_id kind m =
     (case mg_panes m pane_id of
        None \<Rightarrow> None
      | Some pane \<Rightarrow>
          (let pane = pane \<lparr>pn_next_seq := pn_next_seq pane + 1\<rparr>;
               event = \<lparr>ev_pane_id = pane_id, ev_seq = pn_next_seq pane,
                        ev_at = mc_system_time (mg_config m) (mg_ticks m), ev_kind = kind\<rparr>;
               pane = retain_event_log pane event (mc_event_log_retention (mg_config m));
               m = put_pane pane_id pane m
           in Some (m \<lparr>mg_events := mg_events m @ [event],
                       mg_event_sink := map_option (\<lambda>seen. seen @ [event]) (mg_event_sink m),
                       mg_subscribers := notify_subscribers event (mg_subscribers m),
                       mg_ticks := mg_ticks m + 1\<rparr>)))"

definition transition_state ::
    "pane_id \<Rightarrow> pane_state \<Rightarrow> ('s, 'p) pane_manager \<Rightarrow> ('s, 'p) pane_manager option" where
  "transition_state pane_id new m =
     (case mg_panes m pane_id of
        None \<Rightarrow> None
      | Some pane \<Rightarrow>
          if pn_state pane = new then Some m
          else push_event pane_id (Ev_StateChanged (pn_state pane) new)
                 (put_pane pane_id (pane \<lparr>pn_state := new\<rparr>) m))"


section \<open>Frames\<close>

definition rotated_event :: "transcript_rotation \<Rightarrow> event_kind" where
  "rotated_event rotated =
     Ev_TranscriptRotated
       \<lparr>tre_chunks_dropped = rot_chunks_dropped rotated, tre_bytes_dropped = rot_bytes_dropped rotated,
        tre_raw_bytes_dropped = rot_raw_bytes_dropped rotated,
        tre_plain_bytes_dropped = rot_plain_bytes_dropped rotated\<rparr>"

definition push_rotated ::
    "pane_id \<Rightarrow> transcript_rotation option \<Rightarrow> ('s, 'p) pane_manager \<Rightarrow> ('s, 'p) pane_manager option" where
  "push_rotated pane_id rotated m =
     (case rotated of None \<Rightarrow> Some m | Some r \<Rightarrow> push_event pane_id (rotated_event r) m)"

text \<open>The flush of the pending transcript that precedes every end of a pane.\<close>

definition flush_transcript ::
    "pane_id \<Rightarrow> ('s, 'p) pane_manager \<Rightarrow> ('s, 'p) pane_manager option" where
  "flush_transcript pane_id m =
     (case mg_panes m pane_id of
        None \<Rightarrow> Some m
      | Some pane \<Rightarrow> do {
          (rotated, tr) \<leftarrow> flush_pending (pn_transcript pane);
          push_rotated pane_id rotated (put_pane pane_id (pane \<lparr>pn_transcript := tr\<rparr>) m)
        })"

definition set_exit_if_not_killed_or_failed ::
    "pane_id \<Rightarrow> pane_exit \<Rightarrow> ('s, 'p) pane_manager \<Rightarrow> ('s, 'p) pane_manager option" where
  "set_exit_if_not_killed_or_failed pane_id exit m =
     modify_pane pane_id
       (\<lambda>pane. case pn_exit pane of
                 Some (PX_Killed _) \<Rightarrow> pane
               | Some (PX_Failed _) \<Rightarrow> pane
               | _ \<Rightarrow> pane \<lparr>pn_exit := Some exit\<rparr>) m"

definition record_exit_event_observed ::
    "pane_id \<Rightarrow> ('s, 'p) pane_manager \<Rightarrow> ('s, 'p) pane_manager option" where
  "record_exit_event_observed pane_id m =
     modify_pane pane_id (\<lambda>pane. pane \<lparr>pn_exit_event_observed := True\<rparr>) m"

definition surface_error :: "pane_error \<Rightarrow> pane_error" where
  "surface_error error =
     (case error of Surface_Error _ \<Rightarrow> error | other \<Rightarrow> Surface_Error (pane_error_str other))"

definition should_emit_surface_event :: "surface_update \<Rightarrow> bool" where
  "should_emit_surface_event update =
     (su_dirty_rows update \<noteq> Dirty_None \<or> su_cursor_changed update \<or> su_title_changed update
      \<or> su_modes_changed update \<or> su_scrollback_changed update)"

definition surface_changed :: "nat \<Rightarrow> surface_update \<Rightarrow> event_kind" where
  "surface_changed generation update =
     Ev_SurfaceChanged
       \<lparr>sce_generation = generation, sce_dirty_rows = su_dirty_rows update,
        sce_cursor_changed = su_cursor_changed update, sce_title_changed = su_title_changed update,
        sce_modes_changed = su_modes_changed update,
        sce_scrollback_changed = su_scrollback_changed update\<rparr>"

definition feed_surface_bytes ::
    "pane_id \<Rightarrow> u8 list \<Rightarrow> ('s, 'p) pane_manager \<Rightarrow>
     (pane_error + surface_update \<times> nat) \<times> ('s, 'p) pane_manager" where
  "feed_surface_bytes pane_id bytes m =
     (case mg_panes m pane_id of
        None \<Rightarrow> (Inl (NotFound_Error pane_id), m)
      | Some pane \<Rightarrow>
          (case sb_feed (mc_surface (mg_config m)) (pn_surface pane) bytes of
             (Inl e, s) \<Rightarrow> (Inl e, put_pane pane_id (pane \<lparr>pn_surface := s\<rparr>) m)
           | (Inr update, s) \<Rightarrow>
               (let stats = (pn_stats pane) \<lparr>st_scrollback_lines_dropped :=
                      add_u64 (st_scrollback_lines_dropped (pn_stats pane))
                        (su_scrollback_lines_dropped update)\<rparr>;
                    generation = pn_surface_generation pane + 1
                in (Inr (update, generation),
                    put_pane pane_id (pane \<lparr>pn_surface := s, pn_stats := stats,
                      pn_surface_generation := generation\<rparr>) m))))"

definition output_event_of :: "u8 list \<Rightarrow> nat option \<Rightarrow> event_kind" where
  "output_event_of bytes transcript_offset =
     Ev_Output \<lparr>oe_bytes_len = length bytes, oe_transcript_offset = transcript_offset,
                oe_contains_escape = (0x1b \<in> set bytes)\<rparr>"

definition record_output_frame ::
    "pane_id \<Rightarrow> u8 list \<Rightarrow> ('s, 'p) pane_manager \<Rightarrow> ((pane_error + unit) \<times> ('s, 'p) pane_manager) option" where
  "record_output_frame pane_id bytes m = do {
     pane \<leftarrow> mg_panes m pane_id;
     (rec, tr) \<leftarrow> record_frame (pn_transcript pane) bytes;
     let transcript_offset = (if tr_mode tr = TM_Disabled then None else Some (rec_offset rec));
     let m = put_pane pane_id
       (pane \<lparr>pn_mode_overlay := snd (update_from_output (pn_mode_overlay pane) bytes),
              pn_transcript := tr\<rparr>) m;
     m \<leftarrow> push_rotated pane_id (rec_rotated rec) m;
     case feed_surface_bytes pane_id bytes m of
       (Inr (update, generation), m) \<Rightarrow> do {
         m \<leftarrow> push_event pane_id (output_event_of bytes transcript_offset) m;
         m \<leftarrow> (if should_emit_surface_event update
                then push_event pane_id (surface_changed generation update) m else Some m);
         Some (Inr (), m)
       }
     | (Inl error, m) \<Rightarrow> do {
         m \<leftarrow> push_event pane_id (output_event_of bytes transcript_offset) m;
         Some (Inl error, m)
       }
   }"

fun is_live :: "pane_state \<Rightarrow> bool" where
  "is_live Starting = True"
| "is_live Running = True"
| "is_live _ = False"

definition handle_exit_frame ::
    "pane_id \<Rightarrow> int option \<Rightarrow> ('s, 'p) pane_manager \<Rightarrow> ('s, 'p) pane_manager option" where
  "handle_exit_frame pane_id code m = do {
     m \<leftarrow> record_exit_event_observed pane_id m;
     m \<leftarrow> flush_transcript pane_id m;
     m \<leftarrow> push_event pane_id (Ev_Exited code) m;
     pane \<leftarrow> mg_panes m pane_id;
     if is_live (pn_state pane) then do {
       m \<leftarrow> set_exit_if_not_killed_or_failed pane_id (PX_Exited code) m;
       transition_state pane_id (Exited code) m
     } else Some m
   }"

definition fail_pane ::
    "pane_id \<Rightarrow> pane_error \<Rightarrow> ('s, 'p) pane_manager \<Rightarrow> ('s, 'p) pane_manager option" where
  "fail_pane pane_id error m = do {
     m \<leftarrow> flush_transcript pane_id m;
     m \<leftarrow> push_event pane_id (Ev_Error error) m;
     pane \<leftarrow> mg_panes m pane_id;
     if is_live (pn_state pane) then do {
       m \<leftarrow> set_exit_if_not_killed_or_failed pane_id (PX_Failed error) m;
       transition_state pane_id (Failed error) m
     } else Some m
   }"

definition handle_output_frame ::
    "pane_id \<Rightarrow> u8 list \<Rightarrow> ('s, 'p) pane_manager \<Rightarrow> ('s, 'p) pane_manager option" where
  "handle_output_frame pane_id bytes m = do {
     (r, m) \<leftarrow> record_output_frame pane_id bytes m;
     case r of Inl error \<Rightarrow> fail_pane pane_id (surface_error error) m | Inr _ \<Rightarrow> Some m
   }"

definition handle_pty_frame ::
    "pane_id \<Rightarrow> pty_frame \<Rightarrow> ('s, 'p) pane_manager \<Rightarrow> ('s, 'p) pane_manager option" where
  "handle_pty_frame pane_id frame m =
     (case frame of
        PF_Output _ bytes _ \<Rightarrow> handle_output_frame pane_id bytes m
      | PF_Overflow _ frames1 bytes1 _ \<Rightarrow>
          push_event pane_id
            (Ev_Overflow \<lparr>ofe_dropped_frames = frames1, ofe_dropped_bytes = bytes1,
                          ofe_queue = PtyOutputFrames\<rparr>) m
      | PF_Error _ message _ \<Rightarrow> fail_pane pane_id (Io_Error Io_Read message) m
      | PF_Exited _ code _ \<Rightarrow> handle_exit_frame pane_id code m
      | PF_CursorPositionRequest _ _ \<Rightarrow> Some m)"


section \<open>Draining a process\<close>

text \<open>The next frame of a pane, \<open>None\<close> if the pane is gone or has no process.\<close>

definition next_frame ::
    "pane_id \<Rightarrow> ('s, 'p) pane_manager \<Rightarrow> (pty_frame option \<times> ('s, 'p) pane_manager) option" where
  "next_frame pane_id m =
     (case mg_panes m pane_id of
        None \<Rightarrow> None
      | Some pane \<Rightarrow>
          (case pn_process pane of
             None \<Rightarrow> None
           | Some q \<Rightarrow>
               (case pp_try_recv (mc_process (mg_config m)) q of
                  (frame, q) \<Rightarrow> Some (frame, put_pane pane_id (pane \<lparr>pn_process := Some q\<rparr>) m))))"

fun poll_frames :: "nat \<Rightarrow> pane_id \<Rightarrow> ('s, 'p) pane_manager \<Rightarrow> ('s, 'p) pane_manager option" where
  "poll_frames 0 pane_id m = Some m"
| "poll_frames (Suc n) pane_id m =
     (case next_frame pane_id m of
        None \<Rightarrow> Some m
      | Some (None, m) \<Rightarrow> Some m
      | Some (Some frame, m) \<Rightarrow> do {
          m \<leftarrow> handle_pty_frame pane_id frame m;
          poll_frames n pane_id m
        })"

definition poll_pane_frames :: "pane_id \<Rightarrow> ('s, 'p) pane_manager \<Rightarrow> ('s, 'p) pane_manager option" where
  "poll_pane_frames pane_id m = poll_frames (mc_max_pty_frames_per_drain (mg_config m)) pane_id m"

partial_function (option) drain_all_pane_frames ::
    "pane_id \<Rightarrow> ('s, 'p) pane_manager \<Rightarrow> ('s, 'p) pane_manager option" where
  "drain_all_pane_frames pane_id m =
     (case next_frame pane_id m of
        None \<Rightarrow> Some m
      | Some (r, m) \<Rightarrow>
          (case r of
             None \<Rightarrow> Some m
           | Some frame \<Rightarrow>
               Option.bind (handle_pty_frame pane_id frame m) (\<lambda>m. drain_all_pane_frames pane_id m)))"

text \<open>The bounded drain of a repro dump; the result is \<open>Inl\<close> the error.\<close>

fun drain_for_repro ::
    "nat \<Rightarrow> pane_id \<Rightarrow> ('s, 'p) pane_manager \<Rightarrow>
     ((pane_error + bool) \<times> ('s, 'p) pane_manager) option" where
  "drain_for_repro 0 pane_id m = Some (Inr False, m)"
| "drain_for_repro (Suc n) pane_id m =
     (if mg_panes m pane_id = None then Some (Inl (NotFound_Error pane_id), m)
      else case next_frame pane_id m of
        None \<Rightarrow> Some (Inr True, m)
      | Some (None, m) \<Rightarrow> Some (Inr True, m)
      | Some (Some frame, m) \<Rightarrow> do {
          m \<leftarrow> handle_pty_frame pane_id frame m;
          drain_for_repro n pane_id m
        })"

definition repro_limit_error :: "nat \<Rightarrow> pane_error" where
  "repro_limit_error limit =
     Surface_Error (lit ''repro dump exceeded the PTY frame drain limit ('' @ dec_str limit
       @ lit '') while the pane still had queued output'')"

definition drain_pane_frames_for_repro ::
    "pane_id \<Rightarrow> ('s, 'p) pane_manager \<Rightarrow> ((pane_error + unit) \<times> ('s, 'p) pane_manager) option" where
  "drain_pane_frames_for_repro pane_id m =
     (let limit = mc_max_pty_frames_per_repro_dump (mg_config m)
      in do {
        (r, m) \<leftarrow> drain_for_repro limit pane_id m;
        case r of
          Inl e \<Rightarrow> Some (Inl e, m)
        | Inr True \<Rightarrow> Some (Inr (), m)
        | Inr False \<Rightarrow>
            if mg_panes m pane_id = None then Some (Inl (NotFound_Error pane_id), m)
            else case next_frame pane_id m of
              None \<Rightarrow> Some (Inr (), m)
            | Some (None, m) \<Rightarrow> Some (Inr (), m)
            | Some (Some frame, m) \<Rightarrow> do {
                m \<leftarrow> handle_pty_frame pane_id frame m;
                Some (Inl (repro_limit_error limit), m)
              }
      })"

text \<open>The panes in the order of their ids.\<close>

fun poll_each :: "pane_id list \<Rightarrow> ('s, 'p) pane_manager \<Rightarrow> ('s, 'p) pane_manager option" where
  "poll_each [] m = Some m"
| "poll_each (i # is) m = do { m \<leftarrow> poll_pane_frames i m; poll_each is m }"

definition poll_panes :: "('s, 'p) pane_manager \<Rightarrow> ('s, 'p) pane_manager option" where
  "poll_panes m = poll_each (sorted_list_of_set (dom (mg_panes m))) m"

definition drain_events ::
    "('s, 'p) pane_manager \<Rightarrow> (pane_event list \<times> ('s, 'p) pane_manager) option" where
  "drain_events m = do {
     m \<leftarrow> poll_panes m;
     Some (mg_events m, m \<lparr>mg_events := []\<rparr>)
   }"

end
