(* ===== verification/Manager_Evolution.thy ===== *)
theory Manager_Evolution
  imports Manager
begin

text \<open>
  How the operations of the pane manager that neither create nor remove a pane may change
  it. The relation \<open>pane_evolves\<close> is what one pane goes through while it emits a list of
  events, \<open>evolves\<close> the same for the whole manager. Both compose, so each operation of
  \<open>Manager\<close> is one short lemma; the collection \<open>evolve_intros\<close> holds them.
\<close>

declare upt_Suc [simp del]

named_theorems evolve_intros \<open>operations of the manager evolve it\<close>

section \<open>One pane\<close>

text \<open>Following the state changes of an event list.\<close>

fun state_path :: "pane_state \<Rightarrow> event_kind list \<Rightarrow> pane_state \<Rightarrow> bool" where
  "state_path s [] t = (s = t)"
| "state_path s (Ev_StateChanged a b # ks) t = (a = s \<and> a \<noteq> b \<and> state_path b ks t)"
| "state_path s (_ # ks) t = state_path s ks t"

fun is_state_change :: "event_kind \<Rightarrow> bool" where
  "is_state_change (Ev_StateChanged _ _) = True"
| "is_state_change _ = False"

lemma state_path_skip [simp]: "\<not> is_state_change k \<Longrightarrow> state_path s (k # ks) t = state_path s ks t"
  by (cases k) simp_all

lemma state_path_append: "state_path s ks t \<Longrightarrow> state_path t ls u \<Longrightarrow> state_path s (ks @ ls) u"
  by (induction s ks t rule: state_path.induct) auto

text \<open>The exit status kept for \<open>remove\<close> says what the state says.\<close>

definition exit_ok :: "('s, 'p) pane \<Rightarrow> bool" where
  "exit_ok p =
     (case pn_state p of
        Exited c \<Rightarrow> pn_exit p = Some (PX_Exited c)
      | Killed r \<Rightarrow> pn_exit p = Some (PX_Killed r)
      | Failed e \<Rightarrow> pn_exit p = Some (PX_Failed e)
      | _ \<Rightarrow> pn_exit p = None)"

text \<open>The event log holds the last events, numbered to the current sequence number, as many
  as the retention policy allows, and the statistics count the rest.\<close>

fun retained_events :: "event_log_retention \<Rightarrow> nat \<Rightarrow> nat" where
  "retained_events ELR_Unlimited n = n"
| "retained_events (ELR_Bounded k) n = min k n"
| "retained_events ELR_Disabled n = 0"

definition log_ok :: "event_log_retention \<Rightarrow> pane_id \<Rightarrow> ('s, 'p) pane \<Rightarrow> bool" where
  "log_ok R i p =
     (let n = pn_next_seq p; k = retained_events R n
      in map ev_seq (pn_event_log p) = [n - k + 1..<n + 1]
         \<and> (\<forall>e\<in>set (pn_event_log p). ev_pane_id e = i)
         \<and> st_event_log_events_dropped (pn_stats p) = min (n - k) u64_max
         \<and> (R = ELR_Unlimited \<longrightarrow> state_path Starting (map ev_kind (pn_event_log p)) (pn_state p)))"

definition sizes_ok :: "('s, 'p) pane \<Rightarrow> bool" where
  "sizes_ok p =
     (pn_size_history p \<noteq> [] \<and> rse_transcript_offset (hd (pn_size_history p)) = 0
      \<and> sorted (map rse_transcript_offset (pn_size_history p))
      \<and> rse_transcript_offset (last (pn_size_history p)) \<le> tr_next_raw_offset (pn_transcript p)
      \<and> (\<forall>z\<in>set (pn_size_history p). valid_size (rse_size z)))"

definition pane_ok :: "event_log_retention \<Rightarrow> pane_id \<Rightarrow> ('s, 'p) pane \<Rightarrow> bool" where
  "pane_ok R i p = (exit_ok p \<and> log_ok R i p \<and> sizes_ok p)"

definition pane_evolves ::
    "event_log_retention \<Rightarrow> pane_id \<Rightarrow> ('s, 'p) pane \<Rightarrow> pane_event list \<Rightarrow> ('s, 'p) pane \<Rightarrow> bool" where
  "pane_evolves R i p es p' =
     (pn_next_seq p' = pn_next_seq p + length es
      \<and> map ev_seq es = [pn_next_seq p + 1..<pn_next_seq p' + 1]
      \<and> (\<forall>e\<in>set es. ev_pane_id e = i)
      \<and> state_path (pn_state p) (map ev_kind es) (pn_state p')
      \<and> (\<not> is_live (pn_state p) \<longrightarrow> pn_state p' = pn_state p)
      \<and> (pn_state p' = Starting \<longrightarrow> pn_state p = Starting)
      \<and> (pane_ok R i p \<longrightarrow> pane_ok R i p')
      \<and> pn_title p' = pn_title p \<and> pn_spawn_config p' = pn_spawn_config p
      \<and> pn_input_config p' = pn_input_config p
      \<and> (pn_exit_event_observed p \<longrightarrow> pn_exit_event_observed p')
      \<and> (pn_process p' = None \<longleftrightarrow> pn_process p = None)
      \<and> tr_mode (pn_transcript p') = tr_mode (pn_transcript p)
      \<and> tr_next_raw_offset (pn_transcript p) \<le> tr_next_raw_offset (pn_transcript p'))"

lemma pane_evolves_refl [simp]: "pane_evolves R i p [] p"
  by (simp add: pane_evolves_def)

lemma upt_append: "a \<le> b \<Longrightarrow> b \<le> c \<Longrightarrow> [a..<b] @ [b..<c] = [a..<c]"
  by (metis le_add_diff_inverse upt_add_eq_append)

lemma pane_evolves_rel_refl [simp]: "rel_option (\<lambda>p. pane_evolves R i p []) x x"
  by (cases x) simp_all

lemma pane_evolves_trans:
  assumes "pane_evolves R i p es q" "pane_evolves R i q fs r"
  shows "pane_evolves R i p (es @ fs) r"
proof -
  note a = assms [unfolded pane_evolves_def]
  have seqs: "map ev_seq (es @ fs) = [pn_next_seq p + 1..<pn_next_seq r + 1]"
  proof -
    have "[pn_next_seq p + 1..<pn_next_seq q + 1] @ [pn_next_seq q + 1..<pn_next_seq r + 1]
        = [pn_next_seq p + 1..<pn_next_seq r + 1]"
      using a by (intro upt_append) auto
    then show ?thesis using a by (metis map_append)
  qed
  have path: "state_path (pn_state p) (map ev_kind (es @ fs)) (pn_state r)"
    unfolding map_append by (rule state_path_append [of _ _ "pn_state q"]) (use a in blast)+
  have ids: "\<forall>e\<in>set (es @ fs). ev_pane_id e = i" using a by auto
  have live: "\<not> is_live (pn_state p) \<longrightarrow> pn_state r = pn_state p"
    "pn_state r = Starting \<longrightarrow> pn_state p = Starting" using a by metis+
  have n: "pn_next_seq r = pn_next_seq p + length (es @ fs)" using a by simp
  show ?thesis unfolding pane_evolves_def
    by (intro conjI n seqs path ids live) (use a in \<open>simp_all\<close>)
qed

text \<open>A change of the pane that the events do not show.\<close>


definition quiet :: "('s, 'p) pane \<Rightarrow> ('s, 'p) pane \<Rightarrow> bool" where
  "quiet p p' =
     (pn_title p' = pn_title p \<and> pn_spawn_config p' = pn_spawn_config p
      \<and> pn_state p' = pn_state p \<and> pn_input_config p' = pn_input_config p
      \<and> st_event_log_events_dropped (pn_stats p') = st_event_log_events_dropped (pn_stats p)
      \<and> pn_next_seq p' = pn_next_seq p \<and> pn_size_history p' = pn_size_history p
      \<and> pn_event_log p' = pn_event_log p \<and> pn_exit p' = pn_exit p
      \<and> (pn_exit_event_observed p \<longrightarrow> pn_exit_event_observed p')
      \<and> (pn_process p' = None \<longleftrightarrow> pn_process p = None)
      \<and> tr_mode (pn_transcript p') = tr_mode (pn_transcript p)
      \<and> tr_next_raw_offset (pn_transcript p) \<le> tr_next_raw_offset (pn_transcript p'))"

lemma quiet_ok: "quiet p p' \<Longrightarrow> pane_ok R i p \<Longrightarrow> pane_ok R i p'"
  by (simp add: quiet_def pane_ok_def exit_ok_def log_ok_def sizes_ok_def Let_def
      cong: pane_state.case_cong)

lemma quiet_evolves: "quiet p p' \<Longrightarrow> pane_evolves R i p [] p'"
  using quiet_ok [of p p' R i] by (auto simp: pane_evolves_def quiet_def)


section \<open>Logging one event\<close>

lemma retain_fields [simp]:
  "pn_title (retain_event_log p e R) = pn_title p"
  "pn_spawn_config (retain_event_log p e R) = pn_spawn_config p"
  "pn_state (retain_event_log p e R) = pn_state p"
  "pn_interaction_mode (retain_event_log p e R) = pn_interaction_mode p"
  "pn_input_config (retain_event_log p e R) = pn_input_config p"
  "pn_next_seq (retain_event_log p e R) = pn_next_seq p"
  "pn_size_history (retain_event_log p e R) = pn_size_history p"
  "pn_exit (retain_event_log p e R) = pn_exit p"
  "pn_exit_event_observed (retain_event_log p e R) = pn_exit_event_observed p"
  "pn_process (retain_event_log p e R) = pn_process p"
  "pn_transcript (retain_event_log p e R) = pn_transcript p"
  "pn_surface (retain_event_log p e R) = pn_surface p"
  "pn_surface_generation (retain_event_log p e R) = pn_surface_generation p"
  "pn_mode_overlay (retain_event_log p e R) = pn_mode_overlay p"
  by (simp_all add: retain_event_log_def Let_def split: event_log_retention.split)

text \<open>The pane after \<open>push_event\<close>.\<close>

definition logged :: "event_log_retention \<Rightarrow> pane_event \<Rightarrow> ('s, 'p) pane \<Rightarrow> ('s, 'p) pane" where
  "logged R e p = retain_event_log (p \<lparr>pn_next_seq := pn_next_seq p + 1\<rparr>) e R"

lemma drop_upt_map: "map f xs = [a..<b] \<Longrightarrow> map f (drop k xs) = [a + k..<b]"
  by (metis drop_map drop_upt)

lemma logged_log_ok:
  assumes ok: "log_ok R i p" and e: "ev_pane_id e = i" "ev_seq e = pn_next_seq p + 1"
    and path: "state_path (pn_state p) [ev_kind e] s"
  shows "log_ok R i (logged R e p \<lparr>pn_state := s\<rparr>)"
proof (cases R)
  case ELR_Unlimited
  then show ?thesis using ok e state_path_append [OF _ path, of Starting]
    by (auto simp: log_ok_def logged_def retain_event_log_def Let_def upt_Suc_append)
next
  case ELR_Disabled
  then show ?thesis using ok e
    by (auto simp: log_ok_def logged_def retain_event_log_def increment_event_log_drop_count_def
        add_u64_def u64_max_def Let_def)
next
  case (ELR_Bounded k)
  show ?thesis
  proof (cases "k = 0")
    case True
    then show ?thesis using ok e ELR_Bounded
      by (auto simp: log_ok_def logged_def retain_event_log_def increment_event_log_drop_count_def
          add_u64_def u64_max_def Let_def)
  next
    case False
    let ?n = "pn_next_seq p"
    let ?log = "pn_event_log p @ [e]"
    have l: "map ev_seq (pn_event_log p) = [?n - min k ?n + 1..<?n + 1]"
      using ok ELR_Bounded by (simp add: log_ok_def Let_def)
    then have len: "length (pn_event_log p) = min k ?n"
      by (metis (no_types, lifting) add_diff_cancel_right diff_diff_cancel length_map length_upt
          min.cobounded2)
    have log: "map ev_seq ?log = [?n - min k ?n + 1..<?n + 2]" using l e by (simp add: upt_Suc_append)
    have d: "st_event_log_events_dropped (pn_stats p) = min (?n - min k ?n) u64_max"
      using ok ELR_Bounded by (simp add: log_ok_def Let_def)
    show ?thesis
    proof (cases "k \<le> ?n")
      case True
      have "map ev_seq (drop 1 ?log) = [?n - k + 2..<?n + 2]"
        using drop_upt_map [OF log, of 1] True by (simp add: min_def)
      then show ?thesis using ok e ELR_Bounded False True len d
        by (auto simp: log_ok_def logged_def retain_event_log_def increment_event_log_drop_count_def
            add_u64_def u64_max_def Let_def min_def Suc_diff_le dest: in_set_dropD)
    next
      case small: False
      then show ?thesis using ok e ELR_Bounded False len d log
        by (auto simp: log_ok_def logged_def retain_event_log_def Let_def min_def)
    qed
  qed
qed


lemma logged_fields [simp]:
  "pn_title (logged R e p) = pn_title p" "pn_spawn_config (logged R e p) = pn_spawn_config p"
  "pn_state (logged R e p) = pn_state p" "pn_interaction_mode (logged R e p) = pn_interaction_mode p"
  "pn_input_config (logged R e p) = pn_input_config p" "pn_next_seq (logged R e p) = pn_next_seq p + 1"
  "pn_size_history (logged R e p) = pn_size_history p" "pn_exit (logged R e p) = pn_exit p"
  "pn_exit_event_observed (logged R e p) = pn_exit_event_observed p"
  "pn_process (logged R e p) = pn_process p" "pn_transcript (logged R e p) = pn_transcript p"
  "pn_surface (logged R e p) = pn_surface p" "pn_mode_overlay (logged R e p) = pn_mode_overlay p"
  "pn_surface_generation (logged R e p) = pn_surface_generation p"
  by (simp_all add: logged_def)

lemma logged_update_state: "logged R e (p \<lparr>pn_state := s\<rparr>) = (logged R e p) \<lparr>pn_state := s\<rparr>"
  "logged R e (p \<lparr>pn_exit := x\<rparr>) = (logged R e p) \<lparr>pn_exit := x\<rparr>"
  "logged R e (p \<lparr>pn_size_history := z\<rparr>) = (logged R e p) \<lparr>pn_size_history := z\<rparr>"
  by (simp_all add: logged_def retain_event_log_def Let_def split: event_log_retention.split)

text \<open>One event that is not a change of state, and a change of state.\<close>

lemma logged_evolves:
  assumes "ev_pane_id e = i" "ev_seq e = pn_next_seq p + 1" "\<not> is_state_change (ev_kind e)"
  shows "pane_evolves R i p [e] (logged R e p)"
proof -
  have "log_ok R i p \<Longrightarrow> log_ok R i (logged R e p)"
    using logged_log_ok [OF _ assms(1,2), of R "pn_state p"] assms(3)
    by (simp add: logged_update_state(1) [symmetric])
  then show ?thesis
    using assms by (auto simp: pane_evolves_def pane_ok_def exit_ok_def sizes_ok_def upt_rec
        cong: pane_state.case_cong)
qed

definition exit_of :: "pane_state \<Rightarrow> pane_exit option" where
  "exit_of s =
     (case s of
        Exited c \<Rightarrow> Some (PX_Exited c)
      | Killed r \<Rightarrow> Some (PX_Killed r)
      | Failed e \<Rightarrow> Some (PX_Failed e)
      | _ \<Rightarrow> None)"

lemma exit_ok_alt: "exit_ok p \<longleftrightarrow> pn_exit p = exit_of (pn_state p)"
  by (simp add: exit_ok_def exit_of_def split: pane_state.split)

lemma ended_evolves:
  assumes "ev_pane_id e = i" "ev_seq e = pn_next_seq p + 1"
    "ev_kind e = Ev_StateChanged (pn_state p) s" "is_live (pn_state p)" "\<not> is_live s"
    "pn_exit p = None \<longrightarrow> x = exit_of s"
  shows "pane_evolves R i p [e] (logged R e p \<lparr>pn_exit := x, pn_state := s\<rparr>)"
proof -
  have ne: "pn_state p \<noteq> s" "s \<noteq> Starting" using assms(4,5) by auto
  have "log_ok R i p \<Longrightarrow> log_ok R i (logged R e p \<lparr>pn_state := s\<rparr>)"
    using logged_log_ok [OF _ assms(1,2), of R s] assms(3) ne by simp
  then have log: "log_ok R i p \<Longrightarrow> log_ok R i (logged R e p \<lparr>pn_exit := x, pn_state := s\<rparr>)"
    by (simp add: log_ok_def)
  have "exit_ok p \<Longrightarrow> pn_exit p = None"
    using assms(4) by (cases "pn_state p") (simp_all add: exit_ok_def)
  then have "exit_ok p \<Longrightarrow> exit_ok (logged R e p \<lparr>pn_exit := x, pn_state := s\<rparr>)"
    using assms(6) by (simp add: exit_ok_alt)
  then show ?thesis
    using assms ne log by (simp add: pane_evolves_def pane_ok_def sizes_ok_def upt_rec)
qed


section \<open>The manager\<close>

definition emit :: "pane_event \<Rightarrow> ('s, 'p) pane_manager \<Rightarrow> ('s, 'p) pane_manager" where
  "emit e m = m \<lparr>mg_events := mg_events m @ [e],
     mg_event_sink := map_option (\<lambda>seen. seen @ [e]) (mg_event_sink m),
     mg_subscribers := notify_subscribers e (mg_subscribers m), mg_ticks := mg_ticks m + 1\<rparr>"

definition next_event :: "('s, 'p) pane_manager \<Rightarrow> pane_id \<Rightarrow> ('s, 'p) pane \<Rightarrow> event_kind \<Rightarrow> pane_event" where
  "next_event m i p k = \<lparr>ev_pane_id = i, ev_seq = pn_next_seq p + 1,
     ev_at = mc_system_time (mg_config m) (mg_ticks m), ev_kind = k\<rparr>"

abbreviation retention :: "('s, 'p) pane_manager \<Rightarrow> event_log_retention" where
  "retention m \<equiv> mc_event_log_retention (mg_config m)"

lemma put_simps [simp]:
  "mg_panes (put_pane i p m) = (mg_panes m)(i \<mapsto> p)" "mg_events (put_pane i p m) = mg_events m"
  "mg_subscribers (put_pane i p m) = mg_subscribers m" "mg_event_sink (put_pane i p m) = mg_event_sink m"
  "mg_config (put_pane i p m) = mg_config m" "mg_next_pane_id (put_pane i p m) = mg_next_pane_id m"
  "mg_ticks (put_pane i p m) = mg_ticks m" "put_pane i q (put_pane i p m) = put_pane i q m"
  by (simp_all add: put_pane_def)

lemma emit_simps [simp]:
  "mg_panes (emit e m) = mg_panes m" "mg_config (emit e m) = mg_config m"
  "mg_next_pane_id (emit e m) = mg_next_pane_id m" "mg_events (emit e m) = mg_events m @ [e]"
  "mg_event_sink (emit e m) = map_option (\<lambda>l. l @ [e]) (mg_event_sink m)"
  "mg_subscribers (emit e m) = notify_subscribers e (mg_subscribers m)"
  "mg_ticks (emit e m) = mg_ticks m + 1"
  by (simp_all add: emit_def)

lemma next_event_simps [simp]:
  "ev_pane_id (next_event m i p k) = i" "ev_seq (next_event m i p k) = pn_next_seq p + 1"
  "ev_kind (next_event m i p k) = k"
  by (simp_all add: next_event_def)

lemma next_event_put [simp]: "next_event (put_pane j q m) i p k = next_event m i p k"
  by (simp add: next_event_def)

lemma push_event_eq:
  "push_event i k m = (case mg_panes m i of None \<Rightarrow> None
     | Some p \<Rightarrow> Some (emit (next_event m i p k) (put_pane i (logged (retention m) (next_event m i p k) p) m)))"
  by (simp add: push_event_def emit_def next_event_def logged_def Let_def split: option.split)

definition evolves ::
    "('s, 'p) pane_manager \<Rightarrow> pane_event list \<Rightarrow> ('s, 'p) pane_manager \<Rightarrow> bool" where
  "evolves m es m' =
     (mg_config m' = mg_config m \<and> mg_next_pane_id m' = mg_next_pane_id m
      \<and> mg_ticks m \<le> mg_ticks m'
      \<and> mg_events m' = mg_events m @ es
      \<and> mg_event_sink m' = map_option (\<lambda>l. l @ es) (mg_event_sink m)
      \<and> mg_subscribers m' = fold notify_subscribers es (mg_subscribers m)
      \<and> (\<forall>e\<in>set es. mg_panes m (ev_pane_id e) \<noteq> None)
      \<and> (\<forall>i. rel_option (\<lambda>p. pane_evolves (retention m) i p (filter (\<lambda>e. ev_pane_id e = i) es))
                (mg_panes m i) (mg_panes m' i)))"

lemma evolves_refl [simp]: "evolves m [] m"
  by (simp add: evolves_def option.map_ident)

lemma evolves_trans:
  assumes "evolves m es m1" "evolves m1 fs m2"
  shows "evolves m (es @ fs) m2"
proof -
  note a = assms [unfolded evolves_def]
  have panes: "rel_option (\<lambda>p. pane_evolves (retention m) i p (filter (\<lambda>e. ev_pane_id e = i) (es @ fs)))
      (mg_panes m i) (mg_panes m2 i)" for i
  proof -
    have r: "rel_option (\<lambda>p. pane_evolves (retention m) i p (filter (\<lambda>e. ev_pane_id e = i) es))
        (mg_panes m i) (mg_panes m1 i)"
      "rel_option (\<lambda>p. pane_evolves (retention m) i p (filter (\<lambda>e. ev_pane_id e = i) fs))
        (mg_panes m1 i) (mg_panes m2 i)"
      using a by simp_all
    then show ?thesis unfolding filter_append
      by (cases "mg_panes m i"; cases "mg_panes m1 i"; cases "mg_panes m2 i")
        (simp_all add: pane_evolves_trans)
  qed
  have ids: "\<forall>e\<in>set (es @ fs). mg_panes m (ev_pane_id e) \<noteq> None"
  proof -
    have "rel_option (\<lambda>p. pane_evolves (retention m) i p (filter (\<lambda>e. ev_pane_id e = i) es))
        (mg_panes m i) (mg_panes m1 i)" for i using a by blast
    then have "mg_panes m1 i \<noteq> None \<Longrightarrow> mg_panes m i \<noteq> None" for i
      by (metis option.rel_distinct(1) option.exhaust)
    then show ?thesis using a by auto
  qed
  show ?thesis
    unfolding evolves_def
    by (intro conjI allI panes ids) (use a in \<open>simp_all add: option.map_comp comp_def\<close>)
qed

abbreviation becomes :: "('s, 'p) pane_manager \<Rightarrow> ('s, 'p) pane_manager \<Rightarrow> bool" where
  "becomes m m' \<equiv> \<exists>es. evolves m es m'"

lemma becomes_refl: "becomes m m"
  by (rule exI) (rule evolves_refl)

lemma becomes_trans: "becomes m m1 \<Longrightarrow> becomes m1 m2 \<Longrightarrow> becomes m m2"
  using evolves_trans by blast

lemma put_quiet:
  "mg_panes m i = Some p \<Longrightarrow> quiet p q \<Longrightarrow> becomes m (put_pane i q m)"
  using quiet_evolves [of p q]
  by (intro exI [of _ "[]"]) (auto simp: evolves_def option.map_ident split: option.split)

lemma put_emit:
  assumes "mg_panes m i = Some p" "pane_evolves (retention m) i p [e] q" "ev_pane_id e = i"
  shows "becomes m (emit e (put_pane i q m))"
  using assms by (intro exI [of _ "[e]"]) (auto simp: evolves_def)

lemma push_event_becomes:
  assumes "push_event i k m = Some m'" "\<not> is_state_change k"
  shows "becomes m m'"
proof -
  obtain p where p: "mg_panes m i = Some p"
    "m' = emit (next_event m i p k) (put_pane i (logged (retention m) (next_event m i p k) p) m)"
    using assms(1) by (auto simp: push_event_eq split: option.splits)
  show ?thesis unfolding p(2)
    by (rule put_emit [OF p(1) logged_evolves]) (simp_all add: assms(2))
qed

section \<open>The primitive steps\<close>

lemma record_frame_static:
  assumes "record_frame t bytes = Some (rec, t')"
  shows "tr_mode t' = tr_mode t \<and> tr_next_raw_offset t' = tr_next_raw_offset t + length bytes"
proof -
  have e: "enforce_limits u = Some (r, u') \<Longrightarrow>
      tr_mode u' = tr_mode u \<and> tr_next_raw_offset u' = tr_next_raw_offset u" for u r u'
    by (auto simp: enforce_limits_def Let_def bind_eq_Some_conv split: if_splits prod.splits)
  have p: "record_plain u bytes = (a, b, u') \<Longrightarrow>
      tr_mode u' = tr_mode u \<and> tr_next_raw_offset u' = tr_next_raw_offset u" for u a b u'
    by (auto simp: record_plain_def Let_def split: if_splits)
  show ?thesis using assms
    by (auto simp: record_frame_def Let_def bind_eq_Some_conv split: if_splits prod.splits
        dest!: e p)
qed

lemma flush_pending_static:
  assumes "flush_pending t = Some (rot, t')"
  shows "tr_mode t' = tr_mode t \<and> tr_next_raw_offset t' = tr_next_raw_offset t"
  using assms by (auto simp: flush_pending_def enforce_limits_def Let_def bind_eq_Some_conv
      split: if_splits prod.splits)

lemma push_rotated_becomes: "push_rotated i r m = Some m' \<Longrightarrow> becomes m m'"
  by (auto simp: push_rotated_def rotated_event_def intro: becomes_refl push_event_becomes
      split: option.splits)

lemma feed_surface_becomes:
  assumes "feed_surface_bytes i bytes m = (r, m')" shows "becomes m m'"
proof (cases "mg_panes m i")
  case None
  then show ?thesis using assms by (auto simp: feed_surface_bytes_def intro: becomes_refl)
next
  case (Some p)
  obtain x s where x: "sb_feed (mc_surface (mg_config m)) (pn_surface p) bytes = (x, s)" by fastforce
  show ?thesis
    using assms Some x
    by (cases x) (auto simp: feed_surface_bytes_def Let_def quiet_def intro!: put_quiet [OF Some])
qed

lemma record_output_becomes:
  assumes "record_output_frame i bytes m = Some (r, m')" shows "becomes m m'"
proof -
  obtain p rec tr where p: "mg_panes m i = Some p" "record_frame (pn_transcript p) bytes = Some (rec, tr)"
    using assms by (auto simp: record_output_frame_def bind_eq_Some_conv)
  let ?o = "if tr_mode tr = TM_Disabled then None else Some (rec_offset rec)"
  let ?m0 = "put_pane i (p \<lparr>pn_mode_overlay := snd (update_from_output (pn_mode_overlay p) bytes),
    pn_transcript := tr\<rparr>) m"
  obtain m1 where p3: "push_rotated i (rec_rotated rec) ?m0 = Some m1"
    using assms p by (auto simp: record_output_frame_def bind_eq_Some_conv Let_def)
  obtain x m2 where f: "feed_surface_bytes i bytes m1 = (x, m2)" by fastforce
  have rest: "case x of
        Inl e \<Rightarrow> push_event i (output_event_of bytes ?o) m2 = Some m'
      | Inr (u, g) \<Rightarrow> \<exists>m3. push_event i (output_event_of bytes ?o) m2 = Some m3
          \<and> (if should_emit_surface_event u then push_event i (surface_changed g u) m3 else Some m3) = Some m'"
    using assms p p3 f
    by (cases x) (auto simp: record_output_frame_def bind_eq_Some_conv Let_def split: prod.splits)
  have "quiet p (p \<lparr>pn_mode_overlay := snd (update_from_output (pn_mode_overlay p) bytes), pn_transcript := tr\<rparr>)"
    using record_frame_static [OF p(2)] by (simp add: quiet_def)
  from becomes_trans [OF becomes_trans [OF put_quiet [OF p(1) this] push_rotated_becomes [OF p3]]
      feed_surface_becomes [OF f]]
  have a: "becomes m m2" .
  have k: "\<not> is_state_change (output_event_of bytes o1)" "\<not> is_state_change (surface_changed g u)" for o1 g u
    by (simp_all add: output_event_of_def surface_changed_def)
  have "becomes m2 m'"
  proof (cases x)
    case (Inl e)
    then show ?thesis using rest push_event_becomes [OF _ k(1)] by simp
  next
    case (Inr ug)
    obtain u g where ug: "ug = (u, g)" by fastforce
    obtain m3 where m3: "push_event i (output_event_of bytes ?o) m2 = Some m3"
      "(if should_emit_surface_event u then push_event i (surface_changed g u) m3 else Some m3) = Some m'"
      using rest Inr ug by auto
    have "becomes m3 m'" using m3(2) push_event_becomes [OF _ k(2)] becomes_refl
      by (auto split: if_splits)
    from becomes_trans [OF push_event_becomes [OF m3(1) k(1)] this] show ?thesis .
  qed
  from becomes_trans [OF a this] show ?thesis .
qed

text \<open>The end of a live pane: exit status and state are set, one event tells it.\<close>

lemma end_pane_becomes:
  assumes "mg_panes m i = Some p" "is_live (pn_state p)" "\<not> is_live s" "exit_of s = Some x"
    "set_exit_if_not_killed_or_failed i x m = Some m1" "transition_state i s m1 = Some m2"
  shows "becomes m m2"
proof -
  have "\<exists>y. m1 = put_pane i (p \<lparr>pn_exit := y\<rparr>) m \<and> (pn_exit p = None \<longrightarrow> y = Some x)"
  proof (cases "(\<exists>r. pn_exit p = Some (PX_Killed r)) \<or> (\<exists>e. pn_exit p = Some (PX_Failed e))")
    case True
    then have "m1 = put_pane i (p \<lparr>pn_exit := pn_exit p\<rparr>) m"
      using assms(1,5) by (auto simp: set_exit_if_not_killed_or_failed_def modify_pane_def)
    moreover have "pn_exit p = None \<longrightarrow> pn_exit p = Some x" using True by auto
    ultimately show ?thesis by (intro exI conjI)
  next
    case False
    then have "m1 = put_pane i (p \<lparr>pn_exit := Some x\<rparr>) m"
      using assms(1,5) by (auto simp: set_exit_if_not_killed_or_failed_def modify_pane_def
          split: option.splits pane_exit.splits)
    then show ?thesis by blast
  qed
  then obtain y where m1: "m1 = put_pane i (p \<lparr>pn_exit := y\<rparr>) m" and y: "pn_exit p = None \<longrightarrow> y = Some x"
    by (elim exE conjE) (rule that)
  let ?e = "next_event m i p (Ev_StateChanged (pn_state p) s)"
  have "pn_state p \<noteq> s" using assms(2,3) by auto
  then have "push_event i (Ev_StateChanged (pn_state p) s)
      (put_pane i (p \<lparr>pn_exit := y, pn_state := s\<rparr>) m) = Some m2"
    using assms(6) unfolding m1 transition_state_def by simp
  then have "m2 = emit ?e (put_pane i (logged (retention m) ?e (p \<lparr>pn_exit := y, pn_state := s\<rparr>)) m)"
    by (simp add: push_event_eq next_event_def)
  then have m2: "m2 = emit ?e (put_pane i ((logged (retention m) ?e p) \<lparr>pn_exit := y, pn_state := s\<rparr>) m)"
    by (simp only: logged_update_state)
  have ev: "pane_evolves (retention m) i p [?e] ((logged (retention m) ?e p) \<lparr>pn_exit := y, pn_state := s\<rparr>)"
    by (rule ended_evolves) (use assms(2-4) y in simp_all)
  show ?thesis unfolding m2
    by (rule put_emit [OF assms(1) ev]) simp
qed


lemma sorted_below_last: "sorted xs \<Longrightarrow> x \<in> set xs \<Longrightarrow> x \<le> last xs" for xs :: "nat list"
  by (induction xs) auto

lemma sized_becomes:
  assumes "mg_panes m i = Some p" "valid_size z" "x = None \<longleftrightarrow> pn_process p = None"
  shows "becomes m (put_pane i (p \<lparr>pn_process := x, pn_surface := s, pn_size_history := pn_size_history p @
      [\<lparr>rse_transcript_offset = tr_next_raw_offset (pn_transcript p), rse_size = z\<rparr>]\<rparr>) m)"
proof -
  let ?z = "\<lparr>rse_transcript_offset = tr_next_raw_offset (pn_transcript p), rse_size = z\<rparr>"
  let ?q = "p \<lparr>pn_process := x, pn_surface := s, pn_size_history := pn_size_history p @ [?z]\<rparr>"
  have "sizes_ok p \<Longrightarrow> sizes_ok ?q"
    unfolding sizes_ok_def using assms(2) sorted_below_last [of "map rse_transcript_offset (pn_size_history p)"]
    by (fastforce simp: sorted_append last_map)
  then have "pane_evolves R i p [] ?q" for R
    using assms(3) by (auto simp: pane_evolves_def pane_ok_def exit_ok_def log_ok_def cong: pane_state.case_cong)
  then show ?thesis using assms(1)
    by (intro exI [of _ "[]"]) (auto simp: evolves_def option.map_ident split: option.split)
qed

text \<open>Everything the manager does to a pane that it keeps is made of these steps.\<close>

inductive pane_step :: "('s, 'p) pane_manager \<Rightarrow> ('s, 'p) pane_manager \<Rightarrow> bool" where
  event: "push_event i k m = Some m' \<Longrightarrow> \<not> is_state_change k \<Longrightarrow> pane_step m m'"
| ended: "mg_panes m i = Some p \<Longrightarrow> is_live (pn_state p) \<Longrightarrow> \<not> is_live s \<Longrightarrow> exit_of s = Some x \<Longrightarrow>
    set_exit_if_not_killed_or_failed i x m = Some m1 \<Longrightarrow> transition_state i s m1 = Some m2 \<Longrightarrow> pane_step m m2"
| recorded: "record_output_frame i bytes m = Some (r, m') \<Longrightarrow> pane_step m m'"
| flushed: "mg_panes m i = Some p \<Longrightarrow> flush_pending (pn_transcript p) = Some (rot, t) \<Longrightarrow>
    pane_step m (put_pane i (p \<lparr>pn_transcript := t\<rparr>) m)"
| observed: "mg_panes m i = Some p \<Longrightarrow> pane_step m (put_pane i (p \<lparr>pn_exit_event_observed := True\<rparr>) m)"
| moded: "mg_panes m i = Some p \<Longrightarrow> pane_step m (put_pane i (p \<lparr>pn_interaction_mode := k\<rparr>) m)"
| process: "mg_panes m i = Some p \<Longrightarrow> (x = None \<longleftrightarrow> pn_process p = None) \<Longrightarrow>
    pane_step m (put_pane i (p \<lparr>pn_process := x\<rparr>) m)"
| resized: "mg_panes m i = Some p \<Longrightarrow> (x = None \<longleftrightarrow> pn_process p = None) \<Longrightarrow>
    sb_validate_resize (mc_surface (mg_config m)) (pn_surface p) z = Inr () \<Longrightarrow>
    sb_resize (mc_surface (mg_config m)) (pn_surface p) z = (Inr (), s) \<Longrightarrow> valid_size z \<Longrightarrow>
    pane_step m (put_pane i (p \<lparr>pn_process := x, pn_surface := s, pn_size_history := pn_size_history p @
      [\<lparr>rse_transcript_offset = tr_next_raw_offset (pn_transcript p), rse_size = z\<rparr>]\<rparr>) m)"
| resize_failed: "mg_panes m i = Some p \<Longrightarrow> (x = None \<longleftrightarrow> pn_process p = None) \<Longrightarrow>
    sb_validate_resize (mc_surface (mg_config m)) (pn_surface p) z = Inr () \<Longrightarrow>
    sb_resize (mc_surface (mg_config m)) (pn_surface p) z = (Inl e, s) \<Longrightarrow>
    pane_step m (put_pane i (p \<lparr>pn_process := x, pn_surface := s\<rparr>) m)"
| clock: "pane_step m (m \<lparr>mg_ticks := mg_ticks m + 1\<rparr>)"

abbreviation evolves_to :: "('s, 'p) pane_manager \<Rightarrow> ('s, 'p) pane_manager \<Rightarrow> bool" where
  "evolves_to \<equiv> pane_step\<^sup>*\<^sup>*"

lemma evolves_to_refl: "evolves_to m m"
  by (rule rtranclp.rtrancl_refl)

lemma evolves_to_trans: "evolves_to m m1 \<Longrightarrow> evolves_to m1 m2 \<Longrightarrow> evolves_to m m2"
  by (rule rtranclp_trans)

lemmas step_evolves = r_into_rtranclp [where r = pane_step]

lemma pane_step_becomes: "pane_step m m' \<Longrightarrow> becomes m m'"
proof (induction rule: pane_step.induct)
  case (flushed m i p rot t)
  then show ?case using flush_pending_static [OF flushed(2)] by (auto intro: put_quiet simp: quiet_def)
next
  case (resized m i p x z s)
  then show ?case by (intro sized_becomes)
next
  case (clock m)
  show ?case by (intro exI [of _ "[]"]) (auto simp: evolves_def option.map_ident)
qed (auto intro: push_event_becomes end_pane_becomes record_output_becomes put_quiet simp: quiet_def)

text \<open>Hence the manager evolves: one induction for whatever holds of all steps.\<close>

lemma evolves_toD: "evolves_to m m' \<Longrightarrow> \<exists>es. evolves m es m'"
proof (induction rule: rtranclp_induct)
  case base
  show ?case by (rule becomes_refl)
next
  case (step m1 m2)
  from becomes_trans [OF step(3) pane_step_becomes [OF step(2)]] show ?case .
qed

lemma push_event_evolves [evolve_intros]: "push_event i k m = Some m' \<Longrightarrow> \<not> is_state_change k \<Longrightarrow> evolves_to m m'"
  by (rule step_evolves [OF pane_step.event])

lemma end_pane_evolves:
  "mg_panes m i = Some p \<Longrightarrow> is_live (pn_state p) \<Longrightarrow> \<not> is_live s \<Longrightarrow> exit_of s = Some x \<Longrightarrow>
   set_exit_if_not_killed_or_failed i x m = Some m1 \<Longrightarrow> transition_state i s m1 = Some m2 \<Longrightarrow> evolves_to m m2"
  by (rule step_evolves [OF pane_step.ended])

lemma record_output_evolves [evolve_intros]: "record_output_frame i bytes m = Some (r, m') \<Longrightarrow> evolves_to m m'"
  by (rule step_evolves [OF pane_step.recorded])

lemma put_process_evolves: "mg_panes m i = Some p \<Longrightarrow> (x = None \<longleftrightarrow> pn_process p = None) \<Longrightarrow>
    evolves_to m (put_pane i (p \<lparr>pn_process := x\<rparr>) m)"
  by (rule step_evolves [OF pane_step.process])

lemma evolves_to_rel:
  assumes "evolves_to m m'"
  shows "rel_option (\<lambda>p p'. \<exists>es. pane_evolves (retention m) i p es p') (mg_panes m i) (mg_panes m' i)"
proof -
  obtain es where "rel_option (\<lambda>p. pane_evolves (retention m) i p (filter (\<lambda>e. ev_pane_id e = i) es))
      (mg_panes m i) (mg_panes m' i)"
    using evolves_toD [OF assms] unfolding evolves_def by blast
  then show ?thesis by (cases "mg_panes m i"; cases "mg_panes m' i") auto
qed

lemma evolves_to_pane:
  assumes "evolves_to m m'" "mg_panes m i = Some p"
  obtains es p' where "mg_panes m' i = Some p'" "pane_evolves (retention m) i p es p'"
  using evolves_to_rel [OF assms(1), of i] assms(2) by (cases "mg_panes m' i") auto

lemma evolves_to_back:
  assumes "evolves_to m m'" "mg_panes m' i = Some p'"
  obtains es p where "mg_panes m i = Some p" "pane_evolves (retention m) i p es p'"
  using evolves_to_rel [OF assms(1), of i] assms(2) by (cases "mg_panes m i") auto

lemma evolves_to_config: "evolves_to m m' \<Longrightarrow> mg_config m' = mg_config m"
  using evolves_toD by (fastforce simp: evolves_def)

lemma evolves_to_ticks: "evolves_to m m' \<Longrightarrow> mg_ticks m \<le> mg_ticks m'"
  using evolves_toD by (fastforce simp: evolves_def)

lemma evolves_to_dom: "evolves_to m m' \<Longrightarrow> dom (mg_panes m') = dom (mg_panes m)"
proof -
  assume e: "evolves_to m m'"
  have "mg_panes m' i = None \<longleftrightarrow> mg_panes m i = None" for i
    using evolves_to_rel [OF e, of i] by (cases "mg_panes m i"; cases "mg_panes m' i") auto
  then show ?thesis by (simp add: dom_def)
qed




section \<open>Frame handling evolves the manager\<close>

lemma push_rotated_evolves [evolve_intros]: "push_rotated i r m = Some m' \<Longrightarrow> evolves_to m m'"
  by (auto simp: push_rotated_def rotated_event_def intro: evolves_to_refl push_event_evolves
      split: option.splits)

lemma flush_transcript_evolves [evolve_intros]:
  assumes "flush_transcript i m = Some m'"
  shows "evolves_to m m'"
proof (cases "mg_panes m i")
  case None
  then show ?thesis using assms by (auto simp: flush_transcript_def intro: evolves_to_refl)
next
  case (Some p)
  then obtain rot tr where f: "flush_pending (pn_transcript p) = Some (rot, tr)"
    "push_rotated i rot (put_pane i (p \<lparr>pn_transcript := tr\<rparr>) m) = Some m'"
    using assms by (auto simp: flush_transcript_def bind_eq_Some_conv split: prod.splits)
  from evolves_to_trans [OF step_evolves [OF pane_step.flushed [OF Some f(1)]] push_rotated_evolves [OF f(2)]]
  show ?thesis .
qed

lemma observed_evolves [evolve_intros]:
  assumes "record_exit_event_observed i m = Some m'" shows "evolves_to m m'"
proof -
  obtain p where p: "mg_panes m i = Some p" "m' = put_pane i (p \<lparr>pn_exit_event_observed := True\<rparr>) m"
    using assms by (auto simp: record_exit_event_observed_def modify_pane_def)
  show ?thesis unfolding p(2) by (rule step_evolves [OF pane_step.observed [OF p(1)]])
qed

text \<open>Sequencing: a step, then the rest.\<close>

lemma bind_evolves:
  assumes "Option.bind x f = Some m'" "\<And>m1. x = Some m1 \<Longrightarrow> evolves_to m m1"
    "\<And>m1. f m1 = Some m' \<Longrightarrow> evolves_to m1 m'"
  shows "evolves_to m m'"
proof -
  obtain m1 where m1: "x = Some m1" "f m1 = Some m'" using assms(1) by (auto simp: bind_eq_Some_conv)
  from evolves_to_trans [OF assms(2) [OF m1(1)] assms(3) [OF m1(2)]] show ?thesis .
qed

lemma end_if_live_evolves:
  assumes "do {
       pane \<leftarrow> mg_panes m i;
       if is_live (pn_state pane) then do {
         m \<leftarrow> set_exit_if_not_killed_or_failed i x m;
         transition_state i s m
       } else Some m
     } = Some m'" "\<not> is_live s" "exit_of s = Some x"
  shows "evolves_to m m'"
proof -
  obtain p where p: "mg_panes m i = Some p" using assms(1) by (auto simp: bind_eq_Some_conv)
  show ?thesis
  proof (cases "is_live (pn_state p)")
    case True
    then obtain m1 where "set_exit_if_not_killed_or_failed i x m = Some m1" "transition_state i s m1 = Some m'"
      using assms(1) p by (auto simp: bind_eq_Some_conv)
    from end_pane_evolves [OF p True assms(2,3) this] show ?thesis .
  next
    case False
    then show ?thesis using assms(1) p evolves_to_refl by simp
  qed
qed

lemma handle_exit_evolves [evolve_intros]:
  assumes "handle_exit_frame i code m = Some m'" shows "evolves_to m m'"
  using assms unfolding handle_exit_frame_def
  by (elim bind_evolves) (auto intro: evolve_intros end_if_live_evolves [of _ i "PX_Exited code" "Exited code"]
      simp: exit_of_def)

lemma fail_pane_evolves [evolve_intros]:
  assumes "fail_pane i error m = Some m'" shows "evolves_to m m'"
  using assms unfolding fail_pane_def
  by (elim bind_evolves) (auto intro: evolve_intros end_if_live_evolves [of _ i "PX_Failed error" "Failed error"]
      simp: exit_of_def)


lemma handle_output_evolves [evolve_intros]:
  assumes "handle_output_frame i bytes m = Some m'" shows "evolves_to m m'"
proof -
  obtain r m1 where r: "record_output_frame i bytes m = Some (r, m1)"
    "(case r of Inl error \<Rightarrow> fail_pane i (surface_error error) m1 | Inr _ \<Rightarrow> Some m1) = Some m'"
    using assms by (auto simp: handle_output_frame_def bind_eq_Some_conv)
  have "evolves_to m1 m'" using r(2) fail_pane_evolves evolves_to_refl by (cases r) auto
  from evolves_to_trans [OF record_output_evolves [OF r(1)] this] show ?thesis .
qed

lemma handle_frame_evolves [evolve_intros]:
  assumes "handle_pty_frame i frame m = Some m'" shows "evolves_to m m'"
proof (cases frame)
  case (PF_Overflow s n b a)
  then show ?thesis using assms push_event_evolves [of i _ m m'] by (simp add: handle_pty_frame_def)
next
  case (PF_CursorPositionRequest s a)
  then show ?thesis using assms evolves_to_refl by (simp add: handle_pty_frame_def)
qed (use assms in \<open>auto simp: handle_pty_frame_def intro: evolve_intros\<close>)

lemma next_frame_evolves [evolve_intros]:
  assumes "next_frame i m = Some (f, m')" shows "evolves_to m m'"
proof -
  obtain p q where p: "mg_panes m i = Some p" "pn_process p = Some q"
    using assms by (auto simp: next_frame_def split: option.splits)
  obtain g q' where "pp_try_recv (mc_process (mg_config m)) q = (g, q')" by fastforce
  then have m': "m' = put_pane i (p \<lparr>pn_process := Some q'\<rparr>) m"
    using assms p by (simp add: next_frame_def)
  show ?thesis unfolding m' by (rule put_process_evolves [OF p(1)]) (simp add: p(2))
qed

lemma poll_frames_evolves [evolve_intros]: "poll_frames n i m = Some m' \<Longrightarrow> evolves_to m m'"
proof (induction n arbitrary: m)
  case 0
  then show ?case using evolves_to_refl by simp
next
  case (Suc n)
  show ?case
  proof (cases "next_frame i m")
    case None
    then show ?thesis using Suc.prems evolves_to_refl by simp
  next
    case (Some fm)
    obtain f m1 where fm: "fm = (f, m1)" by fastforce
    note a = next_frame_evolves [OF Some [unfolded fm]]
    show ?thesis
    proof (cases f)
      case None
      then show ?thesis using Suc.prems Some fm a by simp
    next
      case f: (Some frame)
      then have "Option.bind (handle_pty_frame i frame m1) (poll_frames n i) = Some m'"
        using Suc.prems Some fm by simp
      then have "evolves_to m1 m'" by (rule bind_evolves) (auto intro: Suc.IH evolve_intros)
      from evolves_to_trans [OF a this] show ?thesis .
    qed
  qed
qed

lemma poll_pane_evolves [evolve_intros]: "poll_pane_frames i m = Some m' \<Longrightarrow> evolves_to m m'"
  unfolding poll_pane_frames_def by (rule poll_frames_evolves)

lemma drain_all_evolves [evolve_intros]:
  assumes d: "drain_all_pane_frames i m = Some m'" shows "evolves_to m m'"
proof (rule drain_all_pane_frames.raw_induct [of "\<lambda>i m m'. evolves_to m m'", OF _ d], goal_cases)
  case 1: (1 drain i m m')
  show ?case
  proof (cases "next_frame i m")
    case None
    then show ?thesis using 1(2) evolves_to_refl by simp
  next
    case (Some fm)
    obtain f m1 where fm: "fm = (f, m1)" by fastforce
    note a = next_frame_evolves [OF Some [unfolded fm]]
    show ?thesis
    proof (cases f)
      case None
      then show ?thesis using 1(2) Some fm a by simp
    next
      case f: (Some frame)
      then have "Option.bind (handle_pty_frame i frame m1) (drain i) = Some m'"
        using 1(2) Some fm by simp
      then have "evolves_to m1 m'" by (rule bind_evolves) (auto intro: 1(1) evolve_intros)
      from evolves_to_trans [OF a this] show ?thesis .
    qed
  qed
qed

lemma drain_for_repro_evolves [evolve_intros]:
  "drain_for_repro n i m = Some (r, m') \<Longrightarrow> evolves_to m m'"
proof (induction n arbitrary: m)
  case 0
  then show ?case using evolves_to_refl by simp
next
  case (Suc n)
  show ?case
  proof (cases "next_frame i m")
    case None
    then show ?thesis using Suc.prems evolves_to_refl by (auto split: if_splits)
  next
    case (Some fm)
    obtain f m1 where fm: "fm = (f, m1)" by fastforce
    have ex: "mg_panes m i \<noteq> None" using Some by (auto simp: next_frame_def split: option.splits)
    note a = next_frame_evolves [OF Some [unfolded fm]]
    show ?thesis
    proof (cases f)
      case None
      then show ?thesis using Suc.prems Some fm a ex by simp
    next
      case f: (Some frame)
      then obtain m2 where m2: "handle_pty_frame i frame m1 = Some m2" "drain_for_repro n i m2 = Some (r, m')"
        using Suc.prems Some fm ex by (auto simp: bind_eq_Some_conv)
      from evolves_to_trans [OF evolves_to_trans [OF a handle_frame_evolves [OF m2(1)]] Suc.IH [OF m2(2)]]
      show ?thesis .
    qed
  qed
qed

lemma drain_repro_evolves [evolve_intros]:
  assumes "drain_pane_frames_for_repro i m = Some (r, m')" shows "evolves_to m m'"
proof -
  let ?n = "mc_max_pty_frames_per_repro_dump (mg_config m)"
  obtain r1 m1 where r1: "drain_for_repro ?n i m = Some (r1, m1)"
    using assms by (auto simp: drain_pane_frames_for_repro_def Let_def bind_eq_Some_conv)
  note a = drain_for_repro_evolves [OF r1]
  show ?thesis
  proof (cases "r1 = Inr False \<and> next_frame i m1 \<noteq> None")
    case False
    then have "r1 \<noteq> Inr False \<or> (r1 = Inr False \<and> next_frame i m1 = None)" by blast
    then have "m' = m1" using assms r1
      by (elim disjE) (auto simp: drain_pane_frames_for_repro_def Let_def
          split: sum.splits bool.splits if_splits)
    then show ?thesis using a by simp
  next
    case True
    then obtain f m2 where f: "next_frame i m1 = Some (f, m2)" by auto
    note b = evolves_to_trans [OF a next_frame_evolves [OF f]]
    have ex: "mg_panes m1 i \<noteq> None" using f by (auto simp: next_frame_def split: option.splits)
    show ?thesis
    proof (cases f)
      case None
      then show ?thesis using assms r1 True f ex b by (simp add: drain_pane_frames_for_repro_def Let_def)
    next
      case (Some frame)
      then have "handle_pty_frame i frame m2 = Some m'"
        using assms r1 True f ex by (auto simp: drain_pane_frames_for_repro_def Let_def bind_eq_Some_conv)
      from evolves_to_trans [OF b handle_frame_evolves [OF this]] show ?thesis .
    qed
  qed
qed

lemma poll_each_evolves [evolve_intros]: "poll_each is m = Some m' \<Longrightarrow> evolves_to m m'"
proof (induction "is" arbitrary: m)
  case (Cons i "is")
  then have "Option.bind (poll_pane_frames i m) (poll_each is) = Some m'" by simp
  then show ?case by (rule bind_evolves) (auto intro: Cons.IH evolve_intros)
qed (simp add: evolves_to_refl)

lemma poll_panes_evolves [evolve_intros]: "poll_panes m = Some m' \<Longrightarrow> evolves_to m m'"
  unfolding poll_panes_def by (rule poll_each_evolves)

end
