(* ===== verification/Manager_Lifecycle.thy ===== *)
theory Manager_Lifecycle
  imports Manager_Evolution
begin

text \<open>
  Creating, ending, resizing, inspecting and removing panes (\<open>PaneManager::spawn\<close>,
  \<open>remove\<close>, \<open>kill\<close>, \<open>resize\<close>, \<open>snapshot\<close> and the readers in \<open>manager.rs\<close>), and the
  subscriptions. The lemmas say what each operation does to the pane it is called on;
  the operations that keep the set of panes also evolve the manager.
\<close>

section \<open>Operations\<close>

definition state_label :: "pane_state \<Rightarrow> rstr" where
  "state_label s =
     (case s of
        Starting \<Rightarrow> lit ''Starting''
      | Running \<Rightarrow> lit ''Running''
      | Exited _ \<Rightarrow> lit ''Exited''
      | Failed _ \<Rightarrow> lit ''Failed''
      | Killed _ \<Rightarrow> lit ''Killed'')"

definition ensure_running_state :: "('s, 'p) pane \<Rightarrow> pane_error + unit" where
  "ensure_running_state pane =
     (if pn_state pane = Running then Inr ()
      else Inl (InvalidState_Error (lit ''Running'') (state_label (pn_state pane))))"

definition surface_only :: pane_error where
  "surface_only = InvalidState_Error (lit ''pty-backed pane'') (lit ''surface-only pane'')"

definition pane_spawned :: "pane_config \<Rightarrow> 's \<Rightarrow> 'p \<Rightarrow> ('s, 'p) pane" where
  "pane_spawned spawn_config surface process =
     \<lparr>pn_title = pc_title spawn_config, pn_spawn_config = spawn_config, pn_state = Starting,
      pn_interaction_mode = Embedded, pn_input_config = pc_input spawn_config,
      pn_stats = \<lparr>st_scrollback_lines_dropped = 0, st_event_log_events_dropped = 0\<rparr>,
      pn_surface_generation = 0, pn_next_seq = 0,
      pn_size_history = [\<lparr>rse_transcript_offset = 0, rse_size = pc_size spawn_config\<rparr>],
      pn_event_log = [], pn_surface = surface, pn_process = Some process, pn_exit = None,
      pn_exit_event_observed = False, pn_transcript = transcript_new (pc_transcript spawn_config),
      pn_mode_overlay =
        \<lparr>mo_modes = terminal_modes_default, mo_mouse_modes = mouse_mode_flags_default, mo_tail = []\<rparr>\<rparr>"

text \<open>The id of a new pane and the id counter after it. The increment of the counter wraps as
  in a build without overflow checks.\<close>

definition choose_pane_id :: "pane_config \<Rightarrow> pane_id \<Rightarrow> pane_id \<times> pane_id" where
  "choose_pane_id config next_pane_id =
     (case pc_id config of
        Some pane_id \<Rightarrow> (pane_id, max next_pane_id pane_id)
      | None \<Rightarrow> (next_pane_id + 1, next_pane_id + 1))"

definition alloc_placeholder_id :: "('s, 'p) pane_manager \<Rightarrow> pane_id \<times> ('s, 'p) pane_manager" where
  "alloc_placeholder_id m = (mg_next_pane_id m + 1, m \<lparr>mg_next_pane_id := mg_next_pane_id m + 1\<rparr>)"

definition already_exists :: "pane_id \<Rightarrow> pane_error" where
  "already_exists pane_id = Spawn_Error (lit ''pane '' @ dec_str (unat pane_id) @ lit '' already exists'')"

definition spawn ::
    "pane_config \<Rightarrow> ('s, 'p) pane_manager \<Rightarrow> ((pane_error + pane_id) \<times> ('s, 'p) pane_manager) option" where
  "spawn config m =
     (case pane_config_validate config of
        Inl e \<Rightarrow> Some (Inl e, m)
      | Inr _ \<Rightarrow>
          (let config = config \<lparr>pc_scrollback := Some (case pc_scrollback config of
                 Some sb \<Rightarrow> sb | None \<Rightarrow> mc_default_scrollback (mg_config m))\<rparr>;
               (pane_id, next) = choose_pane_id config (mg_next_pane_id m);
               m = m \<lparr>mg_next_pane_id := next\<rparr>
           in if mg_panes m pane_id \<noteq> None then Some (Inl (already_exists pane_id), m)
              else
                (case mc_surface_factory (mg_config m) (mg_ticks m) pane_id config of
                   Inl e \<Rightarrow> Some (Inl e, m \<lparr>mg_ticks := mg_ticks m + 1\<rparr>)
                 | Inr surface \<Rightarrow>
                     (let m = m \<lparr>mg_ticks := mg_ticks m + 1\<rparr>
                      in case mc_pty_spawner (mg_config m) (mg_ticks m) config of
                        Inl e \<Rightarrow> Some (Inl e, m \<lparr>mg_ticks := mg_ticks m + 1\<rparr>)
                      | Inr process \<Rightarrow> do {
                          let m = m \<lparr>mg_ticks := mg_ticks m + 1\<rparr>;
                          let spawn_config = config \<lparr>pc_id := Some pane_id\<rparr>;
                          let m = put_pane pane_id (pane_spawned spawn_config surface process) m;
                          m \<leftarrow> push_event pane_id (Ev_Spawned (cs_program (pc_command config))) m;
                          m \<leftarrow> transition_state pane_id Running m;
                          Some (Inr pane_id, m)
                        }))))"

definition flush_terminal_pane_before_remove ::
    "pane_id \<Rightarrow> ('s, 'p) pane_manager \<Rightarrow> ('s, 'p) pane_manager option" where
  "flush_terminal_pane_before_remove pane_id m = do {
     m \<leftarrow> drain_all_pane_frames pane_id m;
     m \<leftarrow> flush_transcript pane_id m;
     let needs_synthetic_exit =
       (case mg_panes m pane_id of
          None \<Rightarrow> False
        | Some pane \<Rightarrow>
            (case pn_state pane of Killed _ \<Rightarrow> True | Failed _ \<Rightarrow> True | _ \<Rightarrow> False)
            \<and> \<not> pn_exit_event_observed pane);
     if needs_synthetic_exit then do {
       m \<leftarrow> record_exit_event_observed pane_id m;
       push_event pane_id (Ev_Exited None) m
     } else Some m
   }"

definition remove_exit :: "('s, 'p) pane \<Rightarrow> pane_exit option" where
  "remove_exit pane =
     (case pn_exit pane of
        Some x \<Rightarrow> Some x
      | None \<Rightarrow>
          (case pn_state pane of
             Exited code \<Rightarrow> Some (PX_Exited code)
           | Killed reason \<Rightarrow> Some (PX_Killed reason)
           | Failed error \<Rightarrow> Some (PX_Failed error)
           | _ \<Rightarrow> None))"

definition remove_pane ::
    "pane_id \<Rightarrow> ('s, 'p) pane_manager \<Rightarrow>
     ((pane_error + pane_exit option) \<times> ('s, 'p) pane_manager) option" where
  "remove_pane pane_id m = do {
     m \<leftarrow> drain_all_pane_frames pane_id m;
     case mg_panes m pane_id of
       None \<Rightarrow> Some (Inl (NotFound_Error pane_id), m)
     | Some pane \<Rightarrow>
         if is_live (pn_state pane) then
           Some (Inl (InvalidState_Error (lit ''Exited, Failed, or Killed'') (state_label (pn_state pane))), m)
         else do {
           m \<leftarrow> flush_terminal_pane_before_remove pane_id m;
           pane \<leftarrow> mg_panes m pane_id;
           Some (Inr (remove_exit pane), m \<lparr>mg_panes := (mg_panes m)(pane_id := None)\<rparr>)
         }
   }"

definition kill_pane ::
    "pane_id \<Rightarrow> kill_reason \<Rightarrow> ('s, 'p) pane_manager \<Rightarrow> ((pane_error + unit) \<times> ('s, 'p) pane_manager) option" where
  "kill_pane pane_id reason m =
     (case mg_panes m pane_id of
        None \<Rightarrow> Some (Inl (NotFound_Error pane_id), m)
      | Some pane \<Rightarrow>
          (case pn_process pane of
             None \<Rightarrow> Some (Inl surface_only, m)
           | Some process \<Rightarrow>
               (case ensure_running_state pane of
                  Inl e \<Rightarrow> Some (Inl e, m)
                | Inr _ \<Rightarrow>
                    (case pp_kill (mc_process (mg_config m)) process of
                       (Inl e, process) \<Rightarrow>
                         Some (Inl e, put_pane pane_id (pane \<lparr>pn_process := Some process\<rparr>) m)
                     | (Inr _, process) \<Rightarrow> do {
                         let m = put_pane pane_id (pane \<lparr>pn_process := Some process\<rparr>) m;
                         m \<leftarrow> set_exit_if_not_killed_or_failed pane_id (PX_Killed reason) m;
                         m \<leftarrow> transition_state pane_id (Killed reason) m;
                         Some (Inr (), m)
                       }))))"

definition kill_and_remove ::
    "pane_id \<Rightarrow> kill_reason \<Rightarrow> ('s, 'p) pane_manager \<Rightarrow>
     ((pane_error + pane_exit option) \<times> ('s, 'p) pane_manager) option" where
  "kill_and_remove pane_id reason m = do {
     (r, m) \<leftarrow> kill_pane pane_id reason m;
     case r of Inl e \<Rightarrow> Some (Inl e, m) | Inr _ \<Rightarrow> remove_pane pane_id m
   }"

definition record_size_history ::
    "pane_id \<Rightarrow> pane_size \<Rightarrow> ('s, 'p) pane_manager \<Rightarrow> ('s, 'p) pane_manager option" where
  "record_size_history pane_id size1 m =
     modify_pane pane_id
       (\<lambda>pane. pane \<lparr>pn_size_history := pn_size_history pane @
          [\<lparr>rse_transcript_offset = tr_next_raw_offset (pn_transcript pane), rse_size = size1\<rparr>]\<rparr>) m"

text \<open>The resize of process and surface, shared by \<open>resize\<close> and the resize of an attached pane,
  which differ in the states in which the process is told (\<open>resizable\<close>) and in how they report
  the errors of the manager, the surface and the process.\<close>

definition resize_backends ::
    "(pane_state \<Rightarrow> bool) \<Rightarrow> (pane_error \<Rightarrow> 'e) \<Rightarrow> (pane_error \<Rightarrow> 'e) \<Rightarrow> (pane_error \<Rightarrow> 'e) \<Rightarrow>
     pane_id \<Rightarrow> pane_size \<Rightarrow> ('s, 'p) pane_manager \<Rightarrow> ('e + unit) \<times> ('s, 'p) pane_manager" where
  "resize_backends resizable pane_err surface_err pty_err pane_id size1 m =
     (let sb = mc_surface (mg_config m)
      in case mg_panes m pane_id of
        None \<Rightarrow> (Inl (pane_err (NotFound_Error pane_id)), m)
      | Some pane \<Rightarrow>
          (case sb_validate_resize sb (pn_surface pane) size1 of
             Inl e \<Rightarrow> (Inl (surface_err e), m)
           | Inr _ \<Rightarrow>
               (let (r, process) =
                  (case pn_process pane of
                     Some process \<Rightarrow>
                       if resizable (pn_state pane) then
                         (case pp_resize (mc_process (mg_config m)) process size1 of
                            (r, process) \<Rightarrow> (r, Some process))
                       else (Inr (), Some process)
                   | None \<Rightarrow> (Inr (), None));
                  pane = pane \<lparr>pn_process := process\<rparr>
                in case r of
                  Inl e \<Rightarrow> (Inl (pty_err e), put_pane pane_id pane m)
                | Inr _ \<Rightarrow>
                    (case sb_resize sb (pn_surface pane) size1 of
                       (Inl e, surface) \<Rightarrow>
                         (Inl (surface_err e), put_pane pane_id (pane \<lparr>pn_surface := surface\<rparr>) m)
                     | (Inr _, surface) \<Rightarrow>
                         (Inr (), put_pane pane_id (pane \<lparr>pn_surface := surface\<rparr>) m)))))"

definition resize_pane ::
    "pane_id \<Rightarrow> pane_size \<Rightarrow> ('s, 'p) pane_manager \<Rightarrow> ((pane_error + unit) \<times> ('s, 'p) pane_manager) option" where
  "resize_pane pane_id size1 m =
     (case size_try_new (sz_rows size1) (sz_cols size1) of
        Inl e \<Rightarrow> Some (Inl e, m)
      | Inr _ \<Rightarrow>
          (case resize_backends (\<lambda>s. s = Running) id id id pane_id size1 m of
             (Inl e, m) \<Rightarrow> Some (Inl e, m)
           | (Inr _, m) \<Rightarrow> do {
               m \<leftarrow> record_size_history pane_id size1 m;
               m \<leftarrow> push_event pane_id (Ev_Resized size1) m;
               Some (Inr (), m)
             }))"

definition subscribe :: "('s, 'p) pane_manager \<Rightarrow> ('s, 'p) pane_manager" where
  "subscribe m = m \<lparr>mg_subscribers := mg_subscribers m @ [\<lparr>sub_connected = True, sub_received = []\<rparr>]\<rparr>"

definition set_event_sink :: "('s, 'p) pane_manager \<Rightarrow> ('s, 'p) pane_manager" where
  "set_event_sink m = m \<lparr>mg_event_sink := Some []\<rparr>"

definition clear_event_sink :: "('s, 'p) pane_manager \<Rightarrow> ('s, 'p) pane_manager" where
  "clear_event_sink m = m \<lparr>mg_event_sink := None\<rparr>"


section \<open>Inspection\<close>

record pane_snapshot =
  ps_id :: pane_id
  ps_title :: "rstr option"
  ps_state :: pane_state
  ps_interaction_mode :: interaction_mode
  ps_size :: pane_size
  ps_surface :: surface_snapshot
  ps_cursor :: cursor_state
  ps_modes :: terminal_modes
  ps_stats :: pane_stats

definition merged_surface_snapshot ::
    "'s surface_backend \<Rightarrow> ('s, 'p) pane \<Rightarrow> surface_snapshot" where
  "merged_surface_snapshot sb pane =
     (sb_snapshot sb (pn_surface pane))
       \<lparr>ss_cursor := sb_cursor sb (pn_surface pane),
        ss_modes := merge_with (pn_mode_overlay pane) (sb_modes sb (pn_surface pane))\<rparr>"

definition pane_snapshot_of :: "'s surface_backend \<Rightarrow> pane_id \<Rightarrow> ('s, 'p) pane \<Rightarrow> pane_snapshot" where
  "pane_snapshot_of sb pane_id pane =
     (let surface = merged_surface_snapshot sb pane
      in \<lparr>ps_id = pane_id, ps_title = pn_title pane, ps_state = pn_state pane,
          ps_interaction_mode = pn_interaction_mode pane, ps_size = ss_size surface,
          ps_surface = surface, ps_cursor = ss_cursor surface, ps_modes = ss_modes surface,
          ps_stats = pn_stats pane\<rparr>)"

text \<open>The shape of the readers: not found, or poll the pane and look at it.\<close>

definition polled ::
    "(('s, 'p) pane \<Rightarrow> 'a) \<Rightarrow> pane_id \<Rightarrow> ('s, 'p) pane_manager \<Rightarrow>
     ((pane_error + 'a) \<times> ('s, 'p) pane_manager) option" where
  "polled view pane_id m =
     (if mg_panes m pane_id = None then Some (Inl (NotFound_Error pane_id), m)
      else do {
        m \<leftarrow> poll_pane_frames pane_id m;
        pane \<leftarrow> mg_panes m pane_id;
        Some (Inr (view pane), m)
      })"

definition snapshot ::
    "pane_id \<Rightarrow> ('s, 'p) pane_manager \<Rightarrow> ((pane_error + pane_snapshot) \<times> ('s, 'p) pane_manager) option" where
  "snapshot pane_id m = polled (pane_snapshot_of (mc_surface (mg_config m)) pane_id) pane_id m"

definition scrollback ::
    "pane_id \<Rightarrow> ('s, 'p) pane_manager \<Rightarrow>
     ((pane_error + scrollback_line list) \<times> ('s, 'p) pane_manager) option" where
  "scrollback pane_id m = polled (\<lambda>pane. sb_scrollback (mc_surface (mg_config m)) (pn_surface pane)) pane_id m"

record transcript_reader =
  trd_raw_start_offset :: nat
  trd_plain_start_offset :: nat
  trd_raw :: "u8 list"
  trd_plain :: "u8 list"

definition transcript_reader_of :: "transcript \<Rightarrow> transcript_reader" where
  "transcript_reader_of t =
     \<lparr>trd_raw_start_offset = retained_raw_start_offset t,
      trd_plain_start_offset = retained_plain_start_offset t,
      trd_raw = tr_raw t, trd_plain = tr_plain t\<rparr>"

definition transcript_of ::
    "pane_id \<Rightarrow> ('s, 'p) pane_manager \<Rightarrow> ((pane_error + transcript_reader) \<times> ('s, 'p) pane_manager) option" where
  "transcript_of pane_id m = polled (\<lambda>pane. transcript_reader_of (pn_transcript pane)) pane_id m"

definition last_seq ::
    "pane_id \<Rightarrow> ('s, 'p) pane_manager \<Rightarrow> ((pane_error + nat) \<times> ('s, 'p) pane_manager) option" where
  "last_seq pane_id m = polled pn_next_seq pane_id m"

definition raw_transcript :: "pane_id \<Rightarrow> ('s, 'p) pane_manager \<Rightarrow> pane_error + u8 list" where
  "raw_transcript pane_id m =
     (case mg_panes m pane_id of
        None \<Rightarrow> Inl (NotFound_Error pane_id) | Some pane \<Rightarrow> Inr (tr_raw (pn_transcript pane)))"

definition plain_transcript :: "pane_id \<Rightarrow> ('s, 'p) pane_manager \<Rightarrow> pane_error + u8 list" where
  "plain_transcript pane_id m =
     (case mg_panes m pane_id of
        None \<Rightarrow> Inl (NotFound_Error pane_id) | Some pane \<Rightarrow> Inr (tr_plain (pn_transcript pane)))"


section \<open>Operations that keep the set of panes\<close>

lemma modify_pane_SomeD:
  "modify_pane i f m = Some m' \<Longrightarrow> \<exists>p. mg_panes m i = Some p \<and> m' = put_pane i (f p) m"
  by (auto simp: modify_pane_def)

text \<open>Resizing the backends and writing the size down are one step.\<close>

lemma resize_backends_cases:
  assumes "resize_backends resizable f g h i z m = (r, m')"
  obtains (same) e where "r = Inl e" "m' = m"
  | (pty) e p x where "r = Inl e" "mg_panes m i = Some p" "x = None \<longleftrightarrow> pn_process p = None"
      "m' = put_pane i (p \<lparr>pn_process := x\<rparr>) m"
  | (surface) e e' p x s where "r = Inl e" "mg_panes m i = Some p" "x = None \<longleftrightarrow> pn_process p = None"
      "sb_validate_resize (mc_surface (mg_config m)) (pn_surface p) z = Inr ()"
      "sb_resize (mc_surface (mg_config m)) (pn_surface p) z = (Inl e', s)"
      "m' = put_pane i (p \<lparr>pn_process := x, pn_surface := s\<rparr>) m"
  | (ok) p x s where "r = Inr ()" "mg_panes m i = Some p" "x = None \<longleftrightarrow> pn_process p = None"
      "sb_validate_resize (mc_surface (mg_config m)) (pn_surface p) z = Inr ()"
      "sb_resize (mc_surface (mg_config m)) (pn_surface p) z = (Inr (), s)"
      "m' = put_pane i (p \<lparr>pn_process := x, pn_surface := s\<rparr>) m"
proof (cases "mg_panes m i")
  case None
  then show thesis using assms same by (auto simp: resize_backends_def Let_def)
next
  case (Some p)
  show thesis
  proof (cases "sb_validate_resize (mc_surface (mg_config m)) (pn_surface p) z")
    case (Inl e)
    then show thesis using assms Some same by (auto simp: resize_backends_def Let_def)
  next
    case (Inr u)
    obtain w q where x: "(case pn_process p of
         Some process \<Rightarrow> if resizable (pn_state p) then
             (case pp_resize (mc_process (mg_config m)) process z of (r, process) \<Rightarrow> (r, Some process))
           else (Inr (), Some process)
       | None \<Rightarrow> (Inr (), None)) = (w, q)" by fastforce
    have q: "q = None \<longleftrightarrow> pn_process p = None"
      using x by (cases "pn_process p") (auto split: if_splits prod.splits dest: sym)
    obtain y s where y: "sb_resize (mc_surface (mg_config m)) (pn_surface p) z = (y, s)" by fastforce
    show thesis
    proof (cases w)
      case (Inl e)
      then have "r = Inl (h e)" "m' = put_pane i (p \<lparr>pn_process := q\<rparr>) m"
        using assms Some Inr x by (auto simp: resize_backends_def Let_def)
      then show thesis using pty [OF _ Some q] by blast
    next
      case w: (Inr v)
      show thesis
      proof (cases y)
        case (Inl e)
        then have "r = Inl (g e)" "m' = put_pane i (p \<lparr>pn_process := q, pn_surface := s\<rparr>) m"
          using assms Some Inr x y w by (auto simp: resize_backends_def Let_def)
        then show thesis using surface [OF _ Some q] Inr y Inl by simp
      next
        case y': (Inr t)
        then have "r = Inr ()" "m' = put_pane i (p \<lparr>pn_process := q, pn_surface := s\<rparr>) m"
          using assms Some Inr x y w by (auto simp: resize_backends_def Let_def)
        then show thesis using ok [OF _ Some q] Inr y y' by simp
      qed
    qed
  qed
qed

lemma resize_backends_evolves:
  assumes "resize_backends resizable f g h i z m = (r, m1)" "valid_size z"
  shows "case r of Inl e \<Rightarrow> evolves_to m m1
    | Inr _ \<Rightarrow> \<forall>m2. record_size_history i z m1 = Some m2 \<longrightarrow> evolves_to m m2"
proof (cases rule: resize_backends_cases [OF assms(1)])
  case (2 e p x)
  then show ?thesis using put_process_evolves [OF 2(2,3)] 2(1,4) by simp
next
  case (3 e e' p x s)
  then show ?thesis using step_evolves [OF pane_step.resize_failed [OF 3(2-5)]] 3(1,6) by simp
next
  case (4 p x s)
  have "m2 = put_pane i (p \<lparr>pn_process := x, pn_surface := s, pn_size_history := pn_size_history p @
      [\<lparr>rse_transcript_offset = tr_next_raw_offset (pn_transcript p), rse_size = z\<rparr>]\<rparr>) m"
    if "record_size_history i z m1 = Some m2" for m2
    using that 4(6) by (simp add: record_size_history_def modify_pane_def put_pane_def)
  then show ?thesis using step_evolves [OF pane_step.resized [OF 4(2-5) assms(2)]] 4(1) by auto
qed (simp add: evolves_to_refl)

lemma resize_evolves [evolve_intros]:
  assumes "resize_pane i z m = Some (r, m')" shows "evolves_to m m'"
proof (cases "size_try_new (sz_rows z) (sz_cols z)")
  case (Inl e)
  then show ?thesis using assms evolves_to_refl by (simp add: resize_pane_def)
next
  case (Inr w)
  then have z: "valid_size z" by (simp add: size_try_new_def valid_size_def split: if_splits)
  obtain x m1 where x: "resize_backends (\<lambda>s. s = Running) id id id i z m = (x, m1)" by fastforce
  note a = resize_backends_evolves [OF x z]
  show ?thesis
  proof (cases x)
    case (Inl e)
    then show ?thesis using assms Inr x a by (auto simp: resize_pane_def)
  next
    case r: (Inr u)
    then obtain m2 where m2: "record_size_history i z m1 = Some m2" "push_event i (Ev_Resized z) m2 = Some m'"
      using assms Inr x by (auto simp: resize_pane_def bind_eq_Some_conv)
    from a r m2(1) have "evolves_to m m2" by simp
    from evolves_to_trans [OF this push_event_evolves [OF m2(2)]] show ?thesis by simp
  qed
qed

lemma polled_evolves [evolve_intros]:
  "polled view i m = Some (r, m') \<Longrightarrow> evolves_to m m'"
  by (auto simp: polled_def bind_eq_Some_conv split: if_splits intro: evolves_to_refl evolve_intros)

lemma kill_evolves [evolve_intros]:
  assumes "kill_pane i reason m = Some (r, m')" shows "evolves_to m m'"
proof (cases "\<exists>p q. mg_panes m i = Some p \<and> pn_process p = Some q \<and> pn_state p = Running")
  case False
  then show ?thesis using assms
    by (auto simp: kill_pane_def ensure_running_state_def intro: evolves_to_refl split: option.splits if_splits)
next
  case True
  then obtain p q where p: "mg_panes m i = Some p" "pn_process p = Some q" "pn_state p = Running"
    by (elim exE conjE) (rule that)
  obtain k q' where k: "pp_kill (mc_process (mg_config m)) q = (k, q')" by fastforce
  let ?m1 = "put_pane i (p \<lparr>pn_process := Some q'\<rparr>) m"
  have a: "evolves_to m ?m1" by (rule put_process_evolves [OF p(1)]) (simp add: p(2))
  show ?thesis
  proof (cases k)
    case (Inl e)
    then show ?thesis using assms p k a by (simp add: kill_pane_def ensure_running_state_def)
  next
    case (Inr u)
    then obtain m2 where m2: "set_exit_if_not_killed_or_failed i (PX_Killed reason) ?m1 = Some m2"
      "transition_state i (Killed reason) m2 = Some m'"
      using assms p k by (auto simp: kill_pane_def ensure_running_state_def bind_eq_Some_conv Let_def)
    have "evolves_to ?m1 m'"
      by (rule end_pane_evolves [of ?m1 i "p \<lparr>pn_process := Some q'\<rparr>", OF _ _ _ _ m2])
        (simp_all add: p(3) exit_of_def)
    from evolves_to_trans [OF a this] show ?thesis .
  qed
qed

lemma flush_before_remove_evolves [evolve_intros]:
  assumes "flush_terminal_pane_before_remove i m = Some m'" shows "evolves_to m m'"
  using assms unfolding flush_terminal_pane_before_remove_def Let_def
  by (elim bind_evolves) (auto split: if_splits elim!: bind_evolves
      intro: evolve_intros evolves_to_refl)


section \<open>Creating a pane\<close>

lemma started_evolves:
  assumes "ev_pane_id e = i" "ev_seq e = pn_next_seq p + 1"
    "ev_kind e = Ev_StateChanged Starting Running" "pn_state p = Starting"
  shows "pane_evolves R i p [e] (logged R e p \<lparr>pn_state := Running\<rparr>)"
proof -
  have "log_ok R i p \<Longrightarrow> log_ok R i (logged R e p \<lparr>pn_state := Running\<rparr>)"
    using logged_log_ok [OF _ assms(1,2), of R Running] assms(3,4) by simp
  then show ?thesis
    using assms by (simp add: pane_evolves_def pane_ok_def sizes_ok_def exit_ok_def upt_rec)
qed

lemma pane_spawned_ok:
  "valid_size (pc_size c) \<Longrightarrow> pane_ok R i (pane_spawned c s q)"
  by (cases R) (simp_all add: pane_ok_def exit_ok_def log_ok_def sizes_ok_def pane_spawned_def upt_rec)

lemma pane_spawned_simps [simp]:
  "pn_state (pane_spawned c s q) = Starting" "pn_next_seq (pane_spawned c s q) = 0"
  "pn_spawn_config (pane_spawned c s q) = c" "pn_process (pane_spawned c s q) = Some q"
  "pn_exit_event_observed (pane_spawned c s q) = False" "pn_title (pane_spawned c s q) = pc_title c"
  "pn_transcript (pane_spawned c s q) = transcript_new (pc_transcript c)"
  "pn_exit (pane_spawned c s q) = None" "pn_surface (pane_spawned c s q) = s"
  "pn_input_config (pane_spawned c s q) = pc_input c"
  by (simp_all add: pane_spawned_def)

lemma choose_pane_id_scrollback [simp]:
  "choose_pane_id (c \<lparr>pc_scrollback := x\<rparr>) n = choose_pane_id c n"
  by (simp add: choose_pane_id_def)

text \<open>What \<open>spawn\<close> announces.\<close>

definition spawn_events :: "('s, 'p) pane_manager \<Rightarrow> pane_id \<Rightarrow> rstr \<Rightarrow> pane_event list" where
  "spawn_events m i program =
     [\<lparr>ev_pane_id = i, ev_seq = 1, ev_at = mc_system_time (mg_config m) (mg_ticks m + 2),
       ev_kind = Ev_Spawned program\<rparr>,
      \<lparr>ev_pane_id = i, ev_seq = 2, ev_at = mc_system_time (mg_config m) (mg_ticks m + 3),
       ev_kind = Ev_StateChanged Starting Running\<rparr>]"

text \<open>Two panes with the same output: surface, transcript, modes and sizes.\<close>

definition same_data :: "('s, 'p) pane \<Rightarrow> ('s, 'p) pane \<Rightarrow> bool" where
  "same_data p q =
     (pn_surface q = pn_surface p \<and> pn_transcript q = pn_transcript p
      \<and> pn_mode_overlay q = pn_mode_overlay p \<and> pn_size_history q = pn_size_history p)"

lemma same_data_logged [simp]: "same_data p (logged R e p)"
  by (simp add: same_data_def)

lemma spawn_cases:
  obtains (failed) e n t where "spawn config m = Some (Inl e, m \<lparr>mg_next_pane_id := n, mg_ticks := t\<rparr>)"
  | (spawned) i n s q c p m' where "spawn config m = Some (Inr i, m')"
      "pane_config_validate config = Inr ()" "choose_pane_id config (mg_next_pane_id m) = (i, n)"
      "mg_panes m i = None"
      "c = config \<lparr>pc_scrollback := Some (case pc_scrollback config of
           Some sb \<Rightarrow> sb | None \<Rightarrow> mc_default_scrollback (mg_config m))\<rparr>"
      "mc_surface_factory (mg_config m) (mg_ticks m) i c = Inr s"
      "mc_pty_spawner (mg_config m) (mg_ticks m + 1) c = Inr q"
      "pane_evolves (retention m) i (pane_spawned (c \<lparr>pc_id := Some i\<rparr>) s q)
         (spawn_events m i (cs_program (pc_command config))) p"
      "pn_state p = Running" "pn_transcript p = transcript_new (pc_transcript config)"
      "m' = m \<lparr>mg_next_pane_id := n, mg_panes := (mg_panes m)(i \<mapsto> p),
              mg_events := mg_events m @ spawn_events m i (cs_program (pc_command config)),
              mg_event_sink := map_option (\<lambda>l. l @ spawn_events m i (cs_program (pc_command config))) (mg_event_sink m),
              mg_subscribers := fold notify_subscribers (spawn_events m i (cs_program (pc_command config)))
                (mg_subscribers m), mg_ticks := mg_ticks m + 4\<rparr>"
      "same_data (pane_spawned (c \<lparr>pc_id := Some i\<rparr>) s q) p"
proof -
  let ?c = "config \<lparr>pc_scrollback := Some (case pc_scrollback config of
           Some sb \<Rightarrow> sb | None \<Rightarrow> mc_default_scrollback (mg_config m))\<rparr>"
  let ?F = "mc_surface_factory (mg_config m)" and ?S = "mc_pty_spawner (mg_config m)"
  obtain i n where i: "choose_pane_id config (mg_next_pane_id m) = (i, n)" by fastforce
  have failed': thesis if "\<exists>e n t. spawn config m = Some (Inl e, m \<lparr>mg_next_pane_id := n, mg_ticks := t\<rparr>)"
    using that failed by blast
  consider (invalid) e where "pane_config_validate config = Inl e"
    | (exists) "pane_config_validate config = Inr ()" "mg_panes m i \<noteq> None"
    | (surface) e where "pane_config_validate config = Inr ()" "mg_panes m i = None" "?F (mg_ticks m) i ?c = Inl e"
    | (pty) e s where "pane_config_validate config = Inr ()" "mg_panes m i = None"
        "?F (mg_ticks m) i ?c = Inr s" "?S (mg_ticks m + 1) ?c = Inl e"
    | (ok) s q where "pane_config_validate config = Inr ()" "mg_panes m i = None"
        "?F (mg_ticks m) i ?c = Inr s" "?S (mg_ticks m + 1) ?c = Inr q"
    by (cases "pane_config_validate config"; cases "mg_panes m i";
        cases "?F (mg_ticks m) i ?c"; cases "?S (mg_ticks m + 1) ?c") auto
  then show thesis
  proof cases
    case invalid
    then show ?thesis by (intro failed' exI [of _ e] exI [of _ "mg_next_pane_id m"] exI [of _ "mg_ticks m"])
        (simp add: spawn_def)
  next
    case exists
    then show ?thesis
      by (intro failed' exI [of _ "already_exists i"] exI [of _ n] exI [of _ "mg_ticks m"])
        (simp add: spawn_def i Let_def)
  next
    case surface
    then show ?thesis
      by (intro failed' exI [of _ e] exI [of _ n] exI [of _ "mg_ticks m + 1"]) (simp add: spawn_def i Let_def)
  next
    case pty
    then show ?thesis
      by (intro failed' exI [of _ e] exI [of _ n] exI [of _ "mg_ticks m + 2"]) (simp add: spawn_def i Let_def)
  next
    case ok
    let ?fresh = "pane_spawned (?c \<lparr>pc_id := Some i\<rparr>) s q"
    let ?es = "spawn_events m i (cs_program (pc_command config))"
    let ?started = "logged (retention m) (?es ! 0) ?fresh"
    let ?final = "logged (retention m) (?es ! 1) ?started \<lparr>pn_state := Running\<rparr>"
    have e1: "pane_evolves (retention m) i ?fresh [?es ! 0] ?started"
      by (rule logged_evolves) (simp_all add: spawn_events_def)
    have e2: "pane_evolves (retention m) i ?started [?es ! 1] ?final"
      by (rule started_evolves) (simp_all add: spawn_events_def)
    have es: "[?es ! 0] @ [?es ! 1] = ?es" by (simp add: spawn_events_def)
    have pe: "pane_evolves (retention m) i ?fresh ?es ?final" using pane_evolves_trans [OF e1 e2] unfolding es .
    show ?thesis
    proof (rule spawned [OF _ ok(1) i ok(2) refl ok(3,4) pe _ _ refl])
      show "pn_state ?final = Running" "pn_transcript ?final = transcript_new (pc_transcript config)"
        "same_data ?fresh ?final"
        by (simp_all add: same_data_def)
      show "spawn config m = Some (Inr i, m \<lparr>mg_next_pane_id := n, mg_panes := (mg_panes m)(i \<mapsto> ?final),
          mg_events := mg_events m @ ?es, mg_event_sink := map_option (\<lambda>l. l @ ?es) (mg_event_sink m),
          mg_subscribers := fold notify_subscribers ?es (mg_subscribers m), mg_ticks := mg_ticks m + 4\<rparr>)"
        using ok
        by (simp add: spawn_def i Let_def push_event_eq transition_state_def put_pane_def emit_def
            next_event_def spawn_events_def logged_update_state option.map_comp comp_def eval_nat_numeral)
    qed
  qed
qed


section \<open>Removing a pane\<close>

lemma live_or_exit: "is_live s \<or> (\<exists>x. exit_of s = Some x)"
  by (cases s) (simp_all add: exit_of_def)

lemma remove_exit_ok: "exit_ok p \<Longrightarrow> remove_exit p = exit_of (pn_state p)"
  by (auto simp: remove_exit_def exit_ok_alt exit_of_def split: pane_state.split option.split)

lemma flush_before_remove_observed:
  assumes "flush_terminal_pane_before_remove i m = Some m'" "mg_panes m' i = Some p'"
    "(\<exists>r. pn_state p' = Killed r) \<or> (\<exists>e. pn_state p' = Failed e)"
  shows "pn_exit_event_observed p'"
proof -
  obtain m1 where m1: "drain_all_pane_frames i m = Some m1"
    "do { m \<leftarrow> flush_transcript i m1;
          let needs_synthetic_exit =
            (case mg_panes m i of
               None \<Rightarrow> False
             | Some pane \<Rightarrow>
                 (case pn_state pane of Killed _ \<Rightarrow> True | Failed _ \<Rightarrow> True | _ \<Rightarrow> False)
                 \<and> \<not> pn_exit_event_observed pane);
          if needs_synthetic_exit then do {
            m \<leftarrow> record_exit_event_observed i m;
            push_event i (Ev_Exited None) m
          } else Some m } = Some m'"
    using assms(1) by (auto simp: flush_terminal_pane_before_remove_def bind_eq_Some_conv)
  obtain m2 where m2: "flush_transcript i m1 = Some m2" using m1(2) by (auto simp: bind_eq_Some_conv)
  show ?thesis
  proof (rule ccontr)
    assume n: "\<not> pn_exit_event_observed p'"
    have "evolves_to m2 m'"
      using m1(2) m2 by (auto simp: Let_def split: if_splits elim!: bind_evolves
          intro: evolve_intros evolves_to_refl)
    then obtain es p where p: "mg_panes m2 i = Some p" "pane_evolves (retention m2) i p es p'"
      using assms(2) by (elim evolves_to_back)
    have u: "\<not> pn_exit_event_observed p" using p(2) n by (auto simp: pane_evolves_def)
    show False
    proof (cases "case pn_state p of Killed _ \<Rightarrow> True | Failed _ \<Rightarrow> True | _ \<Rightarrow> False")
      case True
      then have "push_event i (Ev_Exited None) (put_pane i (p \<lparr>pn_exit_event_observed := True\<rparr>) m2) = Some m'"
        using m1(2) m2 p(1) u by (simp add: Let_def record_exit_event_observed_def modify_pane_def)
      then have "pn_exit_event_observed p'" using assms(2) by (auto simp: push_event_eq)
      then show False using n by simp
    next
      case False
      then have "m' = m2" using m1(2) m2 p(1) u by (simp add: Let_def)
      then show False using False assms(2,3) p(1) by auto
    qed
  qed
qed

lemma remove_cases:
  assumes "remove_pane i m = Some (r, m')"
  obtains (missing) "mg_panes m i = None" "r = Inl (NotFound_Error i)" "m' = m"
  | (live) p where "evolves_to m m'" "mg_panes m' i = Some p" "is_live (pn_state p)"
      "r = Inl (InvalidState_Error (lit ''Exited, Failed, or Killed'') (state_label (pn_state p)))"
  | (removed) m1 p where "evolves_to m m1" "mg_panes m1 i = Some p" "\<not> is_live (pn_state p)"
      "r = Inr (remove_exit p)" "m' = m1 \<lparr>mg_panes := (mg_panes m1)(i := None)\<rparr>"
      "(\<exists>r. pn_state p = Killed r) \<or> (\<exists>e. pn_state p = Failed e) \<longrightarrow> pn_exit_event_observed p"
proof -
  obtain m0 where m0: "drain_all_pane_frames i m = Some m0"
    using assms by (auto simp: remove_pane_def bind_eq_Some_conv)
  note a = drain_all_evolves [OF m0]
  show thesis
  proof (cases "mg_panes m i")
    case None
    then have "drain_all_pane_frames i m = Some m"
      by (subst drain_all_pane_frames.simps) (simp add: next_frame_def)
    then have "m0 = m" using m0 by simp
    then have "remove_pane i m = Some (Inl (NotFound_Error i), m)"
      using None m0 by (simp add: remove_pane_def)
    then show thesis using missing [OF None] assms by simp
  next
    case (Some p)
    obtain es0 p0 where p0: "mg_panes m0 i = Some p0" "pane_evolves (retention m) i p es0 p0"
      by (rule evolves_to_pane [OF a Some])
    show thesis
    proof (cases "is_live (pn_state p0)")
      case True
      then have "remove_pane i m = Some
          (Inl (InvalidState_Error (lit ''Exited, Failed, or Killed'') (state_label (pn_state p0))), m0)"
        using m0 p0(1) by (simp add: remove_pane_def)
      then show thesis using live [OF _ _ True] a p0(1) assms by simp
    next
      case False
      then obtain m1 p1 where m1: "flush_terminal_pane_before_remove i m0 = Some m1" "mg_panes m1 i = Some p1"
        "r = Inr (remove_exit p1)" "m' = m1 \<lparr>mg_panes := (mg_panes m1)(i := None)\<rparr>"
        using assms m0 p0(1) by (auto simp: remove_pane_def bind_eq_Some_conv)
      note b = flush_before_remove_evolves [OF m1(1)]
      obtain es1 p1' where p1: "mg_panes m1 i = Some p1'" "pane_evolves (retention m0) i p0 es1 p1'"
        by (rule evolves_to_pane [OF b p0(1)])
      then have "pn_state p1 = pn_state p0" using m1(2) False by (simp add: pane_evolves_def)
      then show thesis
        using removed [OF evolves_to_trans [OF a b] m1(2) _ m1(3,4)] False
          flush_before_remove_observed [OF m1(1,2)] by simp
    qed
  qed
qed

end
