(* ===== verification/Manager_Totality.thy ===== *)
theory Manager_Totality
  imports Manager_Lifecycle
begin

text \<open>
  When the operations of the pane manager return. The \<open>expect\<close>s of \<open>manager.rs\<close> never fire,
  and the only panic left is that of a transcript with limits in a plain-text mode
  (\<open>Transcript_Streams.forced_flush_panics\<close>): while every transcript is calm, every operation
  on an existing pane returns and leaves the transcripts calm. The unbounded drain of
  \<open>remove\<close> also needs a frame source that runs dry; the locale \<open>finite_source\<close> says so and is
  interpreted on the frame queue of \<open>pty.rs\<close>.
\<close>

section \<open>Calm transcripts\<close>

definition calm :: "transcript \<Rightarrow> bool" where
  "calm t =
     ((tr_max_bytes t = 0 \<and> tr_max_lines t = 0)
      \<or> ((tr_mode t = TM_RawBytes \<or> tr_mode t = TM_Disabled) \<and> tr_pending t = [] \<and> accounted t))"

definition calm_config :: "transcript_config \<Rightarrow> bool" where
  "calm_config c =
     ((tc_max_bytes c = 0 \<and> tc_max_lines c = 0) \<or> tc_mode c = TM_RawBytes \<or> tc_mode c = TM_Disabled)"

lemma calm_new: "calm_config c \<Longrightarrow> calm (transcript_new c)"
  by (auto simp: calm_config_def calm_def transcript_new_def accounted_def)

lemma unlimited_enforce: "tr_max_bytes t = 0 \<Longrightarrow> tr_max_lines t = 0 \<Longrightarrow> enforce_limits t = Some (None, t)"
  by (simp add: enforce_limits_def)

lemma record_plain_limits:
  "record_plain t bytes = (a, b, t') \<Longrightarrow> tr_max_bytes t' = tr_max_bytes t \<and> tr_max_lines t' = tr_max_lines t"
  by (auto simp: record_plain_def Let_def split: if_splits)

lemma calm_record:
  assumes "calm t" shows "\<exists>rec t'. record_frame t bytes = Some (rec, t') \<and> calm t'"
proof (cases "tr_max_bytes t = 0 \<and> tr_max_lines t = 0")
  case True
  obtain a b u where u: "record_plain (t \<lparr>tr_raw := tr_raw t @ bytes\<rparr>) bytes = (a, b, u)"
    by (metis prod_cases3)
  obtain a' b' u' where u': "record_plain t bytes = (a', b', u')" by (metis prod_cases3)
  show ?thesis using True u u' record_plain_limits [OF u] record_plain_limits [OF u']
    by (cases "tr_mode t") (auto simp: record_frame_def calm_def unlimited_enforce Let_def)
next
  case False
  then have m: "tr_mode t = TM_RawBytes \<or> tr_mode t = TM_Disabled" "tr_pending t = []" "accounted t"
    using assms by (auto simp: calm_def)
  show ?thesis
  proof (cases "tr_mode t = TM_Disabled \<or> bytes = []")
    case True
    then show ?thesis using m by (auto simp: record_frame_def calm_def accounted_def)
  next
    case False
    let ?t = "t \<lparr>tr_raw := tr_raw t @ bytes, tr_next_raw_offset := tr_next_raw_offset t + length bytes,
       tr_next_plain_offset := tr_next_plain_offset t + 0, tr_total_lines := tr_total_lines t + count_newlines bytes,
       tr_chunks := tr_chunks t @ [\<lparr>ch_raw_len = length bytes, ch_plain_len = 0, ch_lines = count_newlines bytes\<rparr>]\<rparr>"
    have "accounted ?t" using m(3) plain_aligned_snoc [of "tr_chunks t" "tr_plain t" "[]"]
      by (simp add: accounted_def)
    then obtain rot t' where t': "enforce_limits ?t = Some (rot, t')" "accounted t'"
      "tr_mode t' = tr_mode t" "tr_pending t' = tr_pending t"
      by (rule enforce_limits_spec) simp
    then show ?thesis using m False by (auto simp: record_frame_def calm_def Let_def)
  qed
qed

lemma calm_flush:
  assumes "calm t" shows "\<exists>rot t'. flush_pending t = Some (rot, t') \<and> calm t'"
proof (cases "tr_pending t = []")
  case True
  then show ?thesis using assms by (simp add: flush_pending_def)
next
  case False
  then show ?thesis using assms
    by (simp add: calm_def flush_pending_def unlimited_enforce Let_def)
qed


section \<open>Calm managers\<close>

definition calm_panes :: "('s, 'p) pane_manager \<Rightarrow> bool" where
  "calm_panes m = (\<forall>i p. mg_panes m i = Some p \<longrightarrow> calm (pn_transcript p))"

text \<open>A pane to work on is there, with the process \<open>q\<close>, and no transcript is about to panic.\<close>

definition fine :: "pane_id \<Rightarrow> 'p option \<Rightarrow> ('s, 'p) pane_manager \<Rightarrow> bool" where
  "fine i q m = (calm_panes m \<and> map_option pn_process (mg_panes m i) = Some q)"

named_theorems fine_intros \<open>operations return in a fine manager\<close>

lemma fine_put: "fine i q m \<Longrightarrow> calm (pn_transcript p) \<Longrightarrow> pn_process p = r \<Longrightarrow> fine i r (put_pane i p m)"
  by (auto simp: fine_def calm_panes_def)

lemma fine_emit [simp]: "fine i q (emit e m) = fine i q m"
  by (simp add: fine_def calm_panes_def)

lemma fineE:
  assumes "fine i q m" obtains p where "mg_panes m i = Some p" "calm (pn_transcript p)" "pn_process p = q"
  using assms by (auto simp: fine_def calm_panes_def)

lemma fine_push [fine_intros]:
  assumes "fine i q m" shows "\<exists>m'. push_event i k m = Some m' \<and> fine i q m'"
proof -
  obtain p where "mg_panes m i = Some p" "calm (pn_transcript p)" "pn_process p = q" using assms by (rule fineE)
  then show ?thesis using assms by (simp add: push_event_eq fine_put)
qed

lemma fine_modify [fine_intros]:
  assumes "fine i q m" "\<And>p. pn_transcript (f p) = pn_transcript p \<and> pn_process (f p) = pn_process p"
  shows "\<exists>m'. modify_pane i f m = Some m' \<and> fine i q m'"
proof -
  obtain p where "mg_panes m i = Some p" "calm (pn_transcript p)" "pn_process p = q" using assms(1) by (rule fineE)
  then show ?thesis using assms by (simp add: modify_pane_def fine_put)
qed

lemma fine_transition [fine_intros]:
  assumes "fine i q m" shows "\<exists>m'. transition_state i s m = Some m' \<and> fine i q m'"
proof -
  obtain p where p: "mg_panes m i = Some p" "calm (pn_transcript p)" "pn_process p = q" using assms by (rule fineE)
  then have "fine i q (put_pane i (p \<lparr>pn_state := s\<rparr>) m)" using assms by (simp add: fine_put)
  from fine_push [OF this] show ?thesis using p assms by (auto simp: transition_state_def)
qed

lemma fine_observed [fine_intros]:
  "fine i q m \<Longrightarrow> \<exists>m'. record_exit_event_observed i m = Some m' \<and> fine i q m'"
  unfolding record_exit_event_observed_def by (rule fine_modify) simp_all

lemma fine_exit [fine_intros]:
  "fine i q m \<Longrightarrow> \<exists>m'. set_exit_if_not_killed_or_failed i x m = Some m' \<and> fine i q m'"
  unfolding set_exit_if_not_killed_or_failed_def
  by (rule fine_modify) (simp_all split: option.split pane_exit.split)

lemma fine_rotated [fine_intros]:
  "fine i q m \<Longrightarrow> \<exists>m'. push_rotated i r m = Some m' \<and> fine i q m'"
  by (cases r) (simp_all add: push_rotated_def fine_push)

lemma fine_flush [fine_intros]:
  assumes "fine i q m" shows "\<exists>m'. flush_transcript i m = Some m' \<and> fine i q m'"
proof -
  obtain p where p: "mg_panes m i = Some p" "calm (pn_transcript p)" "pn_process p = q" using assms by (rule fineE)
  obtain rot t where t: "flush_pending (pn_transcript p) = Some (rot, t)" "calm t"
    using calm_flush [OF p(2)] by blast
  from t(2) have "fine i q (put_pane i (p \<lparr>pn_transcript := t\<rparr>) m)" using assms p(3) by (simp add: fine_put)
  from fine_rotated [OF this] show ?thesis using p t by (simp add: flush_transcript_def)
qed

lemma returns_bind:
  assumes "\<exists>m1. x = Some m1 \<and> P m1" "\<And>m1. P m1 \<Longrightarrow> \<exists>m'. f m1 = Some m' \<and> Q m'"
  shows "\<exists>m'. Option.bind x f = Some m' \<and> Q m'"
  using assms by auto

lemmas fine_bind = returns_bind [where P = "fine i q" and Q = "fine i q" for i q]

lemma fine_end [fine_intros]:
  assumes "fine i q m"
  shows "\<exists>m'. do {
       pane \<leftarrow> mg_panes m i;
       if is_live (pn_state pane) then do {
         m \<leftarrow> set_exit_if_not_killed_or_failed i x m;
         transition_state i s m
       } else Some m
     } = Some m' \<and> fine i q m'"
proof -
  obtain p where p: "mg_panes m i = Some p" using assms by (rule fineE)
  have "\<exists>m'. Option.bind (set_exit_if_not_killed_or_failed i x m) (transition_state i s) = Some m' \<and> fine i q m'"
    by (intro fine_bind fine_intros assms)
  then show ?thesis using p assms by simp
qed

lemma fine_handle_exit [fine_intros]: "fine i q m \<Longrightarrow> \<exists>m'. handle_exit_frame i c m = Some m' \<and> fine i q m'"
  unfolding handle_exit_frame_def by (intro fine_bind fine_intros)

lemma fine_fail [fine_intros]: "fine i q m \<Longrightarrow> \<exists>m'. fail_pane i e m = Some m' \<and> fine i q m'"
  unfolding fail_pane_def by (intro fine_bind fine_intros)

lemma fine_feed:
  "fine i q m \<Longrightarrow> feed_surface_bytes i bytes m = (r, m') \<Longrightarrow> fine i q m'"
  by (auto simp: feed_surface_bytes_def Let_def fine_def calm_panes_def
      split: option.splits prod.splits sum.splits if_splits)


lemma fine_record_output:
  assumes "fine i q m" shows "\<exists>r m'. record_output_frame i bytes m = Some (r, m') \<and> fine i q m'"
proof -
  obtain p where p: "mg_panes m i = Some p" "calm (pn_transcript p)" "pn_process p = q" using assms by (rule fineE)
  obtain rec t where t: "record_frame (pn_transcript p) bytes = Some (rec, t)" "calm t"
    using calm_record [OF p(2)] by blast
  let ?m0 = "put_pane i (p \<lparr>pn_mode_overlay := snd (update_from_output (pn_mode_overlay p) bytes),
      pn_transcript := t\<rparr>) m"
  have "fine i q ?m0" using assms t(2) p(3) by (simp add: fine_put)
  then obtain m1 where m1: "push_rotated i (rec_rotated rec) ?m0 = Some m1" "fine i q m1"
    using fine_rotated by blast
  obtain x m2 where x: "feed_surface_bytes i bytes m1 = (x, m2)" by fastforce
  have m2: "fine i q m2" by (rule fine_feed [OF m1(2) x])
  show ?thesis
  proof (cases x)
    case (Inl e)
    then show ?thesis using p t m1(1) x fine_push [OF m2]
      by (auto simp: record_output_frame_def Let_def bind_eq_Some_conv)
  next
    case (Inr ug)
    obtain u g where ug: "ug = (u, g)" by fastforce
    obtain m3 where m3: "push_event i (output_event_of bytes
        (if tr_mode t = TM_Disabled then None else Some (rec_offset rec))) m2 = Some m3" "fine i q m3"
      using fine_push [OF m2] by blast
    show ?thesis using p t m1(1) x Inr ug m3 fine_push [OF m3(2)]
      by (auto simp: record_output_frame_def Let_def bind_eq_Some_conv)
  qed
qed

lemma fine_handle_output [fine_intros]:
  assumes "fine i q m" shows "\<exists>m'. handle_output_frame i bytes m = Some m' \<and> fine i q m'"
proof -
  obtain r m1 where "record_output_frame i bytes m = Some (r, m1)" "fine i q m1"
    using fine_record_output [OF assms] by blast
  then show ?thesis using fine_fail by (cases r) (simp_all add: handle_output_frame_def)
qed

lemma fine_handle_frame [fine_intros]:
  "fine i q m \<Longrightarrow> \<exists>m'. handle_pty_frame i frame m = Some m' \<and> fine i q m'"
  by (cases frame) (simp_all add: handle_pty_frame_def fine_handle_output fine_push fine_fail fine_handle_exit)

text \<open>Receiving and the operations of the host may replace the process.\<close>

definition ready :: "pane_id \<Rightarrow> ('s, 'p) pane_manager \<Rightarrow> bool" where
  "ready i m = (\<exists>q. fine i q m)"

lemma ready_alt: "ready i m \<longleftrightarrow> calm_panes m \<and> mg_panes m i \<noteq> None"
  by (auto simp: ready_def fine_def)

lemma ready_handle_frame: "ready i m \<Longrightarrow> \<exists>m'. handle_pty_frame i frame m = Some m' \<and> ready i m'"
  using fine_handle_frame unfolding ready_def by blast

lemma ready_next: "ready i m \<Longrightarrow> next_frame i m = Some (f, m') \<Longrightarrow> ready i m'"
  by (auto simp: next_frame_def ready_alt calm_panes_def split: option.splits prod.splits if_splits)

lemma ready_poll_frames:
  "ready i m \<Longrightarrow> \<exists>m'. poll_frames n i m = Some m' \<and> ready i m'"
proof (induction n arbitrary: m)
  case (Suc n)
  show ?case
  proof (cases "next_frame i m")
    case (Some fm)
    obtain f m1 where fm: "fm = (f, m1)" by fastforce
    have m1: "ready i m1" using ready_next [OF Suc.prems Some [unfolded fm]] .
    then show ?thesis using Some fm returns_bind [OF ready_handle_frame Suc.IH] by (cases f) simp_all
  qed (use Suc.prems in simp)
qed simp

lemma ready_poll: "ready i m \<Longrightarrow> \<exists>m'. poll_pane_frames i m = Some m' \<and> ready i m'"
  unfolding poll_pane_frames_def by (rule ready_poll_frames)

lemma ready_drain_for_repro:
  "ready i m \<Longrightarrow> \<exists>r m'. drain_for_repro n i m = Some (Inr r, m') \<and> ready i m'"
proof (induction n arbitrary: m)
  case (Suc n)
  have ex: "mg_panes m i \<noteq> None" using Suc.prems by (simp add: ready_alt)
  show ?case
  proof (cases "next_frame i m")
    case (Some fm)
    obtain f m1 where fm: "fm = (f, m1)" by fastforce
    have m1: "ready i m1" using ready_next [OF Suc.prems Some [unfolded fm]] .
    show ?thesis
    proof (cases f)
      case f: (Some frame)
      obtain m2 where "handle_pty_frame i frame m1 = Some m2" "ready i m2"
        using ready_handle_frame [OF m1] by blast
      then show ?thesis using Some fm f ex Suc.IH by auto
    qed (use Some fm m1 ex in auto)
  qed (use Suc.prems ex in auto)
qed auto

lemma ready_resize:
  assumes "ready i m" shows "\<exists>r m'. resize_pane i z m = Some (r, m') \<and> ready i m'"
proof (cases "size_try_new (sz_rows z) (sz_cols z)")
  case (Inl e)
  then show ?thesis using assms by (simp add: resize_pane_def)
next
  case (Inr w)
  obtain x m1 where x: "resize_backends (\<lambda>s. s = Running) id id id i z m = (x, m1)" by fastforce
  have m1: "ready i m1" using x assms
    by (auto simp: resize_backends_def Let_def ready_alt calm_panes_def
        split: option.splits prod.splits sum.splits if_splits)
  then obtain q where q: "fine i q m1" by (auto simp: ready_def)
  have "\<exists>m2. Option.bind (record_size_history i z m1) (push_event i (Ev_Resized z)) = Some m2 \<and> fine i q m2"
    unfolding record_size_history_def
    by (rule fine_bind [OF fine_modify [OF q] fine_push]) simp_all
  then show ?thesis using Inr x m1 by (cases x) (auto simp: resize_pane_def bind_eq_Some_conv ready_def)
qed

lemma ready_kill:
  assumes "ready i m" shows "\<exists>r m'. kill_pane i reason m = Some (r, m') \<and> ready i m'"
proof -
  obtain p where p: "mg_panes m i = Some p" "calm (pn_transcript p)"
    using assms by (auto simp: ready_alt calm_panes_def)
  have f: "fine i q (put_pane i (p \<lparr>pn_process := q\<rparr>) m)" for q
    using assms p(2) by (auto simp: fine_def ready_alt calm_panes_def)
  have b: "\<exists>m'. Option.bind (set_exit_if_not_killed_or_failed i (PX_Killed reason)
      (put_pane i (p \<lparr>pn_process := q\<rparr>) m)) (transition_state i (Killed reason)) = Some m' \<and> fine i q m'" for q
    by (rule fine_bind [OF fine_exit [OF f] fine_transition])
  show ?thesis
  proof (cases "pn_process p")
    case (Some q)
    obtain k q' where k: "pp_kill (mc_process (mg_config m)) q = (k, q')" by fastforce
    show ?thesis
    proof (cases "pn_state p = Running")
      case True
      show ?thesis
      proof (cases k)
        case (Inl e)
        then show ?thesis using p Some k True f [of "Some q'"]
          by (auto simp: kill_pane_def ensure_running_state_def ready_def)
      next
        case (Inr u)
        obtain m' where m': "Option.bind (set_exit_if_not_killed_or_failed i (PX_Killed reason)
            (put_pane i (p \<lparr>pn_process := Some q'\<rparr>) m)) (transition_state i (Killed reason)) = Some m'"
          "fine i (Some q') m'" using b [of "Some q'"] by blast
        then have "kill_pane i reason m = Some (Inr (), m')"
          using p Some k True Inr by (auto simp: kill_pane_def ensure_running_state_def bind_eq_Some_conv Let_def)
        then show ?thesis using m'(2) by (auto simp: ready_def)
      qed
    qed (use p Some assms in \<open>simp add: kill_pane_def ensure_running_state_def\<close>)
  qed (use p assms in \<open>simp add: kill_pane_def\<close>)
qed

lemma calm_poll_each:
  "calm_panes m \<Longrightarrow> \<forall>i\<in>set is. mg_panes m i \<noteq> None \<Longrightarrow> \<exists>m'. poll_each is m = Some m' \<and> calm_panes m'"
proof (induction "is" arbitrary: m)
  case (Cons i "is")
  then obtain m1 where m1: "poll_pane_frames i m = Some m1" "ready i m1"
    using ready_poll [of i m] by (auto simp: ready_alt)
  have "\<forall>j\<in>set is. mg_panes m1 j \<noteq> None"
    using Cons.prems(2) evolves_to_dom [OF poll_pane_evolves [OF m1(1)]] by (auto simp: dom_def)
  then show ?case using Cons.IH [of m1] m1 by (simp add: ready_alt)
qed simp

lemma calm_poll_panes:
  assumes "calm_panes m" "finite (dom (mg_panes m))"
  shows "\<exists>m'. poll_panes m = Some m' \<and> calm_panes m'"
  unfolding poll_panes_def by (rule calm_poll_each) (use assms in \<open>auto simp: dom_def\<close>)

lemma ready_polled: "ready i m \<Longrightarrow> \<exists>v m'. polled view i m = Some (Inr v, m') \<and> ready i m'"
  using ready_poll [of i m] by (fastforce simp: polled_def ready_alt)


section \<open>Frame sources that run dry\<close>

text \<open>A source whose stock of frames shrinks with each one received. Nothing arrives while it
  is drained: a reader that keeps up with the manager keeps \<open>remove\<close> busy forever.\<close>

locale finite_source =
  fixes recv :: "'q \<Rightarrow> pty_frame option \<times> 'q"
    and stock :: "'q \<Rightarrow> nat"
  assumes recv_shrinks: "recv q = (Some f, q') \<Longrightarrow> stock q' < stock q"
begin

lemma drain_all_returns:
  assumes r: "pp_try_recv (mc_process (mg_config m)) = recv" and f: "ready i m"
  shows "\<exists>m'. drain_all_pane_frames i m = Some m' \<and> ready i m'"
proof -
  define left where "left m = (case mg_panes m i of None \<Rightarrow> 0
    | Some p \<Rightarrow> (case pn_process p of None \<Rightarrow> 0 | Some q \<Rightarrow> stock q))" for m :: "('a, 'q) pane_manager"
  show ?thesis using assms
  proof (induction "left m" arbitrary: m rule: less_induct)
    case less
    show ?case
    proof (cases "next_frame i m")
      case None
      then show ?thesis using less.prems by (subst drain_all_pane_frames.simps) simp
    next
      case (Some fm)
      obtain f m1 where fm: "fm = (f, m1)" by fastforce
      note n = Some [unfolded fm]
      have m1: "ready i m1" by (rule ready_next [OF less.prems(2) n])
      show ?thesis
      proof (cases f)
        case None
        then show ?thesis using n m1 by (subst drain_all_pane_frames.simps) simp
      next
        case f: (Some frame)
        obtain p q q' where p: "mg_panes m i = Some p" "pn_process p = Some q"
          "recv q = (Some frame, q')" "m1 = put_pane i (p \<lparr>pn_process := Some q'\<rparr>) m"
          using n f less.prems(1) by (auto simp: next_frame_def split: option.splits prod.splits)
        have f1: "fine i (Some q') m1" using m1 p(4) by (auto simp: ready_def fine_def)
        obtain m2 where m2: "handle_pty_frame i frame m1 = Some m2" "fine i (Some q') m2"
          using fine_handle_frame [OF f1] by blast
        have "left m1 < left m" using recv_shrinks [OF p(3)] p by (simp add: left_def)
        moreover have "left m2 = left m1" using m2(2) p(4) by (auto simp: left_def fine_def)
        moreover have "pp_try_recv (mc_process (mg_config m2)) = recv"
          using less.prems(1) p(4) evolves_to_config [OF handle_frame_evolves [OF m2(1)]] by simp
        ultimately obtain m' where "drain_all_pane_frames i m2 = Some m'" "ready i m'"
          using less.hyps [of m2] m2(2) by (auto simp: ready_def)
        then show ?thesis using n f m2(1) by (subst drain_all_pane_frames.simps) simp
      qed
    qed
  qed
qed

lemma remove_returns:
  assumes r: "pp_try_recv (mc_process (mg_config m)) = recv" and c: "calm_panes m"
  shows "\<exists>r m'. remove_pane i m = Some (r, m') \<and> calm_panes m'"
proof (cases "mg_panes m i")
  case None
  then have "drain_all_pane_frames i m = Some m"
    by (subst drain_all_pane_frames.simps) (simp add: next_frame_def)
  then show ?thesis using None c by (simp add: remove_pane_def)
next
  case (Some p)
  then have "ready i m" using c by (simp add: ready_alt)
  then obtain m0 where m0: "drain_all_pane_frames i m = Some m0" "ready i m0"
    using drain_all_returns [OF r] by blast
  have r0: "pp_try_recv (mc_process (mg_config m0)) = recv"
    using r evolves_to_config [OF drain_all_evolves [OF m0(1)]] by simp
  obtain m1 where m1: "drain_all_pane_frames i m0 = Some m1" "ready i m1"
    using drain_all_returns [OF r0 m0(2)] by blast
  obtain q where q: "fine i q m1" using m1(2) by (auto simp: ready_def)
  obtain m2 where m2: "flush_transcript i m1 = Some m2" "fine i q m2" using fine_flush [OF q] by blast
  have "\<exists>m'. Option.bind (record_exit_event_observed i m2) (push_event i (Ev_Exited None)) = Some m' \<and> fine i q m'"
    by (rule fine_bind [OF fine_observed [OF m2(2)]]) (rule fine_push)
  then have s: "\<exists>m'. (if b then Option.bind (record_exit_event_observed i m2) (push_event i (Ev_Exited None))
      else Some m2) = Some m' \<and> fine i q m'" for b
    using m2(2) by (cases b) simp_all
  have "\<exists>m'. flush_terminal_pane_before_remove i m0 = Some m' \<and> fine i q m'"
    unfolding flush_terminal_pane_before_remove_def m1(1) bind.bind_lunit m2(1) Let_def by (rule s)
  then obtain m3 where m3: "flush_terminal_pane_before_remove i m0 = Some m3" "fine i q m3" by blast
  obtain p0 p3 where p: "mg_panes m0 i = Some p0" "mg_panes m3 i = Some p3"
    using m0(2) m3(2) by (auto simp: ready_alt fine_def)
  have "calm_panes (m3 \<lparr>mg_panes := (mg_panes m3)(i := None)\<rparr>)"
    using m3(2) by (auto simp: fine_def calm_panes_def)
  then show ?thesis using m0 m3(1) p by (cases "is_live (pn_state p0)") (simp_all add: remove_pane_def ready_alt)
qed

end

sublocale frame_source \<subseteq> finite_source recv "\<lambda>q. length (waiting q)"
proof
  show "length (waiting q') < length (waiting q)" if "recv q = (Some f, q')" for q f q'
    using that by (cases q rule: recv_cases) auto
qed

interpretation queue_drain: finite_source queue_try_recv "\<lambda>q. length (queue_waiting q)"
  by (rule pty_queue.finite_source_axioms)

end
