(* ===== verification/Manager_Process.thy ===== *)
theory Manager_Process
  imports Manager_Totality
begin

text \<open>
  Handling a frame never touches the child process nor the interaction mode: the process of a
  pane changes only when the manager receives from it, writes to it, resizes or kills it, and the mode
  only when it is attached or detached.
\<close>

named_theorems same_intros \<open>operations that leave every process alone\<close>

definition same_process :: "('s, 'p) pane_manager \<Rightarrow> ('s, 'p) pane_manager \<Rightarrow> bool" where
  "same_process m m' =
     (\<forall>i. map_option (\<lambda>p. (pn_process p, pn_interaction_mode p)) (mg_panes m' i)
        = map_option (\<lambda>p. (pn_process p, pn_interaction_mode p)) (mg_panes m i))"

lemma evolves_to_None: "evolves_to m m' \<Longrightarrow> mg_panes m' i = None \<longleftrightarrow> mg_panes m i = None"
  using evolves_to_dom [of m m'] by (metis domIff)

lemma same_refl [simp]: "same_process m m"
  by (simp add: same_process_def)

lemma same_trans: "same_process m m1 \<Longrightarrow> same_process m1 m2 \<Longrightarrow> same_process m m2"
  by (simp add: same_process_def)

lemma same_put:
  "mg_panes m i = Some p \<Longrightarrow> pn_process q = pn_process p \<Longrightarrow> pn_interaction_mode q = pn_interaction_mode p \<Longrightarrow>
   same_process m (put_pane i q m)"
  by (simp add: same_process_def)

lemma same_emit [simp]: "same_process m (emit e m') = same_process m m'"
  by (simp add: same_process_def)

lemma same_push [same_intros]: "push_event i k m = Some m' \<Longrightarrow> same_process m m'"
  by (auto simp: push_event_eq intro!: same_put split: option.splits)

lemma same_modify:
  "modify_pane i f m = Some m' \<Longrightarrow> (\<And>p. pn_process (f p) = pn_process p) \<Longrightarrow>
   (\<And>p. pn_interaction_mode (f p) = pn_interaction_mode p) \<Longrightarrow> same_process m m'"
  by (auto simp: modify_pane_def intro: same_put)

lemma same_transition [same_intros]:
  assumes "transition_state i s m = Some m'" shows "same_process m m'"
proof -
  obtain p where p: "mg_panes m i = Some p" using assms by (auto simp: transition_state_def split: option.splits)
  have "same_process m (put_pane i (p \<lparr>pn_state := s\<rparr>) m)" using p by (auto intro: same_put)
  then show ?thesis using assms p
    by (auto simp: transition_state_def split: if_splits intro: same_trans same_push)
qed

lemma same_observed [same_intros]: "record_exit_event_observed i m = Some m' \<Longrightarrow> same_process m m'"
  unfolding record_exit_event_observed_def by (erule same_modify) simp_all

lemma same_exit [same_intros]: "set_exit_if_not_killed_or_failed i x m = Some m' \<Longrightarrow> same_process m m'"
  unfolding set_exit_if_not_killed_or_failed_def
  by (erule same_modify) (simp_all split: option.split pane_exit.split)

lemma same_rotated [same_intros]: "push_rotated i r m = Some m' \<Longrightarrow> same_process m m'"
  by (auto simp: push_rotated_def intro: same_intros split: option.splits)

lemma same_flush [same_intros]:
  assumes "flush_transcript i m = Some m'" shows "same_process m m'"
proof (cases "mg_panes m i")
  case (Some p)
  then obtain rot t where "push_rotated i rot (put_pane i (p \<lparr>pn_transcript := t\<rparr>) m) = Some m'"
    using assms by (auto simp: flush_transcript_def bind_eq_Some_conv split: prod.splits)
  from same_trans [OF _ same_rotated [OF this]] same_put [OF Some] show ?thesis by simp
qed (use assms in \<open>simp add: flush_transcript_def\<close>)

lemma bind_same:
  assumes "Option.bind x f = Some m'" "\<And>m1. x = Some m1 \<Longrightarrow> same_process m m1"
    "\<And>m1. f m1 = Some m' \<Longrightarrow> same_process m1 m'"
  shows "same_process m m'"
proof -
  obtain m1 where m1: "x = Some m1" "f m1 = Some m'" using assms(1) by (auto simp: bind_eq_Some_conv)
  from same_trans [OF assms(2) [OF m1(1)] assms(3) [OF m1(2)]] show ?thesis .
qed

lemma same_end [same_intros]:
  assumes "do {
       pane \<leftarrow> mg_panes m i;
       if is_live (pn_state pane) then do {
         m \<leftarrow> set_exit_if_not_killed_or_failed i x m;
         transition_state i s m
       } else Some m
     } = Some m'"
  shows "same_process m m'"
  using assms by (auto simp: bind_eq_Some_conv split: if_splits intro: same_trans same_intros)

lemma same_handle_exit [same_intros]: "handle_exit_frame i c m = Some m' \<Longrightarrow> same_process m m'"
  unfolding handle_exit_frame_def by (elim bind_same) (auto intro: same_intros)

lemma same_fail [same_intros]: "fail_pane i e m = Some m' \<Longrightarrow> same_process m m'"
  unfolding fail_pane_def by (elim bind_same) (auto intro: same_intros)

lemma same_feed [same_intros]: "feed_surface_bytes i bytes m = (r, m') \<Longrightarrow> same_process m m'"
  by (auto simp: feed_surface_bytes_def Let_def split: option.splits prod.splits sum.splits
      intro!: same_put)

lemma same_record_output [same_intros]:
  assumes "record_output_frame i bytes m = Some (r, m')" shows "same_process m m'"
proof -
  obtain p rec t where p: "mg_panes m i = Some p" "record_frame (pn_transcript p) bytes = Some (rec, t)"
    using assms by (auto simp: record_output_frame_def bind_eq_Some_conv)
  let ?m0 = "put_pane i (p \<lparr>pn_mode_overlay := snd (update_from_output (pn_mode_overlay p) bytes),
      pn_transcript := t\<rparr>) m"
  obtain m1 where m1: "push_rotated i (rec_rotated rec) ?m0 = Some m1"
    using assms p by (auto simp: record_output_frame_def bind_eq_Some_conv Let_def)
  obtain x m2 where x: "feed_surface_bytes i bytes m1 = (x, m2)" by fastforce
  have "same_process m ?m0" using p(1) by (auto intro: same_put)
  note a = same_trans [OF same_trans [OF this same_rotated [OF m1]] same_feed [OF x]]
  have "same_process m2 m'"
    using assms p m1 x
    by (cases x) (auto simp: record_output_frame_def bind_eq_Some_conv Let_def split: if_splits prod.splits
        intro: same_trans same_push)
  from same_trans [OF a this] show ?thesis .
qed

lemma same_handle_output [same_intros]:
  assumes "handle_output_frame i bytes m = Some m'" shows "same_process m m'"
proof -
  obtain r m1 where r: "record_output_frame i bytes m = Some (r, m1)"
    "(case r of Inl error \<Rightarrow> fail_pane i (surface_error error) m1 | Inr _ \<Rightarrow> Some m1) = Some m'"
    using assms by (auto simp: handle_output_frame_def bind_eq_Some_conv)
  have "same_process m1 m'" using r(2) same_fail by (cases r) auto
  from same_trans [OF same_record_output [OF r(1)] this] show ?thesis .
qed

lemma same_handle_frame [same_intros]: "handle_pty_frame i frame m = Some m' \<Longrightarrow> same_process m m'"
  by (auto simp: handle_pty_frame_def split: pty_frame.splits intro: same_intros)


section \<open>What the child has been given\<close>

text \<open>What the process of a pane has been given, if it is there. Receiving gives nothing.\<close>

definition given :: "('p \<Rightarrow> 'b) \<Rightarrow> pane_id \<Rightarrow> ('s, 'p) pane_manager \<Rightarrow> 'b option option" where
  "given sunk i m = map_option (map_option sunk) (map_option pn_process (mg_panes m i))"

definition recv_only_reads :: "'p pty_process \<Rightarrow> ('p \<Rightarrow> 'b) \<Rightarrow> bool" where
  "recv_only_reads pr sunk = (\<forall>q f q'. pp_try_recv pr q = (f, q') \<longrightarrow> sunk q' = sunk q)"

lemma given_same: "same_process m m' \<Longrightarrow> given sunk i m' = given sunk i m"
proof -
  assume "same_process m m'"
  then have "map_option fst (map_option (\<lambda>p. (pn_process p, pn_interaction_mode p)) (mg_panes m' i))
      = map_option fst (map_option (\<lambda>p. (pn_process p, pn_interaction_mode p)) (mg_panes m i))"
    by (simp add: same_process_def)
  then show ?thesis by (simp add: given_def option.map_comp comp_def)
qed

lemma given_put [simp]: "given sunk i (put_pane i p m) = Some (map_option sunk (pn_process p))"
  by (simp add: given_def)

lemma given_next:
  "next_frame i m = Some (f, m') \<Longrightarrow> recv_only_reads (mc_process (mg_config m)) sunk \<Longrightarrow>
   given sunk i m' = given sunk i m"
  by (auto simp: next_frame_def given_def recv_only_reads_def split: option.splits prod.splits)

lemma given_poll_frames:
  "poll_frames n i m = Some m' \<Longrightarrow> recv_only_reads (mc_process (mg_config m)) sunk \<Longrightarrow>
   given sunk i m' = given sunk i m"
proof (induction n arbitrary: m)
  case (Suc n)
  show ?case
  proof (cases "next_frame i m")
    case (Some fm)
    obtain f m1 where fm: "fm = (f, m1)" by fastforce
    note n = Some [unfolded fm]
    have g: "given sunk i m1 = given sunk i m" by (rule given_next [OF n Suc.prems(2)])
    have c: "mg_config m1 = mg_config m" by (rule evolves_to_config [OF next_frame_evolves [OF n]])
    show ?thesis
    proof (cases f)
      case f: (Some frame)
      then obtain m2 where m2: "handle_pty_frame i frame m1 = Some m2" "poll_frames n i m2 = Some m'"
        using Suc.prems(1) Some fm by (auto simp: bind_eq_Some_conv)
      have "mg_config m2 = mg_config m1" by (rule evolves_to_config [OF handle_frame_evolves [OF m2(1)]])
      then show ?thesis
        using Suc.IH [OF m2(2)] Suc.prems(2) c g given_same [OF same_handle_frame [OF m2(1)], of sunk i] by simp
    qed (use Suc.prems n g in simp)
  qed (use Suc.prems in simp)
qed simp

lemma given_poll:
  "poll_pane_frames i m = Some m' \<Longrightarrow> recv_only_reads (mc_process (mg_config m)) sunk \<Longrightarrow>
   given sunk i m' = given sunk i m"
  unfolding poll_pane_frames_def by (rule given_poll_frames)


section \<open>The interaction mode\<close>

definition mode_of :: "pane_id \<Rightarrow> ('s, 'p) pane_manager \<Rightarrow> interaction_mode option" where
  "mode_of i m = map_option pn_interaction_mode (mg_panes m i)"

lemma mode_same: "same_process m m' \<Longrightarrow> mode_of i m' = mode_of i m"
proof -
  assume "same_process m m'"
  then have "map_option snd (map_option (\<lambda>p. (pn_process p, pn_interaction_mode p)) (mg_panes m' i))
      = map_option snd (map_option (\<lambda>p. (pn_process p, pn_interaction_mode p)) (mg_panes m i))"
    by (simp add: same_process_def)
  then show ?thesis by (simp add: mode_of_def option.map_comp comp_def)
qed

lemma mode_next: "next_frame i m = Some (f, m') \<Longrightarrow> mode_of i m' = mode_of i m"
  by (auto simp: next_frame_def mode_of_def split: option.splits prod.splits)

lemma mode_poll_frames: "poll_frames n i m = Some m' \<Longrightarrow> mode_of i m' = mode_of i m"
proof (induction n arbitrary: m)
  case (Suc n)
  show ?case
  proof (cases "next_frame i m")
    case (Some fm)
    obtain f m1 where fm: "fm = (f, m1)" by fastforce
    note g = mode_next [OF Some [unfolded fm]]
    show ?thesis
    proof (cases f)
      case f: (Some frame)
      then obtain m2 where m2: "handle_pty_frame i frame m1 = Some m2" "poll_frames n i m2 = Some m'"
        using Suc.prems Some fm by (auto simp: bind_eq_Some_conv)
      show ?thesis using Suc.IH [OF m2(2)] mode_same [OF same_handle_frame [OF m2(1)], of i] g by simp
    qed (use Suc.prems Some fm g in simp)
  qed (use Suc.prems in simp)
qed simp

lemma mode_poll: "poll_pane_frames i m = Some m' \<Longrightarrow> mode_of i m' = mode_of i m"
  unfolding poll_pane_frames_def by (rule mode_poll_frames)

end
