(* ===== verification/Manager_Example.thy ===== *)
theory Manager_Example
  imports Manager_Process
begin

text \<open>
  A small concrete host on which the theorems of the manager are tried out: a child that
  keeps what it is sent, whose frames come through the queue of \<open>Pty_Queue\<close>, and a surface that shows
  the printable bytes it was fed in one row. Nothing here models code.
\<close>

text \<open>The child: the bytes it was sent, and the queue of its frames.\<close>

definition demo_writer :: "(u8 list \<times> frame_queue) pty_writer" where
  "demo_writer =
     \<lparr>pw_lock_poisoned = (\<lambda>_. False),
      pw_write = (\<lambda>(s, q) bs. (Inr (length bs), (s @ bs, q))),
      pw_write_all = (\<lambda>(s, q) bs. (Inr (), (s @ bs, q))),
      pw_flush = (\<lambda>p. (Inr (), p))\<rparr>"

definition demo_process :: "(u8 list \<times> frame_queue) pty_process" where
  "demo_process =
     \<lparr>pp_writer = demo_writer,
      pp_try_recv = (\<lambda>(s, q). case queue_try_recv q of (f, q) \<Rightarrow> (f, (s, q))),
      pp_resize = (\<lambda>p _. (Inr (), p)),
      pp_kill = (\<lambda>(s, q). (Inr (), (s, queue_push (PF_Exited (length s) None 0) q)))\<rparr>"

definition tape_row :: "u8 list \<Rightarrow> surface_row" where
  "tape_row s = \<lparr>sr_cells = map (\<lambda>b. \<lparr>sc_text = [unat b], sc_width = CW_Single,
     sc_style = cell_style_default\<rparr>) s, sr_wrapped = False\<rparr>"

definition tape_surface :: "u8 list surface_backend" where
  "tape_surface =
     \<lparr>sb_size = (\<lambda>_. mk_size 1 80), sb_resize = (\<lambda>s _. (Inr (), s)), sb_validate_resize = (\<lambda>_ _. Inr ()),
      sb_feed = (\<lambda>s bs. (Inr (surface_update_new Dirty_All), s @ bs)),
      sb_snapshot = (\<lambda>s. (surface_blank (mk_size 1 80)) \<lparr>ss_rows := [tape_row s]\<rparr>),
      sb_cursor = (\<lambda>s. \<lparr>cu_position = None, cu_visible = False\<rparr>), sb_modes = (\<lambda>_. terminal_modes_default),
      sb_scrollback = (\<lambda>_. []), sb_metadata = (\<lambda>_. \<lparr>sm_name = lit ''tape'', sm_version = [], sm_replay_kind = None\<rparr>)\<rparr>"

definition demo_host :: "(u8 list, u8 list \<times> frame_queue) manager_config" where
  "demo_host =
     \<lparr>mc_pty_spawner = (\<lambda>_ _. Inr ([], queue_new 4)), mc_surface_factory = (\<lambda>_ _ _. Inr []),
      mc_default_scrollback = \<lparr>sb_max_lines = Some 100\<rparr>, mc_event_log_retention = ELR_Unlimited,
      mc_max_pty_frames_per_drain = 2, mc_max_pty_frames_per_repro_dump = 4,
      mc_surface = tape_surface, mc_process = demo_process, mc_system_time = id, mc_instant = id\<rparr>"

definition demo_pane :: pane_config where
  "demo_pane = pane_config_default \<lparr>pc_transcript := \<lparr>tc_mode = TM_RawBytes, tc_max_lines = 0, tc_max_bytes = 0\<rparr>\<rparr>"

text \<open>The host with one pane running.\<close>

definition demo_started :: "(u8 list, u8 list \<times> frame_queue) pane_manager" where
  "demo_started = (case spawn demo_pane (manager_new demo_host) of Some (_, m) \<Rightarrow> m | None \<Rightarrow> manager_new demo_host)"

lemmas demo_defs = demo_host_def demo_process_def demo_writer_def demo_pane_def tape_surface_def

lemma demo_valid: "pane_config_validate demo_pane = Inr ()"
  by (simp add: pane_config_validate_def command_validate_def demo_pane_def pane_config_default_def
      trim_def is_whitespace_def lit_def mk_size_def)

lemma single_eq: "([i \<mapsto> x] = [i \<mapsto> y]) = (x = y)"
  by (auto dest: map_upd_eqD1)

lemma demo_spawn:
  "\<exists>p. spawn demo_pane (manager_new demo_host) = Some (Inr 1, demo_started)
     \<and> mg_panes demo_started = [1 \<mapsto> p] \<and> pn_process p = Some ([], queue_new 4) \<and> pn_state p = Running
     \<and> pn_input_config p = input_config_default \<and> calm (pn_transcript p)
     \<and> mg_config demo_started = demo_host"
proof -
  have "pc_id demo_pane = None" "pc_scrollback demo_pane = None" "calm_config (pc_transcript demo_pane)"
    "pc_input demo_pane = input_config_default"
    by (simp_all add: demo_pane_def pane_config_default_def calm_config_def)
  then show ?thesis
    by (simp add: demo_started_def spawn_def demo_valid Let_def choose_pane_id_def manager_new_def
        put_pane_def push_event_eq transition_state_def emit_def logged_def retain_event_log_def
        demo_host_def pane_spawned_def calm_new single_eq)
qed

lemma demo_ready: "ready 1 demo_started" and demo_calm: "calm_panes demo_started"
  and demo_config: "mg_config demo_started = demo_host"
  using demo_spawn by (auto simp: ready_alt calm_panes_def split: if_splits)

lemma demo_honest: "honest_writer demo_writer fst"
  by (auto simp: honest_writer_def demo_writer_def)

lemma demo_reads: "recv_only_reads demo_process fst"
  by (auto simp: recv_only_reads_def demo_process_def split: prod.splits)

text \<open>Polling a pane with nothing queued changes nothing.\<close>

lemma put_pane_same: "mg_panes m i = Some p \<Longrightarrow> put_pane i p m = m"
  by (simp add: put_pane_def fun_upd_idem)

lemma demo_poll:
  assumes "mg_panes m i = Some p" "pn_process p = Some (s, queue_new 4)" "mg_config m = demo_host"
  shows "poll_pane_frames i m = Some m"
proof -
  have "queue_try_recv (queue_new 4) = (None, queue_new 4)" by (simp add: queue_try_recv_def queue_new_def)
  moreover have "p \<lparr>pn_process := Some (s, queue_new 4)\<rparr> = p" using assms(2) by (cases p) simp
  then have "put_pane i (p \<lparr>pn_process := Some (s, queue_new 4)\<rparr>) m = m"
    using put_pane_same [OF assms(1)] by (simp only:)
  ultimately have "next_frame i m = Some (None, m)"
    using assms by (simp add: next_frame_def demo_host_def demo_process_def)
  then show ?thesis using assms(3) by (simp add: poll_pane_frames_def demo_host_def numeral_2_eq_2)
qed

end
