(* ===== verification/Input_Transaction.thy ===== *)
theory Input_Transaction
  imports Input_Encoder
begin

text \<open>
  Input transactions (\<open>input_transaction.rs\<close>) and the part of \<open>manager.rs\<close> that turns an
  intent into write steps. The pane's configuration and its terminal modes are arguments. The
  lemmas say which bytes a plan writes, that only the last step submits, and what the echo
  verification accepts.
\<close>

section \<open>Verification\<close>

datatype input_intent =
    II_InsertText rstr
  | II_SubmitText rstr
  | II_KeyChord key_input
  | II_Interrupt
  | II_ClearInput
  | II_RawBytes "u8 list"

datatype input_verification =
    IV_None
  | IV_EchoContains rstr nat
  | IV_EchoPrefixOrHash rstr "64 word option" nat

fun verification_timeout :: "input_verification \<Rightarrow> nat option" where
  "verification_timeout IV_None = None"
| "verification_timeout (IV_EchoContains _ timeout) = Some timeout"
| "verification_timeout (IV_EchoPrefixOrHash _ _ timeout) = Some timeout"

text \<open>\<open>str::contains\<close> and \<open>str::lines\<close>: a line ends before a newline or a carriage return with
  a newline; a final line without newline is kept as it is.\<close>

fun contains_str :: "'a list \<Rightarrow> 'a list \<Rightarrow> bool" where
  "contains_str [] pat = (pat = [])"
| "contains_str (c # cs) pat = (starts_with (c # cs) pat \<or> contains_str cs pat)"

definition strip_cr :: "rstr \<Rightarrow> rstr" where
  "strip_cr l = (if l \<noteq> [] \<and> last l = 0x0d then butlast l else l)"

fun str_lines_from :: "rstr \<Rightarrow> rstr \<Rightarrow> rstr list" where
  "str_lines_from acc [] = (if acc = [] then [] else [acc])"
| "str_lines_from acc (c # cs) =
     (if c = 0x0a then strip_cr acc # str_lines_from [] cs else str_lines_from (acc @ [c]) cs)"

definition str_lines :: "rstr \<Rightarrow> rstr list" where "str_lines s = str_lines_from [] s"

definition fnv1a_64_offset :: "64 word" where "fnv1a_64_offset = 0xcbf29ce484222325"
definition fnv1a_64_prime :: "64 word" where "fnv1a_64_prime = 0x00000100000001b3"

definition input_echo_hash :: "rstr \<Rightarrow> 64 word" where
  "input_echo_hash text1 =
     fold (\<lambda>byte hash. (hash XOR ucast byte) * fnv1a_64_prime) (utf8 text1) fnv1a_64_offset"

definition matches_text :: "input_verification \<Rightarrow> rstr \<Rightarrow> bool" where
  "matches_text v text1 =
     (case v of
        IV_None \<Rightarrow> True
      | IV_EchoContains needle _ \<Rightarrow> contains_str text1 needle
      | IV_EchoPrefixOrHash prefix1 hash _ \<Rightarrow>
          if prefix1 \<noteq> [] \<and> list_ex (\<lambda>line. contains_str line prefix1) (str_lines text1) then True
          else (case hash of
                  None \<Rightarrow> False
                | Some expected_hash \<Rightarrow>
                    input_echo_hash text1 = expected_hash
                    \<or> list_ex (\<lambda>line. input_echo_hash line = expected_hash) (str_lines text1)))"


section \<open>Transactions\<close>

record input_retry_config =
  rt_max_transient_retries :: nat
  rt_retry_delay :: nat

definition input_retry_default :: input_retry_config where
  "input_retry_default = \<lparr>rt_max_transient_retries = 3, rt_retry_delay = 5\<rparr>"

record input_transaction =
  it_intent :: input_intent
  it_verification :: input_verification
  it_chunk_size :: nat
  it_retry :: input_retry_config

definition transaction_new :: "input_intent \<Rightarrow> input_transaction" where
  "transaction_new intent =
     \<lparr>it_intent = intent, it_verification = IV_None, it_chunk_size = 1024,
      it_retry = input_retry_default\<rparr>"

definition with_chunk_size :: "input_transaction \<Rightarrow> nat \<Rightarrow> input_transaction" where
  "with_chunk_size t chunk_size = t \<lparr>it_chunk_size := max chunk_size 1\<rparr>"

datatype transaction_error =
    TE_Write io_operation nat nat rstr
  | TE_VerificationFailed rstr
  | TE_ChildExited

record input_outcome =
  oc_bytes_sent :: nat
  oc_echoed :: bool
  oc_submitted :: bool
  oc_timed_out :: bool
  oc_child_exited :: bool
  oc_errors :: "transaction_error list"

definition outcome_default :: input_outcome where
  "outcome_default =
     \<lparr>oc_bytes_sent = 0, oc_echoed = False, oc_submitted = False, oc_timed_out = False,
      oc_child_exited = False, oc_errors = []\<rparr>"

definition outcome_is_success :: "input_outcome \<Rightarrow> bool" where
  "outcome_is_success oc = (oc_errors oc = [] \<and> \<not> oc_timed_out oc)"

definition transaction_error_parts :: "pane_error \<Rightarrow> io_operation \<times> rstr" where
  "transaction_error_parts error =
     (case error of
        Io_Error operation message \<Rightarrow> (operation, message)
      | error \<Rightarrow> (Io_Write, pane_error_str error))"


section \<open>Planning\<close>

record input_write_step =
  iw_bytes :: "u8 list"
  iw_kind :: input_kind
  iw_submits :: bool

definition classify_input_kind :: "host_input \<Rightarrow> input_kind" where
  "classify_input_kind input =
     (case input of HI_Key _ \<Rightarrow> Input_Key | HI_Paste _ \<Rightarrow> Input_Paste | _ \<Rightarrow> Input_Bytes)"

definition enter_key :: key_input where
  "enter_key = \<lparr>ki_code = K_Enter, ki_modifiers = no_modifiers, ki_kind = Press\<rparr>"

definition control_key :: "rchar \<Rightarrow> key_input" where
  "control_key c =
     \<lparr>ki_code = K_Char c, ki_modifiers = no_modifiers \<lparr>km_control := True\<rparr>, ki_kind = Press\<rparr>"

text \<open>\<open>slice::chunks\<close>, called with a size of at least one.\<close>

function byte_chunks :: "nat \<Rightarrow> 'a list \<Rightarrow> 'a list list" where
  "byte_chunks n xs = (if xs = [] \<or> n = 0 then [] else take n xs # byte_chunks n (drop n xs))"
  by pat_completeness auto
termination by (relation "measure (\<lambda>(n, xs). length xs)") auto

declare byte_chunks.simps [simp del]

definition text_input_steps ::
    "rstr \<Rightarrow> bool \<Rightarrow> nat \<Rightarrow> input_config \<Rightarrow> terminal_modes \<Rightarrow> pane_error + input_write_step list" where
  "text_input_steps text1 submit chunk_size encoder modes =
     (let multiline = (0x0a \<in> set text1 \<or> 0x0d \<in> set text1);
          typed =
            (if multiline \<and> tm_bracketed_paste modes then
               (case encode_input encoder (HI_Paste text1) modes of
                  Inl e \<Rightarrow> Inl e
                | Inr bytes \<Rightarrow> Inr [\<lparr>iw_bytes = bytes, iw_kind = Input_Paste, iw_submits = False\<rparr>])
             else if text1 \<noteq> [] then
               (case encode_input encoder (HI_Paste text1) (modes \<lparr>tm_bracketed_paste := False\<rparr>) of
                  Inl e \<Rightarrow> Inl e
                | Inr bytes \<Rightarrow>
                    Inr (map (\<lambda>chunk. \<lparr>iw_bytes = chunk, iw_kind = Input_Bytes, iw_submits = False\<rparr>)
                           (byte_chunks (max chunk_size 1) bytes)))
             else Inr [])
      in case typed of
           Inl e \<Rightarrow> Inl e
         | Inr steps \<Rightarrow>
             if submit then
               (case encode_input encoder (HI_Key enter_key) modes of
                  Inl e \<Rightarrow> Inl e
                | Inr bytes \<Rightarrow> Inr (steps @ [\<lparr>iw_bytes = bytes, iw_kind = Input_Key, iw_submits = True\<rparr>]))
             else Inr steps)"

definition key_steps ::
    "key_input \<Rightarrow> input_config \<Rightarrow> terminal_modes \<Rightarrow> pane_error + input_write_step list" where
  "key_steps key encoder modes =
     (case encode_input encoder (HI_Key key) modes of
        Inl e \<Rightarrow> Inl e
      | Inr bytes \<Rightarrow> Inr [\<lparr>iw_bytes = bytes, iw_kind = Input_Key, iw_submits = False\<rparr>])"

definition plan_steps ::
    "input_transaction \<Rightarrow> input_config \<Rightarrow> terminal_modes \<Rightarrow> pane_error + input_write_step list" where
  "plan_steps t encoder modes =
     (case it_intent t of
        II_InsertText text1 \<Rightarrow> text_input_steps text1 False (it_chunk_size t) encoder modes
      | II_SubmitText text1 \<Rightarrow> text_input_steps text1 True (it_chunk_size t) encoder modes
      | II_KeyChord key \<Rightarrow> key_steps key encoder modes
      | II_Interrupt \<Rightarrow> key_steps (control_key 0x63) encoder modes
      | II_ClearInput \<Rightarrow> key_steps (control_key 0x75) encoder modes
      | II_RawBytes bytes \<Rightarrow> Inr [\<lparr>iw_bytes = bytes, iw_kind = Input_Bytes, iw_submits = False\<rparr>])"


section \<open>What a plan writes\<close>

lemma byte_chunks_concat: "0 < n \<Longrightarrow> concat (byte_chunks n xs) = xs"
  by (induction n xs rule: byte_chunks.induct) (subst byte_chunks.simps, simp)

lemma byte_chunks_sizes: "c \<in> set (byte_chunks n xs) \<Longrightarrow> c \<noteq> [] \<and> length c \<le> n"
  by (induction n xs rule: byte_chunks.induct)
    (subst (asm) (2) byte_chunks.simps, auto split: if_splits)

lemma contains_str_iff: "contains_str s pat \<longleftrightarrow> (\<exists>u v. s = u @ pat @ v)"
proof (induction s)
  case (Cons c cs)
  have "(\<exists>u v. c # cs = u @ pat @ v) \<longleftrightarrow> (\<exists>v. c # cs = pat @ v) \<or> (\<exists>u v. cs = u @ pat @ v)"
    by (auto simp: Cons_eq_append_conv)
  then show ?case using Cons.IH by (simp add: starts_with_iff)
qed auto

text \<open>The text as the child is to receive it: pasted in brackets if it has line ends and the
  child asked for brackets, typed otherwise, in both cases with the line ends of the policy.\<close>

definition typed_text :: "input_config \<Rightarrow> terminal_modes \<Rightarrow> rstr \<Rightarrow> u8 list" where
  "typed_text cfg modes s =
     (let body = utf8 (paste_process (ic_paste_newline cfg) s)
      in if (0x0a \<in> set s \<or> 0x0d \<in> set s) \<and> tm_bracketed_paste modes
         then paste_start @ body @ paste_end else body)"

lemma paste_process_Nil [simp]: "paste_process p [] = []"
  by (cases p) (simp_all add: paste_process_def)

lemma encode_key_Inr: "\<exists>b. encode_input cfg (HI_Key k) modes = Inr b"
  using encode_key_total [of cfg k modes] by (simp add: encode_input_def)

lemma text_input_steps_spec:
  "\<exists>steps enter. text_input_steps s submit n cfg modes = Inr
       (steps @ (if submit then [\<lparr>iw_bytes = enter, iw_kind = Input_Key, iw_submits = True\<rparr>] else []))
     \<and> encode_input cfg (HI_Key enter_key) modes = Inr enter
     \<and> concat (map iw_bytes steps) = typed_text cfg modes s
     \<and> (\<forall>w\<in>set steps. \<not> iw_submits w \<and> iw_bytes w \<noteq> []
          \<and> (length (iw_bytes w) \<le> max n 1 \<or> steps = [w] \<and> iw_kind w = Input_Paste))"
proof -
  obtain enter where e: "encode_input cfg (HI_Key enter_key) modes = Inr enter"
    using encode_key_Inr by blast
  let ?multi = "(0x0a \<in> set s \<or> 0x0d \<in> set s) \<and> tm_bracketed_paste modes"
  let ?body = "utf8 (paste_process (ic_paste_newline cfg) s)"
  show ?thesis
  proof (cases ?multi)
    case True
    then show ?thesis using e
      by (intro exI [of _ "[\<lparr>iw_bytes = paste_start @ ?body @ paste_end, iw_kind = Input_Paste,
            iw_submits = False\<rparr>]"] exI [of _ enter])
        (auto simp: text_input_steps_def encode_input_def encode_paste_def typed_text_def Let_def
          paste_start_def)
  next
    case False
    let ?steps = "map (\<lambda>chunk. \<lparr>iw_bytes = chunk, iw_kind = Input_Bytes, iw_submits = False\<rparr>)
      (byte_chunks (max n 1) ?body)"
    have c: "concat (map iw_bytes ?steps) = ?body"
      using byte_chunks_concat [of "max n 1" ?body] by (simp add: comp_def)
    have "text_input_steps s submit n cfg modes = Inr
       (?steps @ (if submit then [\<lparr>iw_bytes = enter, iw_kind = Input_Key, iw_submits = True\<rparr>] else []))"
      using False e by (cases "s = []")
        (auto simp: text_input_steps_def encode_input_def encode_paste_def Let_def byte_chunks.simps [of _ "[]"])
    then show ?thesis using False e c
      by (intro exI [of _ ?steps] exI [of _ enter])
        (auto simp: typed_text_def Let_def dest: byte_chunks_sizes)
  qed
qed


text \<open>The prefix of \<open>EchoPrefixOrHash\<close> is also found inside a line.\<close>

lemma prefix_inside_line: "matches_text (IV_EchoPrefixOrHash (lit ''b'') None n) (lit ''ab'')"
  by (simp add: matches_text_def str_lines_def lit_def)

text \<open>C31: The plan for submitting a text writes exactly the text, with the line ends of the paste
  policy and between the paste brackets if it has line ends and the child asked for brackets,
  followed by the bytes of the Enter key. No step is empty, no typed chunk is longer than the
  chunk size, and only the last step submits.\<close>

theorem submit_plan:
  "\<exists>steps enter. plan_steps (transaction_new (II_SubmitText s) \<lparr>it_chunk_size := n\<rparr>) cfg modes
       = Inr (steps @ [\<lparr>iw_bytes = enter, iw_kind = Input_Key, iw_submits = True\<rparr>])
     \<and> encode_input cfg (HI_Key enter_key) modes = Inr enter
     \<and> concat (map iw_bytes steps) = typed_text cfg modes s
     \<and> (\<forall>w\<in>set steps. \<not> iw_submits w \<and> iw_bytes w \<noteq> []
          \<and> (length (iw_bytes w) \<le> max n 1 \<or> steps = [w] \<and> iw_kind w = Input_Paste))"
  using text_input_steps_spec [of s True n cfg modes] by (simp add: plan_steps_def transaction_new_def)

theorem submit_plan_witness:
  "\<exists>steps enter. plan_steps (transaction_new (II_SubmitText (lit ''hello'')) \<lparr>it_chunk_size := 2\<rparr>)
       input_config_default terminal_modes_default
       = Inr (steps @ [\<lparr>iw_bytes = enter, iw_kind = Input_Key, iw_submits = True\<rparr>])
     \<and> concat (map iw_bytes steps) = typed_text input_config_default terminal_modes_default (lit ''hello'')"
  using submit_plan [where s = "lit ''hello''" and n = 2 and cfg = input_config_default
      and modes = terminal_modes_default] by blast

end
