(* ===== verification/Manager_Input.thy ===== *)
theory Manager_Input
  imports Manager_Example Input_Transaction
begin

text \<open>
  Input to a pane (\<open>manager.rs\<close>): raw bytes, encoded input and input transactions with
  echo verification. The loop that waits for the echo is a partial function: \<open>None\<close> also when
  the clock never reaches the timeout. The lemmas account for every byte that the child's
  terminal receives.
\<close>

section \<open>Raw and encoded input\<close>

definition terminated :: "pane_state \<Rightarrow> bool" where "terminated s = (\<not> is_live s)"

definition input_sent :: "input_kind \<Rightarrow> nat \<Rightarrow> event_kind" where
  "input_sent kind n = Ev_InputSent \<lparr>ise_input_kind = kind, ise_bytes_len = n, ise_recorded = False\<rparr>"

definition send_raw_bytes ::
    "pane_id \<Rightarrow> u8 list \<Rightarrow> input_kind \<Rightarrow> ('s, 'p) pane_manager \<Rightarrow>
     ((pane_error + unit) \<times> ('s, 'p) pane_manager) option" where
  "send_raw_bytes pane_id bytes input_kind m =
     (case mg_panes m pane_id of
        None \<Rightarrow> Some (Inl (NotFound_Error pane_id), m)
      | Some pane \<Rightarrow>
          (case pn_process pane of
             None \<Rightarrow> Some (Inl surface_only, m)
           | Some process \<Rightarrow>
               (let (write_result, process) =
                  (if terminated (pn_state pane)
                   then (Inl (Io_Error Io_Write (lit ''pane has already terminated; cannot write input'')), process)
                   else write_bytes (pp_writer (mc_process (mg_config m))) process bytes);
                    m = put_pane pane_id (pane \<lparr>pn_process := Some process\<rparr>) m
                in case write_result of
                  Inr _ \<Rightarrow> do {
                    m \<leftarrow> push_event pane_id (input_sent input_kind (length bytes)) m;
                    Some (Inr (), m)
                  }
                | Inl error \<Rightarrow> do {
                    m \<leftarrow> push_event pane_id (Ev_Error error) m;
                    Some (Inl error, m)
                  })))"

definition manager_write_bytes ::
    "pane_id \<Rightarrow> u8 list \<Rightarrow> ('s, 'p) pane_manager \<Rightarrow> ((pane_error + unit) \<times> ('s, 'p) pane_manager) option" where
  "manager_write_bytes pane_id bytes m = send_raw_bytes pane_id bytes Input_Bytes m"

definition pane_modes :: "'s surface_backend \<Rightarrow> ('s, 'p) pane \<Rightarrow> terminal_modes" where
  "pane_modes sb pane = merge_with (pn_mode_overlay pane) (sb_modes sb (pn_surface pane))"

definition send_input ::
    "pane_id \<Rightarrow> host_input \<Rightarrow> ('s, 'p) pane_manager \<Rightarrow> ((pane_error + unit) \<times> ('s, 'p) pane_manager) option" where
  "send_input pane_id input m =
     (case mg_panes m pane_id of
        None \<Rightarrow> Some (Inl (NotFound_Error pane_id), m)
      | Some pane \<Rightarrow>
          (case encode_input (pn_input_config pane) input (pane_modes (mc_surface (mg_config m)) pane) of
             Inl e \<Rightarrow> Some (Inl e, m)
           | Inr bytes \<Rightarrow>
               if bytes = [] then Some (Inr (), m)
               else send_raw_bytes pane_id bytes (classify_input_kind input) m))"


section \<open>Transactions\<close>

definition transaction_child_exited :: "pane_id \<Rightarrow> ('s, 'p) pane_manager \<Rightarrow> pane_error + bool" where
  "transaction_child_exited pane_id m =
     (case mg_panes m pane_id of
        None \<Rightarrow> Inl (NotFound_Error pane_id)
      | Some pane \<Rightarrow> Inr (terminated (pn_state pane)))"

definition push_surface_row_text :: "surface_row \<Rightarrow> rstr" where
  "push_surface_row_text row = concat (map sc_text (sr_cells row))"

definition pane_verification_text :: "'s surface_backend \<Rightarrow> ('s, 'p) pane \<Rightarrow> rstr" where
  "pane_verification_text sb pane =
     concat (map (\<lambda>line. sl_text line @ [0x0a]) (sb_scrollback sb (pn_surface pane)))
     @ concat (map (\<lambda>row. push_surface_row_text row @ (if sr_wrapped row then [] else [0x0a]))
         (ss_rows (merged_surface_snapshot sb pane)))"

definition transaction_surface_text :: "pane_id \<Rightarrow> ('s, 'p) pane_manager \<Rightarrow> pane_error + rstr" where
  "transaction_surface_text pane_id m =
     (case mg_panes m pane_id of
        None \<Rightarrow> Inl (NotFound_Error pane_id)
      | Some pane \<Rightarrow> Inr (pane_verification_text (mc_surface (mg_config m)) pane))"

definition plan_input_transaction ::
    "pane_id \<Rightarrow> input_transaction \<Rightarrow> ('s, 'p) pane_manager \<Rightarrow> pane_error + input_write_step list" where
  "plan_input_transaction pane_id transaction m =
     (case mg_panes m pane_id of
        None \<Rightarrow> Inl (NotFound_Error pane_id)
      | Some pane \<Rightarrow>
          if pn_process pane = None then Inl surface_only
          else plan_steps transaction (pn_input_config pane) (pane_modes (mc_surface (mg_config m)) pane))"

definition write_input_transaction_step ::
    "pane_id \<Rightarrow> input_write_step \<Rightarrow> nat \<Rightarrow> input_outcome \<Rightarrow> ('s, 'p) pane_manager \<Rightarrow>
     ((pane_error + bool \<times> input_outcome) \<times> ('s, 'p) pane_manager) option" where
  "write_input_transaction_step pane_id step1 max_transient_retries outcome m =
     (if iw_bytes step1 = [] then Some (Inr (True, outcome), m)
      else case mg_panes m pane_id of
        None \<Rightarrow> Some (Inl (NotFound_Error pane_id), m)
      | Some pane \<Rightarrow>
          (case pn_process pane of
             None \<Rightarrow> Some (Inl surface_only, m)
           | Some process \<Rightarrow>
               (case write_bytes_retrying (pp_writer (mc_process (mg_config m))) process
                       (iw_bytes step1) max_transient_retries of
                  (Inr bytes_written, process) \<Rightarrow> do {
                    let outcome = outcome \<lparr>oc_bytes_sent := oc_bytes_sent outcome + bytes_written,
                                           oc_submitted := oc_submitted outcome \<or> iw_submits step1\<rparr>;
                    let m = put_pane pane_id (pane \<lparr>pn_process := Some process\<rparr>) m;
                    m \<leftarrow> push_event pane_id (input_sent (iw_kind step1) bytes_written) m;
                    Some (Inr (True, outcome), m)
                  }
                | (Inl failure, process) \<Rightarrow> do {
                    let (operation, message) = transaction_error_parts (wf_error failure);
                    let outcome = outcome \<lparr>oc_bytes_sent := oc_bytes_sent outcome + wf_bytes_written failure,
                          oc_errors := oc_errors outcome @
                            [TE_Write operation (length (iw_bytes step1)) (wf_bytes_written failure) message]\<rparr>;
                    let m = put_pane pane_id (pane \<lparr>pn_process := Some process\<rparr>) m;
                    m \<leftarrow> push_event pane_id (Ev_Error (wf_error failure)) m;
                    Some (Inr (False, outcome), m)
                  })))"

text \<open>\<open>Instant::now()\<close>. What the source sleeps between two rounds is in the clock.\<close>

definition now :: "('s, 'p) pane_manager \<Rightarrow> nat \<times> ('s, 'p) pane_manager" where
  "now m = (mc_instant (mg_config m) (mg_ticks m), m \<lparr>mg_ticks := mg_ticks m + 1\<rparr>)"

definition verification_failed :: "string \<Rightarrow> input_outcome \<Rightarrow> input_outcome" where
  "verification_failed message outcome =
     outcome \<lparr>oc_errors := oc_errors outcome @ [TE_VerificationFailed (lit message)]\<rparr>"

partial_function (option) verify_loop ::
    "pane_id \<Rightarrow> input_verification \<Rightarrow> nat \<Rightarrow> nat \<Rightarrow> input_outcome \<Rightarrow> ('s, 'p) pane_manager \<Rightarrow>
     ((pane_error + input_outcome) \<times> ('s, 'p) pane_manager) option" where
  "verify_loop pane_id verification timeout started outcome m = do {
     m \<leftarrow> poll_pane_frames pane_id m;
     case transaction_surface_text pane_id m of
       Inl e \<Rightarrow> Some (Inl e, m)
     | Inr text1 \<Rightarrow>
         if matches_text verification text1 then Some (Inr (outcome \<lparr>oc_echoed := True\<rparr>), m)
         else
           (case transaction_child_exited pane_id m of
              Inl e \<Rightarrow> Some (Inl e, m)
            | Inr exited \<Rightarrow>
                if exited then
                  Some (Inr (verification_failed ''child exited before echo verification succeeded''
                          (outcome \<lparr>oc_child_exited := True\<rparr>)), m)
                else
                  (case now m of (instant, m) \<Rightarrow>
                     if timeout \<le> instant - started then
                       Some (Inr (verification_failed ''echo verification timed out''
                               (outcome \<lparr>oc_timed_out := True\<rparr>)), m)
                     else verify_loop pane_id verification timeout started outcome m))
   }"

definition verify_input_transaction_echo ::
    "pane_id \<Rightarrow> input_verification \<Rightarrow> input_outcome \<Rightarrow> ('s, 'p) pane_manager \<Rightarrow>
     ((pane_error + input_outcome) \<times> ('s, 'p) pane_manager) option" where
  "verify_input_transaction_echo pane_id verification outcome m =
     (case verification_timeout verification of
        None \<Rightarrow> Some (Inr outcome, m)
      | Some timeout \<Rightarrow>
          (case now m of (started, m) \<Rightarrow> verify_loop pane_id verification timeout started outcome m))"

definition child_exited_outcome :: "input_outcome \<Rightarrow> input_outcome" where
  "child_exited_outcome outcome =
     outcome \<lparr>oc_child_exited := True, oc_errors := oc_errors outcome @ [TE_ChildExited]\<rparr>"

text \<open>The loop over the steps, and the verification behind it.\<close>

fun run_steps ::
    "pane_id \<Rightarrow> input_transaction \<Rightarrow> bool \<Rightarrow> bool \<Rightarrow> input_write_step list \<Rightarrow> input_outcome \<Rightarrow>
     ('s, 'p) pane_manager \<Rightarrow> ((pane_error + input_outcome) \<times> ('s, 'p) pane_manager) option" where
  "run_steps pane_id transaction verify_before_submit verified [] outcome m =
     (if \<not> verified then verify_input_transaction_echo pane_id (it_verification transaction) outcome m
      else Some (Inr outcome, m))"
| "run_steps pane_id transaction verify_before_submit verified (step1 # steps) outcome m =
     (case transaction_child_exited pane_id m of
        Inl e \<Rightarrow> Some (Inl e, m)
      | Inr exited \<Rightarrow>
          if exited then Some (Inr (child_exited_outcome outcome), m)
          else do {
            (v, m) \<leftarrow>
              (if iw_submits step1 \<and> verify_before_submit \<and> \<not> verified
               then verify_input_transaction_echo pane_id (it_verification transaction) outcome m
               else Some (Inr outcome, m));
            let gated = (iw_submits step1 \<and> verify_before_submit \<and> \<not> verified);
            case v of
              Inl e \<Rightarrow> Some (Inl e, m)
            | Inr outcome \<Rightarrow>
                if gated \<and> \<not> oc_echoed outcome then Some (Inr outcome, m)
                else do {
                  (w, m) \<leftarrow> write_input_transaction_step pane_id step1
                     (rt_max_transient_retries (it_retry transaction)) outcome m;
                  case w of
                    Inl e \<Rightarrow> Some (Inl e, m)
                  | Inr (written, outcome) \<Rightarrow>
                      if \<not> written then Some (Inr outcome, m)
                      else do {
                        m \<leftarrow> poll_pane_frames pane_id m;
                        case transaction_child_exited pane_id m of
                          Inl e \<Rightarrow> Some (Inl e, m)
                        | Inr exited \<Rightarrow>
                            if exited \<and> steps \<noteq> [] then Some (Inr (child_exited_outcome outcome), m)
                            else run_steps pane_id transaction verify_before_submit (verified \<or> gated) steps
                              (if exited then outcome \<lparr>oc_child_exited := True\<rparr> else outcome) m
                      }
                }
          })"

definition send_input_transaction ::
    "pane_id \<Rightarrow> input_transaction \<Rightarrow> ('s, 'p) pane_manager \<Rightarrow>
     ((pane_error + input_outcome) \<times> ('s, 'p) pane_manager) option" where
  "send_input_transaction pane_id transaction m =
     (if mg_panes m pane_id = None then Some (Inl (NotFound_Error pane_id), m)
      else do {
        m \<leftarrow> poll_pane_frames pane_id m;
        case transaction_child_exited pane_id m of
          Inl e \<Rightarrow> Some (Inl e, m)
        | Inr exited \<Rightarrow>
            if exited then Some (Inr (child_exited_outcome outcome_default), m)
            else
              (case plan_input_transaction pane_id transaction m of
                 Inl e \<Rightarrow> Some (Inl e, m)
               | Inr steps \<Rightarrow>
                   run_steps pane_id transaction
                     (verification_timeout (it_verification transaction) \<noteq> None \<and> list_ex iw_submits steps)
                     False steps outcome_default m)
      })"


section \<open>Input evolves the manager\<close>

lemma now_evolves [evolve_intros]: "now m = (t, m') \<Longrightarrow> evolves_to m m'"
  using pane_step.clock [of m] by (auto simp: now_def intro: step_evolves)

lemma now_simps [simp]: "mg_panes (snd (now m)) = mg_panes m" "mg_config (snd (now m)) = mg_config m"
  by (simp_all add: now_def)

lemma put_push_evolves:
  assumes "mg_panes m i = Some p" "pn_process p = Some q"
    "push_event i k (put_pane i (p \<lparr>pn_process := Some q'\<rparr>) m) = Some m'" "\<not> is_state_change k"
  shows "evolves_to m m'"
proof -
  have "evolves_to m (put_pane i (p \<lparr>pn_process := Some q'\<rparr>) m)"
    by (rule put_process_evolves [OF assms(1)]) (simp add: assms(2))
  from evolves_to_trans [OF this push_event_evolves [OF assms(3,4)]]
  show ?thesis .
qed

lemma send_raw_evolves [evolve_intros]:
  assumes "send_raw_bytes i bytes kind m = Some (r, m')" shows "evolves_to m m'"
proof (cases "\<exists>p q. mg_panes m i = Some p \<and> pn_process p = Some q")
  case False
  then have "m' = m" using assms by (auto simp: send_raw_bytes_def split: option.splits)
  then show ?thesis using evolves_to_refl by simp
next
  case True
  then obtain p q where p: "mg_panes m i = Some p" "pn_process p = Some q" by (elim exE conjE) (rule that)
  obtain w q' where w: "(if terminated (pn_state p)
      then (Inl (Io_Error Io_Write (lit ''pane has already terminated; cannot write input'')), q)
      else write_bytes (pp_writer (mc_process (mg_config m))) q bytes) = (w, q')" by fastforce
  have "\<exists>k. \<not> is_state_change k \<and> push_event i k (put_pane i (p \<lparr>pn_process := Some q'\<rparr>) m) = Some m'"
  proof (cases w)
    case (Inl e)
    then show ?thesis using assms p w
      by (intro exI [of _ "Ev_Error e"]) (auto simp: send_raw_bytes_def Let_def bind_eq_Some_conv)
  next
    case (Inr u)
    then show ?thesis using assms p w
      by (intro exI [of _ "input_sent kind (length bytes)"])
        (auto simp: send_raw_bytes_def Let_def bind_eq_Some_conv input_sent_def)
  qed
  then show ?thesis using put_push_evolves [OF p] by blast
qed

lemma send_input_evolves [evolve_intros]:
  "send_input i input m = Some (r, m') \<Longrightarrow> evolves_to m m'"
  by (auto simp: send_input_def split: option.splits sum.splits if_splits
      intro: evolves_to_refl send_raw_evolves)

text \<open>One step writes its bytes or, on a failure, the first of them, as the outcome says.\<close>

lemma write_step_cases:
  assumes p: "mg_panes m i = Some p" "pn_process p = Some q"
    and w: "write_input_transaction_step i s n oc m = Some (r, m')"
  obtains (skipped) "iw_bytes s = []" "r = Inr (True, oc)" "m' = m"
  | (written) k q' where "iw_bytes s \<noteq> []"
      "write_bytes_retrying (pp_writer (mc_process (mg_config m))) q (iw_bytes s) n = (Inr k, q')"
      "r = Inr (True, oc \<lparr>oc_bytes_sent := oc_bytes_sent oc + k, oc_submitted := oc_submitted oc \<or> iw_submits s\<rparr>)"
      "push_event i (input_sent (iw_kind s) k) (put_pane i (p \<lparr>pn_process := Some q'\<rparr>) m) = Some m'"
  | (failed) f q' err where "iw_bytes s \<noteq> []"
      "write_bytes_retrying (pp_writer (mc_process (mg_config m))) q (iw_bytes s) n = (Inl f, q')"
      "r = Inr (False, oc \<lparr>oc_bytes_sent := oc_bytes_sent oc + wf_bytes_written f,
          oc_errors := oc_errors oc @ [err]\<rparr>)"
      "push_event i (Ev_Error (wf_error f)) (put_pane i (p \<lparr>pn_process := Some q'\<rparr>) m) = Some m'"
proof (cases "iw_bytes s = []")
  case True
  then show thesis using w skipped by (simp add: write_input_transaction_step_def)
next
  case False
  obtain x q' where x: "write_bytes_retrying (pp_writer (mc_process (mg_config m))) q (iw_bytes s) n = (x, q')"
    by fastforce
  show thesis
  proof (cases x)
    case (Inr k)
    then show thesis using w False p x written [OF False x [unfolded Inr]]
      by (auto simp: write_input_transaction_step_def bind_eq_Some_conv Let_def)
  next
    case (Inl f)
    obtain op msg where "transaction_error_parts (wf_error f) = (op, msg)" by fastforce
    then show thesis using w False p x Inl failed [OF False x [unfolded Inl]]
      by (auto simp: write_input_transaction_step_def bind_eq_Some_conv Let_def)
  qed
qed

lemma write_step_evolves [evolve_intros]:
  assumes "write_input_transaction_step i s n oc m = Some (r, m')" shows "evolves_to m m'"
proof (cases "\<exists>p q. mg_panes m i = Some p \<and> pn_process p = Some q")
  case False
  then have "m' = m" using assms
    by (auto simp: write_input_transaction_step_def split: option.splits if_splits)
  then show ?thesis using evolves_to_refl by simp
next
  case True
  then obtain p q where p: "mg_panes m i = Some p" "pn_process p = Some q" by (elim exE conjE) (rule that)
  show ?thesis
    by (cases rule: write_step_cases [OF p assms])
      (auto intro: evolves_to_refl put_push_evolves [OF p] simp: input_sent_def)
qed

text \<open>What the verification leaves behind: an evolved manager, a child that was given nothing, and
  an outcome that is echoed or has a new error.\<close>

definition verify_post ::
    "('p \<Rightarrow> 'b) \<Rightarrow> pane_id \<Rightarrow> input_outcome \<Rightarrow> ('s, 'p) pane_manager \<Rightarrow>
     (pane_error + input_outcome) \<times> ('s, 'p) pane_manager \<Rightarrow> bool" where
  "verify_post sunk i oc m x =
     (case x of (r, m') \<Rightarrow>
        evolves_to m m'
        \<and> (recv_only_reads (mc_process (mg_config m)) sunk \<longrightarrow> given sunk i m' = given sunk i m)
        \<and> (mg_panes m i \<noteq> None \<longrightarrow>
             (\<exists>oc'. r = Inr oc' \<and> oc_bytes_sent oc' = oc_bytes_sent oc \<and> oc_submitted oc' = oc_submitted oc
                \<and> (oc_echoed oc' \<and> oc' = oc \<lparr>oc_echoed := True\<rparr>
                   \<or> oc_echoed oc' = oc_echoed oc \<and> (\<exists>e. oc_errors oc' = oc_errors oc @ [e])))))"

lemma verify_loop_post:
  assumes "verify_loop i v timeout t0 oc m = Some x"
  shows "verify_post sunk i oc m x"
proof (rule verify_loop.raw_induct [of "\<lambda>i v timeout t0 oc m x. verify_post sunk i oc m x", OF _ assms], goal_cases)
  case 1: (1 loop i v timeout t0 oc m x)
  obtain r m' where x: "x = (r, m')" by fastforce
  obtain m1 where m1: "poll_pane_frames i m = Some m1" using 1(2) by (auto simp: bind_eq_Some_conv)
  note e = poll_pane_evolves [OF m1]
  note g = given_poll [OF m1]
  have d: "mg_panes m1 i = None \<longleftrightarrow> mg_panes m i = None" by (rule evolves_to_None [OF e])
  have c: "mg_config m1 = mg_config m" by (rule evolves_to_config [OF e])
  show ?case
  proof (cases "mg_panes m1 i")
    case None
    then show ?thesis using 1(2) m1 d e g x by (auto simp: verify_post_def transaction_surface_text_def)
  next
    case (Some p)
    let ?text = "pane_verification_text (mc_surface (mg_config m1)) p"
    show ?thesis
    proof (cases "matches_text v ?text \<or> terminated (pn_state p)")
      case True
      then show ?thesis using 1(2) m1 Some e g
        by (auto simp: verify_post_def verification_failed_def transaction_surface_text_def
            transaction_child_exited_def split: if_splits)
    next
      case False
      obtain t m2 where n: "now m1 = (t, m2)" by fastforce
      have m2: "mg_panes m2 = mg_panes m1" "mg_config m2 = mg_config m1"
        using now_simps [of m1] unfolding n by simp_all
      have gm: "given sunk i m2 = given sunk i m1" by (simp add: given_def m2)
      note e2 = evolves_to_trans [OF e now_evolves [OF n]]
      show ?thesis
      proof (cases "timeout \<le> t - t0")
        case True
        then show ?thesis using 1(2) m1 Some False n e2 g gm
          by (auto simp: verify_post_def verification_failed_def transaction_surface_text_def
              transaction_child_exited_def)
      next
        case late: False
        then have "loop i v timeout t0 oc m2 = Some x"
          using 1(2) m1 Some False n by (auto simp: transaction_surface_text_def transaction_child_exited_def)
        from 1(1) [OF this] have "verify_post sunk i oc m2 (r, m')" by (simp only: x)
        then show ?thesis using evolves_to_trans [OF e2] g gm c m2 Some by (auto simp: verify_post_def x)
      qed
    qed
  qed
qed

lemma verify_echo_post:
  assumes "verify_input_transaction_echo i v oc m = Some x"
  shows "if verification_timeout v = None then x = (Inr oc, m) else verify_post sunk i oc m x"
proof (cases "verification_timeout v")
  case None
  then show ?thesis using assms by (simp add: verify_input_transaction_echo_def)
next
  case (Some timeout)
  obtain t m1 where n: "now m = (t, m1)" by fastforce
  have m1: "mg_panes m1 = mg_panes m" "mg_config m1 = mg_config m" "given sunk i m1 = given sunk i m"
    using now_simps [of m] unfolding n by (simp_all add: given_def)
  have "verify_loop i v timeout t oc m1 = Some x"
    using assms Some n by (simp add: verify_input_transaction_echo_def)
  from verify_loop_post [OF this, of sunk] show ?thesis
    using Some m1 evolves_to_trans [OF now_evolves [OF n]] by (auto simp: verify_post_def)
qed

text \<open>The child gets what is written to it and nothing else.\<close>

definition faithful_child :: "('p \<Rightarrow> u8 list) \<Rightarrow> ('s, 'p) pane_manager \<Rightarrow> bool" where
  "faithful_child sunk m =
     (honest_writer (pp_writer (mc_process (mg_config m))) sunk
      \<and> recv_only_reads (mc_process (mg_config m)) sunk)"

lemma faithful_evolves: "evolves_to m m' \<Longrightarrow> faithful_child sunk m' = faithful_child sunk m"
  by (simp add: faithful_child_def evolves_to_config)

text \<open>What running the steps leaves behind. \<open>sent\<close> is the number of bytes the child was given
  of the bytes of the steps.\<close>

definition steps_post ::
    "('p \<Rightarrow> u8 list) \<Rightarrow> pane_id \<Rightarrow> u8 list \<Rightarrow> input_outcome \<Rightarrow> ('s, 'p) pane_manager \<Rightarrow> input_outcome \<Rightarrow>
     ('s, 'p) pane_manager \<Rightarrow> bool" where
  "steps_post sunk i planned oc m oc' m' =
     (\<exists>sent. oc_bytes_sent oc' = oc_bytes_sent oc + sent \<and> sent \<le> length planned
        \<and> (oc_errors oc' = oc_errors oc \<longrightarrow> sent = length planned)
        \<and> (\<exists>es. oc_errors oc' = oc_errors oc @ es)
        \<and> given sunk i m' = map_option (map_option (\<lambda>b. b @ take sent planned)) (given sunk i m))"

lemma given_append_Nil [simp]: "map_option (map_option (\<lambda>b. b)) x = x"
  by (cases x; cases "the x") auto

lemma steps_post_same: "given sunk i m' = given sunk i m \<Longrightarrow> steps_post sunk i [] oc m oc m'"
  by (simp add: steps_post_def)

lemma steps_post_trans:
  assumes "steps_post sunk i xs oc m oc1 m1" "steps_post sunk i ys oc1 m1 oc2 m2"
    "oc_errors oc1 = oc_errors oc"
  shows "steps_post sunk i (xs @ ys) oc m oc2 m2"
proof -
  obtain s1 s2 where s: "oc_bytes_sent oc1 = oc_bytes_sent oc + s1" "s1 = length xs"
    "oc_bytes_sent oc2 = oc_bytes_sent oc1 + s2" "s2 \<le> length ys"
    "oc_errors oc2 = oc_errors oc1 \<longrightarrow> s2 = length ys" "\<exists>es. oc_errors oc2 = oc_errors oc1 @ es"
    "given sunk i m1 = map_option (map_option (\<lambda>b. b @ take s1 xs)) (given sunk i m)"
    "given sunk i m2 = map_option (map_option (\<lambda>b. b @ take s2 ys)) (given sunk i m1)"
    using assms unfolding steps_post_def by auto
  show ?thesis unfolding steps_post_def
    by (rule exI [of _ "s1 + s2"])
      (use s assms(3) in \<open>simp add: option.map_comp comp_def\<close>)
qed

text \<open>Stopping with a new error and nothing more sent.\<close>

lemma steps_post_stop:
  assumes "oc_bytes_sent oc' = oc_bytes_sent oc" "oc_errors oc' = oc_errors oc @ [e]"
    "given sunk i m' = given sunk i m"
  shows "steps_post sunk i xs oc m oc' m'"
  unfolding steps_post_def by (rule exI [of _ 0]) (simp add: assms)

lemma steps_post_stop_early:
  assumes "steps_post sunk i xs oc m oc' m'" "oc_errors oc' \<noteq> oc_errors oc"
  shows "steps_post sunk i (xs @ ys) oc m oc' m'"
  using assms unfolding steps_post_def by fastforce

lemma given_of: "mg_panes m i = Some p \<Longrightarrow> pn_process p = Some q \<Longrightarrow> given sunk i m = Some (Some (sunk q))"
  by (simp add: given_def)

lemma write_step_post:
  assumes p: "mg_panes m i = Some p" "pn_process p = Some q"
    and w: "write_input_transaction_step i s n oc m = Some (r, m')"
    and f: "faithful_child sunk m"
  shows "\<exists>ok oc'. r = Inr (ok, oc') \<and> steps_post sunk i (iw_bytes s) oc m oc' m'
    \<and> (ok \<longleftrightarrow> oc_errors oc' = oc_errors oc) \<and> oc_echoed oc' = oc_echoed oc"
proof (cases rule: write_step_cases [OF p w])
  case 1
  then show ?thesis by (auto simp: steps_post_same)
next
  case (2 k q')
  have h: "honest_writer (pp_writer (mc_process (mg_config m))) sunk" using f by (simp add: faithful_child_def)
  have k: "k = length (iw_bytes s)" "sunk q' = sunk q @ iw_bytes s"
    using write_retrying_sunk [OF h 2(2)] by simp_all
  have "steps_post sunk i (iw_bytes s) oc m
      (oc \<lparr>oc_bytes_sent := oc_bytes_sent oc + k, oc_submitted := oc_submitted oc \<or> iw_submits s\<rparr>) m'"
    unfolding steps_post_def
    by (rule exI [of _ k])
      (use k given_same [OF same_push [OF 2(4)], of sunk i] given_of [OF p, of sunk] in simp)
  then show ?thesis using 2(3) by (intro exI [of _ True]) simp
next
  case (3 f q' err)
  have h: "honest_writer (pp_writer (mc_process (mg_config m))) sunk"
    using \<open>faithful_child sunk m\<close> by (simp add: faithful_child_def)
  have k: "wf_bytes_written f \<le> length (iw_bytes s)" "sunk q' = sunk q @ take (wf_bytes_written f) (iw_bytes s)"
    using write_retrying_sunk [OF h 3(2)] by simp_all
  have "steps_post sunk i (iw_bytes s) oc m
      (oc \<lparr>oc_bytes_sent := oc_bytes_sent oc + wf_bytes_written f, oc_errors := oc_errors oc @ [err]\<rparr>) m'"
    unfolding steps_post_def
    by (rule exI [of _ "wf_bytes_written f"])
      (use k given_same [OF same_push [OF 3(4)], of sunk i] given_of [OF p, of sunk] in simp)
  then show ?thesis using 3(3) by (intro exI [of _ False]) simp
qed


text \<open>One round of the loop over the steps, for a pane with a process.\<close>

definition entered ::
    "pane_id \<Rightarrow> input_verification \<Rightarrow> bool \<Rightarrow> input_outcome \<Rightarrow> ('s, 'p) pane_manager \<Rightarrow> input_outcome \<Rightarrow>
     ('s, 'p) pane_manager \<Rightarrow> bool" where
  "entered i v gated oc m oc1 m1 =
     (if gated then verify_input_transaction_echo i v oc m = Some (Inr oc1, m1) \<and> oc_echoed oc1
      else oc1 = oc \<and> m1 = m)"

lemma pane_persists:
  assumes "evolves_to m m'" "mg_panes m i = Some p" "pn_process p = Some q"
  obtains p' q' where "mg_panes m' i = Some p'" "pn_process p' = Some q'"
proof -
  obtain es p' where p': "mg_panes m' i = Some p'" "pane_evolves (retention m) i p es p'"
    by (rule evolves_to_pane [OF assms(1,2)])
  then have "pn_process p' \<noteq> None" using assms(3) by (auto simp: pane_evolves_def)
  then show thesis using p'(1) that by auto
qed

lemma write_step_Inr:
  assumes p: "mg_panes m i = Some p" "pn_process p = Some q"
    and w: "write_input_transaction_step i s n oc m = Some (r, m')"
  shows "\<exists>ok oc'. r = Inr (ok, oc')"
  by (cases rule: write_step_cases [OF p w]) auto

lemma verify_echo_Inr:
  assumes "verify_input_transaction_echo i v oc m = Some (r, m')" "mg_panes m i = Some p"
  shows "evolves_to m m' \<and> (\<exists>oc'. r = Inr oc')"
  using verify_echo_post [OF assms(1), of id] assms(2) evolves_to_refl
  by (auto simp: verify_post_def split: if_splits)

lemma run_steps_round:
  assumes p: "mg_panes m i = Some p" "pn_process p = Some q"
    and r: "run_steps i t vbs verified (s # ss) oc m = Some (r, m')"
  defines "gated \<equiv> iw_submits s \<and> vbs \<and> \<not> verified"
    and "n \<equiv> rt_max_transient_retries (it_retry t)"
  obtains (exited) "terminated (pn_state p)" "r = Inr (child_exited_outcome oc)" "m' = m"
  | (refused) oc1 where gated "verify_input_transaction_echo i (it_verification t) oc m = Some (Inr oc1, m')"
      "\<not> oc_echoed oc1" "r = Inr oc1"
  | (unwritten) oc1 m1 oc2 where "entered i (it_verification t) gated oc m oc1 m1"
      "write_input_transaction_step i s n oc1 m1 = Some (Inr (False, oc2), m')" "r = Inr oc2"
  | (left_over) oc1 m1 oc2 m2 where "entered i (it_verification t) gated oc m oc1 m1"
      "write_input_transaction_step i s n oc1 m1 = Some (Inr (True, oc2), m2)"
      "poll_pane_frames i m2 = Some m'" "r = Inr (child_exited_outcome oc2)"
  | (continued) oc1 m1 oc2 m2 oc3 m3 where "entered i (it_verification t) gated oc m oc1 m1"
      "write_input_transaction_step i s n oc1 m1 = Some (Inr (True, oc2), m2)"
      "poll_pane_frames i m2 = Some m3" "oc3 = oc2 \<or> oc3 = oc2 \<lparr>oc_child_exited := True\<rparr>"
      "run_steps i t vbs (verified \<or> gated) ss oc3 m3 = Some (r, m')"
proof (cases "terminated (pn_state p)")
  case True
  then show thesis using r p exited by (simp add: transaction_child_exited_def)
next
  case alive: False
  obtain v m1 where v: "(if gated then verify_input_transaction_echo i (it_verification t) oc m
      else Some (Inr oc, m)) = Some (v, m1)"
    using r p alive by (auto simp: transaction_child_exited_def bind_eq_Some_conv gated_def)
  have e: "evolves_to m m1 \<and> (\<exists>oc1. v = Inr oc1)"
    using v verify_echo_Inr [OF _ p(1)] evolves_to_refl by (auto split: if_splits)
  then obtain oc1 where oc1: "v = Inr oc1" by blast
  show thesis
  proof (cases "gated \<and> \<not> oc_echoed oc1")
    case True
    then have "r = Inr oc1" "m' = m1"
      using r p alive v oc1 by (auto simp: transaction_child_exited_def bind_eq_Some_conv gated_def)
    then show thesis using True v oc1 refused [of oc1] by simp
  next
    case False
    then have ent: "entered i (it_verification t) gated oc m oc1 m1"
      using v oc1 by (auto simp: entered_def split: if_splits)
    obtain w m2 where w: "write_input_transaction_step i s n oc1 m1 = Some (w, m2)"
      using r p alive v oc1 False by (auto simp: transaction_child_exited_def bind_eq_Some_conv gated_def n_def Let_def)
    obtain p1 q1 where p1: "mg_panes m1 i = Some p1" "pn_process p1 = Some q1"
      using pane_persists [OF conjunct1 [OF e] p] .
    obtain ok oc2 where oc2: "w = Inr (ok, oc2)" using write_step_Inr [OF p1 w] by blast
    show thesis
    proof (cases ok)
      case no: False
      then have "r = Inr oc2 \<and> m' = m2"
        using r p alive v oc1 False w oc2
        by (auto simp: transaction_child_exited_def bind_eq_Some_conv gated_def n_def Let_def)
      then show thesis using unwritten [OF ent] w oc2 no by simp
    next
      case yes: True
      obtain m3 where m3: "poll_pane_frames i m2 = Some m3"
        using r p alive v oc1 False w oc2 yes
        by (auto simp: transaction_child_exited_def bind_eq_Some_conv gated_def n_def Let_def)
      obtain p2 q2 where p2: "mg_panes m2 i = Some p2" "pn_process p2 = Some q2"
        using pane_persists [OF write_step_evolves [OF w] p1] .
      obtain p3 q3 where p3: "mg_panes m3 i = Some p3"
        using pane_persists [OF poll_pane_evolves [OF m3] p2] .
      have rest: "(if terminated (pn_state p3) \<and> ss \<noteq> [] then Some (Inr (child_exited_outcome oc2), m3)
          else run_steps i t vbs (verified \<or> gated) ss
            (if terminated (pn_state p3) then oc2 \<lparr>oc_child_exited := True\<rparr> else oc2) m3) = Some (r, m')"
      proof -
        have "run_steps i t vbs verified (s # ss) oc m =
          (if terminated (pn_state p3) \<and> ss \<noteq> [] then Some (Inr (child_exited_outcome oc2), m3)
          else run_steps i t vbs (verified \<or> gated) ss
            (if terminated (pn_state p3) then oc2 \<lparr>oc_child_exited := True\<rparr> else oc2) m3)"
          unfolding run_steps.simps
          using p alive v oc1 False w oc2 yes m3 p3
          by (auto simp: transaction_child_exited_def gated_def n_def Let_def)
        then show ?thesis using r by simp
      qed
      show thesis
      proof (cases "terminated (pn_state p3) \<and> ss \<noteq> []")
        case True
        then show thesis using rest left_over [OF ent _ _ _] w oc2 yes m3 by simp
      next
        case False
        then show thesis using rest continued [OF ent, of oc2 m2 m3] w oc2 yes m3 by (auto split: if_splits)
      qed
    qed
  qed
qed


text \<open>What entering a round leaves behind: an echo is awaited at most once, and finding it is no
  error.\<close>

lemma entered_post:
  assumes e: "entered i v gated oc m oc1 m1" and p: "mg_panes m i = Some p" "pn_process p = Some q"
    and g: "gated \<longrightarrow> verification_timeout v \<noteq> None \<and> \<not> oc_echoed oc"
    and f: "recv_only_reads (mc_process (mg_config m)) sunk"
  shows "evolves_to m m1 \<and> given sunk i m1 = given sunk i m
    \<and> oc_errors oc1 = oc_errors oc \<and> oc_bytes_sent oc1 = oc_bytes_sent oc
    \<and> oc_echoed oc1 = (oc_echoed oc \<or> gated)"
proof (cases gated)
  case True
  then have v: "verify_input_transaction_echo i v oc m = Some (Inr oc1, m1)" "oc_echoed oc1"
    using e by (simp_all add: entered_def)
  from verify_echo_post [OF v(1), of sunk] show ?thesis
    using True g f p v(2) by (auto simp: verify_post_def)
next
  case False
  then show ?thesis using e evolves_to_refl by (simp add: entered_def)
qed

lemma entered_echo:
  assumes "entered i v gated oc m oc1 m1" "mg_panes m i = Some p" "gated \<longrightarrow> verification_timeout v \<noteq> None"
  shows "evolves_to m m1 \<and> oc_submitted oc1 = oc_submitted oc \<and> (oc_echoed oc \<or> gated \<longrightarrow> oc_echoed oc1)"
proof (cases gated)
  case True
  then have v: "verify_input_transaction_echo i v oc m = Some (Inr oc1, m1)" "oc_echoed oc1"
    using assms(1) by (simp_all add: entered_def)
  from verify_echo_post [OF v(1), of id] show ?thesis using True assms(2,3) v(2) by (auto simp: verify_post_def)
next
  case False
  then show ?thesis using assms(1) evolves_to_refl by (simp add: entered_def)
qed

lemma run_steps_bytes:
  assumes "run_steps i t vbs verified steps oc m = Some (r, m')"
    "mg_panes m i = Some p" "pn_process p = Some q" "faithful_child sunk m"
    "oc_echoed oc = verified" "vbs \<longrightarrow> verification_timeout (it_verification t) \<noteq> None"
  shows "evolves_to m m' \<and> (\<exists>oc'. r = Inr oc' \<and> steps_post sunk i (concat (map iw_bytes steps)) oc m oc' m')"
  using assms
proof (induction steps arbitrary: verified oc m p q)
  case Nil
  have f: "recv_only_reads (mc_process (mg_config m)) sunk" using Nil.prems(4) by (simp add: faithful_child_def)
  show ?case
  proof (cases verified)
    case True
    then show ?thesis using Nil.prems(1) evolves_to_refl by (auto simp: steps_post_same)
  next
    case False
    then have v: "verify_input_transaction_echo i (it_verification t) oc m = Some (r, m')"
      using Nil.prems(1) by simp
    show ?thesis
    proof (cases "verification_timeout (it_verification t)")
      case None
      then show ?thesis using v evolves_to_refl
        by (auto simp: verify_input_transaction_echo_def steps_post_same)
    next
      case (Some timeout)
      then have "verify_post sunk i oc m (r, m')" using verify_echo_post [OF v, of sunk] by simp
      then obtain oc' where oc': "r = Inr oc'" "evolves_to m m'" "given sunk i m' = given sunk i m"
        "oc_bytes_sent oc' = oc_bytes_sent oc"
        "oc' = oc \<lparr>oc_echoed := True\<rparr> \<or> (\<exists>e. oc_errors oc' = oc_errors oc @ [e])"
        using f Nil.prems(2) by (auto simp: verify_post_def)
      have "steps_post sunk i [] oc m oc' m'"
        using oc'(5) oc'(3,4) steps_post_stop [of oc' oc _ sunk i m' m "[]"]
        by (elim disjE exE) (simp_all add: steps_post_def)
      then show ?thesis using oc'(1,2) by simp
    qed
  qed
next
  case (Cons s ss)
  let ?g = "iw_submits s \<and> vbs \<and> \<not> verified"
  have f: "recv_only_reads (mc_process (mg_config m)) sunk" using Cons.prems(4) by (simp add: faithful_child_def)
  have g: "?g \<longrightarrow> verification_timeout (it_verification t) \<noteq> None \<and> \<not> oc_echoed oc" using Cons.prems(5,6) by simp
  note ent = entered_post [OF _ Cons.prems(2,3) g f]
  show ?case
  proof (cases rule: run_steps_round [OF Cons.prems(2,3,1)])
    case 1
    then show ?thesis using evolves_to_refl steps_post_stop [of "child_exited_outcome oc" oc TE_ChildExited sunk i m m, OF _ _ refl]
      by (auto simp: child_exited_outcome_def)
  next
    case (2 oc1)
    then have "verify_post sunk i oc m (Inr oc1, m')" using verify_echo_post [OF 2(2), of sunk] g by simp
    then show ?thesis using 2 f Cons.prems(2) steps_post_stop [of oc1 oc _ sunk i m' m]
      by (auto simp: verify_post_def)
  next
    case (3 oc1 m1 oc2)
    note e = ent [OF 3(1)]
    obtain p1 q1 where p1: "mg_panes m1 i = Some p1" "pn_process p1 = Some q1"
      using pane_persists [OF conjunct1 [OF e] Cons.prems(2,3)] .
    have f1: "faithful_child sunk m1" using faithful_evolves e Cons.prems(4) by blast
    have w: "steps_post sunk i (iw_bytes s) oc1 m1 oc2 m'" "oc_errors oc2 \<noteq> oc_errors oc1"
      using write_step_post [OF p1 3(2) f1] by auto
    have er: "oc_errors oc1 = oc_errors oc" using e by simp
    have "steps_post sunk i (iw_bytes s) oc m oc2 m'"
      using w(1) e by (auto simp: steps_post_def)
    then have "steps_post sunk i (iw_bytes s @ concat (map iw_bytes ss)) oc m oc2 m'"
      by (rule steps_post_stop_early) (use w(2) er in simp)
    then show ?thesis using evolves_to_trans [OF conjunct1 [OF e] write_step_evolves [OF 3(2)]] 3(3) by auto
  next
    case (4 oc1 m1 oc2 m2)
    note e = ent [OF 4(1)]
    obtain p1 q1 where p1: "mg_panes m1 i = Some p1" "pn_process p1 = Some q1"
      using pane_persists [OF conjunct1 [OF e] Cons.prems(2,3)] .
    have f1: "faithful_child sunk m1" using faithful_evolves e Cons.prems(4) by blast
    have w: "steps_post sunk i (iw_bytes s) oc1 m1 oc2 m2" "oc_errors oc2 = oc_errors oc1"
      using write_step_post [OF p1 4(2) f1] by auto
    note e2 = evolves_to_trans [OF conjunct1 [OF e] write_step_evolves [OF 4(2)]]
    have "given sunk i m' = given sunk i m2"
      by (rule given_poll [OF 4(3)]) (use f evolves_to_config [OF e2] in simp)
    then have "steps_post sunk i (iw_bytes s) oc m oc2 m'" using w(1) e by (auto simp: steps_post_def)
    then have "steps_post sunk i (iw_bytes s @ concat (map iw_bytes ss)) oc m (child_exited_outcome oc2) m'"
      by (rule steps_post_trans [OF _ steps_post_stop])
        (use w(2) e in \<open>auto simp: child_exited_outcome_def\<close>)
    then show ?thesis using evolves_to_trans [OF e2 poll_pane_evolves [OF 4(3)]] 4(4) by auto
  next
    case (5 oc1 m1 oc2 m2 oc3 m3)
    note e = ent [OF 5(1)]
    obtain p1 q1 where p1: "mg_panes m1 i = Some p1" "pn_process p1 = Some q1"
      using pane_persists [OF conjunct1 [OF e] Cons.prems(2,3)] .
    have f1: "faithful_child sunk m1" using faithful_evolves e Cons.prems(4) by blast
    have w: "steps_post sunk i (iw_bytes s) oc1 m1 oc2 m2" "oc_errors oc2 = oc_errors oc1" "oc_echoed oc2 = oc_echoed oc1"
      using write_step_post [OF p1 5(2) f1] by auto
    note e2 = evolves_to_trans [OF conjunct1 [OF e] write_step_evolves [OF 5(2)]]
    note e3 = evolves_to_trans [OF e2 poll_pane_evolves [OF 5(3)]]
    have "given sunk i m3 = given sunk i m2"
      by (rule given_poll [OF 5(3)]) (use f evolves_to_config [OF e2] in simp)
    then have a: "steps_post sunk i (iw_bytes s) oc m oc3 m3" using w(1) e 5(4) by (auto simp: steps_post_def)
    obtain p3 q3 where p3: "mg_panes m3 i = Some p3" "pn_process p3 = Some q3"
      using pane_persists [OF e3 Cons.prems(2,3)] .
    have f3: "faithful_child sunk m3" using faithful_evolves [OF e3] Cons.prems(4) by blast
    have echo: "oc_echoed oc3 = (verified \<or> ?g)" using w(3) e 5(4) Cons.prems(5) by auto
    from Cons.IH [OF 5(5) p3 f3 echo Cons.prems(6)] obtain oc' where i: "evolves_to m3 m'" "r = Inr oc'"
      "steps_post sunk i (concat (map iw_bytes ss)) oc3 m3 oc' m'" by blast
    have "steps_post sunk i (iw_bytes s @ concat (map iw_bytes ss)) oc m oc' m'"
      by (rule steps_post_trans [OF a i(3)]) (use w(2) e 5(4) in auto)
    then show ?thesis using evolves_to_trans [OF e3 i(1)] i(2) by auto
  qed
qed


text \<open>Enter waits for the echo.\<close>

lemma run_steps_echo:
  assumes "run_steps i t vbs verified steps oc m = Some (Inr oc', m')"
    "mg_panes m i = Some p" "pn_process p = Some q"
    "verified \<longrightarrow> oc_echoed oc" "oc_submitted oc \<longrightarrow> oc_echoed oc" "list_ex iw_submits steps \<longrightarrow> vbs"
    "verification_timeout (it_verification t) \<noteq> None"
  shows "oc_submitted oc' \<longrightarrow> oc_echoed oc'"
  using assms
proof (induction steps arbitrary: verified oc m p q)
  case Nil
  show ?case
  proof (cases verified)
    case False
    then have "verify_input_transaction_echo i (it_verification t) oc m = Some (Inr oc', m')"
      using Nil.prems(1) by simp
    from verify_echo_post [OF this, of id] show ?thesis
      using Nil.prems(2,5,7) by (auto simp: verify_post_def)
  qed (use Nil.prems in simp)
next
  case (Cons s ss)
  let ?g = "iw_submits s \<and> vbs \<and> \<not> verified"
  note ent = entered_echo [OF _ Cons.prems(2)]
  have submits: "oc_submitted oc2 \<longrightarrow> oc_echoed oc2"
    if e: "entered i (it_verification t) ?g oc m oc1 m1"
      and w: "write_input_transaction_step i s n oc1 m1 = Some (Inr (ok, oc2), m2)" for oc1 m1 ok oc2 m2 n
  proof -
    have a: "evolves_to m m1" "oc_submitted oc1 = oc_submitted oc" "oc_echoed oc \<or> ?g \<longrightarrow> oc_echoed oc1"
      using ent [OF e] Cons.prems(7) by auto
    obtain p1 q1 where p1: "mg_panes m1 i = Some p1" "pn_process p1 = Some q1"
      using pane_persists [OF a(1) Cons.prems(2,3)] .
    have "oc_submitted oc1 \<longrightarrow> oc_echoed oc1" "iw_submits s \<longrightarrow> oc_echoed oc1" using a Cons.prems(4-6) by auto
    then show ?thesis by (cases rule: write_step_cases [OF p1 w]) auto
  qed
  show ?case
  proof (cases rule: run_steps_round [OF Cons.prems(2,3,1)])
    case 1
    then show ?thesis using Cons.prems(5) by (simp add: child_exited_outcome_def)
  next
    case (2 oc1)
    then show ?thesis using verify_echo_post [OF 2(2), of id] Cons.prems(2,5,7)
      by (auto simp: verify_post_def)
  next
    case (3 oc1 m1 oc2)
    then show ?thesis using submits [OF 3(1,2)] by simp
  next
    case (4 oc1 m1 oc2 m2)
    then show ?thesis using submits [OF 4(1,2)] by (simp add: child_exited_outcome_def)
  next
    case (5 oc1 m1 oc2 m2 oc3 m3)
    have a: "evolves_to m m1" "oc_echoed oc \<or> ?g \<longrightarrow> oc_echoed oc1" using ent [OF 5(1)] Cons.prems(7) by auto
    obtain p1 q1 where p1: "mg_panes m1 i = Some p1" "pn_process p1 = Some q1"
      using pane_persists [OF a(1) Cons.prems(2,3)] .
    have "oc_echoed oc2 = oc_echoed oc1" by (cases rule: write_step_cases [OF p1 5(2)]) auto
    then have v: "verified \<or> ?g \<longrightarrow> oc_echoed oc3" using a 5(4) Cons.prems(4) by auto
    have e3: "evolves_to m m3"
      using evolves_to_trans [OF evolves_to_trans [OF a(1) write_step_evolves [OF 5(2)]] poll_pane_evolves [OF 5(3)]] .
    obtain p3 q3 where p3: "mg_panes m3 i = Some p3" "pn_process p3 = Some q3"
      using pane_persists [OF e3 Cons.prems(2,3)] .
    show ?thesis
      by (rule Cons.IH [OF 5(5) p3 v _ _ Cons.prems(7)]) (use submits [OF 5(1,2)] 5(4) Cons.prems(6) in auto)
  qed
qed

lemma plan_total: "\<exists>steps. plan_steps t cfg modes = Inr steps"
proof -
  have text1: "\<exists>steps. text_input_steps s b n cfg modes = Inr steps" for s b n
    using text_input_steps_spec [of s b n cfg modes] by blast
  have key: "\<exists>steps. key_steps k cfg modes = Inr steps" for k
    using encode_key_Inr [of cfg k modes] by (auto simp: key_steps_def)
  show ?thesis using text1 key by (cases "it_intent t") (auto simp: plan_steps_def)
qed

lemma send_transaction_cases:
  assumes "send_input_transaction i t m = Some (r, m')" "mg_panes m i = Some p" "pn_process p = Some q"
  obtains (exited) "evolves_to m m'" "r = Inr (child_exited_outcome outcome_default)"
      "poll_pane_frames i m = Some m'"
  | (ran) m1 p1 q1 steps where "poll_pane_frames i m = Some m1" "mg_panes m1 i = Some p1"
      "pn_process p1 = Some q1"
      "plan_steps t (pn_input_config p) (pane_modes (mc_surface (mg_config m)) p1) = Inr steps"
      "run_steps i t (verification_timeout (it_verification t) \<noteq> None \<and> list_ex iw_submits steps)
         False steps outcome_default m1 = Some (r, m')"
proof -
  obtain m1 where m1: "poll_pane_frames i m = Some m1"
    using assms by (auto simp: send_input_transaction_def bind_eq_Some_conv)
  note e = poll_pane_evolves [OF m1]
  obtain p1 q1 where p1: "mg_panes m1 i = Some p1" "pn_process p1 = Some q1"
    using pane_persists [OF e assms(2,3)] .
  have c: "pn_input_config p1 = pn_input_config p" "mg_config m1 = mg_config m"
    using evolves_to_pane [OF e assms(2)] p1(1) evolves_to_config [OF e] by (auto simp: pane_evolves_def)
  show thesis
  proof (cases "terminated (pn_state p1)")
    case True
    then have "r = Inr (child_exited_outcome outcome_default)" "m' = m1"
      using assms(1,2) m1 p1(1) by (auto simp: send_input_transaction_def transaction_child_exited_def)
    then show thesis using exited e m1 by simp
  next
    case False
    obtain steps where plan: "plan_steps t (pn_input_config p) (pane_modes (mc_surface (mg_config m)) p1) = Inr steps"
      using plan_total by blast
    then have "run_steps i t (verification_timeout (it_verification t) \<noteq> None \<and> list_ex iw_submits steps)
          False steps outcome_default m1 = Some (r, m')"
        using assms(1,2) m1 p1 c False
        by (auto simp: send_input_transaction_def transaction_child_exited_def plan_input_transaction_def)
    then show thesis using ran [OF m1 p1 plan] by simp
  qed
qed


lemma run_steps_evolves:
  assumes "run_steps i t vbs verified steps oc m = Some (r, m')" "mg_panes m i = Some p" "pn_process p = Some q"
  shows "evolves_to m m'"
  using assms
proof (induction steps arbitrary: verified oc m p q)
  case Nil
  then show ?case using evolves_to_refl verify_echo_Inr [OF _ Nil.prems(2)] by (auto split: if_splits)
next
  case (Cons s ss)
  have ent: "evolves_to m m1" if "entered i v g oc m oc1 m1" for v g oc1 m1
    using that verify_echo_Inr [OF _ Cons.prems(2)] evolves_to_refl by (auto simp: entered_def split: if_splits)
  show ?case
  proof (cases rule: run_steps_round [OF Cons.prems(2,3,1)])
    case 1
    then show ?thesis using evolves_to_refl by simp
  next
    case (2 oc1)
    then show ?thesis using verify_echo_Inr [OF 2(2) Cons.prems(2)] by simp
  next
    case (3 oc1 m1 oc2)
    from evolves_to_trans [OF ent [OF 3(1)] write_step_evolves [OF 3(2)]] show ?thesis .
  next
    case (4 oc1 m1 oc2 m2)
    from evolves_to_trans [OF evolves_to_trans [OF ent [OF 4(1)] write_step_evolves [OF 4(2)]]
        poll_pane_evolves [OF 4(3)]] show ?thesis .
  next
    case (5 oc1 m1 oc2 m2 oc3 m3)
    note e = evolves_to_trans [OF evolves_to_trans [OF ent [OF 5(1)] write_step_evolves [OF 5(2)]]
        poll_pane_evolves [OF 5(3)]]
    obtain p3 q3 where p3: "mg_panes m3 i = Some p3" "pn_process p3 = Some q3"
      using pane_persists [OF e Cons.prems(2,3)] .
    from evolves_to_trans [OF e Cons.IH [OF 5(5) p3]] show ?thesis .
  qed
qed

lemma send_transaction_evolves [evolve_intros]:
  assumes "send_input_transaction i t m = Some (r, m')" shows "evolves_to m m'"
proof (cases "\<exists>p q. mg_panes m i = Some p \<and> pn_process p = Some q")
  case True
  then obtain p q where p: "mg_panes m i = Some p" "pn_process p = Some q" by (elim exE conjE) (rule that)
  show ?thesis
  proof (cases rule: send_transaction_cases [OF assms p])
    case (2 m1 p1 q1 steps)
    from evolves_to_trans [OF poll_pane_evolves [OF 2(1)] run_steps_evolves [OF 2(5,2,3)]] show ?thesis .
  qed
next
  case no: False
  show ?thesis
  proof (cases "mg_panes m i")
    case None
    then show ?thesis using assms evolves_to_refl by (simp add: send_input_transaction_def)
  next
    case (Some p)
    then have np: "pn_process p = None" using no by (cases "pn_process p") auto
    obtain m1 where m1: "poll_pane_frames i m = Some m1"
      using assms Some by (auto simp: send_input_transaction_def bind_eq_Some_conv)
    obtain es p1 where p1: "mg_panes m1 i = Some p1" "pane_evolves (retention m) i p es p1"
      by (rule evolves_to_pane [OF poll_pane_evolves [OF m1] Some])
    then have "pn_process p1 = None" using np by (simp add: pane_evolves_def)
    then have "m' = m1" using assms Some m1 p1(1)
      by (auto simp: send_input_transaction_def transaction_child_exited_def plan_input_transaction_def
          split: if_splits)
    then show ?thesis using poll_pane_evolves [OF m1] by simp
  qed
qed


section \<open>Transactions return\<close>

text \<open>Time passes: whatever the bound, from some reading on the clock is beyond it.\<close>

definition time_passes :: "(nat \<Rightarrow> nat) \<Rightarrow> bool" where
  "time_passes clock = (\<forall>bound. \<exists>n. \<forall>k\<ge>n. bound \<le> clock k)"

lemma ready_now: "ready i m \<Longrightarrow> now m = (t, m') \<Longrightarrow> ready i m'"
  by (auto simp: now_def ready_alt calm_panes_def)

lemma verify_loop_returns:
  assumes "ready i m" "time_passes (mc_instant (mg_config m))"
  shows "\<exists>r m'. verify_loop i v timeout t0 oc m = Some (r, m') \<and> ready i m'"
proof -
  obtain N where N: "\<forall>k\<ge>N. timeout + t0 \<le> mc_instant (mg_config m) k"
    using assms(2) unfolding time_passes_def by blast
  show ?thesis using assms N
  proof (induction "N - mg_ticks m" arbitrary: m rule: less_induct)
    case less
    obtain m1 where m1: "poll_pane_frames i m = Some m1" "ready i m1" using ready_poll [OF less.prems(1)] by blast
    note e = poll_pane_evolves [OF m1(1)]
    obtain p where p: "mg_panes m1 i = Some p" using m1(2) by (auto simp: ready_alt)
    obtain t m2 where n: "now m1 = (t, m2)" by fastforce
    have t: "t = mc_instant (mg_config m) (mg_ticks m1)" "mg_ticks m2 = mg_ticks m1 + 1" "mg_config m2 = mg_config m"
      using n evolves_to_config [OF e] by (auto simp: now_def)
    note m2 = ready_now [OF m1(2) n]
    show ?case
    proof (cases "matches_text v (pane_verification_text (mc_surface (mg_config m1)) p)
        \<or> terminated (pn_state p) \<or> timeout \<le> t - t0")
      case True
      then show ?thesis using m1 p n m2
        by (subst verify_loop.simps) (auto simp: transaction_surface_text_def transaction_child_exited_def)
    next
      case False
      then have "\<not> N \<le> mg_ticks m1" using less.prems(3) t(1) by fastforce
      then have "N - mg_ticks m2 < N - mg_ticks m" using evolves_to_ticks [OF e] t(2) by linarith
      then obtain r m' where "verify_loop i v timeout t0 oc m2 = Some (r, m')" "ready i m'"
        using less.hyps [of m2] m2 less.prems(2,3) t(3) by auto
      then show ?thesis using m1(1) p n False
        by (subst verify_loop.simps) (auto simp: transaction_surface_text_def transaction_child_exited_def)
    qed
  qed
qed

lemma verify_echo_returns:
  assumes "ready i m" "time_passes (mc_instant (mg_config m))"
  shows "\<exists>r m'. verify_input_transaction_echo i v oc m = Some (r, m') \<and> ready i m'"
proof (cases "verification_timeout v")
  case (Some timeout)
  obtain t m1 where n: "now m = (t, m1)" by fastforce
  have "mg_config m1 = mg_config m" using n by (auto simp: now_def)
  then show ?thesis using Some n verify_loop_returns [OF ready_now [OF assms(1) n]] assms(2)
    by (simp add: verify_input_transaction_echo_def)
qed (use assms in \<open>simp add: verify_input_transaction_echo_def\<close>)

lemma write_step_returns:
  assumes "ready i m"
  shows "\<exists>r m'. write_input_transaction_step i s n oc m = Some (r, m') \<and> ready i m'"
proof -
  obtain p where p: "mg_panes m i = Some p" "calm (pn_transcript p)"
    using assms by (auto simp: ready_alt calm_panes_def)
  show ?thesis
  proof (cases "iw_bytes s = [] \<or> pn_process p = None")
    case True
    then show ?thesis using assms p by (auto simp: write_input_transaction_step_def)
  next
    case False
    then obtain q where q: "pn_process p = Some q" "iw_bytes s \<noteq> []" by auto
    obtain x q' where x: "write_bytes_retrying (pp_writer (mc_process (mg_config m))) q (iw_bytes s) n = (x, q')"
      by fastforce
    have f: "fine i (Some q') (put_pane i (p \<lparr>pn_process := Some q'\<rparr>) m)"
      using assms p(2) by (auto simp: fine_def ready_alt calm_panes_def)
    obtain k m' where m': "case x of
        Inr w \<Rightarrow> k = input_sent (iw_kind s) w | Inl f \<Rightarrow> k = Ev_Error (wf_error f)"
      "push_event i k (put_pane i (p \<lparr>pn_process := Some q'\<rparr>) m) = Some m'" "fine i (Some q') m'"
      using fine_push [OF f] by (cases x) fastforce+
    then show ?thesis using p q x
      by (cases x) (auto simp: write_input_transaction_step_def ready_def split: prod.split)
  qed
qed

lemma run_steps_returns:
  assumes "ready i m" "time_passes (mc_instant (mg_config m))"
  shows "\<exists>r m'. run_steps i t vbs verified steps oc m = Some (r, m') \<and> ready i m'"
  using assms
proof (induction steps arbitrary: verified oc m)
  case Nil
  then show ?case using verify_echo_returns [OF Nil] by simp
next
  case (Cons s ss)
  let ?g = "iw_submits s \<and> vbs \<and> \<not> verified"
  obtain p where p: "mg_panes m i = Some p" using Cons.prems(1) by (auto simp: ready_alt)
  show ?case
  proof (cases "terminated (pn_state p)")
    case True
    then show ?thesis using p Cons.prems by (simp add: transaction_child_exited_def)
  next
    case alive: False
    obtain v m1 where v: "(if ?g then verify_input_transaction_echo i (it_verification t) oc m
        else Some (Inr oc, m)) = Some (v, m1)" "ready i m1"
      using verify_echo_returns [OF Cons.prems, of "it_verification t" oc] Cons.prems(1) by (cases ?g) auto
    have e1: "evolves_to m m1 \<and> (\<exists>oc1. v = Inr oc1)"
      using v(1) verify_echo_Inr [OF _ p] evolves_to_refl by (auto split: if_splits)
    then obtain oc1 where oc1: "v = Inr oc1" by blast
    show ?thesis
    proof (cases "?g \<and> \<not> oc_echoed oc1")
      case True
      then show ?thesis using p alive v oc1 by (auto simp: transaction_child_exited_def)
    next
      case False
      obtain w m2 where w: "write_input_transaction_step i s (rt_max_transient_retries (it_retry t)) oc1 m1 = Some (w, m2)"
        "ready i m2" using write_step_returns [OF v(2)] by blast
      obtain m3 where m3: "poll_pane_frames i m2 = Some m3" "ready i m3" using ready_poll [OF w(2)] by blast
      obtain p3 where p3: "mg_panes m3 i = Some p3" using m3(2) by (auto simp: ready_alt)
      have c: "mg_config m3 = mg_config m"
        using evolves_to_config [OF evolves_to_trans [OF evolves_to_trans [OF conjunct1 [OF e1]
          write_step_evolves [OF w(1)]] poll_pane_evolves [OF m3(1)]]] .
      have body: "run_steps i t vbs verified (s # ss) oc m =
        (case w of Inl e \<Rightarrow> Some (Inl e, m2)
         | Inr (written, outcome) \<Rightarrow>
             if \<not> written then Some (Inr outcome, m2)
             else if terminated (pn_state p3) \<and> ss \<noteq> [] then Some (Inr (child_exited_outcome outcome), m3)
             else run_steps i t vbs (verified \<or> ?g) ss
               (if terminated (pn_state p3) then outcome \<lparr>oc_child_exited := True\<rparr> else outcome) m3)"
        using p alive v(1) oc1 False w(1) m3(1) p3
        by (cases w) (auto simp: transaction_child_exited_def Let_def)
      show ?thesis
      proof (cases w)
        case (Inr x)
        obtain ok oc2 where x: "x = (ok, oc2)" by fastforce
        show ?thesis unfolding body using Inr x w(2) m3(2) Cons.IH [OF m3(2)] Cons.prems(2) c by auto
      qed (use body w(2) in simp)
    qed
  qed
qed


lemma send_transaction_returns:
  assumes r: "ready i m" and "time_passes (mc_instant (mg_config m))"
  shows "\<exists>r m'. send_input_transaction i t m = Some (r, m') \<and> ready i m'"
proof -
  have ex: "mg_panes m i \<noteq> None" using r by (simp add: ready_alt)
  obtain m1 where m1: "poll_pane_frames i m = Some m1" "ready i m1" using ready_poll [OF r] by blast
  obtain p1 where p1: "mg_panes m1 i = Some p1" using m1(2) by (auto simp: ready_alt)
  have "time_passes (mc_instant (mg_config m1))"
    using assms(2) evolves_to_config [OF poll_pane_evolves [OF m1(1)]] by simp
  note run = run_steps_returns [OF m1(2) this]
  show ?thesis using ex m1 p1 run
    by (cases "plan_input_transaction i t m1")
      (auto simp: send_input_transaction_def transaction_child_exited_def)
qed


text \<open>What an echo means: the text of the pane matches when it is reported.\<close>

definition text_matches :: "pane_id \<Rightarrow> input_verification \<Rightarrow> ('s, 'p) pane_manager \<Rightarrow> bool" where
  "text_matches i v m =
     (\<exists>p. mg_panes m i = Some p \<and> matches_text v (pane_verification_text (mc_surface (mg_config m)) p))"

lemma verify_loop_matched:
  assumes "verify_loop i v timeout t0 oc m = Some x" "\<not> oc_echoed oc"
  shows "case x of (Inl e, m') \<Rightarrow> True | (Inr oc', m') \<Rightarrow> oc_echoed oc' \<longrightarrow> text_matches i v m'"
proof -
  have "\<not> oc_echoed oc \<longrightarrow> (case x of (Inl e, m') \<Rightarrow> True | (Inr oc', m') \<Rightarrow> oc_echoed oc' \<longrightarrow> text_matches i v m')"
  proof (rule verify_loop.raw_induct [of "\<lambda>i v timeout t0 oc m x.
      \<not> oc_echoed oc \<longrightarrow> (case x of (Inl e, m') \<Rightarrow> True | (Inr oc', m') \<Rightarrow> oc_echoed oc' \<longrightarrow> text_matches i v m')",
      OF _ assms(1)], goal_cases)
    case 1: (1 loop i v timeout t0 oc m x)
    obtain m1 where m1: "poll_pane_frames i m = Some m1" using 1(2) by (auto simp: bind_eq_Some_conv)
    show ?case
    proof (cases "mg_panes m1 i")
      case None
      then show ?thesis using 1(2) m1 by (auto simp: transaction_surface_text_def)
    next
      case (Some p)
      let ?text = "pane_verification_text (mc_surface (mg_config m1)) p"
      obtain t m2 where n: "now m1 = (t, m2)" by fastforce
      show ?thesis
      proof (cases "matches_text v ?text \<or> terminated (pn_state p) \<or> timeout \<le> t - t0")
        case True
        then show ?thesis using 1(2) m1 Some n
          by (auto simp: verification_failed_def transaction_surface_text_def transaction_child_exited_def text_matches_def
              split: if_splits)
      next
        case False
        then have "loop i v timeout t0 oc m2 = Some x"
          using 1(2) m1 Some n by (auto simp: transaction_surface_text_def transaction_child_exited_def)
        from 1(1) [OF this] show ?thesis .
      qed
    qed
  qed
  then show ?thesis using assms(2) by simp
qed

lemma verify_echo_matched:
  assumes "verify_input_transaction_echo i v oc m = Some (Inr oc', m')" "\<not> oc_echoed oc" "oc_echoed oc'"
  shows "text_matches i v m'"
proof (cases "verification_timeout v")
  case None
  then show ?thesis using assms by (simp add: verify_input_transaction_echo_def)
next
  case (Some timeout)
  obtain t m1 where n: "now m = (t, m1)" by fastforce
  have "verify_loop i v timeout t oc m1 = Some (Inr oc', m')"
    using assms(1) Some n by (simp add: verify_input_transaction_echo_def)
  from verify_loop_matched [OF this assms(2)] show ?thesis using assms(3) by simp
qed

text \<open>How the first submitting step of a run is reached: the steps in front of it have been written in full, the text
  of the pane matches, and only then is the step written.\<close>

definition submitted_after ::
    "('p \<Rightarrow> u8 list) \<Rightarrow> pane_id \<Rightarrow> input_transaction \<Rightarrow> input_write_step list \<Rightarrow> input_write_step \<Rightarrow>
     ('s, 'p) pane_manager \<Rightarrow> ('s, 'p) pane_manager \<Rightarrow> ('s, 'p) pane_manager \<Rightarrow> bool" where
  "submitted_after sunk i t pre s m me m' =
     (evolves_to m me \<and> text_matches i (it_verification t) me
      \<and> given sunk i me = map_option (map_option (\<lambda>b. b @ concat (map iw_bytes pre))) (given sunk i m)
      \<and> (\<exists>oc1 oc2 m2. write_input_transaction_step i s (rt_max_transient_retries (it_retry t)) oc1 me
            = Some (Inr (True, oc2), m2) \<and> evolves_to m2 m'))"

lemma run_steps_submit:
  assumes "run_steps i t vbs False steps oc m = Some (Inr oc', m')"
    "mg_panes m i = Some p" "pn_process p = Some q" "faithful_child sunk m"
    "\<not> oc_echoed oc" "\<not> oc_submitted oc" "verification_timeout (it_verification t) \<noteq> None" "oc_submitted oc'"
    "list_ex iw_submits steps \<longrightarrow> vbs"
  shows "\<exists>pre s post me. steps = pre @ s # post \<and> list_all (\<lambda>s. \<not> iw_submits s) pre \<and> iw_submits s
    \<and> submitted_after sunk i t pre s m me m'"
  using assms
proof (induction steps arbitrary: oc m p q)
  case Nil
  then have "verify_input_transaction_echo i (it_verification t) oc m = Some (Inr oc', m')" by simp
  from verify_echo_post [OF this, of id] show ?case using Nil.prems by (auto simp: verify_post_def)
next
  case (Cons s ss)
  note f = Cons.prems(4) and sub = Cons.prems(8)
  have reads: "recv_only_reads (mc_process (mg_config m)) sunk" using f by (simp add: faithful_child_def)
  let ?g = "iw_submits s \<and> vbs \<and> \<not> False"
  have vbs: "iw_submits s \<Longrightarrow> vbs" using Cons.prems(9) by simp
  have ent: "evolves_to m m1 \<and> given sunk i m1 = given sunk i m \<and> oc_submitted oc1 = oc_submitted oc
      \<and> oc_echoed oc1 = iw_submits s \<and> (iw_submits s \<longrightarrow> text_matches i (it_verification t) m1)"
    if e: "entered i (it_verification t) ?g oc m oc1 m1" for oc1 m1
  proof -
    have "text_matches i (it_verification t) m1" if "iw_submits s"
      using e that vbs verify_echo_matched [OF _ Cons.prems(5)] by (auto simp: entered_def)
    then show ?thesis using entered_post [OF e Cons.prems(2,3) _ reads] entered_echo [OF e Cons.prems(2)] Cons.prems(5,7) vbs
      by auto
  qed
  have kept: "oc_submitted oc2 = (oc_submitted oc1 \<or> (ok \<and> iw_submits s \<and> iw_bytes s \<noteq> []))
      \<and> oc_echoed oc2 = oc_echoed oc1 \<and> evolves_to m1 m2"
    if e: "entered i (it_verification t) ?g oc m oc1 m1"
      and w: "write_input_transaction_step i s n oc1 m1 = Some (Inr (ok, oc2), m2)" for oc1 m1 ok oc2 m2 n
  proof -
    obtain p1 q1 where p1: "mg_panes m1 i = Some p1" "pn_process p1 = Some q1"
      using pane_persists [OF conjunct1 [OF ent [OF e]] Cons.prems(2,3)] .
    show ?thesis using write_step_evolves [OF w] by (cases rule: write_step_cases [OF p1 w]) auto
  qed
  let ?n = "rt_max_transient_retries (it_retry t)"
  have first: ?case if e: "entered i (it_verification t) ?g oc m oc1 m1" and "iw_submits s"
    and w: "write_input_transaction_step i s ?n oc1 m1 = Some (Inr (True, oc2), m2)" and "evolves_to m2 m'" for oc1 m1 oc2 m2
    using ent [OF e] that
    by (intro exI [of _ "[]"] exI [of _ s] exI [of _ ss] exI [of _ m1]) (auto simp: submitted_after_def)
  show ?case
  proof (cases rule: run_steps_round [OF Cons.prems(2,3,1)])
    case 1
    then show ?thesis using Cons.prems(6) sub by (simp add: child_exited_outcome_def)
  next
    case (2 oc1)
    then show ?thesis using verify_echo_post [OF 2(2), of id] Cons.prems(2,6,7) sub by (auto simp: verify_post_def)
  next
    case (3 oc1 m1 oc2)
    then show ?thesis using kept [OF 3(1,2)] ent [OF 3(1)] Cons.prems(6) sub by simp
  next
    case (4 oc1 m1 oc2 m2)
    then have "iw_submits s" using kept [OF 4(1,2)] ent [OF 4(1)] Cons.prems(6) sub by (simp add: child_exited_outcome_def)
    from first [OF 4(1) this 4(2) poll_pane_evolves [OF 4(3)]] show ?thesis .
  next
    case (5 oc1 m1 oc2 m2 oc3 m3)
    note e = ent [OF 5(1)] and k = kept [OF 5(1,2)]
    have e3: "evolves_to m m3"
      using evolves_to_trans [OF evolves_to_trans [OF conjunct1 [OF e] write_step_evolves [OF 5(2)]] poll_pane_evolves [OF 5(3)]] .
    obtain p3 q3 where p3: "mg_panes m3 i = Some p3" "pn_process p3 = Some q3"
      using pane_persists [OF e3 Cons.prems(2,3)] .
    have f3: "faithful_child sunk m3" using f faithful_evolves [OF e3] by simp
    show ?thesis
    proof (cases "iw_submits s")
      case True
      have "evolves_to m3 m'"
        using run_steps_evolves [OF 5(5) p3] .
      from first [OF 5(1) True 5(2) evolves_to_trans [OF poll_pane_evolves [OF 5(3)] this]] show ?thesis .
    next
      case False
      have same: "oc1 = oc" "m1 = m" using 5(1) False by (simp_all add: entered_def)
      obtain p1 q1 where p1: "mg_panes m1 i = Some p1" "pn_process p1 = Some q1"
        using pane_persists [OF conjunct1 [OF e] Cons.prems(2,3)] .
      have f1: "faithful_child sunk m1" using f by (simp add: same)
      have "steps_post sunk i (iw_bytes s) oc m oc2 m2" "oc_errors oc2 = oc_errors oc"
        using write_step_post [OF p1 5(2) f1] by (auto simp: same)
      then have "given sunk i m2 = map_option (map_option (\<lambda>b. b @ iw_bytes s)) (given sunk i m)"
        by (auto simp: steps_post_def)
      moreover have "given sunk i m3 = given sunk i m2"
        by (rule given_poll [OF 5(3)]) (use reads evolves_to_config [OF write_step_evolves [OF 5(2)]] same in simp)
      ultimately have g3: "given sunk i m3 = map_option (map_option (\<lambda>b. b @ iw_bytes s)) (given sunk i m)" by simp
      have "run_steps i t vbs False ss oc3 m3 = Some (Inr oc', m')" using 5(5) False by simp
      moreover have "\<not> oc_echoed oc3" "\<not> oc_submitted oc3" using 5(4) k e False Cons.prems(5,6) by auto
      moreover have "list_ex iw_submits ss \<longrightarrow> vbs" using Cons.prems(9) by simp
      ultimately obtain pre s' post me where ih: "ss = pre @ s' # post" "list_all (\<lambda>s. \<not> iw_submits s) pre" "iw_submits s'"
        "submitted_after sunk i t pre s' m3 me m'"
        using Cons.IH [OF _ p3 f3 _ _ Cons.prems(7) sub] by blast
      have "submitted_after sunk i t (s # pre) s' m me m'"
        using ih(4) evolves_to_trans [OF e3] g3 by (auto simp: submitted_after_def option.map_comp comp_def)
      then show ?thesis using ih(1-3) False by (intro exI [of _ "s # pre"] exI [of _ s'] exI [of _ post] exI [of _ me]) simp
    qed
  qed
qed

section \<open>Properties\<close>

text \<open>C13: An input transaction to a pane with a child never fails as a call, and it accounts for
  every byte: the child was given exactly the first \<open>bytes_sent\<close> bytes of the plan for the
  intent, in order and once, and all of them if the transaction reports success.\<close>

theorem transaction_bytes_accounted:
  assumes "honest_writer (pp_writer (mc_process (mg_config m))) sunk"
    and "recv_only_reads (mc_process (mg_config m)) sunk"
    and "mg_panes m i = Some p" "pn_process p = Some q"
    and "send_input_transaction i t m = Some (r, m')"
  shows "\<exists>oc p' q' modes steps. r = Inr oc \<and> mg_panes m' i = Some p' \<and> pn_process p' = Some q'
    \<and> plan_steps t (pn_input_config p) modes = Inr steps
    \<and> sunk q' = sunk q @ take (oc_bytes_sent oc) (concat (map iw_bytes steps))
    \<and> oc_bytes_sent oc \<le> length (concat (map iw_bytes steps))
    \<and> (outcome_is_success oc \<longrightarrow> sunk q' = sunk q @ concat (map iw_bytes steps))"
proof (cases rule: send_transaction_cases [OF assms(5,3,4)])
  case 1
  obtain steps where s: "plan_steps t (pn_input_config p) terminal_modes_default = Inr steps"
    using plan_total by blast
  obtain p' q' where p': "mg_panes m' i = Some p'" "pn_process p' = Some q'"
    using pane_persists [OF 1(1) assms(3,4)] .
  have "given sunk i m' = given sunk i m" by (rule given_poll [OF 1(3) assms(2)])
  then have "sunk q' = sunk q" using p' assms(3,4) by (simp add: given_def)
  then show ?thesis using 1(2) p' s
    by (auto simp: child_exited_outcome_def outcome_default_def outcome_is_success_def)
next
  case (2 m1 p1 q1 steps)
  note e = poll_pane_evolves [OF 2(1)]
  have g: "given sunk i m1 = given sunk i m" by (rule given_poll [OF 2(1) assms(2)])
  have f: "faithful_child sunk m1"
    using assms(1,2) evolves_to_config [OF e] by (simp add: faithful_child_def)
  have "oc_echoed outcome_default = False" by (simp add: outcome_default_def)
  from run_steps_bytes [OF 2(5,2,3) f this] obtain oc where oc: "evolves_to m1 m'" "r = Inr oc"
    "steps_post sunk i (concat (map iw_bytes steps)) outcome_default m1 oc m'" by blast
  obtain p' q' where p': "mg_panes m' i = Some p'" "pn_process p' = Some q'"
    using pane_persists [OF oc(1) 2(2,3)] .
  have "sunk q1 = sunk q" using g 2(2,3) assms(3,4) by (simp add: given_def)
  then have "sunk q' = sunk q @ take (oc_bytes_sent oc) (concat (map iw_bytes steps))
      \<and> oc_bytes_sent oc \<le> length (concat (map iw_bytes steps))
      \<and> (oc_errors oc = [] \<longrightarrow> oc_bytes_sent oc = length (concat (map iw_bytes steps)))"
    using oc(3) p' 2(2,3) by (auto simp: steps_post_def given_def outcome_default_def)
  then show ?thesis using oc(2) p' 2(4) by (auto simp: outcome_is_success_def)
qed

theorem transaction_bytes_accounted_witness:
  "\<exists>oc m' p' q'. send_input_transaction 1 (transaction_new (II_RawBytes [1, 2])) demo_started = Some (Inr oc, m')
     \<and> mg_panes m' 1 = Some p' \<and> pn_process p' = Some q' \<and> fst q' = take (oc_bytes_sent oc) [1, 2]"
proof -
  obtain p where p: "mg_panes demo_started = [1 \<mapsto> p]" "pn_process p = Some ([], queue_new 4)"
    using demo_spawn by blast
  have "time_passes (mc_instant (mg_config demo_started))"
    by (auto simp: demo_config demo_host_def time_passes_def)
  then obtain r m' where s: "send_input_transaction 1 (transaction_new (II_RawBytes [1, 2])) demo_started = Some (r, m')"
    using send_transaction_returns [OF demo_ready] by blast
  have "pp_writer (mc_process (mg_config demo_started)) = demo_writer" "mc_process (mg_config demo_started) = demo_process"
    by (simp_all add: demo_config demo_host_def demo_process_def)
  with transaction_bytes_accounted [OF _ _ _ p(2) s, of fst] show ?thesis using s p(1) demo_honest demo_reads
    by (fastforce simp: plan_steps_def transaction_new_def)
qed

text \<open>C5: Submitting waits for the echo. When a transaction that asks for verification reports that its Enter was
  sent, then there was a moment at which the child had been given all of the text of the plan and nothing
  of the Enter, and the text on the surface of the pane, its scrollback and screen, matched what the
  transaction asks for; the Enter was written at that moment and not before, and the outcome says that
  the echo was seen.\<close>

theorem submit_only_after_echo:
  assumes "verification_timeout (it_verification t) \<noteq> None"
    and "send_input_transaction i t m = Some (Inr oc, m')" "mg_panes m i = Some p" "pn_process p = Some q"
    and "honest_writer (pp_writer (mc_process (mg_config m))) sunk" "recv_only_reads (mc_process (mg_config m)) sunk"
    and "oc_submitted oc"
  shows "oc_echoed oc \<and> (\<exists>modes pre s post me pe qe oc1 oc2 m2.
      plan_steps t (pn_input_config p) modes = Inr (pre @ s # post)
      \<and> list_all (\<lambda>s. \<not> iw_submits s) pre \<and> iw_submits s
      \<and> evolves_to m me \<and> mg_panes me i = Some pe \<and> pn_process pe = Some qe
      \<and> sunk qe = sunk q @ concat (map iw_bytes pre)
      \<and> matches_text (it_verification t) (pane_verification_text (mc_surface (mg_config m)) pe)
      \<and> write_input_transaction_step i s (rt_max_transient_retries (it_retry t)) oc1 me = Some (Inr (True, oc2), m2)
      \<and> evolves_to m2 m')"
proof (cases rule: send_transaction_cases [OF assms(2-4)])
  case 1
  then show ?thesis using assms(7) by (simp add: child_exited_outcome_def outcome_default_def)
next
  case (2 m1 p1 q1 steps)
  note e1 = poll_pane_evolves [OF 2(1)]
  have f: "faithful_child sunk m1" using assms(5,6) evolves_to_config [OF e1] by (simp add: faithful_child_def)
  have new: "\<not> oc_echoed outcome_default" "\<not> oc_submitted outcome_default" by (simp_all add: outcome_default_def)
  have "oc_submitted oc \<longrightarrow> oc_echoed oc"
    by (rule run_steps_echo [OF 2(5,2,3)]) (use assms(1) new in simp_all)
  then have echoed: "oc_echoed oc" using assms(7) by simp
  obtain pre s post me where *: "steps = pre @ s # post" "list_all (\<lambda>s. \<not> iw_submits s) pre" "iw_submits s"
    "submitted_after sunk i t pre s m1 me m'"
    using run_steps_submit [OF 2(5,2,3) f new assms(1,7)] assms(1) by blast
  then obtain oc1 oc2 m2 pe where a: "evolves_to m1 me" "mg_panes me i = Some pe"
    "matches_text (it_verification t) (pane_verification_text (mc_surface (mg_config me)) pe)"
    "given sunk i me = map_option (map_option (\<lambda>b. b @ concat (map iw_bytes pre))) (given sunk i m1)"
    "write_input_transaction_step i s (rt_max_transient_retries (it_retry t)) oc1 me = Some (Inr (True, oc2), m2)"
    "evolves_to m2 m'"
    by (auto simp: submitted_after_def text_matches_def)
  have e: "evolves_to m me" using evolves_to_trans [OF e1 a(1)] .
  have "given sunk i m1 = given sunk i m" by (rule given_poll [OF 2(1) assms(6)])
  then obtain qe where qe: "pn_process pe = Some qe" "sunk qe = sunk q @ concat (map iw_bytes pre)"
    using a(2,4) assms(3,4) by (auto simp: given_def)
  show ?thesis using echoed 2(4) * e a qe evolves_to_config [OF e] by metis
qed

lemma demo_enter: "encode_input input_config_default (HI_Key enter_key) modes = Inr [0x0d]"
  by (simp add: encode_input_def encode_key_def key_bytes_def enter_key_def input_config_default_def
      no_modifiers_def)

lemma demo_write: "write_bytes_retrying demo_writer (s, q) [b] n = (Inr 1, (s @ [b], q))"
  by (simp add: write_bytes_retrying_def write_loop.simps retry_flush.simps demo_writer_def)

lemma demo_submit:
  assumes t: "t = transaction_new (II_SubmitText []) \<lparr>it_verification := IV_EchoContains [] 5\<rparr>"
    and p: "mg_panes m 1 = Some p" "pn_process p = Some (s, queue_new 4)" "pn_state p = Running"
      "pn_input_config p = input_config_default" "mg_config m = demo_host"
  shows "\<exists>oc m'. send_input_transaction 1 t m = Some (Inr oc, m') \<and> oc_submitted oc"
proof -
  let ?steps = "[\<lparr>iw_bytes = [0x0d], iw_kind = Input_Key, iw_submits = True\<rparr>]"
  have v: "it_verification t = IV_EchoContains [] 5" "it_intent t = II_SubmitText []"
    by (simp_all add: t transaction_new_def)
  have plan: "plan_input_transaction 1 t m = Inr ?steps"
    using p by (simp add: plan_input_transaction_def plan_steps_def v text_input_steps_def demo_enter)
  obtain x m1 where n: "now m = (x, m1)" by fastforce
  have m1: "mg_panes m1 1 = Some p" "mg_config m1 = demo_host" using n p by (auto simp: now_def)
  have contains: "contains_str text1 []" for text1 :: rstr by (cases text1) simp_all
  have verify: "verify_input_transaction_echo 1 (it_verification t) outcome_default m
      = Some (Inr (outcome_default \<lparr>oc_echoed := True\<rparr>), m1)"
    using n demo_poll [OF m1(1) p(2) m1(2)] m1(1) contains
    by (simp add: verify_input_transaction_echo_def v transaction_surface_text_def matches_text_def
        verify_loop.simps [of 1 "IV_EchoContains [] 5"])
  have w: "pp_writer (mc_process (mg_config m1)) = demo_writer" by (simp add: m1 demo_host_def demo_process_def)
  define e where "e = input_sent Input_Key 1"
  let ?p1 = "p \<lparr>pn_process := Some (s @ [0x0d], queue_new 4)\<rparr>"
  let ?p2 = "logged (retention m1) (next_event m1 1 ?p1 e) ?p1"
  let ?m2 = "emit (next_event m1 1 ?p1 e) (put_pane 1 ?p2 m1)"
  have push: "push_event 1 e (put_pane 1 ?p1 m1) = Some ?m2" by (simp add: push_event_eq)
  have poll2: "poll_pane_frames 1 ?m2 = Some ?m2"
    by (rule demo_poll [of _ _ ?p2 "s @ [0x0d]"]) (simp_all add: m1)
  have "\<exists>oc. run_steps 1 t True False ?steps outcome_default m = Some (Inr oc, ?m2) \<and> oc_submitted oc"
    using verify p(1,3) m1(1) p(2) w push poll2 demo_write [of s "queue_new 4" "0x0d"]
    by (auto simp: transaction_child_exited_def terminated_def write_input_transaction_step_def Let_def e_def)
  then show ?thesis
    using p(1,3) plan demo_poll [OF p(1,2,5)]
    by (auto simp: send_input_transaction_def transaction_child_exited_def terminated_def v)
qed

theorem submit_only_after_echo_witness:
  "\<exists>oc m'. send_input_transaction 1
       (transaction_new (II_SubmitText []) \<lparr>it_verification := IV_EchoContains [] 5\<rparr>) demo_started = Some (Inr oc, m')
     \<and> oc_submitted oc \<and> oc_echoed oc"
proof -
  let ?t = "transaction_new (II_SubmitText []) \<lparr>it_verification := IV_EchoContains [] 5\<rparr>"
  obtain p where p: "mg_panes demo_started = [1 \<mapsto> p]" "pn_process p = Some ([], queue_new 4)"
    "pn_state p = Running" "pn_input_config p = input_config_default" using demo_spawn by blast
  have "\<exists>oc m'. send_input_transaction 1 ?t demo_started = Some (Inr oc, m') \<and> oc_submitted oc"
    by (rule demo_submit [OF refl _ p(2-4) demo_config]) (simp add: p(1))
  then obtain oc m' where s: "send_input_transaction 1 ?t demo_started = Some (Inr oc, m')" "oc_submitted oc" by blast
  have w: "pp_writer (mc_process (mg_config demo_started)) = demo_writer" "mc_process (mg_config demo_started) = demo_process"
    by (simp_all add: demo_config demo_host_def demo_process_def)
  have "verification_timeout (it_verification ?t) \<noteq> None" "mg_panes demo_started 1 = Some p" using p(1) by simp_all
  from submit_only_after_echo [OF this(1) s(1) this(2) p(2) _ _ s(2), of fst] have "oc_echoed oc"
    using demo_honest demo_reads w by simp
  then show ?thesis using s by blast
qed

text \<open>C14: An input transaction returns: no transcript of the manager being about to panic and time
  passing, the call to an existing pane comes back, however many chunks it writes and however
  the echo is awaited, and the manager is as usable as before.\<close>

theorem transaction_returns:
  assumes "\<forall>j p. mg_panes m j = Some p \<longrightarrow> calm (pn_transcript p)" "mg_panes m i \<noteq> None"
    and "time_passes (mc_instant (mg_config m))"
  shows "\<exists>r m'. send_input_transaction i t m = Some (r, m') \<and> dom (mg_panes m') = dom (mg_panes m)
    \<and> (\<forall>j p. mg_panes m' j = Some p \<longrightarrow> calm (pn_transcript p))"
proof -
  have "ready i m" using assms(1,2) by (simp add: ready_alt calm_panes_def)
  then obtain r m' where s: "send_input_transaction i t m = Some (r, m')" "ready i m'"
    using send_transaction_returns assms(3) by blast
  show ?thesis using s(1) evolves_to_dom [OF send_transaction_evolves [OF s(1)]] s(2)
    by (auto simp: ready_alt calm_panes_def)
qed

lemma id_passes: "time_passes id"
  by (auto simp: time_passes_def)

theorem transaction_returns_witness:
  "\<exists>r m'. send_input_transaction 1 (transaction_new (II_SubmitText (lit ''ls''))) demo_started = Some (r, m')
     \<and> dom (mg_panes m') = {1}"
proof -
  obtain p where p: "mg_panes demo_started = [1 \<mapsto> p]" "calm (pn_transcript p)" using demo_spawn by blast
  have "\<exists>r m'. send_input_transaction 1 (transaction_new (II_SubmitText (lit ''ls''))) demo_started = Some (r, m')
     \<and> dom (mg_panes m') = dom (mg_panes demo_started)
     \<and> (\<forall>j p. mg_panes m' j = Some p \<longrightarrow> calm (pn_transcript p))"
    by (rule transaction_returns) (use p id_passes in \<open>auto simp: demo_config demo_host_def\<close>)
  then show ?thesis using p(1) by auto
qed

end
