(* ===== verification/Viewport.thy ===== *)
theory Viewport
  imports Core_Types
begin

text \<open>
  The viewport over scrollback and screen (\<open>TerminalViewport\<close> in \<open>pane.rs\<close>) and its use
  by an attached pane (\<open>manager/attach_support.rs\<close> and the end of \<open>manager.rs\<close>): the keys and
  mouse wheel reports that move it, the bytes that draw it, and what happens to it when the child
  prints while it is scrolled. Rows and columns are naturals; only the total of
  two counts saturates.
\<close>

section \<open>The viewport\<close>

record viewport =
  vp_scroll_offset :: nat
  vp_follow_tail :: bool

definition viewport_default :: viewport where
  "viewport_default = \<lparr>vp_scroll_offset = 0, vp_follow_tail = True\<rparr>"

record viewport_metrics =
  vm_total_rows :: nat
  vm_visible_rows :: nat
  vm_max_scroll_offset :: nat
  vm_effective_scroll_offset :: nat
  vm_start_row :: nat
  vm_end_row :: nat

definition is_at_tail :: "viewport_metrics \<Rightarrow> bool" where
  "is_at_tail metrics = (vm_effective_scroll_offset metrics = 0)"

definition scrolled :: "nat \<Rightarrow> viewport" where
  "scrolled scroll_offset = \<lparr>vp_scroll_offset = scroll_offset, vp_follow_tail = False\<rparr>"

definition follow_tail :: viewport where
  "follow_tail = \<lparr>vp_scroll_offset = 0, vp_follow_tail = True\<rparr>"

definition metrics_from_counts :: "viewport \<Rightarrow> nat \<Rightarrow> nat \<Rightarrow> nat \<Rightarrow> viewport_metrics" where
  "metrics_from_counts v surface_rows scrollback_rows visible_rows =
     (let total_rows = sat_add scrollback_rows surface_rows;
          max_scroll_offset = total_rows - visible_rows;
          effective_scroll_offset =
            (if vp_follow_tail v then 0 else min (vp_scroll_offset v) max_scroll_offset);
          end_row = total_rows - effective_scroll_offset;
          start_row = end_row - visible_rows
      in \<lparr>vm_total_rows = total_rows, vm_visible_rows = visible_rows,
          vm_max_scroll_offset = max_scroll_offset,
          vm_effective_scroll_offset = effective_scroll_offset,
          vm_start_row = start_row, vm_end_row = end_row\<rparr>)"

text \<open>\<open>metrics\<close> takes a pane snapshot; it uses the size of its surface only.\<close>

definition metrics_of :: "viewport \<Rightarrow> surface_snapshot \<Rightarrow> scrollback_line list option \<Rightarrow> nat \<Rightarrow> viewport_metrics" where
  "metrics_of v snapshot scrollback visible_rows =
     metrics_from_counts v (unat (sz_rows (ss_size snapshot)))
       (case scrollback of None \<Rightarrow> 0 | Some lines \<Rightarrow> length lines) visible_rows"

definition clamp :: "viewport \<Rightarrow> viewport_metrics \<Rightarrow> viewport" where
  "clamp v metrics =
     (if vp_follow_tail v \<or> vm_effective_scroll_offset metrics = 0 then follow_tail
      else scrolled (vm_effective_scroll_offset metrics))"

definition scroll_up :: "nat \<Rightarrow> viewport_metrics \<Rightarrow> viewport" where
  "scroll_up rows metrics =
     (let scroll_offset = min (sat_add (vm_effective_scroll_offset metrics) rows) (vm_max_scroll_offset metrics)
      in if scroll_offset = 0 then follow_tail else scrolled scroll_offset)"

definition scroll_down :: "nat \<Rightarrow> viewport_metrics \<Rightarrow> viewport" where
  "scroll_down rows metrics =
     (let scroll_offset = vm_effective_scroll_offset metrics - rows
      in if scroll_offset = 0 then follow_tail else scrolled scroll_offset)"

definition page_up :: "viewport_metrics \<Rightarrow> viewport" where
  "page_up metrics = scroll_up (vm_visible_rows metrics) metrics"

definition page_down :: "viewport_metrics \<Rightarrow> viewport" where
  "page_down metrics = scroll_down (vm_visible_rows metrics) metrics"

definition stabilize_attach_viewport_after_output ::
    "viewport \<Rightarrow> viewport_metrics \<Rightarrow> viewport_metrics \<Rightarrow> viewport" where
  "stabilize_attach_viewport_after_output v before after =
     (if vp_follow_tail v \<or> vm_total_rows after \<le> vm_total_rows before then clamp v after
      else clamp (scrolled (sat_add (vm_effective_scroll_offset before)
             (vm_total_rows after - vm_total_rows before))) after)"


section \<open>Actions of the user\<close>

datatype viewport_action = ScrollUp nat | ScrollDown nat | PageUp | PageDown | Home | End

definition apply_action :: "viewport_action \<Rightarrow> viewport_metrics \<Rightarrow> viewport" where
  "apply_action action metrics =
     (case action of
        ScrollUp rows \<Rightarrow> scroll_up rows metrics
      | ScrollDown rows \<Rightarrow> scroll_down rows metrics
      | PageUp \<Rightarrow> page_up metrics
      | PageDown \<Rightarrow> page_down metrics
      | Home \<Rightarrow> scrolled (vm_max_scroll_offset metrics)
      | End \<Rightarrow> follow_tail)"

text \<open>\<open>apply_attach_viewport_actions\<close>, where \<open>metrics\<close> computes the metrics of a viewport of
  the pane: whether the viewport changed, and the viewport.\<close>

definition apply_attach_viewport_actions ::
    "(viewport \<Rightarrow> viewport_metrics) \<Rightarrow> viewport \<Rightarrow> viewport_action list \<Rightarrow> bool \<times> viewport" where
  "apply_attach_viewport_actions metrics v actions =
     (if actions = [] then (False, v)
      else (let next = fold (\<lambda>action v. apply_action action (metrics v)) actions v in (next \<noteq> v, next)))"

definition esc :: u8 where "esc = 0x1b"

definition viewport_keys :: "(u8 list \<times> viewport_action) list" where
  "viewport_keys =
     [(esc # asc ''[5~'', PageUp), (esc # asc ''[6~'', PageDown), (esc # asc ''[H'', Home),
      (esc # asc ''[1~'', Home), (esc # asc ''[7~'', Home), (esc # asc ''OH'', Home),
      (esc # asc ''[F'', End), (esc # asc ''[4~'', End), (esc # asc ''[8~'', End), (esc # asc ''OF'', End)]"

text \<open>\<open>checked_sub(b'0')\<close> rejects what is below a digit, and nothing above one.\<close>

fun parse_u16_from :: "nat \<Rightarrow> u8 list \<Rightarrow> nat option" where
  "parse_u16_from v [] = Some v"
| "parse_u16_from v (b # bs) =
     (if 65535 < v * 10 \<or> unat b < 48 \<or> 65535 < v * 10 + (unat b - 48) then None
      else parse_u16_from (v * 10 + (unat b - 48)) bs)"

definition parse_u16 :: "u8 list \<Rightarrow> nat option" where
  "parse_u16 bytes = (if bytes = [] then None else parse_u16_from 0 bytes)"

definition parse_sgr_mouse_wheel :: "u8 list \<Rightarrow> (viewport_action \<times> nat) option" where
  "parse_sgr_mouse_wheel bytes =
     (if \<not> starts_with bytes (esc # asc ''[<'') then None
      else case position (\<lambda>b. b = 0x4d \<or> b = 0x6d) bytes of
        None \<Rightarrow> None
      | Some end \<Rightarrow>
          (case parse_u16 (hd (split_on 0x3b (drop 3 (take end bytes)))) of
             None \<Rightarrow> None
           | Some button \<Rightarrow>
               if button = 64 then Some (ScrollUp 3, end + 1)
               else if button = 65 then Some (ScrollDown 3, end + 1) else None))"

fun find_key :: "(u8 list \<times> viewport_action) list \<Rightarrow> u8 list \<Rightarrow> (viewport_action \<times> nat) option" where
  "find_key [] bytes = None"
| "find_key ((key, action) # keys) bytes =
     (if starts_with bytes key then Some (action, length key) else find_key keys bytes)"

definition parse_attach_viewport_control :: "u8 list \<Rightarrow> (viewport_action \<times> nat) option" where
  "parse_attach_viewport_control bytes =
     (case find_key viewport_keys bytes of Some r \<Rightarrow> Some r | None \<Rightarrow> parse_sgr_mouse_wheel bytes)"

lemma control_consumes:
  "parse_attach_viewport_control bytes = Some (a, n) \<Longrightarrow> 0 < n \<and> n \<le> length bytes"
proof -
  have k: "find_key keys bytes = Some (a, n) \<Longrightarrow> \<exists>k. (k, a) \<in> set keys \<and> starts_with bytes k \<and> n = length k" for keys
    by (induction keys) (auto split: if_splits)
  have "\<forall>(k, a) \<in> set viewport_keys. 0 < length k" by (simp add: viewport_keys_def)
  moreover have "parse_sgr_mouse_wheel bytes = Some (a, n) \<Longrightarrow> ?thesis"
    by (auto simp: parse_sgr_mouse_wheel_def split: if_splits option.splits dest: position_SomeD)
  moreover assume "parse_attach_viewport_control bytes = Some (a, n)"
  ultimately show ?thesis using k starts_with_length
    by (fastforce simp: parse_attach_viewport_control_def split: option.splits)
qed

function split_attach_viewport_controls :: "u8 list \<Rightarrow> u8 list \<times> viewport_action list" where
  "split_attach_viewport_controls [] = ([], [])"
| "split_attach_viewport_controls (b # bytes) =
     (case parse_attach_viewport_control (b # bytes) of
        Some (action, consumed) \<Rightarrow>
          (case split_attach_viewport_controls (drop consumed (b # bytes)) of
             (forward, actions) \<Rightarrow> (forward, action # actions))
      | None \<Rightarrow>
          (case split_attach_viewport_controls bytes of (forward, actions) \<Rightarrow> (b # forward, actions)))"
  by pat_completeness auto
termination
  by (relation "measure length") (auto dest: control_consumes)


section \<open>Drawing\<close>

definition push_attr_codes :: "cell_attrs \<Rightarrow> u8 list list" where
  "push_attr_codes attrs =
     (if ca_bold attrs then [asc ''1''] else []) @ (if ca_dim attrs then [asc ''2''] else [])
     @ (if ca_italic attrs then [asc ''3''] else []) @ (if ca_underlined attrs then [asc ''4''] else [])
     @ (if ca_slow_blink attrs then [asc ''5''] else []) @ (if ca_rapid_blink attrs then [asc ''6''] else [])
     @ (if ca_reversed attrs then [asc ''7''] else []) @ (if ca_hidden attrs then [asc ''8''] else [])
     @ (if ca_crossed_out attrs then [asc ''9''] else [])"

definition push_color_codes :: "nat \<Rightarrow> nat \<Rightarrow> color_spec option \<Rightarrow> u8 list list" where
  "push_color_codes prefix reset color =
     (case color of
        None \<Rightarrow> []
      | Some Color_Default \<Rightarrow> [dec reset]
      | Some (Color_Indexed index) \<Rightarrow> [dec prefix, asc ''5'', dec (unat index)]
      | Some (Color_Rgb r g b) \<Rightarrow> [dec prefix, asc ''2'', dec (unat r), dec (unat g), dec (unat b)])"

fun join_semicolon :: "u8 list list \<Rightarrow> u8 list" where
  "join_semicolon [] = []"
| "join_semicolon [c] = c"
| "join_semicolon (c # d # cs) = c @ 0x3b # join_semicolon (d # cs)"

definition style_codes :: "cell_style \<Rightarrow> u8 list list" where
  "style_codes style =
     asc ''0'' # push_attr_codes (cs_attrs style) @ push_color_codes 38 39 (cs_fg style)
     @ push_color_codes 48 49 (cs_bg style) @ push_color_codes 58 59 (cs_underline_color style)"

definition push_style :: "cell_style \<Rightarrow> u8 list" where
  "push_style style = esc # asc ''['' @ join_semicolon (style_codes style) @ asc ''m''"

definition push_cursor_position :: "nat \<Rightarrow> nat \<Rightarrow> u8 list" where
  "push_cursor_position row col = esc # asc ''['' @ dec row @ asc '';'' @ dec col @ asc ''H''"

definition push_plain_text_cells :: "rstr \<Rightarrow> nat \<Rightarrow> u8 list" where
  "push_plain_text_cells txt max_cols = push_style cell_style_default @ utf8 (take max_cols txt)"

definition render_attach_cell :: "surface_cell \<Rightarrow> bool \<Rightarrow> u8 list" where
  "render_attach_cell cell at_right_edge =
     (case sc_width cell of
        CW_Continuation \<Rightarrow> []
      | CW_Double \<Rightarrow>
          if at_right_edge then push_style (sc_style cell) @ asc '' ''
          else push_style (sc_style cell) @ (if sc_text cell = [] then asc '' '' else utf8 (sc_text cell))
      | CW_Single \<Rightarrow>
          push_style (sc_style cell) @ (if sc_text cell = [] then asc '' '' else utf8 (sc_text cell)))"

definition render_attach_surface_row :: "surface_row option \<Rightarrow> nat \<Rightarrow> u8 list" where
  "render_attach_surface_row row max_cols =
     (case row of
        None \<Rightarrow> []
      | Some row \<Rightarrow>
          concat (map (\<lambda>(col_idx, cell). render_attach_cell cell (col_idx + 1 = max_cols))
            (enumerate 0 (take max_cols (sr_cells row)))))"

definition render_attach_scrollback_line :: "scrollback_line \<Rightarrow> nat \<Rightarrow> u8 list" where
  "render_attach_scrollback_line line max_cols =
     (if sr_cells (sl_row line) = [] then push_plain_text_cells (sl_text line) max_cols
      else render_attach_surface_row (Some (sl_row line)) max_cols)"

definition attach_screen_reset :: "u8 list" where
  "attach_screen_reset =
     esc # asc ''[0m'' @ esc # asc ''[2J'' @ esc # asc ''[3J'' @ esc # asc ''[H''"

definition get :: "'a list \<Rightarrow> nat \<Rightarrow> 'a option" where
  "get xs i = (if i < length xs then Some (xs ! i) else None)"

definition render_row :: "surface_snapshot \<Rightarrow> scrollback_line list \<Rightarrow> nat \<Rightarrow> nat \<times> nat \<Rightarrow> u8 list" where
  "render_row snapshot scrollback max_cols r =
     (case r of (render_row_idx, logical_row_idx) \<Rightarrow>
        push_cursor_position (render_row_idx + 1) 1
        @ (case get scrollback logical_row_idx of
             Some line \<Rightarrow> render_attach_scrollback_line line max_cols
           | None \<Rightarrow>
               render_attach_surface_row (get (ss_rows snapshot) (logical_row_idx - length scrollback)) max_cols)
        @ esc # asc ''[0m'' @ esc # asc ''[K'')"

definition render_attach_viewport_bytes ::
    "surface_snapshot \<Rightarrow> scrollback_line list \<Rightarrow> viewport \<Rightarrow> pane_size \<Rightarrow> u8 list" where
  "render_attach_viewport_bytes snapshot scrollback v terminal_size =
     (let visible_rows = unat (sz_rows terminal_size);
          max_cols = unat (sz_cols terminal_size);
          metrics = metrics_of v snapshot (Some scrollback) visible_rows
      in attach_screen_reset
         @ concat (map (render_row snapshot scrollback max_cols)
             (enumerate 0 [vm_start_row metrics..<vm_end_row metrics]))
         @ esc # asc ''[0m'')"


section \<open>The window\<close>

lemma metrics_simps [simp]:
  "vm_visible_rows (metrics_from_counts v s b n) = n"
  "vm_total_rows (metrics_from_counts v s b n) = sat_add b s"
  "vm_max_scroll_offset (metrics_from_counts v s b n) = sat_add b s - n"
  "vm_effective_scroll_offset (metrics_from_counts v s b n)
     = (if vp_follow_tail v then 0 else min (vp_scroll_offset v) (sat_add b s - n))"
  by (simp_all add: metrics_from_counts_def Let_def)

lemma start_row_eq:
  "vm_start_row (metrics_from_counts v s b n)
     = sat_add b s - n - (if vp_follow_tail v then 0 else min (vp_scroll_offset v) (sat_add b s - n))"
  by (simp add: metrics_from_counts_def Let_def)

lemma end_row_eq:
  "vm_end_row (metrics_from_counts v s b n)
     = vm_start_row (metrics_from_counts v s b n) + min n (sat_add b s)"
  by (auto simp: metrics_from_counts_def Let_def min_def)

lemma viewport_simps [simp]:
  "vp_follow_tail follow_tail" "vp_scroll_offset follow_tail = 0"
  "\<not> vp_follow_tail (scrolled k)" "vp_scroll_offset (scrolled k) = k"
  by (simp_all add: follow_tail_def scrolled_def)

text \<open>C28: Scrolling. The window of a viewport always lies inside the retained rows and is as high as
  the terminal when there are enough rows. Every key or wheel step moves its first row by exactly
  the rows it says, stopping at the first row of the scrollback and at the live tail.\<close>

theorem actions_move_window:
  "let m = metrics_from_counts v s b n; m' = metrics_from_counts (apply_action action m) s b n;
       tail = sat_add b s - n
   in vm_start_row m \<le> tail \<and> vm_end_row m = vm_start_row m + min n (sat_add b s)
      \<and> vm_end_row m \<le> sat_add b s
      \<and> vm_start_row m' =
          (case action of
             ScrollUp k \<Rightarrow> vm_start_row m - k
           | ScrollDown k \<Rightarrow> min (vm_start_row m + k) tail
           | PageUp \<Rightarrow> vm_start_row m - n
           | PageDown \<Rightarrow> min (vm_start_row m + n) tail
           | Home \<Rightarrow> 0
           | End \<Rightarrow> tail)"
proof -
  have sat: "min (min (e + k) usize_max) (sat_add b s - n) = min (e + k) (sat_add b s - n)" for e k
    using le_trans [OF diff_le_self sat_add_le, of b s n] by (simp add: min.assoc min_absorb2)
  have up: "vm_start_row (metrics_from_counts (scroll_up k (metrics_from_counts v s b n)) s b n)
      = vm_start_row (metrics_from_counts v s b n) - k" for k
    by (auto simp: scroll_up_def start_row_eq sat_add_def [of _ k] sat Let_def)
  have down: "vm_start_row (metrics_from_counts (scroll_down k (metrics_from_counts v s b n)) s b n)
      = min (vm_start_row (metrics_from_counts v s b n) + k) (sat_add b s - n)" for k
    by (auto simp: scroll_down_def start_row_eq Let_def)
  have home: "vm_start_row (metrics_from_counts (scrolled (sat_add b s - n)) s b n) = 0"
    and end_: "vm_start_row (metrics_from_counts follow_tail s b n) = sat_add b s - n"
    by (simp_all add: start_row_eq)
  have tail: "vm_start_row (metrics_from_counts v s b n) \<le> sat_add b s - n" by (simp add: start_row_eq)
  then have "vm_end_row (metrics_from_counts v s b n) \<le> sat_add b s" by (simp add: end_row_eq)
  then show ?thesis using tail unfolding Let_def
    by (cases action) (simp_all add: apply_action_def up down home end_ page_up_def page_down_def end_row_eq)
qed

text \<open>C37: Output while the view is scrolled. When \<open>k\<close> rows are added below a scrolled view, the
  correction that is meant to keep the view on its rows leaves the viewport as it was, so that the
  view moves down by \<open>k\<close> rows; it would have stayed with its offset raised by \<open>k\<close>. The reason is
  that the corrected viewport is clamped to metrics that were computed for the uncorrected one.\<close>

theorem scrolled_view_drifts:
  assumes "\<not> vp_follow_tail v" "0 < vp_scroll_offset v" "vp_scroll_offset v \<le> b + s - n"
    "0 < k" "b + k + s \<le> usize_max"
  shows "let before = metrics_from_counts v s b n; after = metrics_from_counts v s (b + k) n;
      v' = stabilize_attach_viewport_after_output v before after
    in v' = v
      \<and> vm_start_row (metrics_from_counts v' s (b + k) n) = vm_start_row before + k
      \<and> vm_start_row (metrics_from_counts (scrolled (vp_scroll_offset v + k)) s (b + k) n) = vm_start_row before"
proof -
  have t: "sat_add b s = b + s" "sat_add (b + k) s = b + k + s"
    using assms(5) by (simp_all add: sat_add_exact)
  have e: "min (vp_scroll_offset v) (b + s - n) = vp_scroll_offset v"
    "min (vp_scroll_offset v) (b + k + s - n) = vp_scroll_offset v" using assms(3) by simp_all
  have v: "v = scrolled (vp_scroll_offset v)" using assms(1) by (simp add: scrolled_def)
  have c: "clamp w (metrics_from_counts v s (b + k) n) = v" if "\<not> vp_follow_tail w" for w
    using that assms(1,2) e(2) v by (simp add: clamp_def t)
  have "stabilize_attach_viewport_after_output v (metrics_from_counts v s b n) (metrics_from_counts v s (b + k) n) = v"
    using assms(1,4) c by (simp add: stabilize_attach_viewport_after_output_def t)
  moreover have "vm_start_row (metrics_from_counts v s (b + k) n) = vm_start_row (metrics_from_counts v s b n) + k"
    "vm_start_row (metrics_from_counts (scrolled (vp_scroll_offset v + k)) s (b + k) n)
      = vm_start_row (metrics_from_counts v s b n)"
    using assms(1-4) by (simp_all add: start_row_eq t)
  ultimately show ?thesis by (simp add: Let_def)
qed

theorem scrolled_view_drifts_witness:
  "vm_start_row (metrics_from_counts (scrolled 5) 24 100 24) = 95
   \<and> stabilize_attach_viewport_after_output (scrolled 5) (metrics_from_counts (scrolled 5) 24 100 24)
       (metrics_from_counts (scrolled 5) 24 110 24) = scrolled 5
   \<and> vm_start_row (metrics_from_counts (scrolled 5) 24 110 24) = 105"
  using scrolled_view_drifts [of "scrolled 5" 100 24 24 10]
  by (simp add: Let_def start_row_eq sat_add_def usize_max_def)


section \<open>Controls in the input\<close>

text \<open>What a user types: text without escapes, the keys and the wheel of the viewport, and other
  short escape sequences, such as the arrow keys.\<close>

datatype typed = Text "u8 list" | Control "u8 list" viewport_action | Wheel bool nat nat | Other u8 u8

fun typed_bytes :: "typed \<Rightarrow> u8 list" where
  "typed_bytes (Text bs) = bs"
| "typed_bytes (Control key action) = key"
| "typed_bytes (Wheel up col row) =
     esc # asc ''[<'' @ (if up then asc ''64'' else asc ''65'') @ asc '';'' @ dec col @ asc '';'' @ dec row @ asc ''M''"
| "typed_bytes (Other a b) = [esc, a, b]"

fun typed_ok :: "typed \<Rightarrow> bool" where
  "typed_ok (Text bs) = (esc \<notin> set bs)"
| "typed_ok (Control key action) = ((key, action) \<in> set viewport_keys)"
| "typed_ok (Wheel up col row) = True"
| "typed_ok (Other a b) =
     (a \<noteq> esc \<and> b \<noteq> esc
      \<and> (a = 0x5b \<longrightarrow> b \<notin> set (asc ''5617F48H<'')) \<and> (a = 0x4f \<longrightarrow> b \<notin> set (asc ''HF'')))"

fun typed_forward :: "typed \<Rightarrow> u8 list" where
  "typed_forward (Text bs) = bs"
| "typed_forward (Other a b) = [esc, a, b]"
| "typed_forward _ = []"

fun typed_actions :: "typed \<Rightarrow> viewport_action list" where
  "typed_actions (Control key action) = [action]"
| "typed_actions (Wheel up col row) = [if up then ScrollUp 3 else ScrollDown 3]"
| "typed_actions _ = []"

lemma no_control: "b \<noteq> esc \<Longrightarrow> parse_attach_viewport_control (b # bs) = None"
  by (simp add: parse_attach_viewport_control_def viewport_keys_def parse_sgr_mouse_wheel_def)

lemma other_no_control: "typed_ok (Other a b) \<Longrightarrow> parse_attach_viewport_control (esc # a # b # bs) = None"
  by (auto simp: parse_attach_viewport_control_def viewport_keys_def parse_sgr_mouse_wheel_def)

lemma key_control:
  assumes "(k, a) \<in> set viewport_keys" shows "parse_attach_viewport_control (k @ bs) = Some (a, length k)"
proof -
  have "list_all (\<lambda>(k, a). find_key viewport_keys (k @ bs) = Some (a, length k)) viewport_keys"
    by (simp add: viewport_keys_def)
  then have "find_key viewport_keys (k @ bs) = Some (a, length k)" using assms by (auto simp: list_all_iff)
  then show ?thesis by (simp add: parse_attach_viewport_control_def)
qed

lemma wheel_control:
  "parse_attach_viewport_control (typed_bytes (Wheel up col row) @ bs)
     = Some (if up then ScrollUp 3 else ScrollDown 3, length (typed_bytes (Wheel up col row)))"
proof -
  let ?button = "if up then asc ''64'' else asc ''65''"
  let ?body = "?button @ asc '';'' @ dec col @ asc '';'' @ dec row"
  have "(0x4d :: u8) \<notin> set (dec k)" "(0x6d :: u8) \<notin> set (dec k)" for k
    by (rule not_digit_in_dec; simp add: is_digit_def)+
  then have "\<forall>b \<in> set (esc # asc ''[<'' @ ?body). \<not> (b = 0x4d \<or> b = 0x6d)"
    by (auto simp: esc_def)
  note hit = this
  let ?pre = "esc # asc ''[<'' @ ?body"
  have w: "typed_bytes (Wheel up col row) @ bs = ?pre @ 0x4d # bs" by simp
  have p: "position (\<lambda>b. b = 0x4d \<or> b = 0x6d) (typed_bytes (Wheel up col row) @ bs) = Some (length ?pre)"
    unfolding w by (rule position_append_hit [OF hit]) simp
  have "take (length ?pre) (typed_bytes (Wheel up col row) @ bs) = ?pre"
    unfolding w append_eq_conv_conj [symmetric] by simp
  then have d: "drop 3 (take (length ?pre) (typed_bytes (Wheel up col row) @ bs)) = ?body"
    by (simp only:) simp
  have "hd (split_on 0x3b ?body) = ?button"
    using split_on_append_sep [of 0x3b ?button] by auto
  then have "parse_sgr_mouse_wheel (typed_bytes (Wheel up col row) @ bs)
      = Some (if up then ScrollUp 3 else ScrollDown 3, length ?pre + 1)"
    unfolding parse_sgr_mouse_wheel_def p option.case d by (simp add: parse_u16_def)
  then show ?thesis
    by (simp add: parse_attach_viewport_control_def viewport_keys_def esc_def)
qed

lemma split_plain: "esc \<notin> set bs \<Longrightarrow> split_attach_viewport_controls (bs @ rest)
    = (case split_attach_viewport_controls rest of (f, a) \<Rightarrow> (bs @ f, a))"
  by (induction bs) (auto simp: no_control split: prod.split)

lemma split_control:
  assumes "parse_attach_viewport_control (k @ rest) = Some (a, length k)"
  shows "split_attach_viewport_controls (k @ rest)
    = (case split_attach_viewport_controls rest of (f, as) \<Rightarrow> (f, a # as))"
proof -
  have "k \<noteq> []" using control_consumes [OF assms] by auto
  then obtain b k' where k: "k = b # k'" by (cases k) auto
  show ?thesis using assms unfolding k by (simp split: prod.split)
qed

lemma split_other:
  assumes "typed_ok (Other a b)"
  shows "split_attach_viewport_controls (esc # a # b # rest)
    = (case split_attach_viewport_controls rest of (f, as) \<Rightarrow> (esc # a # b # f, as))"
  using assms other_no_control [OF assms, of rest] by (simp add: no_control split: prod.split)




section \<open>The rows drawn\<close>

text \<open>One line of the document that the viewport looks at: the scrollback and below it the screen.\<close>

definition draw_line :: "nat \<Rightarrow> nat \<times> (scrollback_line + surface_row) \<Rightarrow> u8 list" where
  "draw_line max_cols r =
     (case r of (i, line) \<Rightarrow>
        push_cursor_position (i + 1) 1
        @ (case line of Inl l \<Rightarrow> render_attach_scrollback_line l max_cols
           | Inr row \<Rightarrow> render_attach_surface_row (Some row) max_cols)
        @ esc # asc ''[0m'' @ esc # asc ''[K'')"

definition document :: "surface_snapshot \<Rightarrow> scrollback_line list \<Rightarrow> (scrollback_line + surface_row) list" where
  "document snapshot scrollback = map Inl scrollback @ map Inr (ss_rows snapshot)"

lemma render_row_line:
  assumes "j < length (document sn sb)"
  shows "render_row sn sb cols (i, j) = draw_line cols (i, document sn sb ! j)"
  using assms by (auto simp: render_row_def draw_line_def document_def get_def nth_append split: sum.split)

text \<open>C27: What an attached terminal shows. The bytes drawn for a viewport clear the screen and then put,
  from the top, exactly the rows of the document (scrollback above, screen below) that lie in
  the window; at the live tail these are its last rows.\<close>

theorem render_draws_window:
  assumes "length (ss_rows sn) = unat (sz_rows (ss_size sn))"
    and "length (document sn sb) \<le> usize_max"
  shows "let m = metrics_of v sn (Some sb) (unat (sz_rows z));
      shown = take (vm_end_row m - vm_start_row m) (drop (vm_start_row m) (document sn sb))
    in render_attach_viewport_bytes sn sb v z
        = attach_screen_reset @ concat (map (draw_line (unat (sz_cols z))) (enumerate 0 shown)) @ esc # asc ''[0m''
      \<and> (vp_follow_tail v \<longrightarrow> shown = last_n (unat (sz_rows z)) (document sn sb))"
proof -
  let ?n = "unat (sz_rows z)" and ?c = "unat (sz_cols z)" and ?doc = "document sn sb"
  let ?m = "metrics_of v sn (Some sb) ?n"
  let ?shown = "take (vm_end_row ?m - vm_start_row ?m) (drop (vm_start_row ?m) ?doc)"
  have len: "length ?doc = length sb + unat (sz_rows (ss_size sn))" using assms(1) by (simp add: document_def)
  then have sat: "sat_add (length sb) (unat (sz_rows (ss_size sn))) = length ?doc"
    using assms(2) by (simp add: sat_add_exact)
  have range: "vm_start_row ?m \<le> vm_end_row ?m" "vm_end_row ?m \<le> length ?doc"
    by (auto simp: metrics_of_def end_row_eq start_row_eq sat)
  have "map (render_row sn sb ?c) (enumerate 0 [vm_start_row ?m..<vm_end_row ?m])
      = map (draw_line ?c) (enumerate 0 ?shown)"
    using range by (intro nth_equalityI) (simp_all add: render_row_line nth_enumerate_eq)
  then have "render_attach_viewport_bytes sn sb v z
      = attach_screen_reset @ concat (map (draw_line ?c) (enumerate 0 ?shown)) @ esc # asc ''[0m''"
    by (simp add: render_attach_viewport_bytes_def Let_def)
  moreover have "?shown = last_n ?n ?doc" if "vp_follow_tail v"
    using that by (simp add: metrics_of_def end_row_eq start_row_eq sat last_n_def)
  ultimately show ?thesis by (simp add: Let_def)
qed

theorem render_draws_window_witness:
  "let sn = surface_blank (mk_size 2 4); sb = [\<lparr>sl_text = lit ''old'', sl_row = surface_row_default\<rparr>]
   in render_attach_viewport_bytes sn sb viewport_default (mk_size 2 4)
      = attach_screen_reset
        @ concat (map (draw_line 4) (enumerate 0 [Inr surface_row_default, Inr surface_row_default]))
        @ esc # asc ''[0m''"
proof -
  let ?sn = "surface_blank (mk_size 2 4)" and ?sb = "[\<lparr>sl_text = lit ''old'', sl_row = surface_row_default\<rparr>]"
  have two: "replicate 2 x = [x, x]" for x :: 'a by (simp add: numeral_2_eq_2)
  have d: "document ?sn ?sb = [Inl (hd ?sb), Inr surface_row_default, Inr surface_row_default]"
    by (simp add: document_def surface_blank_def mk_size_def two)
  have m: "metrics_of viewport_default ?sn (Some ?sb) 2
      = \<lparr>vm_total_rows = 3, vm_visible_rows = 2, vm_max_scroll_offset = 1, vm_effective_scroll_offset = 0,
         vm_start_row = 1, vm_end_row = 3\<rparr>"
    by (simp add: metrics_of_def metrics_from_counts_def viewport_default_def surface_blank_def mk_size_def
        sat_add_def usize_max_def)
  show ?thesis using render_draws_window [of ?sn ?sb viewport_default "mk_size 2 4"] d m
    by (simp add: surface_blank_def mk_size_def usize_max_def Let_def)
qed

end
