(* ===== verification/Manager_Attach.thy ===== *)
theory Manager_Attach
  imports Manager_Input Viewport Detach_Matcher
begin

text \<open>
  Attaching a pane to the real terminal (\<open>attach_blocking\<close> of \<open>manager.rs\<close> and
  \<open>manager/attach_support.rs\<close>): the main loop, the input with its detach chord and viewport
  controls, the output with its two policies, detaching, and the way back after an error.

  The host terminal, its suspend and restore, and the text that \<open>derive(Debug)\<close> gives an error
  are operations of a host record. A computation yields \<open>None\<close> when it panics or never
  ends, and otherwise an error or a value together with the state. A sleep is not a step: the time it
  takes is in the clock.
\<close>

section \<open>Computations that fail early\<close>

text \<open>The operator \<open>?\<close>: an error ends the computation, and the state it left stays.\<close>

definition and_then ::
    "(('e + 'a) \<times> 'st) option \<Rightarrow> ('a \<Rightarrow> 'st \<Rightarrow> (('e + 'b) \<times> 'st) option) \<Rightarrow> (('e + 'b) \<times> 'st) option" where
  "and_then r f =
     Option.bind r (\<lambda>(x, st). case x of Inl e \<Rightarrow> Some (Inl e, st) | Inr v \<Rightarrow> f v st)"

lemma and_then_simps [simp]:
  "and_then None f = None"
  "and_then (Some (Inl e, st)) f = Some (Inl e, st)"
  "and_then (Some (Inr v, st)) f = f v st"
  by (simp_all add: and_then_def)

lemma and_then_mono [partial_function_mono]:
  assumes "mono_option B" "\<And>v st. mono_option (\<lambda>f. C v st f)"
  shows "mono_option (\<lambda>f. and_then (B f) (\<lambda>v st. C v st f))"
proof -
  have "mono_option (\<lambda>f. case x of Inl e \<Rightarrow> Some (Inl e, st) | Inr v \<Rightarrow> C v st f)" for x st
    by (cases x) (simp_all add: assms(2) option.const_mono)
  then show ?thesis unfolding and_then_def by (intro bind_mono assms(1)) (simp add: split_def)
qed

lemma and_then_SomeE:
  assumes "and_then r f = Some (x, st)"
  obtains (err) e where "r = Some (Inl e, st)" "x = Inl e"
  | (ok) v st1 where "r = Some (Inr v, st1)" "f v st1 = Some (x, st)"
proof (cases r)
  case (Some y)
  obtain z st1 where y: "y = (z, st1)" by fastforce
  then show thesis using assms Some err ok by (cases z) auto
qed (use assms in simp)


section \<open>The host and the errors\<close>

text \<open>The trait \<open>PaneAttachTerminal\<close>. An error is given by its \<open>Debug\<close> text, which is all that
  is used of it; a chunk is the time it was read at and its bytes.\<close>

record 't attach_terminal =
  tl_read_stdin :: "'t \<Rightarrow> (rstr + (nat \<times> u8 list) option) \<times> 't"
  tl_write_stdout :: "'t \<Rightarrow> u8 list \<Rightarrow> (rstr + unit) \<times> 't"
  tl_size :: "'t \<Rightarrow> (rstr + pane_size) \<times> 't"

text \<open>The trait \<open>PaneAttachTerminalControl\<close>, over the state of the host terminal's profile and the
  restore tokens.\<close>

record ('c, 'k) attach_control =
  ct_suspend :: "'c \<Rightarrow> attach_screen_policy \<Rightarrow> (rstr + 'k) \<times> 'c"
  ct_restore :: "'c \<Rightarrow> 'k \<Rightarrow> (rstr + unit) \<times> 'c \<times> 'k"

record ('t, 'c, 'k) attach_host =
  ah_terminal :: "'t attach_terminal"
  ah_control :: "('c, 'k) attach_control"
  ah_debug :: "pane_error \<Rightarrow> rstr"

datatype pane_attach_error =
    AE_Pane pane_error
  | AE_Suspend rstr
  | AE_Restore rstr
  | AE_TerminalInput rstr
  | AE_TerminalOutput rstr
  | AE_TerminalSize rstr
  | AE_PtyRuntime rstr
  | AE_PtyWrite rstr
  | AE_PtyResize rstr
  | AE_SurfaceFeed rstr
  | AE_SurfaceResize rstr

definition pane_attach_error_str :: "pane_attach_error \<Rightarrow> rstr" where
  "pane_attach_error_str e =
     (case e of
        AE_Pane error \<Rightarrow> pane_error_str error
      | AE_Suspend message \<Rightarrow> lit ''attach suspend failed: '' @ message
      | AE_Restore message \<Rightarrow> lit ''attach restore failed: '' @ message
      | AE_TerminalInput message \<Rightarrow> lit ''attach stdin read failed: '' @ message
      | AE_TerminalOutput message \<Rightarrow> lit ''attach stdout write failed: '' @ message
      | AE_TerminalSize message \<Rightarrow> lit ''attach terminal size failed: '' @ message
      | AE_PtyRuntime message \<Rightarrow> lit ''attach PTY runtime failed: '' @ message
      | AE_PtyWrite message \<Rightarrow> lit ''attach PTY write failed: '' @ message
      | AE_PtyResize message \<Rightarrow> lit ''attach PTY resize failed: '' @ message
      | AE_SurfaceFeed message \<Rightarrow> lit ''attach surface feed failed: '' @ message
      | AE_SurfaceResize message \<Rightarrow> lit ''attach surface resize failed: '' @ message)"

text \<open>The quotes that \<open>Debug\<close> puts around a string are taken off.\<close>

definition normalize_debug_message :: "rstr \<Rightarrow> rstr" where
  "normalize_debug_message message =
     (if 2 \<le> length (utf8 message) \<and> hd message = 0x22 \<and> last message = 0x22
      then butlast (tl message) else message)"

definition pane_attach_error_to_pane_error :: "pane_attach_error \<Rightarrow> pane_error" where
  "pane_attach_error_to_pane_error error =
     (let n = normalize_debug_message
      in case error of
        AE_Pane error \<Rightarrow> error
      | AE_Suspend message \<Rightarrow> Attach_Error (lit ''attach suspend failed: '' @ n message)
      | AE_Restore message \<Rightarrow> Attach_Error (lit ''attach restore failed: '' @ n message)
      | AE_TerminalSize message \<Rightarrow> Attach_Error (lit ''attach terminal size failed: '' @ n message)
      | AE_PtyRuntime message \<Rightarrow> Attach_Error (lit ''attach PTY runtime failed: '' @ message)
      | AE_TerminalInput message \<Rightarrow> Io_Error Io_Read (lit ''attach stdin read failed: '' @ n message)
      | AE_TerminalOutput message \<Rightarrow> Io_Error Io_Write (lit ''attach stdout write failed: '' @ n message)
      | AE_PtyWrite message \<Rightarrow> Io_Error Io_Write (lit ''attach PTY write failed: '' @ n message)
      | AE_PtyResize message \<Rightarrow> Io_Error Io_Resize (lit ''attach PTY resize failed: '' @ n message)
      | AE_SurfaceFeed message \<Rightarrow> Surface_Error (lit ''attach surface feed failed: '' @ n message)
      | AE_SurfaceResize message \<Rightarrow> Surface_Error (lit ''attach surface resize failed: '' @ n message))"

record attach_outcome =
  aoc_reason :: detach_reason
  aoc_child_exit_code :: "int option"
  aoc_terminal_size :: pane_size
  aoc_restored_size :: pane_size
  aoc_remaining_input :: "u8 list"


section \<open>The state of an attached pane\<close>

text \<open>The manager, the terminal, the guard (control and token) and the variables of
  \<open>run_attached_pane\<close>.\<close>

record ('s, 'p, 't, 'c, 'k) attaching =
  at_manager :: "('s, 'p) pane_manager"
  at_terminal :: 't
  at_control :: 'c
  at_token :: "'k option"
  at_matcher :: manager_detach_matcher
  at_viewport :: viewport
  at_terminal_size :: pane_size
  at_replay_buffer :: "u8 list"
  at_child_exit_code :: "int option"
  at_restored_embedded_size :: bool

text \<open>A step of the manager alone.\<close>

definition lift_m ::
    "(('e + 'a) \<times> ('s, 'p) pane_manager) option \<Rightarrow> ('s, 'p, 't, 'c, 'k) attaching \<Rightarrow>
     (('e + 'a) \<times> ('s, 'p, 't, 'c, 'k) attaching) option" where
  "lift_m r st = map_option (\<lambda>(x, m). (x, st \<lparr>at_manager := m\<rparr>)) r"

definition infallible :: "('st option) \<Rightarrow> (('e + unit) \<times> 'st) option" where
  "infallible r = map_option (\<lambda>st. (Inr (), st)) r"

definition set_mode :: "pane_id \<Rightarrow> interaction_mode \<Rightarrow> ('s, 'p) pane_manager \<Rightarrow> ('s, 'p) pane_manager" where
  "set_mode pane_id mode m =
     (case mg_panes m pane_id of
        None \<Rightarrow> m | Some pane \<Rightarrow> put_pane pane_id (pane \<lparr>pn_interaction_mode := mode\<rparr>) m)"

definition set_interaction_mode_result ::
    "pane_id \<Rightarrow> interaction_mode \<Rightarrow> ('s, 'p) pane_manager \<Rightarrow>
     (pane_attach_error + unit) \<times> ('s, 'p) pane_manager" where
  "set_interaction_mode_result pane_id mode m =
     (if mg_panes m pane_id = None then (Inl (AE_Pane (NotFound_Error pane_id)), m)
      else (Inr (), set_mode pane_id mode m))"

definition push_attach_error_event ::
    "pane_id \<Rightarrow> pane_attach_error \<Rightarrow> ('s, 'p) pane_manager \<Rightarrow> ('s, 'p) pane_manager option" where
  "push_attach_error_event pane_id error m =
     (if mg_panes m pane_id = None then Some m
      else push_event pane_id (Ev_Error (pane_attach_error_to_pane_error error)) m)"

definition mode_str :: "interaction_mode \<Rightarrow> rstr" where
  "mode_str mode =
     (case mode of Embedded \<Rightarrow> lit ''Embedded'' | Attaching \<Rightarrow> lit ''Attaching''
      | Attached \<Rightarrow> lit ''Attached'' | Detaching \<Rightarrow> lit ''Detaching'')"

definition prepare_attach :: "pane_id \<Rightarrow> ('s, 'p) pane_manager \<Rightarrow> pane_attach_error + pane_size" where
  "prepare_attach pane_id m =
     (case mg_panes m pane_id of
        None \<Rightarrow> Inl (AE_Pane (NotFound_Error pane_id))
      | Some pane \<Rightarrow>
          if pn_process pane = None then Inl (AE_Pane surface_only)
          else
            (case ensure_running_state pane of
               Inl error \<Rightarrow> Inl (AE_Pane error)
             | Inr _ \<Rightarrow>
                 if pn_interaction_mode pane \<noteq> Embedded then
                   Inl (AE_Pane (InvalidState_Error (lit ''Embedded interaction mode'')
                     (mode_str (pn_interaction_mode pane))))
                 else Inr (sb_size (mc_surface (mg_config m)) (pn_surface pane))))"

definition resize_attached_pane ::
    "(pane_error \<Rightarrow> rstr) \<Rightarrow> pane_id \<Rightarrow> pane_size \<Rightarrow> bool \<Rightarrow> ('s, 'p) pane_manager \<Rightarrow>
     ((pane_attach_error + unit) \<times> ('s, 'p) pane_manager) option" where
  "resize_attached_pane debug pane_id size1 emit_event m =
     (case size_try_new (sz_rows size1) (sz_cols size1) of
        Inl e \<Rightarrow> Some (Inl (AE_Pane e), m)
      | Inr _ \<Rightarrow>
          (case resize_backends is_live AE_Pane (AE_SurfaceResize \<circ> debug) (AE_PtyResize \<circ> debug)
                  pane_id size1 m of
             (Inl e, m) \<Rightarrow> Some (Inl e, m)
           | (Inr _, m) \<Rightarrow> do {
               m \<leftarrow> record_size_history pane_id size1 m;
               m \<leftarrow> (if emit_event then push_event pane_id (Ev_Resized size1) m else Some m);
               Some (Inr (), m)
             }))"

definition record_attach_output_frame ::
    "pane_id \<Rightarrow> u8 list \<Rightarrow> ('s, 'p) pane_manager \<Rightarrow>
     ((pane_attach_error + unit) \<times> ('s, 'p) pane_manager) option" where
  "record_attach_output_frame pane_id bytes m = do {
     (r, m) \<leftarrow> record_output_frame pane_id bytes m;
     case r of
       Inr _ \<Rightarrow> Some (Inr (), m)
     | Inl error \<Rightarrow> do {
         let error = surface_error error;
         m \<leftarrow> fail_pane pane_id error m;
         Some (Inl (AE_SurfaceFeed (pane_error_str error)), m)
       }
   }"

definition next_attach_pty_frame ::
    "pane_id \<Rightarrow> ('s, 'p) pane_manager \<Rightarrow> (pane_attach_error + pty_frame option) \<times> ('s, 'p) pane_manager" where
  "next_attach_pty_frame pane_id m =
     (case mg_panes m pane_id of
        None \<Rightarrow> (Inl (AE_Pane (NotFound_Error pane_id)), m)
      | Some pane \<Rightarrow>
          (case next_frame pane_id m of
             None \<Rightarrow> (Inl (AE_Pane surface_only), m)
           | Some (frame, m) \<Rightarrow> (Inr frame, m)))"

definition write_attach_input ::
    "(pane_error \<Rightarrow> rstr) \<Rightarrow> pane_id \<Rightarrow> u8 list \<Rightarrow> ('s, 'p) pane_manager \<Rightarrow>
     ((pane_attach_error + unit) \<times> ('s, 'p) pane_manager) option" where
  "write_attach_input debug pane_id bytes m =
     (case mg_panes m pane_id of
        None \<Rightarrow> Some (Inl (AE_Pane (NotFound_Error pane_id)), m)
      | Some pane \<Rightarrow>
          (case pn_process pane of
             None \<Rightarrow> Some (Inl (AE_Pane surface_only), m)
           | Some process \<Rightarrow>
               (case write_bytes (pp_writer (mc_process (mg_config m))) process bytes of
                  (r, process) \<Rightarrow>
                    (let m = put_pane pane_id (pane \<lparr>pn_process := Some process\<rparr>) m
                     in case r of
                       Inl error \<Rightarrow> Some (Inl (AE_PtyWrite (debug error)), m)
                     | Inr _ \<Rightarrow> do {
                         m \<leftarrow> push_event pane_id (input_sent Input_Bytes (length bytes)) m;
                         Some (Inr (), m)
                       }))))"

definition attach_viewport_metrics ::
    "pane_id \<Rightarrow> ('s, 'p) pane_manager \<Rightarrow> pane_size \<Rightarrow> viewport \<Rightarrow> viewport_metrics" where
  "attach_viewport_metrics pane_id m terminal_size v =
     (case mg_panes m pane_id of
        None \<Rightarrow> metrics_from_counts v 0 0 (unat (sz_rows terminal_size))
      | Some pane \<Rightarrow>
          (let sb = mc_surface (mg_config m)
           in metrics_from_counts v (unat (sz_rows (sb_size sb (pn_surface pane))))
                (length (sb_scrollback sb (pn_surface pane))) (unat (sz_rows terminal_size))))"

abbreviation tail_shown :: "pane_id \<Rightarrow> ('s, 'p, 't, 'c, 'k) attaching \<Rightarrow> bool" where
  "tail_shown pane_id st \<equiv>
     is_at_tail (attach_viewport_metrics pane_id (at_manager st) (at_terminal_size st) (at_viewport st))"


section \<open>Steps with the terminal\<close>

definition write_stdout ::
    "('t, 'c, 'k) attach_host \<Rightarrow> u8 list \<Rightarrow> ('s, 'p, 't, 'c, 'k) attaching \<Rightarrow>
     ((pane_attach_error + unit) \<times> ('s, 'p, 't, 'c, 'k) attaching) option" where
  "write_stdout h bytes st =
     (case tl_write_stdout (ah_terminal h) (at_terminal st) bytes of
        (Inl e, t) \<Rightarrow> Some (Inl (AE_TerminalOutput e), st \<lparr>at_terminal := t\<rparr>)
      | (Inr _, t) \<Rightarrow> Some (Inr (), st \<lparr>at_terminal := t\<rparr>))"

definition read_size ::
    "('t, 'c, 'k) attach_host \<Rightarrow> ('s, 'p, 't, 'c, 'k) attaching \<Rightarrow>
     ((pane_attach_error + pane_size) \<times> ('s, 'p, 't, 'c, 'k) attaching) option" where
  "read_size h st =
     (case tl_size (ah_terminal h) (at_terminal st) of
        (Inl e, t) \<Rightarrow> Some (Inl (AE_TerminalSize e), st \<lparr>at_terminal := t\<rparr>)
      | (Inr z, t) \<Rightarrow> Some (Inr z, st \<lparr>at_terminal := t\<rparr>))"

definition manager_render_bytes ::
    "pane_id \<Rightarrow> ('s, 'p) pane_manager \<Rightarrow> viewport \<Rightarrow> pane_size \<Rightarrow> pane_attach_error + u8 list" where
  "manager_render_bytes pane_id m v terminal_size =
     (case mg_panes m pane_id of
        None \<Rightarrow> Inl (AE_Pane (NotFound_Error pane_id))
      | Some pane \<Rightarrow>
          (let sb = mc_surface (mg_config m)
           in Inr (render_attach_viewport_bytes (ps_surface (pane_snapshot_of sb pane_id pane))
                (sb_scrollback sb (pn_surface pane)) v terminal_size)))"

definition render_attach_viewport ::
    "('t, 'c, 'k) attach_host \<Rightarrow> pane_id \<Rightarrow> ('s, 'p, 't, 'c, 'k) attaching \<Rightarrow>
     ((pane_attach_error + unit) \<times> ('s, 'p, 't, 'c, 'k) attaching) option" where
  "render_attach_viewport h pane_id st =
     (case manager_render_bytes pane_id (at_manager st) (at_viewport st) (at_terminal_size st) of
        Inl e \<Rightarrow> Some (Inl e, st)
      | Inr bytes \<Rightarrow> write_stdout h bytes st)"

text \<open>The guard: restoring keeps the token when it fails, and \<open>Drop\<close> tries once more.\<close>

definition guard_detach ::
    "('t, 'c, 'k) attach_host \<Rightarrow> ('s, 'p, 't, 'c, 'k) attaching \<Rightarrow>
     ((pane_attach_error + unit) \<times> ('s, 'p, 't, 'c, 'k) attaching) option" where
  "guard_detach h st =
     (case at_token st of
        None \<Rightarrow> Some (Inr (), st)
      | Some token \<Rightarrow>
          (case ct_restore (ah_control h) (at_control st) token of
             (Inl e, c, token) \<Rightarrow>
               Some (Inl (AE_Restore e), st \<lparr>at_control := c, at_token := Some token\<rparr>)
           | (Inr _, c, token) \<Rightarrow> Some (Inr (), st \<lparr>at_control := c, at_token := None\<rparr>)))"

definition guard_disarm :: "('s, 'p, 't, 'c, 'k) attaching \<Rightarrow> ('s, 'p, 't, 'c, 'k) attaching" where
  "guard_disarm st = st \<lparr>at_token := None\<rparr>"

definition guard_drop ::
    "('t, 'c, 'k) attach_host \<Rightarrow> ('s, 'p, 't, 'c, 'k) attaching \<Rightarrow> ('s, 'p, 't, 'c, 'k) attaching" where
  "guard_drop h st =
     (case at_token st of
        None \<Rightarrow> st
      | Some token \<Rightarrow>
          (case ct_restore (ah_control h) (at_control st) token of
             (_, c, _) \<Rightarrow> st \<lparr>at_control := c, at_token := None\<rparr>))"


section \<open>Input\<close>

datatype stdin_poll = SP_Idle | SP_Forwarded | SP_ViewportChanged | SP_Detached "u8 list"

text \<open>What is done with forwarded input: the viewport controls are applied, the rest is
  written; the result is whether the viewport changed.\<close>

definition forward_attach_input ::
    "('t, 'c, 'k) attach_host \<Rightarrow> pane_id \<Rightarrow> u8 list \<Rightarrow> ('s, 'p, 't, 'c, 'k) attaching \<Rightarrow>
     ((pane_attach_error + bool) \<times> ('s, 'p, 't, 'c, 'k) attaching) option" where
  "forward_attach_input h pane_id bytes st =
     (let (forward, actions) = split_attach_viewport_controls bytes;
          (viewport_changed, v) =
            apply_attach_viewport_actions
              (attach_viewport_metrics pane_id (at_manager st) (at_terminal_size st)) (at_viewport st) actions;
          st = st \<lparr>at_viewport := v\<rparr>
      in if forward = [] then Some (Inr viewport_changed, st)
         else and_then (lift_m (write_attach_input (ah_debug h) pane_id forward (at_manager st)) st)
                (\<lambda>_ st. Some (Inr viewport_changed, st)))"

definition poll_attach_stdin ::
    "('t, 'c, 'k) attach_host \<Rightarrow> pane_id \<Rightarrow> ('s, 'p, 't, 'c, 'k) attaching \<Rightarrow>
     ((pane_attach_error + stdin_poll) \<times> ('s, 'p, 't, 'c, 'k) attaching) option" where
  "poll_attach_stdin h pane_id st =
     (case tl_read_stdin (ah_terminal h) (at_terminal st) of
        (Inl e, t) \<Rightarrow> Some (Inl (AE_TerminalInput e), st \<lparr>at_terminal := t\<rparr>)
      | (Inr (Some (at1, bytes)), t) \<Rightarrow>
          (case mm_feed_bytes (at_matcher st) bytes at1 of
             (result, matcher) \<Rightarrow>
               and_then
                 (forward_attach_input h pane_id (fr_forward result)
                    (st \<lparr>at_terminal := t, at_matcher := matcher\<rparr>))
                 (\<lambda>viewport_changed st. Some
                    (Inr (if fr_detached result then SP_Detached (fr_remaining result)
                          else if viewport_changed then SP_ViewportChanged else SP_Forwarded), st)))
      | (Inr None, t) \<Rightarrow>
          (case now (at_manager st) of
             (instant, m) \<Rightarrow>
               (case mm_check_timeout (at_matcher st) instant of
                  (None, matcher) \<Rightarrow>
                    Some (Inr SP_Idle, st \<lparr>at_terminal := t, at_manager := m, at_matcher := matcher\<rparr>)
                | (Some bytes, matcher) \<Rightarrow>
                    and_then
                      (forward_attach_input h pane_id bytes
                         (st \<lparr>at_terminal := t, at_manager := m, at_matcher := matcher\<rparr>))
                      (\<lambda>viewport_changed st. Some
                         (Inr (if viewport_changed then SP_ViewportChanged else SP_Forwarded), st)))))"


section \<open>Output\<close>

record drain_result =
  dr_made_progress :: bool
  dr_child_exited :: bool

definition attach_frames_per_tick :: nat where "attach_frames_per_tick = 32"
definition detach_drain_quiet :: nat where "detach_drain_quiet = 200"
definition detach_drain_max_wait :: nat where "detach_drain_max_wait = 2000"

text \<open>One received frame.\<close>

definition handle_attach_frame ::
    "('t, 'c, 'k) attach_host \<Rightarrow> pane_id \<Rightarrow> attach_output_policy \<Rightarrow> bool \<Rightarrow> pty_frame \<Rightarrow> drain_result \<Rightarrow>
     ('s, 'p, 't, 'c, 'k) attaching \<Rightarrow>
     ((pane_attach_error + drain_result) \<times> ('s, 'p, 't, 'c, 'k) attaching) option" where
  "handle_attach_frame h pane_id output forward_stdout frame result st =
     (let result = result \<lparr>dr_made_progress := True\<rparr>;
          m = at_manager st
      in case frame of
        PF_Output _ bytes _ \<Rightarrow>
          and_then (if forward_stdout then write_stdout h bytes st else Some (Inr (), st))
            (\<lambda>_ st. and_then
              (case output of
                 FanoutToSurfaceAndStdout \<Rightarrow> lift_m (record_attach_output_frame pane_id bytes (at_manager st)) st
               | StdoutOnlyThenReplay \<Rightarrow>
                   Some (Inr (), st \<lparr>at_replay_buffer := at_replay_buffer st @ bytes\<rparr>))
              (\<lambda>_ st. Some (Inr result, st)))
      | PF_Exited _ code _ \<Rightarrow>
          and_then
            (lift_m (infallible (handle_exit_frame pane_id code m))
               (st \<lparr>at_child_exit_code :=
                  (if at_child_exit_code st = None then code else at_child_exit_code st)\<rparr>))
            (\<lambda>_ st. Some (Inr (result \<lparr>dr_child_exited := True\<rparr>), st))
      | PF_Error _ message _ \<Rightarrow>
          and_then (lift_m (infallible (fail_pane pane_id (Io_Error Io_Read message) m)) st)
            (\<lambda>_ st. Some (Inl (AE_PtyRuntime message), st))
      | PF_Overflow _ frames1 bytes1 _ \<Rightarrow>
          and_then
            (lift_m (infallible (push_event pane_id
               (Ev_Overflow \<lparr>ofe_dropped_frames = frames1, ofe_dropped_bytes = bytes1,
                             ofe_queue = PtyOutputFrames\<rparr>) m)) st)
            (\<lambda>_ st. Some (Inr result, st))
      | PF_CursorPositionRequest _ _ \<Rightarrow> Some (Inr result, st))"

fun drain_attach_frames ::
    "nat \<Rightarrow> ('t, 'c, 'k) attach_host \<Rightarrow> pane_id \<Rightarrow> attach_output_policy \<Rightarrow> bool \<Rightarrow> drain_result \<Rightarrow>
     ('s, 'p, 't, 'c, 'k) attaching \<Rightarrow>
     ((pane_attach_error + drain_result) \<times> ('s, 'p, 't, 'c, 'k) attaching) option" where
  "drain_attach_frames 0 h pane_id output forward_stdout result st = Some (Inr result, st)"
| "drain_attach_frames (Suc n) h pane_id output forward_stdout result st =
     and_then (lift_m (Some (next_attach_pty_frame pane_id (at_manager st))) st)
       (\<lambda>frame st. case frame of
          None \<Rightarrow> Some (Inr result, st)
        | Some frame \<Rightarrow>
            and_then (handle_attach_frame h pane_id output forward_stdout frame result st)
              (\<lambda>result st. drain_attach_frames n h pane_id output forward_stdout result st))"

definition drain_attach_output ::
    "('t, 'c, 'k) attach_host \<Rightarrow> pane_id \<Rightarrow> attach_output_policy \<Rightarrow> bool \<Rightarrow>
     ('s, 'p, 't, 'c, 'k) attaching \<Rightarrow>
     ((pane_attach_error + drain_result) \<times> ('s, 'p, 't, 'c, 'k) attaching) option" where
  "drain_attach_output h pane_id output forward_stdout st =
     drain_attach_frames attach_frames_per_tick h pane_id output forward_stdout
       \<lparr>dr_made_progress = False, dr_child_exited = False\<rparr> st"

partial_function (option) detaching_loop ::
    "('t, 'c, 'k) attach_host \<Rightarrow> pane_id \<Rightarrow> attach_output_policy \<Rightarrow> bool \<Rightarrow> nat \<Rightarrow> nat \<Rightarrow>
     ('s, 'p, 't, 'c, 'k) attaching \<Rightarrow>
     ((pane_attach_error + unit) \<times> ('s, 'p, 't, 'c, 'k) attaching) option" where
  "detaching_loop h pane_id output forward_stdout started last_activity st =
     and_then (drain_attach_output h pane_id output forward_stdout st)
       (\<lambda>result st.
          let (last_activity, m) =
                (if dr_made_progress result then now (at_manager st) else (last_activity, at_manager st));
              (instant, m) = now m;
              st = st \<lparr>at_manager := m\<rparr>
          in if detach_drain_quiet \<le> instant - last_activity \<or> detach_drain_max_wait \<le> instant - started
             then Some (Inr (), st)
             else detaching_loop h pane_id output forward_stdout started last_activity st)"

definition drain_detaching_output ::
    "('t, 'c, 'k) attach_host \<Rightarrow> pane_id \<Rightarrow> attach_output_policy \<Rightarrow> bool \<Rightarrow>
     ('s, 'p, 't, 'c, 'k) attaching \<Rightarrow>
     ((pane_attach_error + unit) \<times> ('s, 'p, 't, 'c, 'k) attaching) option" where
  "drain_detaching_output h pane_id output forward_stdout st =
     (case now (at_manager st) of
        (started, m) \<Rightarrow>
          detaching_loop h pane_id output forward_stdout started started (st \<lparr>at_manager := m\<rparr>))"


section \<open>Detaching and aborting\<close>

definition finish_detach ::
    "('t, 'c, 'k) attach_host \<Rightarrow> pane_id \<Rightarrow> attach_options \<Rightarrow> detach_reason \<Rightarrow> u8 list \<Rightarrow> nat \<Rightarrow> pane_size \<Rightarrow>
     ('s, 'p, 't, 'c, 'k) attaching \<Rightarrow>
     ((pane_attach_error + attach_outcome) \<times> ('s, 'p, 't, 'c, 'k) attaching) option" where
  "finish_detach h pane_id options reason remaining_input started_at embedded_size st =
     and_then (lift_m (Some (set_interaction_mode_result pane_id Detaching (at_manager st))) st)
     (\<lambda>_ st. and_then (drain_detaching_output h pane_id (ao_output options) (tail_shown pane_id st) st)
     (\<lambda>_ st. and_then
        (if ao_output options = StdoutOnlyThenReplay \<and> at_replay_buffer st \<noteq> [] then
           lift_m (record_attach_output_frame pane_id (at_replay_buffer st) (at_manager st))
             (st \<lparr>at_replay_buffer := []\<rparr>)
         else Some (Inr (), st))
     (\<lambda>_ st. and_then
        (if ao_resize options = UseRealTerminalSize then
           and_then (lift_m (resize_attached_pane (ah_debug h) pane_id embedded_size True (at_manager st)) st)
             (\<lambda>_ st. Some (Inr (), st \<lparr>at_restored_embedded_size := True\<rparr>))
         else Some (Inr (), st))
     (\<lambda>_ st. and_then (guard_detach h st)
     (\<lambda>_ st. and_then (lift_m (Some (set_interaction_mode_result pane_id Embedded (at_manager st))) st)
     (\<lambda>_ st. case now (at_manager st) of
        (instant, m) \<Rightarrow>
          and_then
            (lift_m (infallible (push_event pane_id
               (Ev_AttachEnded \<lparr>aee_reason = reason, aee_restored_size = embedded_size,
                                aee_duration = instant - started_at\<rparr>) m)) st)
            (\<lambda>_ st. Some
               (Inr \<lparr>aoc_reason = reason, aoc_child_exit_code = at_child_exit_code st,
                     aoc_terminal_size = at_terminal_size st, aoc_restored_size = embedded_size,
                     aoc_remaining_input = remaining_input\<rparr>, st))))))))"

text \<open>An error of a step of the way back is only reported in the event stream.\<close>

definition report ::
    "pane_id \<Rightarrow> ((pane_attach_error + unit) \<times> ('s, 'p, 't, 'c, 'k) attaching) option \<Rightarrow>
     ('s, 'p, 't, 'c, 'k) attaching option" where
  "report pane_id r = do {
     (x, st) \<leftarrow> r;
     case x of
       Inr _ \<Rightarrow> Some st
     | Inl e \<Rightarrow> do {
         m \<leftarrow> push_attach_error_event pane_id e (at_manager st);
         Some (st \<lparr>at_manager := m\<rparr>)
       }
   }"

definition best_effort_abort_attach ::
    "('t, 'c, 'k) attach_host \<Rightarrow> pane_id \<Rightarrow> attach_options \<Rightarrow> pane_size \<Rightarrow> nat \<Rightarrow>
     ('s, 'p, 't, 'c, 'k) attaching \<Rightarrow> ('s, 'p, 't, 'c, 'k) attaching option" where
  "best_effort_abort_attach h pane_id options embedded_size started_at st = do {
     let st =
       (if map_option pn_interaction_mode (mg_panes (at_manager st) pane_id) = Some Attached
        then st \<lparr>at_manager := set_mode pane_id Detaching (at_manager st)\<rparr> else st);
     st \<leftarrow>
       (if ao_resize options = UseRealTerminalSize \<and> \<not> at_restored_embedded_size st
        then report pane_id
          (lift_m (resize_attached_pane (ah_debug h) pane_id embedded_size True (at_manager st)) st)
        else Some st);
     st \<leftarrow>
       (if at_token st \<noteq> None then do {
          st \<leftarrow> report pane_id (guard_detach h st);
          if at_token st \<noteq> None then do {
            st \<leftarrow> report pane_id (guard_detach h st);
            Some (if at_token st \<noteq> None then guard_disarm st else st)
          } else Some st
        } else Some st);
     let (instant, m) = now (set_mode pane_id Embedded (at_manager st));
     m \<leftarrow> push_event pane_id
       (Ev_AttachEnded \<lparr>aee_reason = Detach_Error, aee_restored_size = embedded_size,
                        aee_duration = instant - started_at\<rparr>) m;
     Some (st \<lparr>at_manager := m\<rparr>)
   }"


section \<open>The main loop\<close>

text \<open>The size check at the top of a round, with whether it made progress.\<close>

definition follow_terminal_size ::
    "('t, 'c, 'k) attach_host \<Rightarrow> pane_id \<Rightarrow> attach_options \<Rightarrow> ('s, 'p, 't, 'c, 'k) attaching \<Rightarrow>
     ((pane_attach_error + unit) \<times> ('s, 'p, 't, 'c, 'k) attaching) option" where
  "follow_terminal_size h pane_id options st =
     and_then (read_size h st)
     (\<lambda>current_size st.
        if current_size = at_terminal_size st then Some (Inr (), st)
        else
          (let st = st \<lparr>at_terminal_size := current_size\<rparr>
           in and_then
             (if ao_resize options = UseRealTerminalSize
              then lift_m (resize_attached_pane (ah_debug h) pane_id current_size True (at_manager st)) st
              else Some (Inr (), st))
             (\<lambda>_ st. render_attach_viewport h pane_id st)))"

text \<open>The output of a round: whether the child exited.\<close>

definition attach_output_round ::
    "('t, 'c, 'k) attach_host \<Rightarrow> pane_id \<Rightarrow> attach_options \<Rightarrow> ('s, 'p, 't, 'c, 'k) attaching \<Rightarrow>
     ((pane_attach_error + bool) \<times> ('s, 'p, 't, 'c, 'k) attaching) option" where
  "attach_output_round h pane_id options st =
     (let before = attach_viewport_metrics pane_id (at_manager st) (at_terminal_size st) (at_viewport st);
          forward_stdout = is_at_tail before
      in and_then (drain_attach_output h pane_id (ao_output options) forward_stdout st)
        (\<lambda>drained st.
           let st =
             (if \<not> forward_stdout \<and> dr_made_progress drained
              then st \<lparr>at_viewport := stabilize_attach_viewport_after_output (at_viewport st) before
                (attach_viewport_metrics pane_id (at_manager st) (at_terminal_size st) (at_viewport st))\<rparr>
              else st)
           in Some (Inr (dr_child_exited drained), st)))"

partial_function (option) attach_loop ::
    "('t, 'c, 'k) attach_host \<Rightarrow> pane_id \<Rightarrow> attach_options \<Rightarrow> nat \<Rightarrow> pane_size \<Rightarrow>
     ('s, 'p, 't, 'c, 'k) attaching \<Rightarrow>
     ((pane_attach_error + attach_outcome) \<times> ('s, 'p, 't, 'c, 'k) attaching) option" where
  "attach_loop h pane_id options started_at embedded_size st =
     and_then (follow_terminal_size h pane_id options st)
     (\<lambda>_ st. and_then (poll_attach_stdin h pane_id st)
     (\<lambda>polled st. case polled of
        SP_Detached remaining_input \<Rightarrow>
          finish_detach h pane_id options Detach_UserChord remaining_input started_at embedded_size st
      | _ \<Rightarrow>
          and_then
            (if polled = SP_ViewportChanged then render_attach_viewport h pane_id st else Some (Inr (), st))
          (\<lambda>_ st. and_then (attach_output_round h pane_id options st)
          (\<lambda>child_exited st.
             if child_exited
             then finish_detach h pane_id options Detach_ChildExited [] started_at embedded_size st
             else attach_loop h pane_id options started_at embedded_size st))))"

definition run_attached_pane ::
    "('t, 'c, 'k) attach_host \<Rightarrow> pane_id \<Rightarrow> attach_options \<Rightarrow> nat \<Rightarrow> pane_size \<Rightarrow>
     ('s, 'p, 't, 'c, 'k) attaching \<Rightarrow>
     ((pane_attach_error + attach_outcome) \<times> ('s, 'p, 't, 'c, 'k) attaching) option" where
  "run_attached_pane h pane_id options started_at embedded_size st =
     and_then
       (if ao_resize options = UseRealTerminalSize
        then lift_m (resize_attached_pane (ah_debug h) pane_id (at_terminal_size st) True (at_manager st)) st
        else Some (Inr (), st))
     (\<lambda>_ st. and_then (lift_m (Some (set_interaction_mode_result pane_id Attached (at_manager st))) st)
     (\<lambda>_ st. and_then (render_attach_viewport h pane_id st)
     (\<lambda>_ st. attach_loop h pane_id options started_at embedded_size st)))"

definition attaching_new ::
    "attach_options \<Rightarrow> pane_size \<Rightarrow> ('s, 'p) pane_manager \<Rightarrow> 't \<Rightarrow> 'c \<Rightarrow> 'k option \<Rightarrow>
     ('s, 'p, 't, 'c, 'k) attaching" where
  "attaching_new options terminal_size m t c token =
     \<lparr>at_manager = m, at_terminal = t, at_control = c, at_token = token,
      at_matcher = mm_new (ao_detach options), at_viewport = viewport_default,
      at_terminal_size = terminal_size, at_replay_buffer = [], at_child_exit_code = None,
      at_restored_embedded_size = False\<rparr>"

text \<open>The attach proper, from the moment the host is suspended, with the way back after an error
  and the drop of the guard.\<close>

definition attach_suspended ::
    "('t, 'c, 'k) attach_host \<Rightarrow> pane_id \<Rightarrow> attach_options \<Rightarrow> pane_size \<Rightarrow>
     ('s, 'p, 't, 'c, 'k) attaching \<Rightarrow>
     ((pane_attach_error + attach_outcome) \<times> ('s, 'p, 't, 'c, 'k) attaching) option" where
  "attach_suspended h pane_id options embedded_size st = do {
     let (started_at, m) = now (at_manager st);
     m \<leftarrow> push_event pane_id
       (Ev_AttachStarted \<lparr>ase_terminal_size = at_terminal_size st, ase_embedded_size = embedded_size,
                          ase_screen_policy = ao_screen options\<rparr>) m;
     (result, st) \<leftarrow> run_attached_pane h pane_id options started_at embedded_size (st \<lparr>at_manager := m\<rparr>);
     st \<leftarrow> (case result of
        Inr _ \<Rightarrow> Some st
      | Inl error \<Rightarrow> do {
          m \<leftarrow> push_attach_error_event pane_id error (at_manager st);
          best_effort_abort_attach h pane_id options embedded_size started_at (st \<lparr>at_manager := m\<rparr>)
        });
     Some (result, guard_drop h st)
   }"

definition attach_blocking ::
    "('t, 'c, 'k) attach_host \<Rightarrow> pane_id \<Rightarrow> attach_options \<Rightarrow> ('s, 'p) pane_manager \<Rightarrow> 't \<Rightarrow> 'c \<Rightarrow>
     ((pane_attach_error + attach_outcome) \<times> ('s, 'p) pane_manager \<times> 't \<times> 'c) option" where
  "attach_blocking h pane_id options m t c =
     (if mg_panes m pane_id = None then Some (Inl (AE_Pane (NotFound_Error pane_id)), m, t, c)
      else do {
        m \<leftarrow> poll_pane_frames pane_id m;
        case prepare_attach pane_id m of
          Inl e \<Rightarrow> Some (Inl e, m, t, c)
        | Inr embedded_size \<Rightarrow>
            (case tl_size (ah_terminal h) t of
               (Inl e, t) \<Rightarrow> do {
                 m \<leftarrow> push_attach_error_event pane_id (AE_TerminalSize e) m;
                 Some (Inl (AE_TerminalSize e), m, t, c)
               }
             | (Inr terminal_size, t) \<Rightarrow>
                 (case set_interaction_mode_result pane_id Attaching m of
                    (Inl e, m) \<Rightarrow> Some (Inl e, m, t, c)
                  | (Inr _, m) \<Rightarrow>
                      (case ct_suspend (ah_control h) c (ao_screen options) of
                         (Inl e, c) \<Rightarrow> do {
                           m \<leftarrow> push_attach_error_event pane_id (AE_Suspend e) (set_mode pane_id Embedded m);
                           Some (Inl (AE_Suspend e), m, t, c)
                         }
                       | (Inr token, c) \<Rightarrow> do {
                           (result, st) \<leftarrow> attach_suspended h pane_id options embedded_size
                             (attaching_new options terminal_size m t c (Some token));
                           Some (result, at_manager st, at_terminal st, at_control st)
                         })))
      })"

end
