(* ===== verification/Manager_Attach_Example.thy ===== *)
theory Manager_Attach_Example
  imports Manager_Attach Manager_Example
begin

text \<open>
  The small host of \<open>Manager_Example\<close> with a terminal attached to its pane: its user presses the detach
  chord at once, and the attach returns with everything given back. Nothing here models code.
\<close>

definition slow_host :: "(u8 list, u8 list \<times> frame_queue) manager_config" where
  "slow_host = demo_host \<lparr>mc_instant := \<lambda>n. 1000 * n\<rparr>"

definition slow_pane :: "(u8 list, u8 list \<times> frame_queue) pane" where
  "slow_pane = (pane_spawned demo_pane [] ([], queue_new 4)) \<lparr>pn_state := Running\<rparr>"

definition slow_manager :: "(u8 list, u8 list \<times> frame_queue) pane_manager" where
  "slow_manager = (manager_new slow_host) \<lparr>mg_panes := [1 \<mapsto> slow_pane]\<rparr>"

text \<open>The terminal: the chunks that will be read.\<close>

definition demo_terminal :: "(nat \<times> u8 list) list attach_terminal" where
  "demo_terminal =
     \<lparr>tl_read_stdin = (\<lambda>t. case t of [] \<Rightarrow> (Inr None, []) | x # xs \<Rightarrow> (Inr (Some x), xs)),
      tl_write_stdout = (\<lambda>t _. (Inr (), t)),
      tl_size = (\<lambda>t. (Inr (mk_size 24 80), t))\<rparr>"

definition demo_control :: "(bool, unit) attach_control" where
  "demo_control =
     \<lparr>ct_suspend = (\<lambda>_ _. (Inr (), False)), ct_restore = (\<lambda>_ _. (Inr (), True, ()))\<rparr>"

definition demo_attach :: "((nat \<times> u8 list) list, bool, unit) attach_host" where
  "demo_attach = \<lparr>ah_terminal = demo_terminal, ah_control = demo_control, ah_debug = pane_error_str\<rparr>"

definition demo_options :: attach_options where
  "demo_options =
     \<lparr>ao_detach = \<lparr>dc_chord = [0x64], dc_partial_timeout = 5\<rparr>, ao_screen = ReuseHostAlternateScreen,
      ao_resize = KeepEmbeddedSize, ao_output = FanoutToSurfaceAndStdout, ao_restore = Restore_Full\<rparr>"

lemma slow_no_frame: "queue_try_recv (queue_new 4) = (None, queue_new 4)"
  by (simp add: queue_try_recv_def queue_new_def)

lemma slow_next:
  assumes "mg_panes m 1 = Some p" "pn_process p = Some ([], queue_new 4)" "mg_config m = slow_host"
  shows "next_frame 1 m = Some (None, m)"
proof -
  have "p \<lparr>pn_process := Some ([], queue_new 4)\<rparr> = p" using assms(2) by (cases p) simp
  then have "put_pane 1 (p \<lparr>pn_process := Some ([], queue_new 4)\<rparr>) m = m"
    using put_pane_same [OF assms(1)] by (simp only:)
  then show ?thesis
    using assms by (simp add: next_frame_def slow_host_def demo_host_def demo_process_def slow_no_frame)
qed

definition slow_quiet :: "(u8 list, u8 list \<times> frame_queue) pane_manager \<Rightarrow> bool" where
  "slow_quiet m = (mg_config m = slow_host
     \<and> (\<exists>p. mg_panes m 1 = Some p \<and> pn_process p = Some ([], queue_new 4)))"

lemma slow_start: "slow_quiet slow_manager"
  by (simp add: slow_quiet_def slow_manager_def manager_new_def slow_pane_def pane_spawned_def)

lemma slow_poll: "slow_quiet m \<Longrightarrow> poll_pane_frames 1 m = Some m"
  by (auto simp: slow_quiet_def poll_pane_frames_def slow_next numeral_2_eq_2)
    (simp add: slow_host_def demo_host_def numeral_2_eq_2 slow_next)

lemma slow_now: "slow_quiet m \<Longrightarrow>
    \<exists>m'. now m = (1000 * mg_ticks m, m') \<and> slow_quiet m' \<and> mg_ticks m' = mg_ticks m + 1"
  by (simp add: slow_quiet_def now_def slow_host_def)

lemma slow_mode: "slow_quiet m \<Longrightarrow> slow_quiet (set_mode 1 k m)"
  by (auto simp: slow_quiet_def set_mode_def put_pane_def)

lemma slow_set: "slow_quiet m \<Longrightarrow> set_interaction_mode_result 1 k m = (Inr (), set_mode 1 k m)"
  by (auto simp: slow_quiet_def set_interaction_mode_result_def)

lemma slow_event: "slow_quiet m \<Longrightarrow> \<exists>m'. push_event 1 k m = Some m' \<and> slow_quiet m'"
  by (auto simp: slow_quiet_def push_event_def put_pane_def Let_def retain_event_log_def split: option.splits event_log_retention.splits)

lemma slow_attach_frame: "slow_quiet m \<Longrightarrow> next_attach_pty_frame 1 m = (Inr None, m)"
  by (auto simp: slow_quiet_def next_attach_pty_frame_def slow_next)

lemma slow_render: "slow_quiet (at_manager st) \<Longrightarrow> render_attach_viewport demo_attach 1 st = Some (Inr (), st)"
  by (auto simp: slow_quiet_def render_attach_viewport_def manager_render_bytes_def write_stdout_def
      demo_attach_def demo_terminal_def Let_def)

lemma slow_drain: "slow_quiet (at_manager st) \<Longrightarrow>
    drain_attach_output demo_attach 1 output fwd st = Some (Inr \<lparr>dr_made_progress = False, dr_child_exited = False\<rparr>, st)"
  by (simp add: drain_attach_output_def attach_frames_per_tick_def numeral_eq_Suc slow_attach_frame lift_m_def)

lemma slow_detaching:
  assumes "slow_quiet (at_manager st)"
  shows "\<exists>m. drain_detaching_output demo_attach 1 output fwd st = Some (Inr (), st \<lparr>at_manager := m\<rparr>) \<and> slow_quiet m"
proof -
  obtain m where m: "now (at_manager st) = (1000 * mg_ticks (at_manager st), m)" "slow_quiet m"
    "mg_ticks m = mg_ticks (at_manager st) + 1" using slow_now [OF assms] by auto
  obtain m' where m': "now m = (1000 * mg_ticks m, m')" "slow_quiet m'" using slow_now [OF m(2)] by auto
  then show ?thesis using m
    by (intro exI [where x = m'], simp add: drain_detaching_output_def) (subst detaching_loop.simps, simp add: slow_drain detach_drain_quiet_def)
qed

lemma slow_finish:
  assumes "slow_quiet (at_manager st)" "at_token st = Some k"
  shows "\<exists>m. finish_detach demo_attach 1 demo_options reason rest t0 z st
    = Some (Inr \<lparr>aoc_reason = reason, aoc_child_exit_code = at_child_exit_code st,
        aoc_terminal_size = at_terminal_size st, aoc_restored_size = z, aoc_remaining_input = rest\<rparr>, st \<lparr>at_control := True, at_token := None, at_manager := m\<rparr>)"
proof -
  obtain m1 where m1: "drain_detaching_output demo_attach 1 FanoutToSurfaceAndStdout
      (tail_shown 1 (st \<lparr>at_manager := set_mode 1 Detaching (at_manager st)\<rparr>))
      (st \<lparr>at_manager := set_mode 1 Detaching (at_manager st)\<rparr>) = Some (Inr (), st \<lparr>at_manager := m1\<rparr>)" "slow_quiet m1"
    using slow_detaching [of "st \<lparr>at_manager := set_mode 1 Detaching (at_manager st)\<rparr>"] slow_mode [OF assms(1)] by fastforce
  obtain t m2 where m2: "now (set_mode 1 Embedded m1) = (t, m2)" "slow_quiet m2"
    using slow_now [OF slow_mode [OF m1(2)]] by blast
  obtain m3 where m3: "push_event 1 (Ev_AttachEnded \<lparr>aee_reason = reason, aee_restored_size = z, aee_duration = t - t0\<rparr>) m2
      = Some m3" using slow_event [OF m2(2)] by blast
  have g: "guard_detach demo_attach (st \<lparr>at_manager := m1\<rparr>)
      = Some (Inr (), st \<lparr>at_manager := m1, at_control := True, at_token := None\<rparr>)"
    using assms(2) by (simp add: guard_detach_def demo_attach_def demo_control_def)
  show ?thesis using assms(1) m1 m2 m3 g
    by (intro exI [where x = m3]) (simp add: finish_detach_def lift_m_def slow_set demo_options_def infallible_def)
qed

lemma demo_options_keep: "ao_resize demo_options = KeepEmbeddedSize"
  by (simp add: demo_options_def)

lemma slow_chord:
  "mm_feed_bytes (mm_new (ao_detach demo_options)) [0x64] 0 =
     (\<lparr>fr_forward = [], fr_detached = True, fr_remaining = []\<rparr>, mm_new (ao_detach demo_options))"
  by (auto simp: mm_feed_bytes_def mm_check_timeout_def mm_new_def next_input_def demo_options_def
      mm_feed_byte_inner_def mm_reset_def ctrl_letter_detach_chord_def parse_ctrl_detach_encoding_def split: prod.splits)


lemma demo_attached:
  "\<exists>r m'. attach_blocking demo_attach 1 demo_options slow_manager [(0, [0x64])] True = Some (Inr r, m', [], True)"
proof -
  have p: "prepare_attach 1 slow_manager = Inr (mk_size 1 80)"
    by (simp add: prepare_attach_def slow_manager_def manager_new_def slow_pane_def pane_spawned_def slow_host_def
       demo_host_def tape_surface_def ensure_running_state_def)
  obtain t m1 where m1: "now (set_mode 1 Attaching slow_manager) = (t, m1)" "slow_quiet m1"
    using slow_now [OF slow_mode [OF slow_start]] by blast
  obtain m2 where m2: "push_event 1 (Ev_AttachStarted \<lparr>ase_terminal_size = mk_size 24 80,
      ase_embedded_size = mk_size 1 80, ase_screen_policy = ao_screen demo_options\<rparr>) m1 = Some m2" "slow_quiet m2"
    using slow_event [OF m1(2)] by blast
  let ?new = "attaching_new demo_options (mk_size 24 80) (set_mode 1 Attaching slow_manager) [(0, [0x64 :: u8])] False (Some ())"
  let ?st = "?new \<lparr>at_manager := set_mode 1 Attached m2\<rparr>"
  have q: "slow_quiet (at_manager ?st)" using slow_mode [OF m2(2)] by simp
  have size: "follow_terminal_size demo_attach 1 demo_options ?st = Some (Inr (), ?st)"
    by (simp add: follow_terminal_size_def read_size_def demo_attach_def demo_terminal_def attaching_new_def)
  have poll: "poll_attach_stdin demo_attach 1 ?st = Some (Inr (SP_Detached []), ?st \<lparr>at_terminal := []\<rparr>)"
    by (simp add: poll_attach_stdin_def demo_attach_def demo_terminal_def attaching_new_def slow_chord
        forward_attach_input_def apply_attach_viewport_actions_def Let_def)
  obtain r m where fin: "finish_detach demo_attach 1 demo_options Detach_UserChord [] t (mk_size 1 80)
      (?st \<lparr>at_terminal := []\<rparr>) = Some (Inr r, ?st \<lparr>at_terminal := [], at_control := True, at_token := None, at_manager := m\<rparr>)"
    using slow_finish [of "?st \<lparr>at_terminal := []\<rparr>"] q by (fastforce simp: attaching_new_def)
  have "attach_loop demo_attach 1 demo_options t (mk_size 1 80) ?st
      = Some (Inr r, ?st \<lparr>at_terminal := [], at_control := True, at_token := None, at_manager := m\<rparr>)"
    by (subst attach_loop.simps) (simp add: size poll fin)
  then have run: "run_attached_pane demo_attach 1 demo_options t (mk_size 1 80) (?new \<lparr>at_manager := m2\<rparr>)
      = Some (Inr r, ?st \<lparr>at_terminal := [], at_control := True, at_token := None, at_manager := m\<rparr>)"
    using m2(2) q by (simp add: run_attached_pane_def lift_m_def slow_set slow_render demo_options_keep)
  have "attach_suspended demo_attach 1 demo_options (mk_size 1 80) ?new
      = Some (Inr r, ?st \<lparr>at_terminal := [], at_control := True, at_token := None, at_manager := m\<rparr>)"
    using m1(1) m2(1) run by (simp add: attach_suspended_def attaching_new_def guard_drop_def)
  then show ?thesis using p m1 m2(1)
    by (simp add: attach_blocking_def slow_poll slow_start slow_set attaching_new_def demo_attach_def
        demo_terminal_def demo_control_def)
      (simp add: slow_manager_def)
qed

end
