(* ===== verification/Manager_Attach_Laws.thy ===== *)
theory Manager_Attach_Laws
  imports Manager_Attach_Example
begin

text \<open>
  What holds of attaching a pane. The locale \<open>sequenced\<close> carries a relation between states through a
  computation that may fail early; the locale \<open>attach_steps\<close> carries a relation between the
  states of an attach through all of it, given that every single step respects it; it is
  interpreted for the evolution of the manager and for the account of the child's output.
\<close>

section \<open>Sequencing\<close>

text \<open>Every outcome of a computation is related to its start; the flag says whether it is a value.\<close>

definition leads :: "(bool \<Rightarrow> 'st \<Rightarrow> 'st \<Rightarrow> bool) \<Rightarrow> 'st \<Rightarrow> (('e + 'a) \<times> 'st) option \<Rightarrow> bool" where
  "leads R st r = (\<forall>x st'. r = Some (x, st') \<longrightarrow> R (\<not> isl x) st st')"

lemma leadsI: "(\<And>x st'. r = Some (x, st') \<Longrightarrow> R (\<not> isl x) st st') \<Longrightarrow> leads R st r"
  by (simp add: leads_def)

lemma leads_None [simp]: "leads R st None"
  by (simp add: leads_def)

lemma lift_m_Some:
  "lift_m r st = Some (x, st') \<longleftrightarrow> (\<exists>m. r = Some (x, m) \<and> st' = st \<lparr>at_manager := m\<rparr>)"
  by (auto simp: lift_m_def)

lemma infallible_Some: "infallible r = Some (x, st) \<longleftrightarrow> x = Inr () \<and> r = Some st"
  by (auto simp: infallible_def)

locale sequenced =
  fixes R :: "bool \<Rightarrow> 'st \<Rightarrow> 'st \<Rightarrow> bool"
  assumes keep: "R ok st st"
    and join: "R True st st1 \<Longrightarrow> R ok st1 st2 \<Longrightarrow> R ok st st2"
begin

lemma leads_value: "R True st st' \<Longrightarrow> leads R st (Some (Inr v, st'))"
  by (simp add: leads_def)

lemma leads_error: "R False st st' \<Longrightarrow> leads R st (Some (Inl e, st'))"
  by (simp add: leads_def)

lemma leads_then:
  assumes "leads R st r" "\<And>v st1. r = Some (Inr v, st1) \<Longrightarrow> leads R st1 (f v st1)"
  shows "leads R st (and_then r f)"
proof (rule leadsI)
  fix x st' assume "and_then r f = Some (x, st')"
  then show "R (\<not> isl x) st st'"
  proof (cases rule: and_then_SomeE)
    case (err e)
    then show ?thesis using assms(1) by (auto simp: leads_def)
  next
    case (ok v st1)
    have "R True st st1" using ok(1) assms(1) by (auto simp: leads_def)
    moreover have "R (\<not> isl x) st1 st'" using ok(2) assms(2) [OF ok(1)] by (simp add: leads_def)
    ultimately show ?thesis by (rule join)
  qed
qed

lemma leads_from: "R True st st1 \<Longrightarrow> leads R st1 r \<Longrightarrow> leads R st r"
  using join by (auto simp: leads_def)

lemma leads_same [simp]: "leads R st (Some (x, st))"
  using keep by (simp add: leads_def)

end

locale attach_steps = sequenced R
  for R :: "bool \<Rightarrow> ('s, 'p, 't, 'c, 'k) attaching \<Rightarrow> ('s, 'p, 't, 'c, 'k) attaching \<Rightarrow> bool" +
  fixes h :: "('t, 'c, 'k) attach_host" and i :: pane_id and opts :: attach_options
  assumes local_vars: "R True st (st \<lparr>at_viewport := v, at_terminal_size := z, at_restored_embedded_size := b\<rparr>)"
    and mode: "R True st (st \<lparr>at_manager := set_mode i k (at_manager st)\<rparr>)"
    and clock: "R True st (st \<lparr>at_manager := snd (now (at_manager st))\<rparr>)"
    and stdout: "leads R st (write_stdout h bytes st)"
    and term_size: "leads R st (read_size h st)"
    and stdin: "leads R st (poll_attach_stdin h i st)"
    and resize: "leads R st (lift_m (resize_attached_pane (ah_debug h) i z True (at_manager st)) st)"
    and no_frame: "next_attach_pty_frame i (at_manager st) = (r, m) \<Longrightarrow> (\<forall>f. r \<noteq> Inr (Some f)) \<Longrightarrow>
        R (\<not> isl r) st (st \<lparr>at_manager := m\<rparr>)"
    and frame: "next_attach_pty_frame i (at_manager st) = (Inr (Some f), m) \<Longrightarrow>
        leads R st (handle_attach_frame h i (ao_output opts) fwd f res (st \<lparr>at_manager := m\<rparr>))"
    and replay: "leads R st (lift_m (record_attach_output_frame i (at_replay_buffer st) (at_manager st))
        (st \<lparr>at_replay_buffer := []\<rparr>))"
    and restore: "leads R st (guard_detach h st)"
    and ended: "leads R st (lift_m (infallible (push_event i (Ev_AttachEnded e) (at_manager st))
        :: ((pane_attach_error + unit) \<times> ('s, 'p) pane_manager) option) st)"
begin

lemma resized: "R True st (st \<lparr>at_restored_embedded_size := b\<rparr>)"
  using local_vars [where st = st and v = "at_viewport st" and z = "at_terminal_size st" and b = b] by simp

lemma moved: "R True st (st \<lparr>at_viewport := v\<rparr>)"
  using local_vars [where st = st and v = v and z = "at_terminal_size st" and b = "at_restored_embedded_size st"] by simp

lemma grown: "R True st (st \<lparr>at_terminal_size := z\<rparr>)"
  using local_vars [where st = st and v = "at_viewport st" and z = z and b = "at_restored_embedded_size st"] by simp

lemma mode_result: "leads R st (lift_m (Some (set_interaction_mode_result i k (at_manager st))) st)"
  using mode [of st k] keep
  by (auto simp: set_interaction_mode_result_def lift_m_def leads_def split: if_splits)

lemma render: "leads R st (render_attach_viewport h i st)"
  using stdout keep by (simp add: render_attach_viewport_def split: sum.split)

lemma drain_frames: "leads R st (drain_attach_frames n h i (ao_output opts) fwd res st)"
proof (induction n arbitrary: res st)
  case (Suc n)
  obtain r m where r: "next_attach_pty_frame i (at_manager st) = (r, m)" by fastforce
  show ?case
  proof (cases "\<exists>f. r = Inr (Some f)")
    case True
    then obtain f where f: "r = Inr (Some f)" by blast
    have "leads R st (and_then (handle_attach_frame h i (ao_output opts) fwd f res (st \<lparr>at_manager := m\<rparr>))
        (drain_attach_frames n h i (ao_output opts) fwd))"
      by (rule leads_then [OF frame [OF r [unfolded f]] Suc.IH])
    then show ?thesis using r f by (simp add: lift_m_def)
  next
    case False
    then have "R (\<not> isl r) st (st \<lparr>at_manager := m\<rparr>)" using no_frame [OF r] by blast
    then show ?thesis using r False
      by (cases r) (auto simp: lift_m_def leads_def split: option.splits)
  qed
qed simp

lemma drain_output: "leads R st (drain_attach_output h i (ao_output opts) fwd st)"
  unfolding drain_attach_output_def by (rule drain_frames)

lemma tick: "now (at_manager st) = (t, m) \<Longrightarrow> R True st (st \<lparr>at_manager := m\<rparr>)"
  using clock [of st] by simp

lemma detaching:
  assumes d: "detaching_loop h i (ao_output opts) fwd started last_activity st = Some r"
  shows "R (\<not> isl (fst r)) st (snd r)"
proof -
  have "(h, i, ao_output opts) = (h, i, ao_output opts) \<longrightarrow> R (\<not> isl (fst r)) st (snd r)"
  proof (rule detaching_loop.raw_induct
      [of "\<lambda>h' i' out fwd started last st r. (h', i', out) = (h, i, ao_output opts) \<longrightarrow> R (\<not> isl (fst r)) st (snd r)",
       OF _ d], goal_cases)
    case 1: (1 loop h' i' out fwd started last st r)
    have "R (\<not> isl (fst r)) st (snd r)" if eq: "(h', i', out) = (h, i, ao_output opts)"
    proof -
    obtain x st' where r: "r = (x, st')" by fastforce
    have "leads R st (and_then (drain_attach_output h i (ao_output opts) fwd st)
       (\<lambda>result st.
          let (last_activity, m) =
                (if dr_made_progress result then now (at_manager st) else (last, at_manager st));
              (instant, m) = now m;
              st = st \<lparr>at_manager := m\<rparr>
          in if detach_drain_quiet \<le> instant - last_activity \<or> detach_drain_max_wait \<le> instant - started
             then Some (Inr (), st)
             else loop h i (ao_output opts) fwd started last_activity st))"
    proof (rule leads_then [OF drain_output])
      fix result and st1 :: "('s, 'p, 't, 'c, 'k) attaching"
      obtain l m where l: "(if dr_made_progress result then now (at_manager st1) else (last, at_manager st1)) = (l, m)"
        by fastforce
      obtain t m' where t: "now m = (t, m')" by fastforce
      have "R True st1 (st1 \<lparr>at_manager := m\<rparr>)"
        using l tick [of st1] keep by (cases "dr_made_progress result") auto
      moreover have "R True (st1 \<lparr>at_manager := m\<rparr>) (st1 \<lparr>at_manager := m'\<rparr>)"
        using tick [of "st1 \<lparr>at_manager := m\<rparr>"] t by simp
      ultimately have "R True st1 (st1 \<lparr>at_manager := m'\<rparr>)" by (rule join)
      moreover have "leads R (st1 \<lparr>at_manager := m'\<rparr>) (loop h i (ao_output opts) fwd started l (st1 \<lparr>at_manager := m'\<rparr>))"
        using 1(1) by (fastforce simp: leads_def)
      ultimately show "leads R st1
          (let (last_activity, m) =
                (if dr_made_progress result then now (at_manager st1) else (last, at_manager st1));
              (instant, m) = now m;
              st = st1 \<lparr>at_manager := m\<rparr>
          in if detach_drain_quiet \<le> instant - last_activity \<or> detach_drain_max_wait \<le> instant - started
             then Some (Inr (), st)
             else loop h i (ao_output opts) fwd started last_activity st)"
        unfolding l t Let_def prod.case by (auto intro: leads_value leads_from)
    qed
    then show ?thesis using 1(2) eq r by (clarsimp simp: leads_def Let_def split_def)
    qed
    then show ?case by blast
  qed
  then show ?thesis by simp
qed

lemma detaching_output: "leads R st (drain_detaching_output h i (ao_output opts) fwd st)"
proof -
  obtain t m where t: "now (at_manager st) = (t, m)" by fastforce
  have "leads R (st \<lparr>at_manager := m\<rparr>) (detaching_loop h i (ao_output opts) fwd t t (st \<lparr>at_manager := m\<rparr>))"
    using detaching by (fastforce intro: leadsI)
  then show ?thesis using t leads_from [OF tick [OF t]] by (simp add: drain_detaching_output_def)
qed

lemma finish: "leads R st (finish_detach h i opts reason rest t0 z st)"
proof -
  have replayed: "leads R st
      (if ao_output opts = StdoutOnlyThenReplay \<and> at_replay_buffer st \<noteq> [] then
         lift_m (record_attach_output_frame i (at_replay_buffer st) (at_manager st)) (st \<lparr>at_replay_buffer := []\<rparr>)
       else Some (Inr (), st))" for st
    using replay by simp
  have sized: "leads R st
      (if ao_resize opts = UseRealTerminalSize then
         and_then (lift_m (resize_attached_pane (ah_debug h) i z True (at_manager st)) st)
           (\<lambda>_ st. Some (Inr (), st \<lparr>at_restored_embedded_size := True\<rparr>))
       else Some (Inr (), st))" for st
    by (auto intro!: leads_then resize leads_value resized)
  have closed: "leads R st (case now (at_manager st) of (instant, m) \<Rightarrow>
      and_then (lift_m (infallible (push_event i
               (Ev_AttachEnded \<lparr>aee_reason = reason, aee_restored_size = z, aee_duration = instant - t0\<rparr>) m)) st)
            (\<lambda>_ st. Some (Inr (k st) :: pane_attach_error + attach_outcome, st)))" for st k
  proof -
    obtain t m where t: "now (at_manager st) = (t, m)" by fastforce
    have "leads R (st \<lparr>at_manager := m\<rparr>) (and_then (lift_m (infallible (push_event i
               (Ev_AttachEnded \<lparr>aee_reason = reason, aee_restored_size = z, aee_duration = t - t0\<rparr>) m))
               (st \<lparr>at_manager := m\<rparr>)) (\<lambda>_ st. Some (Inr (k st) :: pane_attach_error + attach_outcome, st)))"
      by (rule leads_then) (use ended [of "st \<lparr>at_manager := m\<rparr>"] in simp, simp)
    then show ?thesis using t leads_from [OF tick [OF t]] by (simp add: lift_m_def)
  qed
  show ?thesis unfolding finish_detach_def
    by (intro leads_then mode_result detaching_output replayed sized restore closed)
qed

lemma follow_size: "leads R st (follow_terminal_size h i opts st)"
proof -
  have sized: "leads R st1 (and_then
      (if ao_resize opts = UseRealTerminalSize
       then lift_m (resize_attached_pane (ah_debug h) i w True (at_manager st1)) st1
       else Some (Inr (), st1)) (\<lambda>_ st. render_attach_viewport h i st))" for w st1
    by (rule leads_then) (use resize keep in simp, rule render)
  have "leads R st1 (if w = at_terminal_size st1 then Some (Inr (), st1)
        else (let st = st1 \<lparr>at_terminal_size := w\<rparr>
           in and_then (if ao_resize opts = UseRealTerminalSize
              then lift_m (resize_attached_pane (ah_debug h) i w True (at_manager st)) st
              else Some (Inr (), st)) (\<lambda>_ st. render_attach_viewport h i st)))" for w st1
    using leads_from [OF grown [of st1 w] sized] by (simp add: Let_def)
  then show ?thesis unfolding follow_terminal_size_def by (intro leads_then term_size)
qed

lemma output_round: "leads R st (attach_output_round h i opts st)"
  unfolding attach_output_round_def Let_def
  by (rule leads_then [OF drain_output]) (auto intro: leads_value moved keep)

lemma attach_loop_leads:
  assumes d: "attach_loop h i opts t0 z st = Some r"
  shows "R (\<not> isl (fst r)) st (snd r)"
proof -
  have "(h, i, opts) = (h, i, opts) \<longrightarrow> R (\<not> isl (fst r)) st (snd r)"
  proof (rule attach_loop.raw_induct
      [of "\<lambda>h' i' o' t0 z st r. (h', i', o') = (h, i, opts) \<longrightarrow> R (\<not> isl (fst r)) st (snd r)", OF _ d], goal_cases)
    case 1: (1 loop h' i' o' t0 z st r)
    have "R (\<not> isl (fst r)) st (snd r)" if eq: "(h', i', o') = (h, i, opts)"
    proof -
      have loop: "leads R st (loop h i opts t0 z st)" for st
        using 1(1) by (fastforce intro: leadsI)
      have rest: "leads R st (and_then
            (if polled = SP_ViewportChanged then render_attach_viewport h i st else Some (Inr (), st))
          (\<lambda>_ st. and_then (attach_output_round h i opts st)
          (\<lambda>child_exited st.
             if child_exited then finish_detach h i opts Detach_ChildExited [] t0 z st
             else loop h i opts t0 z st)))" for st polled
        by (intro leads_then output_round) (auto intro: render loop finish)
      have "leads R st (and_then (follow_terminal_size h i opts st)
         (\<lambda>_ st. and_then (poll_attach_stdin h i st)
         (\<lambda>polled st. case polled of
            SP_Detached rest \<Rightarrow> finish_detach h i opts Detach_UserChord rest t0 z st
          | _ \<Rightarrow> and_then
              (if polled = SP_ViewportChanged then render_attach_viewport h i st else Some (Inr (), st))
            (\<lambda>_ st. and_then (attach_output_round h i opts st)
            (\<lambda>child_exited st.
               if child_exited then finish_detach h i opts Detach_ChildExited [] t0 z st
               else loop h i opts t0 z st)))))"
        using rest [of _ SP_Idle] rest [of _ SP_Forwarded] rest [of _ SP_ViewportChanged]
        by (intro leads_then follow_size stdin) (simp add: finish split: stdin_poll.split)
      then show ?thesis using 1(2) eq by (cases r) (clarsimp simp: leads_def)
    qed
    then show ?case by blast
  qed
  then show ?thesis by simp
qed

lemma run_attached: "leads R st (run_attached_pane h i opts t0 z st)"
proof -
  have loop: "leads R st (attach_loop h i opts t0 z st)" for st
    using attach_loop_leads by (fastforce intro: leadsI)
  show ?thesis unfolding run_attached_pane_def
    by (intro leads_then mode_result render loop) (simp add: resize)
qed

end


section \<open>An attach evolves the manager\<close>

text \<open>All an attach does to the manager is in the events it emits, as for every other call.\<close>

lemma set_mode_evolves: "evolves_to m (set_mode i k m)"
  by (auto simp: set_mode_def intro: evolves_to_refl step_evolves pane_step.moded split: option.split)

lemma push_attach_error_evolves:
  "push_attach_error_event i e m = Some m' \<Longrightarrow> evolves_to m m'"
  by (auto simp: push_attach_error_event_def intro: evolves_to_refl push_event_evolves split: if_splits)

lemma resize_attached_evolves:
  assumes "resize_attached_pane debug i z b m = Some (r, m')" shows "evolves_to m m'"
proof (cases "size_try_new (sz_rows z) (sz_cols z)")
  case (Inl e)
  then show ?thesis using assms evolves_to_refl by (simp add: resize_attached_pane_def)
next
  case (Inr w)
  then have z: "valid_size z" by (simp add: size_try_new_def valid_size_def split: if_splits)
  obtain x m1 where x: "resize_backends is_live AE_Pane (AE_SurfaceResize \<circ> debug) (AE_PtyResize \<circ> debug) i z m = (x, m1)"
    by fastforce
  note a = resize_backends_evolves [OF x z]
  show ?thesis
  proof (cases x)
    case (Inl e)
    then show ?thesis using assms Inr x a by (auto simp: resize_attached_pane_def)
  next
    case r: (Inr u)
    then obtain m2 where m2: "record_size_history i z m1 = Some m2"
      "(if b then push_event i (Ev_Resized z) m2 else Some m2) = Some m'"
      using assms Inr x by (auto simp: resize_attached_pane_def bind_eq_Some_conv)
    have "evolves_to m2 m'" using m2(2) push_event_evolves [of i "Ev_Resized z" m2 m'] evolves_to_refl
      by (cases b) auto
    moreover have "evolves_to m m2" using a r m2(1) by simp
    ultimately show ?thesis using evolves_to_trans by blast
  qed
qed

lemma record_attach_evolves:
  assumes "record_attach_output_frame i bytes m = Some (r, m')" shows "evolves_to m m'"
proof -
  obtain x m1 where x: "record_output_frame i bytes m = Some (x, m1)"
    using assms by (auto simp: record_attach_output_frame_def bind_eq_Some_conv)
  have "evolves_to m1 m'" using assms x fail_pane_evolves evolves_to_refl
    by (cases x) (auto simp: record_attach_output_frame_def bind_eq_Some_conv Let_def)
  from evolves_to_trans [OF record_output_evolves [OF x] this] show ?thesis .
qed

lemma next_attach_evolves:
  assumes "next_attach_pty_frame i m = (r, m')" shows "evolves_to m m'"
proof (cases "next_frame i m")
  case None
  then show ?thesis using assms evolves_to_refl by (auto simp: next_attach_pty_frame_def split: option.splits)
next
  case (Some fm)
  obtain f m1 where fm: "fm = (f, m1)" by fastforce
  have "m' = m1 \<or> m' = m" using assms Some fm by (auto simp: next_attach_pty_frame_def split: option.splits)
  then show ?thesis using next_frame_evolves [OF Some [unfolded fm]] evolves_to_refl by blast
qed

lemma write_attach_evolves:
  assumes "write_attach_input debug i bytes m = Some (r, m')" shows "evolves_to m m'"
proof (cases "\<exists>p q. mg_panes m i = Some p \<and> pn_process p = Some q")
  case False
  then have "m' = m" using assms by (auto simp: write_attach_input_def split: option.splits)
  then show ?thesis using evolves_to_refl by simp
next
  case True
  then obtain p q where p: "mg_panes m i = Some p" "pn_process p = Some q" by (elim exE conjE) (rule that)
  obtain w q' where w: "write_bytes (pp_writer (mc_process (mg_config m))) q bytes = (w, q')" by fastforce
  have a: "evolves_to m (put_pane i (p \<lparr>pn_process := Some q'\<rparr>) m)"
    by (rule put_process_evolves [OF p(1)]) (simp add: p(2))
  show ?thesis
  proof (cases w)
    case (Inl e)
    then show ?thesis using assms p w a by (simp add: write_attach_input_def Let_def)
  next
    case (Inr u)
    then have "push_event i (input_sent Input_Bytes (length bytes)) (put_pane i (p \<lparr>pn_process := Some q'\<rparr>) m) = Some m'"
      using assms p w by (simp add: write_attach_input_def Let_def bind_eq_Some_conv)
    from put_push_evolves [OF p this] show ?thesis by (simp add: input_sent_def)
  qed
qed

lemma forward_input_evolves:
  assumes "forward_attach_input h i bytes st = Some (x, st')" shows "evolves_to (at_manager st) (at_manager st')"
proof -
  obtain fwd acts where s: "split_attach_viewport_controls bytes = (fwd, acts)" by fastforce
  obtain ch v where v: "apply_attach_viewport_actions
      (attach_viewport_metrics i (at_manager st) (at_terminal_size st)) (at_viewport st) acts = (ch, v)" by fastforce
  show ?thesis
  proof (cases "fwd = []")
    case False
    then have "and_then (lift_m (write_attach_input (ah_debug h) i fwd (at_manager st)) (st \<lparr>at_viewport := v\<rparr>))
        (\<lambda>_ st. Some (Inr ch, st)) = Some (x, st')"
      using assms s v by (simp add: forward_attach_input_def)
    then obtain y m where "write_attach_input (ah_debug h) i fwd (at_manager st) = Some (y, m)" "at_manager st' = m"
      by (cases rule: and_then_SomeE) (auto simp: lift_m_Some)
    then show ?thesis using write_attach_evolves by blast
  qed (use assms s v evolves_to_refl in \<open>auto simp: forward_attach_input_def\<close>)
qed

lemma forward_then_evolves:
  assumes "and_then (forward_attach_input h i bytes st) (\<lambda>b st. Some (Inr (f b), st)) = Some (x, st')"
  shows "evolves_to (at_manager st) (at_manager st')"
  using assms by (cases rule: and_then_SomeE) (auto dest: forward_input_evolves)

lemma poll_stdin_evolves:
  assumes "poll_attach_stdin h i st = Some (x, st')" shows "evolves_to (at_manager st) (at_manager st')"
proof -
  obtain r t where r: "tl_read_stdin (ah_terminal h) (at_terminal st) = (r, t)" by fastforce
  show ?thesis
  proof (cases r)
    case (Inl e)
    then show ?thesis using assms r evolves_to_refl by (auto simp: poll_attach_stdin_def)
  next
    case (Inr chunk)
    show ?thesis
    proof (cases chunk)
      case (Some ab)
      obtain a bytes where ab: "ab = (a, bytes)" by fastforce
      obtain res mt where m: "mm_feed_bytes (at_matcher st) bytes a = (res, mt)" by fastforce
      from assms show ?thesis using forward_then_evolves [of h i "fr_forward res" "st \<lparr>at_terminal := t, at_matcher := mt\<rparr>"]
        by (simp add: poll_attach_stdin_def r Inr Some ab m)
    next
      case None
      obtain k m where k: "now (at_manager st) = (k, m)" by fastforce
      obtain held mt where c: "mm_check_timeout (at_matcher st) k = (held, mt)" by fastforce
      note e = now_evolves [OF k]
      show ?thesis
      proof (cases held)
        case None
        then show ?thesis using assms e by (auto simp: poll_attach_stdin_def r Inr \<open>chunk = None\<close> k c)
      next
        case (Some bytes)
        have "evolves_to m (at_manager st')"
          using assms forward_then_evolves [of h i bytes "st \<lparr>at_terminal := t, at_manager := m, at_matcher := mt\<rparr>"]
          by (simp add: poll_attach_stdin_def r Inr \<open>chunk = None\<close> k c Some)
        from evolves_to_trans [OF e this] show ?thesis .
      qed
    qed
  qed
qed

lemma write_stdout_manager: "write_stdout h bytes st = Some (x, st') \<Longrightarrow> \<exists>t. st' = st \<lparr>at_terminal := t\<rparr>"
  by (auto simp: write_stdout_def split: prod.splits sum.splits)

lemma read_size_manager: "read_size h st = Some (x, st') \<Longrightarrow> \<exists>t. st' = st \<lparr>at_terminal := t\<rparr>"
  by (auto simp: read_size_def split: prod.splits sum.splits)

lemma guard_detach_manager:
  "guard_detach h st = Some (x, st') \<Longrightarrow> \<exists>c k. st' = st \<lparr>at_control := c, at_token := k\<rparr>"
proof (cases "at_token st")
  case None
  then show "guard_detach h st = Some (x, st') \<Longrightarrow> ?thesis"
    by (intro exI [of _ "at_control st"] exI [of _ "at_token st"]) (simp add: guard_detach_def)
qed (auto simp: guard_detach_def split: prod.splits sum.splits)

lemma attach_frame_evolves:
  assumes "handle_attach_frame h i out fwd f res st = Some (x, st')"
  shows "evolves_to (at_manager st) (at_manager st')"
proof (cases f)
  case (PF_Output s bytes a)
  from assms obtain y st1 where y: "(if fwd then write_stdout h bytes st else Some (Inr (), st)) = Some (y, st1)"
    "at_manager st1 = at_manager st"
    "y = Inr () \<Longrightarrow> and_then (case out of
         FanoutToSurfaceAndStdout \<Rightarrow> lift_m (record_attach_output_frame i bytes (at_manager st1)) st1
       | StdoutOnlyThenReplay \<Rightarrow> Some (Inr (), st1 \<lparr>at_replay_buffer := at_replay_buffer st1 @ bytes\<rparr>))
       (\<lambda>_ st. Some (Inr (res \<lparr>dr_made_progress := True\<rparr>), st)) = Some (x, st')"
    "y \<noteq> Inr () \<Longrightarrow> st' = st1"
    unfolding PF_Output handle_attach_frame_def Let_def pty_frame.case
    by (elim and_then_SomeE) (auto split: if_splits dest: write_stdout_manager)
  show ?thesis
  proof (cases "y = Inr ()")
    case True
    from y(3) [OF True] show ?thesis using y(2) evolves_to_refl
      by (elim and_then_SomeE) (auto simp: lift_m_Some dest!: record_attach_evolves split: attach_output_policy.splits)
  qed (use y evolves_to_refl in simp)
next
  case (PF_Overflow s n b a)
  then show ?thesis using assms
    by (auto simp: handle_attach_frame_def lift_m_Some infallible_Some elim!: and_then_SomeE intro!: push_event_evolves)
next
  case (PF_Error s msg a)
  then show ?thesis using assms
    by (auto simp: handle_attach_frame_def lift_m_Some infallible_Some elim!: and_then_SomeE intro!: fail_pane_evolves)
next
  case (PF_Exited s code a)
  then show ?thesis using assms
    by (auto simp: handle_attach_frame_def lift_m_Some infallible_Some elim!: and_then_SomeE intro!: handle_exit_evolves)
next
  case (PF_CursorPositionRequest s a)
  then show ?thesis using assms evolves_to_refl by (simp add: handle_attach_frame_def)
qed

interpretation evolving: attach_steps "\<lambda>_ st st'. evolves_to (at_manager st) (at_manager st')" h i opts for h i opts
proof (unfold_locales, goal_cases)
  case (1 ok st)
  show ?case by (rule evolves_to_refl)
next
  case (2 st st1 ok st2)
  then show ?case by (rule evolves_to_trans)
next
  case (3 st v z b)
  show ?case by (simp add: evolves_to_refl)
next
  case (4 st k)
  show ?case using set_mode_evolves by simp
next
  case (5 st)
  obtain t m where "now (at_manager st) = (t, m)" by fastforce
  then show ?case using now_evolves by simp
next
  case (6 st bytes)
  show ?case using evolves_to_refl by (auto intro!: leadsI dest!: write_stdout_manager)
next
  case (7 st)
  show ?case using evolves_to_refl by (auto intro!: leadsI dest!: read_size_manager)
next
  case (8 st)
  show ?case by (intro leadsI) (rule poll_stdin_evolves)
next
  case (9 st z)
  show ?case by (auto intro!: leadsI resize_attached_evolves simp: lift_m_Some)
next
  case (10 st r m)
  then show ?case using next_attach_evolves by simp
next
  case (11 st f m fwd res)
  show ?case
  proof (rule leadsI)
    fix x st' assume "handle_attach_frame h i (ao_output opts) fwd f res (st \<lparr>at_manager := m\<rparr>) = Some (x, st')"
    from evolves_to_trans [OF next_attach_evolves [OF 11] attach_frame_evolves [OF this, simplified]]
    show "evolves_to (at_manager st) (at_manager st')" .
  qed
next
  case (12 st)
  show ?case by (auto intro!: leadsI record_attach_evolves simp: lift_m_Some)
next
  case (13 st)
  show ?case using evolves_to_refl by (auto intro!: leadsI dest!: guard_detach_manager)
next
  case (14 st e)
  show ?case by (auto intro!: leadsI push_event_evolves simp: lift_m_Some infallible_Some)
qed

lemma run_attached_evolves:
  "run_attached_pane h i opts t0 z st = Some (x, st') \<Longrightarrow> evolves_to (at_manager st) (at_manager st')"
  using evolving.run_attached unfolding leads_def by blast

lemma report_evolves:
  assumes "report i r = Some st'" "\<And>x st1. r = Some (x, st1) \<Longrightarrow> evolves_to m (at_manager st1)"
  shows "evolves_to m (at_manager st')"
proof -
  obtain x st1 where r: "r = Some (x, st1)"
    "(case x of Inr _ \<Rightarrow> Some st1 | Inl e \<Rightarrow> Option.bind (push_attach_error_event i e (at_manager st1))
        (\<lambda>m. Some (st1 \<lparr>at_manager := m\<rparr>))) = Some st'"
    using assms(1) by (auto simp: report_def bind_eq_Some_conv)
  have "evolves_to (at_manager st1) (at_manager st')" using r(2) push_attach_error_evolves evolves_to_refl
    by (cases x) (auto simp: bind_eq_Some_conv)
  from evolves_to_trans [OF assms(2) [OF r(1)] this] show ?thesis .
qed

lemma bind_state_evolves:
  assumes "Option.bind x f = Some st'" "\<And>st1. x = Some st1 \<Longrightarrow> evolves_to m (at_manager st1)"
    "\<And>st1. f st1 = Some st' \<Longrightarrow> evolves_to (at_manager st1) (at_manager st')"
  shows "evolves_to m (at_manager st')"
proof -
  obtain st1 where st1: "x = Some st1" "f st1 = Some st'" using assms(1) by (auto simp: bind_eq_Some_conv)
  from evolves_to_trans [OF assms(2) [OF st1(1)] assms(3) [OF st1(2)]] show ?thesis .
qed

lemma guard_report_evolves:
  "report i (guard_detach h st) = Some st' \<Longrightarrow> evolves_to (at_manager st) (at_manager st')"
  by (erule report_evolves) (auto dest!: guard_detach_manager intro: evolves_to_refl)

lemma abort_evolves:
  assumes "best_effort_abort_attach h i opts z t0 st = Some st'"
  shows "evolves_to (at_manager st) (at_manager st')"
proof -
  define st0 where "st0 = (if map_option pn_interaction_mode (mg_panes (at_manager st) i) = Some Attached
        then st \<lparr>at_manager := set_mode i Detaching (at_manager st)\<rparr> else st)"
  have e0: "evolves_to (at_manager st) (at_manager st0)"
    using set_mode_evolves evolves_to_refl by (auto simp: st0_def)
  have closed: "evolves_to (at_manager st) (at_manager st')"
    if "(let (instant, m) = now (set_mode i Embedded (at_manager st)) in
       Option.bind (push_event i (Ev_AttachEnded \<lparr>aee_reason = Detach_Error, aee_restored_size = z,
                        aee_duration = instant - t0\<rparr>) m) (\<lambda>m. Some (st \<lparr>at_manager := m\<rparr>))) = Some st'" for st
  proof -
    obtain t m where t: "now (set_mode i Embedded (at_manager st)) = (t, m)" by fastforce
    have "evolves_to m (at_manager st')" using that t by (auto simp: bind_eq_Some_conv intro!: push_event_evolves)
    from evolves_to_trans [OF evolves_to_trans [OF set_mode_evolves now_evolves [OF t]] this] show ?thesis .
  qed
  have sized: "evolves_to (at_manager st) (at_manager st1)"
    if "(if c then report i (lift_m (resize_attached_pane (ah_debug h) i z True (at_manager st)) st) else Some st) = Some st1"
    for c st st1
    using that evolves_to_refl resize_attached_evolves
    by (cases c) (auto simp: lift_m_Some elim!: report_evolves)
  have guarded: "evolves_to (at_manager st) (at_manager st1)"
    if "(if at_token st \<noteq> None then do {
          st \<leftarrow> report i (guard_detach h st);
          if at_token st \<noteq> None then do {
            st \<leftarrow> report i (guard_detach h st);
            Some (if at_token st \<noteq> None then guard_disarm st else st)
          } else Some st
        } else Some st) = Some st1" for st st1
  proof (cases "at_token st = None")
    case False
    then have "Option.bind (report i (guard_detach h st)) (\<lambda>st. if at_token st \<noteq> None then do {
            st \<leftarrow> report i (guard_detach h st);
            Some (if at_token st \<noteq> None then guard_disarm st else st)
          } else Some st) = Some st1" using that by simp
    then show ?thesis
      by (rule bind_state_evolves)
        (auto intro: guard_report_evolves evolves_to_refl simp: bind_eq_Some_conv guard_disarm_def
          split: if_splits dest!: guard_report_evolves)
  qed (use that evolves_to_refl in simp)
  have "evolves_to (at_manager st0) (at_manager st')"
    using assms unfolding best_effort_abort_attach_def Let_def st0_def [symmetric]
    by (elim bind_state_evolves) (erule sized guarded closed [unfolded Let_def])+
  from evolves_to_trans [OF e0 this] show ?thesis .
qed

lemma suspended_evolves:
  assumes "attach_suspended h i opts z st = Some (r, st')" shows "evolves_to (at_manager st) (at_manager st')"
proof -
  obtain t m where t: "now (at_manager st) = (t, m)" by fastforce
  obtain m1 x st1 st2 where s: "push_event i (Ev_AttachStarted \<lparr>ase_terminal_size = at_terminal_size st,
        ase_embedded_size = z, ase_screen_policy = ao_screen opts\<rparr>) m = Some m1"
    "run_attached_pane h i opts t z (st \<lparr>at_manager := m1\<rparr>) = Some (x, st1)"
    "(case x of Inr _ \<Rightarrow> Some st1 | Inl error \<Rightarrow> do {
          m \<leftarrow> push_attach_error_event i error (at_manager st1);
          best_effort_abort_attach h i opts z t (st1 \<lparr>at_manager := m\<rparr>)
        }) = Some st2" "st' = guard_drop h st2"
    using assms t by (auto simp: attach_suspended_def bind_eq_Some_conv)
  have "evolves_to m m1" using s(1) by (auto intro!: push_event_evolves)
  note a = evolves_to_trans [OF evolves_to_trans [OF now_evolves [OF t] this] run_attached_evolves [OF s(2), simplified]]
  have b: "evolves_to (at_manager st1) (at_manager st2)"
  proof (cases x)
    case (Inl e)
    then obtain m2 where "push_attach_error_event i e (at_manager st1) = Some m2"
      "best_effort_abort_attach h i opts z t (st1 \<lparr>at_manager := m2\<rparr>) = Some st2"
      using s(3) by (auto simp: bind_eq_Some_conv)
    from evolves_to_trans [OF push_attach_error_evolves [OF this(1)] abort_evolves [OF this(2), simplified]]
    show ?thesis .
  qed (use s(3) evolves_to_refl in auto)
  have "at_manager st' = at_manager st2"
    unfolding s(4) by (auto simp: guard_drop_def split: option.split prod.split)
  then show ?thesis using evolves_to_trans [OF a b] by simp
qed

text \<open>The cases of \<open>attach_blocking\<close>: it returns before the host is suspended, or after.\<close>

lemma attach_cases:
  assumes "attach_blocking h i opts m t c = Some (r, m', t', c')"
  obtains (missing) "mg_panes m i = None" "m' = m" "c' = c" "isl r"
  | (refused) m1 where "mg_panes m i \<noteq> None" "poll_pane_frames i m = Some m1" "c' = c" "isl r"
      "m' = m1 \<or> (\<exists>e. push_attach_error_event i e m1 = Some m')"
  | (not_suspended) m1 e e' where "mg_panes m i \<noteq> None" "poll_pane_frames i m = Some m1" "isl r"
      "ct_suspend (ah_control h) c (ao_screen opts) = (Inl e, c')"
      "push_attach_error_event i e' (set_mode i Embedded (set_mode i Attaching m1)) = Some m'"
  | (suspended) m1 z w k c1 t1 st where "mg_panes m i \<noteq> None" "poll_pane_frames i m = Some m1"
      "prepare_attach i m1 = Inr z"
      "ct_suspend (ah_control h) c (ao_screen opts) = (Inr k, c1)"
      "attach_suspended h i opts z (attaching_new opts w (set_mode i Attaching m1) t1 c1 (Some k)) = Some (r, st)"
      "m' = at_manager st" "c' = at_control st"
proof (cases "mg_panes m i")
  case None
  then show thesis using assms by (intro missing) (auto simp: attach_blocking_def)
next
  case (Some p)
  then obtain m1 where m1: "poll_pane_frames i m = Some m1"
    using assms by (auto simp: attach_blocking_def bind_eq_Some_conv)
  show thesis
  proof (cases "prepare_attach i m1")
    case (Inl e)
    then show thesis using assms Some m1 by (intro refused [OF _ m1]) (auto simp: attach_blocking_def)
  next
    case z: (Inr z)
    obtain x t1 where x: "tl_size (ah_terminal h) t = (x, t1)" by fastforce
    show thesis
    proof (cases x)
      case (Inl e)
      then show thesis using assms Some m1 z x
        by (intro refused [OF _ m1]) (auto simp: attach_blocking_def bind_eq_Some_conv)
    next
      case w: (Inr w)
      have pn: "mg_panes m1 i \<noteq> None" using z by (auto simp: prepare_attach_def split: option.splits)
      obtain s c1 where s: "ct_suspend (ah_control h) c (ao_screen opts) = (s, c1)" by fastforce
      show thesis
      proof (cases s)
        case (Inl e)
        then show thesis using assms Some m1 z x w pn s
          by (intro not_suspended [OF _ m1]) (auto simp: attach_blocking_def bind_eq_Some_conv
              set_interaction_mode_result_def)
      next
        case (Inr k)
        let ?st = "attaching_new opts w (set_mode i Attaching m1) t1 c1 (Some k)"
        obtain st where "attach_suspended h i opts z ?st = Some (r, st)" "m' = at_manager st" "c' = at_control st"
          using assms Some m1 z x w pn s Inr
          by (auto simp: attach_blocking_def bind_eq_Some_conv set_interaction_mode_result_def)
        then show thesis using Some s Inr by (intro suspended [OF _ m1 z]) auto
      qed
    qed
  qed
qed

lemma attach_evolves [evolve_intros]:
  assumes "attach_blocking h i opts m t c = Some (r, m', t', c')" shows "evolves_to m m'"
proof (cases rule: attach_cases [OF assms])
  case 1
  then show ?thesis using evolves_to_refl by simp
next
  case (2 m1)
  have "evolves_to m1 m'" using 2(5) push_attach_error_evolves evolves_to_refl by blast
  from evolves_to_trans [OF poll_pane_evolves [OF 2(2)] this] show ?thesis .
next
  case (3 m1 e e')
  from evolves_to_trans [OF poll_pane_evolves [OF 3(2)] evolves_to_trans [OF set_mode_evolves
      evolves_to_trans [OF set_mode_evolves push_attach_error_evolves [OF 3(5)]]]] show ?thesis .
next
  case (4 m1 z w k c1 t1 st)
  from evolves_to_trans [OF poll_pane_evolves [OF 4(2)] evolves_to_trans [OF set_mode_evolves
      suspended_evolves [OF 4(5), unfolded attaching_new_def attaching.simps]]] show ?thesis by (simp add: 4(6))
qed


section \<open>The host gets its terminal back\<close>

text \<open>What \<open>own\<close> says of the control state: that the host has its terminal. Suspending takes it
  away, restoring gives it back when it succeeds.\<close>

definition honest_control :: "('c, 'k) attach_control \<Rightarrow> ('c \<Rightarrow> bool) \<Rightarrow> bool" where
  "honest_control ct own =
     ((\<forall>c policy r c'. ct_suspend ct c policy = (r, c') \<longrightarrow> own c' = (isl r \<and> own c))
      \<and> (\<forall>c k r c' k'. ct_restore ct c k = (r, c', k') \<longrightarrow> \<not> isl r \<longrightarrow> own c'))"

definition unless_token :: "('c \<Rightarrow> bool) \<Rightarrow> ('s, 'p, 't, 'c, 'k) attaching \<Rightarrow> bool" where
  "unless_token own st = (at_token st = None \<longrightarrow> own (at_control st))"

lemma guard_keeps:
  "honest_control (ah_control h) own \<Longrightarrow> unless_token own st \<Longrightarrow> guard_detach h st = Some (x, st') \<Longrightarrow>
   unless_token own st'"
  by (auto simp: guard_detach_def unless_token_def honest_control_def split: option.splits prod.splits sum.splits)
    (metis sum.disc(2))

lemma same_guard:
  "at_control st' = at_control st \<Longrightarrow> at_token st' = at_token st \<Longrightarrow> unless_token own st' = unless_token own st"
  by (simp add: unless_token_def)

lemma forward_input_guard:
  "forward_attach_input h i bytes st = Some (x, st') \<Longrightarrow> at_control st' = at_control st \<and> at_token st' = at_token st"
  by (auto simp: forward_attach_input_def Let_def lift_m_Some split: prod.splits if_splits elim!: and_then_SomeE)

lemma poll_stdin_guard:
  "poll_attach_stdin h i st = Some (x, st') \<Longrightarrow> at_control st' = at_control st \<and> at_token st' = at_token st"
  by (auto simp: poll_attach_stdin_def split: prod.splits sum.splits option.splits
      elim!: and_then_SomeE dest: forward_input_guard)

lemma attach_frame_guard:
  "handle_attach_frame h i out fwd f res st = Some (x, st') \<Longrightarrow>
   at_control st' = at_control st \<and> at_token st' = at_token st"
  by (auto simp: handle_attach_frame_def Let_def lift_m_Some split: pty_frame.splits if_splits attach_output_policy.splits
      elim!: and_then_SomeE dest!: write_stdout_manager)

interpretation guarding: attach_steps
  "\<lambda>_ st st'. honest_control (ah_control h) own \<longrightarrow> unless_token own st \<longrightarrow> unless_token own st'" h i opts
  for h own i opts
proof (unfold_locales, goal_cases)
  case (13 st)
  show ?case by (auto intro: leadsI guard_keeps)
qed (auto intro!: leadsI simp: lift_m_Some same_guard unless_token_def
      dest!: write_stdout_manager read_size_manager poll_stdin_guard attach_frame_guard)

text \<open>A property of every state in which a computation returns a value.\<close>

definition returns :: "('st \<Rightarrow> bool) \<Rightarrow> (('e + 'a) \<times> 'st) option \<Rightarrow> bool" where
  "returns Q r = (\<forall>v st. r = Some (Inr v, st) \<longrightarrow> Q st)"

lemma returns_then: "(\<And>v st1. r = Some (Inr v, st1) \<Longrightarrow> returns Q (f v st1)) \<Longrightarrow> returns Q (and_then r f)"
  by (auto simp: returns_def elim!: and_then_SomeE)

definition detached :: "pane_id \<Rightarrow> ('s, 'p, 't, 'c, 'k) attaching \<Rightarrow> bool" where
  "detached i st = (at_token st = None \<and> mode_of i (at_manager st) = Some Embedded)"

lemma mode_push: "push_event i k m = Some m' \<Longrightarrow> mode_of j m' = mode_of j m"
  by (rule mode_same) (rule same_push)

lemma mode_set: "mode_of i (set_mode i k m) = map_option (\<lambda>_. k) (mg_panes m i)"
  by (simp add: set_mode_def mode_of_def split: option.split)

lemma mode_now: "now m = (t, m') \<Longrightarrow> mode_of i m' = mode_of i m"
  by (auto simp: now_def mode_of_def)

lemma finish_detached: "returns (detached i) (finish_detach h i opts reason rest t0 z st)"
proof -
  have token: "returns (\<lambda>st. at_token st = None) (guard_detach h st)" for st
    by (auto simp: returns_def guard_detach_def split: option.splits prod.splits sum.splits)
  have closed: "returns (detached i) (case now (at_manager st) of (instant, m) \<Rightarrow>
      and_then (lift_m (infallible (push_event i
               (Ev_AttachEnded \<lparr>aee_reason = reason, aee_restored_size = z, aee_duration = instant - t0\<rparr>) m)) st)
            (\<lambda>_ st. Some (Inr (k st) :: pane_attach_error + attach_outcome, st)))" if "detached i st" for st k
    using that by (auto simp: returns_def detached_def lift_m_Some infallible_Some
        elim!: and_then_SomeE dest!: mode_push [where j = i] mode_now [where i = i] split: prod.splits)
  show ?thesis unfolding finish_detach_def
  proof (intro returns_then closed)
    fix v0 st0 v1 st1 v2 st2 v3 st3 v4 st4 v5 and st5 :: "('a, 'b, 'c, 'd, 'e) attaching"
    assume "guard_detach h st3 = Some (Inr v4, st4)"
      "lift_m (Some (set_interaction_mode_result i Embedded (at_manager st4))) st4 = Some (Inr v5, st5)"
    then show "detached i st5" using token [of st3]
      by (auto simp: detached_def lift_m_Some set_interaction_mode_result_def mode_set returns_def split: if_splits)
  qed
qed

lemma attach_loop_detached:
  assumes d: "attach_loop h i opts t0 z st = Some r"
  shows "\<not> isl (fst r) \<longrightarrow> detached i (snd r)"
proof (rule attach_loop.raw_induct
    [of "\<lambda>h i opts t0 z st r. \<not> isl (fst r) \<longrightarrow> detached i (snd r)", OF _ d], goal_cases)
  case 1: (1 loop h i opts t0 z st r)
  have fin: "finish_detach h i opts reason rest t0 z st = Some (a, b) \<Longrightarrow> \<not> isl a \<Longrightarrow> detached i b" for reason rest st a b
    using finish_detached [of i h opts reason rest t0 z st] by (cases a) (auto simp: returns_def)
  have loop: "loop h i opts t0 z st = Some (a, b) \<Longrightarrow> \<not> isl a \<Longrightarrow> detached i b" for st a b
    using 1(1) by fastforce
  from 1(2) show ?case
    by (cases r) (auto elim!: and_then_SomeE split: stdin_poll.splits if_splits dest!: fin loop)
qed

lemma run_detached: "returns (detached i) (run_attached_pane h i opts t0 z st)"
  unfolding run_attached_pane_def
  by (intro returns_then) (fastforce simp: returns_def dest: attach_loop_detached)

lemma bind_SomeE: "Option.bind x f = Some y \<Longrightarrow> (\<And>z. x = Some z \<Longrightarrow> f z = Some y \<Longrightarrow> P) \<Longrightarrow> P"
  by (auto simp: bind_eq_Some_conv)

lemma report_guard:
  "report i r = Some st' \<Longrightarrow> \<exists>x st1. r = Some (x, st1) \<and> at_control st' = at_control st1 \<and> at_token st' = at_token st1"
proof -
  assume "report i r = Some st'"
  then obtain x st1 where "r = Some (x, st1)"
    "(case x of Inr _ \<Rightarrow> Some st1 | Inl e \<Rightarrow> Option.bind (push_attach_error_event i e (at_manager st1))
        (\<lambda>m. Some (st1 \<lparr>at_manager := m\<rparr>))) = Some st'"
    by (auto simp: report_def bind_eq_Some_conv)
  then show ?thesis by (cases x) (auto simp: bind_eq_Some_conv)
qed

text \<open>The way back after an error leaves no token behind, the pane embedded, and the host with its terminal if
  restoring did not fail.\<close>

lemma token_given_up: "at_token (if at_token st \<noteq> None then guard_disarm st else st) = None"
  by (simp add: guard_disarm_def)

lemma honest_restore:
  "honest_control ct own \<Longrightarrow> ct_restore ct c k = (Inr u, c', k') \<Longrightarrow> own c'"
  unfolding honest_control_def using sum.disc(2) by metis

lemma abort_detached:
  assumes "best_effort_abort_attach h i opts z t0 st = Some st'" and "mg_panes (at_manager st) i \<noteq> None"
    and h: "honest_control (ah_control h) own" "unless_token own st"
  shows "detached i st' \<and> ((\<forall>c k. \<not> isl (fst (ct_restore (ah_control h) c k))) \<longrightarrow> own (at_control st'))"
proof -
  define st0 where "st0 = (if map_option pn_interaction_mode (mg_panes (at_manager st) i) = Some Attached
        then st \<lparr>at_manager := set_mode i Detaching (at_manager st)\<rparr> else st)"
  have st0: "at_control st0 = at_control st" "at_token st0 = at_token st" by (simp_all add: st0_def)
  obtain st1 st2 where sized: "(if ao_resize opts = UseRealTerminalSize \<and> \<not> at_restored_embedded_size st0
        then report i (lift_m (resize_attached_pane (ah_debug h) i z True (at_manager st0)) st0)
        else Some st0) = Some st1"
    and guarded: "(if at_token st1 \<noteq> None then do {
          st \<leftarrow> report i (guard_detach h st1);
          if at_token st \<noteq> None then do {
            st \<leftarrow> report i (guard_detach h st);
            Some (if at_token st \<noteq> None then guard_disarm st else st)
          } else Some st
        } else Some st1) = Some st2"
    and rest: "(case now (set_mode i Embedded (at_manager st2)) of (instant, m) \<Rightarrow>
        Option.bind (push_event i (Ev_AttachEnded \<lparr>aee_reason = Detach_Error, aee_restored_size = z,
          aee_duration = instant - t0\<rparr>) m) (\<lambda>m. Some (st2 \<lparr>at_manager := m\<rparr>))) = Some st'"
    using assms(1) unfolding best_effort_abort_attach_def Let_def st0_def [symmetric]
    by (elim bind_SomeE) (erule (2) that)
  obtain t m m2 where closed: "now (set_mode i Embedded (at_manager st2)) = (t, m)"
    "push_event i (Ev_AttachEnded \<lparr>aee_reason = Detach_Error, aee_restored_size = z, aee_duration = t - t0\<rparr>) m = Some m2"
    "st' = st2 \<lparr>at_manager := m2\<rparr>"
    using rest by (auto simp: bind_eq_Some_conv split: prod.splits)
  note s = sized guarded closed
  have g1: "at_control st1 = at_control st \<and> at_token st1 = at_token st"
    using s(1) st0 by (auto simp: lift_m_Some split: if_splits dest!: report_guard)
  have "mg_panes (at_manager st') i \<noteq> None"
    using assms(2) evolves_to_None [OF abort_evolves [OF assms(1)]] by simp
  moreover have e: "evolves_to (set_mode i Embedded (at_manager st2)) (at_manager st')"
    using evolves_to_trans [OF now_evolves [OF s(3)] push_event_evolves [OF s(4)]] s(5) by simp
  ultimately have "mg_panes (set_mode i Embedded (at_manager st2)) i \<noteq> None"
    using evolves_to_None [OF e, of i] by simp
  then have "mg_panes (at_manager st2) i \<noteq> None" by (auto simp: set_mode_def split: option.splits)
  then have mode: "mode_of i (at_manager st') = Some Embedded"
    using s(3-5) mode_push [where j = i] mode_now [where i = i] mode_set [of i Embedded "at_manager st2"] by fastforce
  have "at_token st2 = None \<and> ((\<forall>c k. \<not> isl (fst (ct_restore (ah_control h) c k))) \<longrightarrow> own (at_control st2))"
  proof (cases "at_token st1")
    case None
    then show ?thesis using s(2) h(2) g1 by (auto simp: unless_token_def)
  next
    case (Some k)
    obtain r c' k' where c: "ct_restore (ah_control h) (at_control st1) k = (r, c', k')" by (metis prod_cases3)
    show ?thesis
    proof (cases r)
      case (Inr u)
      then have "own c'" using c by (simp add: honest_restore [OF h(1)])
      then show ?thesis using s(2) Some c Inr
        by (auto simp: bind_eq_Some_conv guard_detach_def dest!: report_guard)
    next
      case (Inl e)
      then have "\<not> (\<forall>c k. \<not> isl (fst (ct_restore (ah_control h) c k)))" using c by (metis fst_conv sum.disc(1))
      moreover have "at_token st2 = None"
        using s(2) Some
        by (cases "report i (guard_detach h st1)"; cases "the (report i (guard_detach h st1))")
          (auto simp: bind_eq_Some_conv split: if_splits dest!: arg_cong [where f = at_token] simp: guard_disarm_def)
      ultimately show ?thesis by blast
    qed
  qed
  then show ?thesis using mode s(5) by (simp add: detached_def)
qed

text \<open>C9: Attaching gives everything back. Whenever \<open>attach_blocking\<close> returns, after a detach, the exit of the
  child or any error, the pane is embedded again; and the host has its terminal again whenever the call
  succeeded, and also after an error unless restoring itself failed.\<close>

theorem attach_gives_back:
  assumes "attach_blocking h i opts m t c = Some (r, m', t', c')"
    and "mg_panes m i = Some p" "pn_interaction_mode p = Embedded"
    and "honest_control (ah_control h) own" "own c"
  shows "\<exists>p'. mg_panes m' i = Some p' \<and> pn_interaction_mode p' = Embedded
    \<and> (\<not> isl r \<longrightarrow> own c')
    \<and> ((\<forall>c k. \<not> isl (fst (ct_restore (ah_control h) c k))) \<longrightarrow> own c')"
proof -
  have start: "mode_of i m = Some Embedded" using assms(2,3) by (simp add: mode_of_def)
  have err: "push_attach_error_event i e m1 = Some m2 \<Longrightarrow> mode_of i m2 = mode_of i m1" for e m1 m2
    by (auto simp: push_attach_error_event_def dest: mode_push split: if_splits)
  have "mode_of i m' = Some Embedded \<and> (\<not> isl r \<longrightarrow> own c')
    \<and> ((\<forall>c k. \<not> isl (fst (ct_restore (ah_control h) c k))) \<longrightarrow> own c')"
  proof (cases rule: attach_cases [OF assms(1)])
    case 1
    then show ?thesis using assms(2) by simp
  next
    case (2 m1)
    then show ?thesis using start mode_poll [OF 2(2)] err assms(5) by fastforce
  next
    case (3 m1 e e')
    have "mg_panes m1 i \<noteq> None" using 3(1) evolves_to_None [OF poll_pane_evolves [OF 3(2)]] by simp
    then have "mg_panes (set_mode i Attaching m1) i \<noteq> None" by (simp add: set_mode_def split: option.split)
    then have "mode_of i m' = Some Embedded" using err [OF 3(5)] mode_set [of i Embedded "set_mode i Attaching m1"]
      by auto
    then show ?thesis using 3 assms(4,5) by (auto simp: honest_control_def)
  next
    case (4 m1 z w k c1 t1 st)
    let ?st = "attaching_new opts w (set_mode i Attaching m1) t1 c1 (Some k)"
    have "mg_panes m1 i \<noteq> None" using 4(1) evolves_to_None [OF poll_pane_evolves [OF 4(2)]] by simp
    then have there: "mg_panes (at_manager ?st) i \<noteq> None"
      by (simp add: attaching_new_def set_mode_def split: option.split)
    obtain t0 ma mb x sta stb where s: "now (at_manager ?st) = (t0, ma)"
      "push_event i (Ev_AttachStarted \<lparr>ase_terminal_size = at_terminal_size ?st,
        ase_embedded_size = z, ase_screen_policy = ao_screen opts\<rparr>) ma = Some mb"
      "run_attached_pane h i opts t0 z (?st \<lparr>at_manager := mb\<rparr>) = Some (r, sta)"
      "(case r of Inr _ \<Rightarrow> Some sta | Inl error \<Rightarrow> do {
          m \<leftarrow> push_attach_error_event i error (at_manager sta);
          best_effort_abort_attach h i opts z t0 (sta \<lparr>at_manager := m\<rparr>)
        }) = Some stb" "st = guard_drop h stb"
      using 4(5) by (auto simp: attach_suspended_def bind_eq_Some_conv split: prod.splits)
    have "unless_token own (?st \<lparr>at_manager := mb\<rparr>)" by (simp add: unless_token_def attaching_new_def)
    then have g: "unless_token own sta"
      using guarding.run_attached [of h own "?st \<lparr>at_manager := mb\<rparr>" i opts t0 z] s(3) assms(4)
      by (auto simp: leads_def)
    have b: "detached i stb \<and> (\<not> isl r \<longrightarrow> own (at_control stb))
        \<and> ((\<forall>c k. \<not> isl (fst (ct_restore (ah_control h) c k))) \<longrightarrow> own (at_control stb))"
    proof (cases r)
      case (Inr v)
      then have "detached i sta" using run_detached s(3) by (fastforce simp: returns_def)
      then show ?thesis using g s(4) Inr by (auto simp: detached_def unless_token_def)
    next
      case (Inl e)
      obtain mc where mc: "push_attach_error_event i e (at_manager sta) = Some mc"
        "best_effort_abort_attach h i opts z t0 (sta \<lparr>at_manager := mc\<rparr>) = Some stb"
        using s(4) Inl by (auto simp: bind_eq_Some_conv)
      have "evolves_to ma mb" using s(2) by (auto intro!: push_event_evolves)
      then have e: "evolves_to (at_manager ?st) mc"
        using evolves_to_trans [OF now_evolves [OF s(1)]] run_attached_evolves [OF s(3)]
          push_attach_error_evolves [OF mc(1)] evolves_to_trans by (metis attaching.select_convs(1) attaching.surjective attaching.update_convs(1))
      have "mg_panes mc i \<noteq> None" using there evolves_to_None [OF e, of i] by simp
      then show ?thesis using abort_detached [OF mc(2) _ assms(4)] g Inl by (simp add: unless_token_def)
    qed
    then have "st = stb" using s(5) by (simp add: detached_def guard_drop_def)
    then show ?thesis using b 4(6,7) by (simp add: detached_def)
  qed
  then show ?thesis by (auto simp: mode_of_def)
qed

theorem attach_gives_back_witness:
  "\<exists>r m' p. attach_blocking demo_attach 1 demo_options slow_manager [(0, [0x64])] True = Some (Inr r, m', [], True)
     \<and> mg_panes m' 1 = Some p \<and> pn_interaction_mode p = Embedded"
proof -
  obtain r m' where run: "attach_blocking demo_attach 1 demo_options slow_manager [(0, [0x64])] True
      = Some (Inr r, m', [], True)"
    using demo_attached by blast
  have "mg_panes slow_manager 1 = Some slow_pane" "pn_interaction_mode slow_pane = Embedded"
    by (simp_all add: slow_manager_def slow_pane_def pane_spawned_def)
  moreover have "honest_control (ah_control demo_attach) (\<lambda>own. own)"
    by (auto simp: honest_control_def demo_attach_def demo_control_def)
  ultimately show ?thesis using attach_gives_back [OF run, of slow_pane "\<lambda>own. own"] run by auto
qed

end
