(* ===== verification/Repro_Dump.thy ===== *)
theory Repro_Dump
  imports Manager_Lifecycle
begin

text \<open>
  Repro dumps (\<open>repro.rs\<close>, \<open>dump_repro\<close> and \<open>redact_repro_events\<close> of \<open>manager.rs\<close>): what is taken from a pane,
  and what of it is redacted.
\<close>

section \<open>Dumps\<close>

definition redacted :: rstr where "redacted = lit ''<redacted>''"

record repro_dump_options =
  rdo_redact_program :: bool
  rdo_redact_command_args :: bool
  rdo_redact_cwd :: bool
  rdo_redact_env_values :: bool

definition repro_dump_options_default :: repro_dump_options where
  "repro_dump_options_default =
     \<lparr>rdo_redact_program = True, rdo_redact_command_args = True, rdo_redact_cwd = True,
      rdo_redact_env_values = True\<rparr>"

record repro_raw_transcript =
  rrt_start_offset :: nat
  rrt_bytes :: "u8 list"

record repro_dump =
  rd_pane_id :: pane_id
  rd_spawn_config :: pane_config
  rd_backend :: surface_metadata
  rd_size_history :: "repro_size_event list"
  rd_events :: "pane_event list"
  rd_event_log_events_dropped :: nat
  rd_raw_transcript :: "repro_raw_transcript option"
  rd_final_surface :: surface_snapshot

definition redact_spawn_config :: "pane_config \<Rightarrow> repro_dump_options \<Rightarrow> pane_config" where
  "redact_spawn_config c options =
     (let c = (if rdo_redact_program options
               then c \<lparr>pc_command := (pc_command c) \<lparr>cs_program := redacted\<rparr>\<rparr> else c);
          c = (if rdo_redact_command_args options
               then c \<lparr>pc_command := (pc_command c) \<lparr>cs_args := map (\<lambda>_. redacted) (cs_args (pc_command c))\<rparr>\<rparr>
               else c);
          c = (if rdo_redact_cwd options then c \<lparr>pc_cwd := map_option (\<lambda>_. redacted) (pc_cwd c)\<rparr> else c)
      in (if rdo_redact_env_values options
          then c \<lparr>pc_env := map (\<lambda>(key, _). (key, redacted)) (pc_env c)\<rparr> else c))"

definition redact_repro_events :: "pane_event list \<Rightarrow> rstr \<Rightarrow> pane_event list" where
  "redact_repro_events events redacted_program =
     map (\<lambda>event. case ev_kind event of
            Ev_Spawned _ \<Rightarrow> event \<lparr>ev_kind := Ev_Spawned redacted_program\<rparr> | _ \<Rightarrow> event) events"

definition dump_of :: "'s surface_backend \<Rightarrow> pane_id \<Rightarrow> repro_dump_options \<Rightarrow> ('s, 'p) pane \<Rightarrow> repro_dump" where
  "dump_of sb pane_id options pane =
     (let spawn_config = redact_spawn_config (pn_spawn_config pane) options
      in \<lparr>rd_pane_id = pane_id, rd_spawn_config = spawn_config,
          rd_backend = sb_metadata sb (pn_surface pane), rd_size_history = pn_size_history pane,
          rd_events = redact_repro_events (pn_event_log pane) (cs_program (pc_command spawn_config)),
          rd_event_log_events_dropped = st_event_log_events_dropped (pn_stats pane),
          rd_raw_transcript =
            (if records_raw_bytes (pn_transcript pane)
             then Some \<lparr>rrt_start_offset = retained_raw_start_offset (pn_transcript pane),
                        rrt_bytes = tr_raw (pn_transcript pane)\<rparr>
             else None),
          rd_final_surface = merged_surface_snapshot sb pane\<rparr>)"

definition dump_repro ::
    "pane_id \<Rightarrow> repro_dump_options \<Rightarrow> ('s, 'p) pane_manager \<Rightarrow>
     ((pane_error + repro_dump) \<times> ('s, 'p) pane_manager) option" where
  "dump_repro pane_id options m = do {
     (r, m) \<leftarrow> drain_pane_frames_for_repro pane_id m;
     case r of
       Inl e \<Rightarrow> Some (Inl e, m)
     | Inr _ \<Rightarrow>
         (case mg_panes m pane_id of
            None \<Rightarrow> Some (Inl (NotFound_Error pane_id), m)
          | Some pane \<Rightarrow> Some (Inr (dump_of (mc_surface (mg_config m)) pane_id options pane), m))
   }"

text \<open>Taking a dump drains the frames of the pane and leaves the rest alone.\<close>

lemma dump_evolves [evolve_intros]:
  assumes "dump_repro i options m = Some (r, m')" shows "evolves_to m m'"
proof -
  obtain x m1 where x: "drain_pane_frames_for_repro i m = Some (x, m1)"
    using assms by (auto simp: dump_repro_def bind_eq_Some_conv)
  then have "m' = m1" using assms by (cases x) (auto simp: dump_repro_def split: option.splits)
  then show ?thesis using drain_repro_evolves [OF x] by simp
qed

end
