(* ===== verification/Manager_Runs.thy ===== *)
theory Manager_Runs
  imports Manager_Attach_Laws Repro_Dump
begin

text \<open>
  Everything a host can do with a pane manager, as a step relation, and what holds of every
  manager a host can get to: the invariant of the panes, the numbering of the events, the
  finality of the end of a pane, and what \<open>spawn\<close>, \<open>kill\<close> and \<open>remove\<close> do there.
\<close>

section \<open>Calls of the host\<close>

datatype ('t, 'c, 'k) host_call =
    HC_Spawn pane_config
  | HC_Remove pane_id
  | HC_Kill pane_id kill_reason
  | HC_Kill_And_Remove pane_id kill_reason
  | HC_Resize pane_id pane_size
  | HC_Write_Bytes pane_id "u8 list"
  | HC_Send_Input pane_id host_input
  | HC_Send_Transaction pane_id input_transaction
  | HC_Read pane_id
  | HC_Attach "('t, 'c, 'k) attach_host" pane_id attach_options 't 'c
  | HC_Drain_Events
  | HC_Subscribe
  | HC_Hang_Up nat
  | HC_Set_Event_Sink
  | HC_Clear_Event_Sink
  | HC_Dump_Repro pane_id repro_dump_options
  | HC_Alloc_Placeholder_Id

text \<open>The calls that the witnesses make.\<close>

type_synonym demo_call = "((nat \<times> u8 list) list, bool, unit) host_call"

text \<open>The receiver of a subscription goes away.\<close>

definition hang_up :: "nat \<Rightarrow> ('s, 'p) pane_manager \<Rightarrow> ('s, 'p) pane_manager" where
  "hang_up k m = m \<lparr>mg_subscribers :=
     (if k < length (mg_subscribers m)
      then (mg_subscribers m)[k := (mg_subscribers m ! k) \<lparr>sub_connected := False\<rparr>] else mg_subscribers m)\<rparr>"

text \<open>One call that returns, with the events it drains.\<close>

inductive host_step ::
    "('s, 'p) pane_manager \<Rightarrow> ('t, 'c, 'k) host_call \<Rightarrow> pane_event list \<Rightarrow> ('s, 'p) pane_manager \<Rightarrow> bool" where
  "spawn config m = Some (r, m') \<Longrightarrow> host_step m (HC_Spawn config) [] m'"
| "remove_pane i m = Some (r, m') \<Longrightarrow> host_step m (HC_Remove i) [] m'"
| "kill_pane i reason m = Some (r, m') \<Longrightarrow> host_step m (HC_Kill i reason) [] m'"
| "kill_and_remove i reason m = Some (r, m') \<Longrightarrow> host_step m (HC_Kill_And_Remove i reason) [] m'"
| "resize_pane i z m = Some (r, m') \<Longrightarrow> host_step m (HC_Resize i z) [] m'"
| "manager_write_bytes i bytes m = Some (r, m') \<Longrightarrow> host_step m (HC_Write_Bytes i bytes) [] m'"
| "send_input i input m = Some (r, m') \<Longrightarrow> host_step m (HC_Send_Input i input) [] m'"
| "send_input_transaction i t m = Some (r, m') \<Longrightarrow> host_step m (HC_Send_Transaction i t) [] m'"
| "polled id i m = Some (r, m') \<Longrightarrow> host_step m (HC_Read i) [] m'"
| "attach_blocking h i opts m t c = Some (r, m', t', c') \<Longrightarrow> host_step m (HC_Attach h i opts t c) [] m'"
| "drain_events m = Some (es, m') \<Longrightarrow> host_step m HC_Drain_Events es m'"
| "host_step m HC_Subscribe [] (subscribe m)"
| "host_step m (HC_Hang_Up k) [] (hang_up k m)"
| "host_step m HC_Set_Event_Sink [] (set_event_sink m)"
| "host_step m HC_Clear_Event_Sink [] (clear_event_sink m)"
| "dump_repro i options m = Some (r, m') \<Longrightarrow> host_step m (HC_Dump_Repro i options) [] m'"
| "alloc_placeholder_id m = (i, m') \<Longrightarrow> host_step m HC_Alloc_Placeholder_Id [] m'"

inductive_cases host_stepE: "host_step m c out m'"
inductive_simps host_step_spawn: "host_step m (HC_Spawn config) out m'"
inductive_simps host_step_drain: "host_step m HC_Drain_Events out m'"

inductive host_run ::
    "('s, 'p) pane_manager \<Rightarrow> ('t, 'c, 'k) host_call list \<Rightarrow> pane_event list \<Rightarrow> ('s, 'p) pane_manager \<Rightarrow> bool" where
  "host_run m [] [] m"
| "host_step m c out m1 \<Longrightarrow> host_run m1 cs outs m' \<Longrightarrow> host_run m (c # cs) (out @ outs) m'"

fun removes :: "pane_id \<Rightarrow> ('t, 'c, 'k) host_call \<Rightarrow> bool" where
  "removes i (HC_Remove j) = (i = j)"
| "removes i (HC_Kill_And_Remove j _) = (i = j)"
| "removes i _ = False"

fun sets_sink :: "('t, 'c, 'k) host_call \<Rightarrow> bool" where
  "sets_sink HC_Set_Event_Sink = True"
| "sets_sink HC_Clear_Event_Sink = True"
| "sets_sink _ = False"


section \<open>Steps\<close>

text \<open>The life of a pane over a run: it evolves, or it is absent, or it is born.\<close>

definition fresh_pane :: "event_log_retention \<Rightarrow> pane_id \<Rightarrow> ('s, 'p) pane \<Rightarrow> bool" where
  "fresh_pane R i p = (pn_state p = Starting \<and> pn_next_seq p = 0 \<and> pane_ok R i p \<and> pn_process p \<noteq> None
     \<and> pc_id (pn_spawn_config p) = Some i \<and> \<not> pn_exit_event_observed p)"

definition lives ::
    "event_log_retention \<Rightarrow> pane_id \<Rightarrow> ('s, 'p) pane option \<Rightarrow> pane_event list \<Rightarrow> ('s, 'p) pane option \<Rightarrow> bool" where
  "lives R i x es y =
     (case x of
        Some p \<Rightarrow> (\<exists>p'. y = Some p' \<and> pane_evolves R i p es p')
      | None \<Rightarrow> (y = None \<and> es = [])
          \<or> (\<exists>p p'. fresh_pane R i p \<and> y = Some p' \<and> pane_evolves R i p es p' \<and> pn_state p' \<noteq> Starting))"

lemma lives_refl [simp]: "lives R i x [] x"
  by (cases x) (simp_all add: lives_def)

lemma lives_trans:
  assumes "lives R i x es y" "lives R i y fs z" shows "lives R i x (es @ fs) z"
proof (cases x)
  case (Some p)
  then show ?thesis using assms pane_evolves_trans by (fastforce simp: lives_def)
next
  case None
  show ?thesis
  proof (cases y)
    case None
    then show ?thesis using assms \<open>x = None\<close> by (auto simp: lives_def)
  next
    case (Some q)
    obtain p where p: "fresh_pane R i p" "pane_evolves R i p es q" "pn_state q \<noteq> Starting"
      using assms(1) \<open>x = None\<close> Some by (auto simp: lives_def)
    obtain r where r: "z = Some r" "pane_evolves R i q fs r" using assms(2) Some by (auto simp: lives_def)
    have "pn_state r \<noteq> Starting" using r(2) p(3) by (auto simp: pane_evolves_def)
    then show ?thesis using p r pane_evolves_trans [OF p(2) r(2)] \<open>x = None\<close> by (auto simp: lives_def)
  qed
qed

text \<open>What a step of the host may do to the shared parts, with the events \<open>es\<close> it emits.\<close>

definition shared ::
    "('s, 'p) pane_manager \<Rightarrow> pane_event list \<Rightarrow> ('s, 'p) pane_manager \<Rightarrow> bool" where
  "shared m es m' =
     (mg_config m' = mg_config m \<and> mg_event_sink m' = map_option (\<lambda>l. l @ es) (mg_event_sink m))"

lemma shared_trans: "shared m es m1 \<Longrightarrow> shared m1 fs m2 \<Longrightarrow> shared m (es @ fs) m2"
  by (simp add: shared_def option.map_comp comp_def)

definition does ::
    "('s, 'p) pane_manager \<Rightarrow> pane_event list \<Rightarrow> pane_event list \<Rightarrow> (pane_id \<Rightarrow> bool) \<Rightarrow> ('s, 'p) pane_manager \<Rightarrow> bool" where
  "does m es out gone m' =
     (shared m es m' \<and> out @ mg_events m' = mg_events m @ es
      \<and> (\<forall>i. \<not> gone i \<longrightarrow> lives (retention m) i (mg_panes m i) (filter (\<lambda>e. ev_pane_id e = i) es) (mg_panes m' i)))"

lemma evolves_does:
  assumes "evolves m es m'" shows "does m es [] gone m'"
proof -
  note a = assms [unfolded evolves_def]
  have "lives (retention m) i (mg_panes m i) (filter (\<lambda>e. ev_pane_id e = i) es) (mg_panes m' i)" for i
  proof (cases "mg_panes m i")
    case None
    then have "filter (\<lambda>e. ev_pane_id e = i) es = []" using a by (auto simp: filter_empty_conv)
    moreover have "mg_panes m' i = None" using a None by (metis option.rel_distinct(1) option.exhaust)
    ultimately show ?thesis using None by (simp add: lives_def)
  next
    case (Some p)
    then show ?thesis using a by (cases "mg_panes m' i") (auto simp: lives_def dest!: spec [of _ i])
  qed
  then show ?thesis using a by (simp add: does_def shared_def)
qed

lemma does_trans:
  assumes "does m es out gone m1" "does m1 fs outs gone m2"
  shows "does m (es @ fs) (out @ outs) gone m2"
proof -
  have c: "mg_config m1 = mg_config m" using assms(1) by (simp add: does_def shared_def)
  have "(out @ outs) @ mg_events m2 = mg_events m @ es @ fs"
    using assms by (simp add: does_def)
  then show ?thesis using assms shared_trans lives_trans c unfolding does_def filter_append by fastforce
qed

lemma evolves_to_does: "evolves_to m m' \<Longrightarrow> \<exists>es. does m es [] gone m'"
  using evolves_toD evolves_does by blast

lemma spawn_does:
  assumes "spawn config m = Some (r, m')" shows "\<exists>es. does m es [] gone m'"
proof (cases rule: spawn_cases [of config m])
  case (failed e n t)
  then show ?thesis using assms
    by (intro exI [of _ "[]"]) (auto simp: does_def shared_def option.map_ident)
next
  case (spawned i n s q c p m2)
  let ?es = "spawn_events m i (cs_program (pc_command config))"
  have m': "m' = m2" using spawned(1) assms by simp
  have "fresh_pane (retention m) i (pane_spawned (c \<lparr>pc_id := Some i\<rparr>) s q)"
    using spawned(2,5) by (auto simp: fresh_pane_def pane_config_validate_ok_iff intro!: pane_spawned_ok)
  then have "lives (retention m) i None ?es (Some p)" using spawned(8,9) by (auto simp: lives_def)
  moreover have "filter (\<lambda>e. ev_pane_id e = j) ?es = (if j = i then ?es else [])" for j
    by (simp add: spawn_events_def)
  ultimately show ?thesis using spawned(4) unfolding m' spawned(11)
    by (intro exI [of _ ?es]) (simp add: does_def shared_def)
qed

lemma remove_does:
  assumes "remove_pane i m = Some (r, m')" shows "\<exists>es. does m es [] (\<lambda>j. j = i) m'"
proof (cases rule: remove_cases [OF assms])
  case 1
  then show ?thesis using evolves_does [OF evolves_refl] by blast
next
  case (2 p)
  then show ?thesis using evolves_to_does by blast
next
  case (3 m1 p)
  then obtain es where e: "evolves m es m1" using evolves_toD by blast
  show ?thesis using evolves_does [OF e, of "\<lambda>j. j = i"] unfolding 3(5)
    by (intro exI [of _ es]) (simp add: does_def shared_def)
qed

lemma kill_remove_does:
  assumes "kill_and_remove i reason m = Some (r, m')" shows "\<exists>es. does m es [] (\<lambda>j. j = i) m'"
proof -
  obtain k m1 where k: "kill_pane i reason m = Some (k, m1)"
    "(case k of Inl e \<Rightarrow> Some (Inl e, m1) | Inr _ \<Rightarrow> remove_pane i m1) = Some (r, m')"
    using assms by (auto simp: kill_and_remove_def bind_eq_Some_conv)
  obtain es where e: "evolves m es m1" using evolves_toD [OF kill_evolves [OF k(1)]] by blast
  note d = evolves_does [OF e, of "\<lambda>j. j = i"]
  show ?thesis
  proof (cases k)
    case (Inl x)
    then show ?thesis using k(2) d by auto
  next
    case (Inr u)
    then obtain fs where "does m1 fs [] (\<lambda>j. j = i) m'" using k(2) remove_does [of i m1 r m'] by auto
    from does_trans [OF d this] show ?thesis by auto
  qed
qed

lemma polled_does: "polled v i m = Some (r, m') \<Longrightarrow> \<exists>es. does m es [] gone m'"
  by (rule evolves_to_does [OF polled_evolves])

lemma host_step_does:
  assumes "host_step m c out m'" "\<not> sets_sink c"
  shows "\<exists>es. does m es out (\<lambda>i. removes i c) m'"
  using assms(1)
proof cases
  case (1 config r)
  then show ?thesis using spawn_does by simp
next
  case (2 i r)
  then show ?thesis using remove_does [of i m r m'] by (simp add: eq_commute)
next
  case (4 i reason r)
  then show ?thesis using kill_remove_does [of i reason m r m'] by (simp add: eq_commute)
next
  case 11
  then obtain m1 where m1: "poll_panes m = Some m1" "out = mg_events m1" "m' = m1 \<lparr>mg_events := []\<rparr>"
    by (auto simp: drain_events_def bind_eq_Some_conv)
  obtain es where "evolves m es m1" using evolves_toD [OF poll_panes_evolves [OF m1(1)]] by blast
  from evolves_does [OF this, of "\<lambda>i. removes i c"] show ?thesis using m1
    by (intro exI [of _ es]) (simp add: does_def shared_def)
next
  case 12
  then show ?thesis by (intro exI [of _ "[]"]) (simp add: does_def shared_def subscribe_def option.map_ident)
next
  case (13 k)
  then show ?thesis by (intro exI [of _ "[]"]) (simp add: does_def shared_def hang_up_def option.map_ident)
next
  case (17 i)
  then show ?thesis by (intro exI [of _ "[]"]) (auto simp: does_def shared_def alloc_placeholder_id_def option.map_ident)
qed (use assms(2) in \<open>auto simp: manager_write_bytes_def dest!: kill_evolves resize_evolves send_raw_evolves
       send_input_evolves send_transaction_evolves polled_evolves attach_evolves dump_evolves intro: evolves_to_does\<close>)

lemma host_run_does:
  assumes "host_run m cs out m'" "list_all (\<lambda>c. \<not> sets_sink c) cs"
  shows "\<exists>es. does m es out (\<lambda>i. list_ex (removes i) cs) m'"
  using assms
proof (induction rule: host_run.induct)
  case (1 m)
  show ?case using evolves_does [OF evolves_refl] by blast
next
  case (2 m c out m1 cs outs m')
  have weaken: "does a xs ys (\<lambda>i. list_ex (removes i) (c # cs)) b"
    if "does a xs ys (\<lambda>i. removes i c) b \<or> does a xs ys (\<lambda>i. list_ex (removes i) cs) b" for a xs ys b
    using that by (auto simp: does_def)
  obtain es where es: "does m es out (\<lambda>i. removes i c) m1" using host_step_does [OF 2(1)] 2(4) by auto
  obtain fs where fs: "does m1 fs outs (\<lambda>i. list_ex (removes i) cs) m'" using 2(3,4) by auto
  show ?case using does_trans [OF weaken weaken] es fs by blast
qed

lemma kill_and_remove_cases:
  assumes "kill_and_remove i reason m = Some (r, m')"
  obtains (refused) e where "kill_pane i reason m = Some (Inl e, m')" "r = Inl e"
  | (killed) m1 where "kill_pane i reason m = Some (Inr (), m1)" "remove_pane i m1 = Some (r, m')"
proof -
  obtain k m1 where "kill_pane i reason m = Some (k, m1)"
    "(case k of Inl e \<Rightarrow> Some (Inl e, m1) | Inr _ \<Rightarrow> remove_pane i m1) = Some (r, m')"
    using assms by (auto simp: kill_and_remove_def bind_eq_Some_conv)
  then show thesis using that by (cases k) auto
qed

text \<open>A pane that is there after a step was born in it or evolved from what it was.\<close>

lemma lives_alone: "evolves_to m m' \<Longrightarrow> \<exists>es. lives (retention m) i (mg_panes m i) es (mg_panes m' i)"
  using evolves_to_does [of m m' "\<lambda>_. False"] by (auto simp: does_def)

lemma remove_lives:
  assumes "remove_pane i m = Some (r, m')" "mg_panes m' i \<noteq> None"
  shows "\<exists>es. lives (retention m) i (mg_panes m i) es (mg_panes m' i)"
proof (cases rule: remove_cases [OF assms(1)])
  case (2 p)
  then show ?thesis using lives_alone by blast
qed (use assms(2) in auto)

lemma host_step_config:
  assumes "host_step m c out m'" shows "mg_config m' = mg_config m"
proof (cases "sets_sink c")
  case True
  then show ?thesis using assms by (cases c) (auto elim: host_stepE simp: set_event_sink_def clear_event_sink_def)
next
  case False
  then show ?thesis using host_step_does [OF assms] by (auto simp: does_def shared_def)
qed

lemma host_step_lives:
  assumes "host_step m c out m'" "mg_panes m' i \<noteq> None"
  shows "\<exists>es. lives (retention m) i (mg_panes m i) es (mg_panes m' i)"
proof (cases "removes i c \<or> sets_sink c")
  case False
  then obtain es where "does m es out (\<lambda>i. removes i c) m'" using host_step_does [OF assms(1)] by blast
  then show ?thesis using False by (auto simp: does_def)
next
  case True
  from assms(1) show ?thesis
  proof cases
    case (2 j r)
    then have "remove_pane i m = Some (r, m')" using True by simp
    from remove_lives [OF this assms(2)] show ?thesis .
  next
    case (4 j reason r)
    then have r: "kill_and_remove i reason m = Some (r, m')" using True by simp
    show ?thesis
    proof (cases rule: kill_and_remove_cases [OF r])
      case (1 e)
      then show ?thesis using kill_evolves [OF 1(1)] lives_alone by blast
    next
      case (2 m1)
      note e = kill_evolves [OF 2(1)]
      obtain es where es: "lives (retention m) i (mg_panes m i) es (mg_panes m1 i)" using lives_alone [OF e] by blast
      obtain fs where fs: "lives (retention m1) i (mg_panes m1 i) fs (mg_panes m' i)"
        using remove_lives [OF 2(2) assms(2)] by blast
      then show ?thesis using lives_trans [OF es] evolves_to_config [OF e] by auto
    qed
  qed (use True in \<open>auto simp: set_event_sink_def clear_event_sink_def intro: exI [of _ "[]"]\<close>)
qed


section \<open>Reachable managers\<close>

definition pane_inv :: "event_log_retention \<Rightarrow> pane_id \<Rightarrow> ('s, 'p) pane \<Rightarrow> bool" where
  "pane_inv R i p =
     (pane_ok R i p \<and> pn_process p \<noteq> None \<and> pn_state p \<noteq> Starting \<and> pc_id (pn_spawn_config p) = Some i)"

lemma lives_inv:
  assumes "lives R i x es (Some p')" "\<And>p. x = Some p \<Longrightarrow> pane_inv R i p"
  shows "pane_inv R i p'"
  using assms by (cases x) (auto simp: lives_def pane_inv_def pane_evolves_def fresh_pane_def)

lemma host_run_inv:
  assumes "host_run m cs out m'" "\<And>i p. mg_panes m i = Some p \<Longrightarrow> pane_inv (retention m) i p"
    "mg_panes m' i = Some p'"
  shows "mg_config m' = mg_config m \<and> pane_inv (retention m) i p'"
  using assms
proof (induction rule: host_run.induct)
  case (2 m c out m1 cs outs m')
  have c: "mg_config m1 = mg_config m" by (rule host_step_config [OF 2(1)])
  have "pane_inv (retention m1) j p" if p: "mg_panes m1 j = Some p" for j p
  proof -
    obtain es where "lives (retention m) j (mg_panes m j) es (Some p)"
      using host_step_lives [OF 2(1), of j] p by auto
    from lives_inv [OF this] show ?thesis using 2(4) c by auto
  qed
  then show ?case using 2(3,5) c by auto
qed auto

text \<open>C2: The invariant of the panes. Whatever the host does, in every pane that it can find: the
  exit status kept for \<open>remove\<close> is exactly what the state says, and none is kept while the pane
  is live; a pane is never seen before it runs; the event log holds the last events, numbered up
  to the current sequence number without a gap, as many as the retention allows, and the
  statistics count the others; and the size history starts at offset 0, is sorted by offset and
  holds only sizes a terminal can have.\<close>

theorem reachable_panes:
  assumes "host_run (manager_new config) cs out m" "mg_panes m i = Some p"
  shows "pn_exit p = exit_of (pn_state p) \<and> pn_state p \<noteq> Starting
    \<and> pc_id (pn_spawn_config p) = Some i \<and> pn_process p \<noteq> None
    \<and> (let n = pn_next_seq p; k = retained_events (mc_event_log_retention config) n
       in map ev_seq (pn_event_log p) = [n - k + 1..<n + 1]
          \<and> st_event_log_events_dropped (pn_stats p) = min (n - k) u64_max)
    \<and> rse_transcript_offset (hd (pn_size_history p)) = 0
    \<and> sorted (map rse_transcript_offset (pn_size_history p))
    \<and> list_all (\<lambda>z. valid_size (rse_size z)) (pn_size_history p)"
proof -
  have "pane_inv (retention (manager_new config)) i p"
    using host_run_inv [OF assms(1) _ assms(2)] by (simp add: manager_new_def)
  then show ?thesis
    by (auto simp: pane_inv_def pane_ok_def log_ok_def sizes_ok_def exit_ok_alt manager_new_def Let_def list_all_iff)
qed

theorem reachable_panes_witness:
  "\<exists>p. host_run (manager_new demo_host) [HC_Spawn demo_pane :: demo_call] [] demo_started
     \<and> mg_panes demo_started 1 = Some p \<and> pn_exit p = None"
proof -
  obtain p where p: "spawn demo_pane (manager_new demo_host) = Some (Inr 1, demo_started)"
    "mg_panes demo_started = [1 \<mapsto> p]" "pn_state p = Running" using demo_spawn by blast
  have "host_run (manager_new demo_host) [HC_Spawn demo_pane :: demo_call] ([] @ []) demo_started"
    using host_step.intros(1) [OF p(1)] host_run.intros by blast
  then have r: "host_run (manager_new demo_host) [HC_Spawn demo_pane :: demo_call] [] demo_started" by simp
  from reachable_panes [OF r, of 1 p] show ?thesis using r p(2,3) by (simp add: exit_of_def)
qed

lemma demo_spawn_any:
  assumes "mg_config m = demo_host" "mg_panes m = Map.empty" "mg_next_pane_id m = 0"
  shows "\<exists>m' p. spawn demo_pane m = Some (Inr 1, m') \<and> mg_panes m' = [1 \<mapsto> p] \<and> pn_next_seq p = 2"
proof -
  have "pc_id demo_pane = None" "pc_scrollback demo_pane = None"
    by (simp_all add: demo_pane_def pane_config_default_def)
  then show ?thesis using assms
    by (simp add: spawn_def demo_valid Let_def choose_pane_id_def single_eq demo_host_def
        put_pane_def push_event_eq transition_state_def emit_def)
qed

text \<open>C1: The event stream. Whatever the host does, a sink that is installed before a pane is
  created sees the pane's whole life: the events of the pane are numbered from 1 to its current
  sequence number without a gap or a repetition, and the state changes among them lead from
  \<open>Starting\<close> to the state it is in. The events drained and the events still queued are the
  same stream.\<close>

theorem event_stream:
  assumes "host_run m cs out m'" "list_all (\<lambda>c. \<not> sets_sink c) cs" "list_all (\<lambda>c. \<not> removes i c) cs"
    and "mg_event_sink m = Some []" "mg_events m = []" "mg_panes m i = None" "mg_panes m' i = Some p"
  shows "\<exists>es. mg_event_sink m' = Some es \<and> out @ mg_events m' = es
    \<and> map ev_seq (filter (\<lambda>e. ev_pane_id e = i) es) = [1..<pn_next_seq p + 1]
    \<and> state_path Starting (map ev_kind (filter (\<lambda>e. ev_pane_id e = i) es)) (pn_state p)"
proof -
  obtain es where d: "does m es out (\<lambda>i. list_ex (removes i) cs) m'"
    using host_run_does [OF assms(1,2)] by blast
  let ?own = "filter (\<lambda>e. ev_pane_id e = i) es"
  have "\<not> list_ex (removes i) cs" using assms(3) by (induction cs) auto
  then have "lives (retention m) i (mg_panes m i) ?own (mg_panes m' i)"
    using d by (simp add: does_def)
  then obtain q where q: "fresh_pane (retention m) i q" "pane_evolves (retention m) i q ?own p"
    using assms(6,7) by (auto simp: lives_def)
  have "mg_event_sink m' = Some es" "out @ mg_events m' = es"
    using d assms(4,5) by (simp_all add: does_def shared_def)
  moreover have "map ev_seq ?own = [1..<pn_next_seq p + 1]"
    "state_path Starting (map ev_kind ?own) (pn_state p)"
    using q unfolding fresh_pane_def pane_evolves_def by simp_all
  ultimately show ?thesis by blast
qed

theorem event_stream_witness:
  "\<exists>m' es. host_run (set_event_sink (manager_new demo_host)) [HC_Spawn demo_pane :: demo_call] [] m'
     \<and> mg_event_sink m' = Some es \<and> map ev_seq (filter (\<lambda>e. ev_pane_id e = 1) es) = [1, 2]"
proof -
  let ?m = "set_event_sink (manager_new demo_host)"
  obtain m' p where p: "spawn demo_pane ?m = Some (Inr 1, m')" "mg_panes m' = [1 \<mapsto> p]" "pn_next_seq p = 2"
    using demo_spawn_any [of ?m] by (auto simp: set_event_sink_def manager_new_def)
  have "host_run ?m [HC_Spawn demo_pane :: demo_call] ([] @ []) m'"
    using host_step.intros(1) [OF p(1)] host_run.intros by blast
  then have r: "host_run ?m [HC_Spawn demo_pane :: demo_call] [] m'" by simp
  from event_stream [OF r, of 1 p] show ?thesis using r p(2,3)
    by (auto simp: set_event_sink_def manager_new_def upt_rec)
qed

text \<open>A pane that is not removed evolves.\<close>

lemma host_run_keeps:
  assumes "host_run m cs out m'" "list_all (\<lambda>c. \<not> removes i c) cs" "mg_panes m i = Some p"
  shows "\<exists>es p'. mg_panes m' i = Some p' \<and> pane_evolves (retention m) i p es p' \<and> mg_config m' = mg_config m"
  using assms
proof (induction arbitrary: p rule: host_run.induct)
  case (1 m)
  then show ?case using pane_evolves_refl by blast
next
  case (2 m c out m1 cs outs m')
  have c: "mg_config m1 = mg_config m" by (rule host_step_config [OF 2(1)])
  have "\<exists>es q. mg_panes m1 i = Some q \<and> pane_evolves (retention m) i p es q"
  proof (cases "sets_sink c")
    case True
    then have "mg_panes m1 = mg_panes m" using 2(1)
      by (cases c) (auto elim: host_stepE simp: set_event_sink_def clear_event_sink_def)
    then show ?thesis using 2(5) pane_evolves_refl by fastforce
  next
    case False
    then obtain es where "does m es out (\<lambda>i. removes i c) m1" using host_step_does [OF 2(1)] by blast
    then have "lives (retention m) i (mg_panes m i) (filter (\<lambda>e. ev_pane_id e = i) es) (mg_panes m1 i)"
      using 2(4) by (simp add: does_def)
    then show ?thesis using 2(5) by (auto simp: lives_def)
  qed
  then obtain es q where q: "mg_panes m1 i = Some q" "pane_evolves (retention m) i p es q" by blast
  obtain fs p' where "mg_panes m' i = Some p'" "pane_evolves (retention m1) i q fs p'" "mg_config m' = mg_config m1"
    using 2(3) [OF _ q(1)] 2(4) by auto
  then show ?case using pane_evolves_trans [OF q(2)] c by auto
qed

text \<open>C15: The end of a pane is final. Once the host can see that a pane has exited, failed or been
  killed, no call changes that: the pane keeps its state until it is removed, and \<open>remove\<close>,
  whenever it returns, hands out exactly the exit that this state means and forgets the pane.\<close>

theorem ended_is_final:
  assumes "host_run (manager_new config) cs out m" "mg_panes m i = Some p" "\<not> is_live (pn_state p)"
    and "host_run m ds outs m'" "list_all (\<lambda>c. \<not> removes i c) ds"
  shows "\<exists>p'. mg_panes m' i = Some p' \<and> pn_state p' = pn_state p
    \<and> (\<forall>r m''. remove_pane i m' = Some (r, m'') \<longrightarrow>
          r = Inr (exit_of (pn_state p)) \<and> mg_panes m'' i = None)"
proof -
  obtain es p' where p': "mg_panes m' i = Some p'" "pane_evolves (retention m) i p es p'" "mg_config m' = mg_config m"
    using host_run_keeps [OF assms(4,5,2)] by blast
  have st: "pn_state p' = pn_state p" using p'(2) assms(3) by (auto simp: pane_evolves_def)
  have "pane_inv (retention (manager_new config)) i p \<and> mg_config m = config"
    using host_run_inv [OF assms(1) _ assms(2)] by (simp add: manager_new_def)
  then have ok: "pane_ok (retention m) i p'"
    using p'(2) by (auto simp: pane_inv_def pane_evolves_def manager_new_def)
  have "r = Inr (exit_of (pn_state p)) \<and> mg_panes m'' i = None" if r: "remove_pane i m' = Some (r, m'')" for r m''
  proof (cases rule: remove_cases [OF r])
    case 1
    then show ?thesis using p'(1) by simp
  next
    case (2 q)
    obtain fs q' where "mg_panes m'' i = Some q'" "pane_evolves (retention m') i p' fs q'"
      by (rule evolves_to_pane [OF 2(1) p'(1)])
    then show ?thesis using 2(2,3) st assms(3) by (auto simp: pane_evolves_def)
  next
    case (3 m1 q)
    obtain fs q' where "mg_panes m1 i = Some q'" "pane_evolves (retention m') i p' fs q'"
      by (rule evolves_to_pane [OF 3(1) p'(1)])
    then have "pn_state q = pn_state p \<and> pane_ok (retention m) i q"
      using 3(2) st assms(3) ok p'(3) by (auto simp: pane_evolves_def)
    then show ?thesis using 3(4,5) remove_exit_ok [of q] by (simp add: pane_ok_def)
  qed
  then show ?thesis using p'(1) st by blast
qed

lemma upd_eq: "(f (i \<mapsto> x) = f (i \<mapsto> y)) = (x = y)"
  by (metis fun_upd_same option.inject)

text \<open>What \<open>kill\<close> does to a running pane.\<close>

lemma kill_running:
  assumes "mg_panes m i = Some p" "pn_process p = Some q" "pn_state p = Running" "pn_exit p = None"
    "pp_kill (mc_process (mg_config m)) q = (Inr (), q')"
  shows "\<exists>p' m'. kill_pane i reason m = Some (Inr (), m') \<and> mg_panes m' = (mg_panes m) (i \<mapsto> p')
    \<and> pn_state p' = Killed reason \<and> pn_exit p' = Some (PX_Killed reason) \<and> pn_process p' = Some q'
    \<and> pn_transcript p' = pn_transcript p \<and> pn_surface p' = pn_surface p
    \<and> mg_events m' = mg_events m @ [next_event m i p (Ev_StateChanged Running (Killed reason))]"
  using assms
  by (simp add: kill_pane_def ensure_running_state_def set_exit_if_not_killed_or_failed_def modify_pane_def
      transition_state_def push_event_eq next_event_def put_pane_def Let_def upd_eq)

theorem ended_is_final_witness:
  "\<exists>m p. host_run (manager_new demo_host) [HC_Spawn demo_pane :: demo_call, HC_Kill 1 UserRequested] [] m
     \<and> mg_panes m 1 = Some p \<and> pn_state p = Killed UserRequested
     \<and> (\<forall>r m''. remove_pane 1 m = Some (r, m'') \<longrightarrow> r = Inr (Some (PX_Killed UserRequested)))"
proof -
  obtain p where p: "spawn demo_pane (manager_new demo_host) = Some (Inr 1, demo_started)"
    "mg_panes demo_started = [1 \<mapsto> p]" "pn_process p = Some ([], queue_new 4)" "pn_state p = Running"
    "mg_config demo_started = demo_host"
    using demo_spawn by blast
  note s = host_step.intros(1) [OF p(1)]
  have "host_run (manager_new demo_host) [HC_Spawn demo_pane :: demo_call] ([] @ []) demo_started"
    using s host_run.intros by blast
  then have started: "host_run (manager_new demo_host) [HC_Spawn demo_pane :: demo_call] [] demo_started" by simp
  then have "pane_inv (retention (manager_new demo_host)) 1 p"
    using host_run_inv [OF started, of 1 p] p(2) by (simp add: manager_new_def)
  then have "pn_exit p = None" using p(4) by (simp add: pane_inv_def pane_ok_def exit_ok_alt exit_of_def)
  then obtain p' m where m: "kill_pane 1 UserRequested demo_started = Some (Inr (), m)"
    "mg_panes m = (mg_panes demo_started) (1 \<mapsto> p')" "pn_state p' = Killed UserRequested"
    using kill_running [of demo_started 1 p "([], queue_new 4)"] p(2-5)
    by (fastforce simp: demo_host_def demo_process_def)
  have "host_run (manager_new demo_host) [HC_Spawn demo_pane :: demo_call, HC_Kill 1 UserRequested] ([] @ [] @ []) m"
    by (rule host_run.intros(2) [OF s host_run.intros(2) [OF host_step.intros(3) [OF m(1)] host_run.intros(1)]])
  then have r: "host_run (manager_new demo_host) [HC_Spawn demo_pane :: demo_call, HC_Kill 1 UserRequested] [] m" by simp
  have "mg_panes m 1 = Some p'" using m(2) by simp
  from ended_is_final [OF r this _ host_run.intros(1)]
  have "\<forall>r m''. remove_pane 1 m = Some (r, m'') \<longrightarrow> r = Inr (Some (PX_Killed UserRequested))"
    using m(3) by (auto simp: exit_of_def)
  with r m(3) \<open>mg_panes m 1 = Some p'\<close> show ?thesis by blast
qed

end
