(* ===== verification/Readers.thy ===== *)
theory Readers
  imports Manager_Lifecycle
begin

text \<open>
  The ranges of the readers (\<open>slice_range\<close>, the character boundaries, \<open>ScrollbackReader\<close> and
  \<open>TranscriptReader\<close> of \<open>manager.rs\<close>) and the builder of the manager's configuration.
\<close>

section \<open>Ranges\<close>

datatype bound = Included nat | Excluded nat | Unbounded

definition saturating_succ :: "nat \<Rightarrow> nat" where "saturating_succ i = min (i + 1) usize_max"

definition slice_range :: "bound \<times> bound \<Rightarrow> nat \<Rightarrow> nat \<times> nat" where
  "slice_range rg len =
     (let start = min (case fst rg of Included i \<Rightarrow> i | Excluded i \<Rightarrow> saturating_succ i | Unbounded \<Rightarrow> 0) len;
          end1 = min (case snd rg of Included i \<Rightarrow> saturating_succ i | Excluded i \<Rightarrow> i | Unbounded \<Rightarrow> len) len
      in (min start end1, end1))"

text \<open>The two loops walk to the nearest character boundary.\<close>

function ceil_walk :: "u8 list \<Rightarrow> nat \<Rightarrow> nat" where
  "ceil_walk text i =
     (if i < length text \<and> \<not> is_char_boundary text i then ceil_walk text (i + 1) else i)"
  by pat_completeness auto
termination
  by (relation "measure (\<lambda>(text, i). length text - i)") auto

declare ceil_walk.simps [simp del]

definition ceil_char_boundary :: "u8 list \<Rightarrow> nat \<Rightarrow> nat" where
  "ceil_char_boundary text idx = ceil_walk text (min idx (length text))"

fun floor_walk :: "u8 list \<Rightarrow> nat \<Rightarrow> nat" where
  "floor_walk text 0 = 0"
| "floor_walk text (Suc i) = (if is_char_boundary text (Suc i) then Suc i else floor_walk text i)"

definition floor_char_boundary :: "u8 list \<Rightarrow> nat \<Rightarrow> nat" where
  "floor_char_boundary text idx = floor_walk text (min idx (length text))"

definition utf8_byte_slice_range :: "u8 list \<Rightarrow> bound \<times> bound \<Rightarrow> nat \<times> nat" where
  "utf8_byte_slice_range text rg =
     (let (s, e) = slice_range rg (length text);
          start = ceil_char_boundary text s;
          end1 = floor_char_boundary text e
      in (min start end1, end1))"


section \<open>Readers\<close>

text \<open>A slice \<open>&xs[a..b]\<close> panics unless \<open>a \<le> b \<le> len\<close>, and for a \<open>str\<close> unless both are boundaries.\<close>

definition subslice :: "'a list \<Rightarrow> nat \<times> nat \<Rightarrow> 'a list option" where
  "subslice xs = (\<lambda>(a, b). if a \<le> b \<and> b \<le> length xs then Some (take (b - a) (drop a xs)) else None)"

definition str_slice :: "u8 list \<Rightarrow> nat \<times> nat \<Rightarrow> u8 list option" where
  "str_slice xs = (\<lambda>(a, b).
     if is_char_boundary xs a \<and> is_char_boundary xs b then subslice xs (a, b) else None)"

definition scrollback_lines :: "scrollback_line list \<Rightarrow> bound \<times> bound \<Rightarrow> scrollback_line list option" where
  "scrollback_lines lines rg = subslice lines (slice_range rg (length lines))"

definition ansi_bytes :: "transcript_reader \<Rightarrow> bound \<times> bound \<Rightarrow> u8 list option" where
  "ansi_bytes r rg = subslice (trd_raw r) (slice_range rg (length (trd_raw r)))"

definition plain_text :: "transcript_reader \<Rightarrow> bound \<times> bound \<Rightarrow> u8 list option" where
  "plain_text r rg = str_slice (trd_plain r) (utf8_byte_slice_range (trd_plain r) rg)"


section \<open>Configuration\<close>

definition elr_bounded :: "nat \<Rightarrow> event_log_retention" where
  "elr_bounded max_events = (if max_events = 0 then ELR_Disabled else ELR_Bounded max_events)"

definition with_pty_spawner ::
    "(nat \<Rightarrow> pane_config \<Rightarrow> pane_error + 'p) \<Rightarrow> ('s, 'p) manager_config \<Rightarrow> ('s, 'p) manager_config" where
  "with_pty_spawner spawner c = c \<lparr>mc_pty_spawner := spawner\<rparr>"

definition with_surface_factory ::
    "(nat \<Rightarrow> pane_id \<Rightarrow> pane_config \<Rightarrow> pane_error + 's) \<Rightarrow> ('s, 'p) manager_config \<Rightarrow> ('s, 'p) manager_config" where
  "with_surface_factory factory c = c \<lparr>mc_surface_factory := factory\<rparr>"

definition with_default_scrollback :: "scrollback_config \<Rightarrow> ('s, 'p) manager_config \<Rightarrow> ('s, 'p) manager_config" where
  "with_default_scrollback policy c = c \<lparr>mc_default_scrollback := policy\<rparr>"

definition with_event_log_retention :: "event_log_retention \<Rightarrow> ('s, 'p) manager_config \<Rightarrow> ('s, 'p) manager_config" where
  "with_event_log_retention r c = c \<lparr>mc_event_log_retention := r\<rparr>"

definition with_max_event_log_entries :: "nat \<Rightarrow> ('s, 'p) manager_config \<Rightarrow> ('s, 'p) manager_config" where
  "with_max_event_log_entries max_events = with_event_log_retention (elr_bounded max_events)"

definition with_max_pty_frames_per_drain :: "nat \<Rightarrow> ('s, 'p) manager_config \<Rightarrow> ('s, 'p) manager_config" where
  "with_max_pty_frames_per_drain limit c = c \<lparr>mc_max_pty_frames_per_drain := max limit 1\<rparr>"

definition with_max_pty_frames_per_repro_dump :: "nat \<Rightarrow> ('s, 'p) manager_config \<Rightarrow> ('s, 'p) manager_config" where
  "with_max_pty_frames_per_repro_dump limit c = c \<lparr>mc_max_pty_frames_per_repro_dump := max limit 1\<rparr>"


section \<open>Ranges are what they name\<close>

lemma slice_range_ok: "slice_range rg n = (a, b) \<Longrightarrow> a \<le> b \<and> b \<le> n"
  by (auto simp: slice_range_def Let_def)

text \<open>The positions named by a range.\<close>

fun above :: "bound \<Rightarrow> nat \<Rightarrow> bool" where
  "above (Included i) k = (i \<le> k)"
| "above (Excluded i) k = (i < k)"
| "above Unbounded k = True"

fun below :: "bound \<Rightarrow> nat \<Rightarrow> bool" where
  "below (Included i) k = (k \<le> i)"
| "below (Excluded i) k = (k < i)"
| "below Unbounded k = True"

definition in_range :: "bound \<times> bound \<Rightarrow> nat \<Rightarrow> bool" where
  "in_range rg k = (above (fst rg) k \<and> below (snd rg) k)"

definition range_start :: "bound \<Rightarrow> nat" where
  "range_start b = (case b of Included i \<Rightarrow> i | Excluded i \<Rightarrow> saturating_succ i | Unbounded \<Rightarrow> 0)"

definition range_end :: "bound \<Rightarrow> nat \<Rightarrow> nat" where
  "range_end b len = (case b of Included i \<Rightarrow> saturating_succ i | Excluded i \<Rightarrow> i | Unbounded \<Rightarrow> len)"

lemma slice_range_alt:
  "slice_range rg n = (min (min (range_start (fst rg)) n) (min (range_end (snd rg) n) n), min (range_end (snd rg) n) n)"
  by (simp add: slice_range_def range_start_def range_end_def Let_def)

lemma above_start: "k < n \<Longrightarrow> n \<le> usize_max \<Longrightarrow> above b k \<longleftrightarrow> range_start b \<le> k"
  by (cases b) (auto simp: range_start_def saturating_succ_def min_le_iff_disj)

lemma below_end: "k < n \<Longrightarrow> n \<le> usize_max \<Longrightarrow> below b k \<longleftrightarrow> k < range_end b n"
  by (cases b) (auto simp: range_end_def saturating_succ_def)

lemma slice_range_positions:
  assumes "n \<le> usize_max" "slice_range rg n = (a, b)" "k < n"
  shows "in_range rg k \<longleftrightarrow> a \<le> k \<and> k < b"
proof -
  have "a = min (min (range_start (fst rg)) n) b" "b = min (range_end (snd rg) n) n"
    using assms(2) by (auto simp: slice_range_alt)
  then show ?thesis using assms(3) above_start [OF assms(3,1)] below_end [OF assms(3,1)]
    by (auto simp: in_range_def min_le_iff_disj)
qed

lemma take_drop_nth: "b \<le> length xs \<Longrightarrow> take (b - a) (drop a xs) = map ((!) xs) [a..<b]"
  by (rule nth_equalityI) auto

lemma filter_interval: "b \<le> n \<Longrightarrow> filter (\<lambda>k. a \<le> k \<and> k < b) [0..<n] = [a..<b]"
  by (rule sorted_distinct_set_unique) (auto simp: sorted_wrt_filter)

lemma slice_named:
  assumes "length xs \<le> usize_max"
  shows "subslice xs (slice_range rg (length xs)) = Some (map ((!) xs) (filter (in_range rg) [0..<length xs]))"
proof -
  obtain a b where ab: "slice_range rg (length xs) = (a, b)" by fastforce
  have "filter (in_range rg) [0..<length xs] = filter (\<lambda>k. a \<le> k \<and> k < b) [0..<length xs]"
    using slice_range_positions [OF assms ab] by (intro filter_cong) auto
  also have "\<dots> = [a..<b]" using slice_range_ok [OF ab] by (intro filter_interval) simp
  finally show ?thesis using slice_range_ok [OF ab] ab by (simp add: subslice_def take_drop_nth)
qed

text \<open>The characters that lie within the bytes from \<open>a\<close> to \<open>b\<close>.\<close>

definition char_pos :: "rstr \<Rightarrow> nat \<Rightarrow> nat" where
  "char_pos s k = length (utf8 (take k s))"

definition chars_within :: "nat \<Rightarrow> nat \<Rightarrow> rstr \<Rightarrow> rstr" where
  "chars_within a b s =
     map ((!) s) (filter (\<lambda>k. a \<le> char_pos s k \<and> char_pos s (Suc k) \<le> b) [0..<length s])"

lemma char_pos_0 [simp]: "char_pos s 0 = 0"
  and char_pos_end: "char_pos s (length s) = length (utf8 s)"
  by (simp_all add: char_pos_def)

lemma char_pos_Cons: "char_pos (c # s) (Suc k) = length (utf8_char c) + char_pos s k"
  by (simp add: char_pos_def utf8_Cons)

lemma char_pos_Suc: "k < length s \<Longrightarrow> char_pos s (Suc k) = char_pos s k + length (utf8_char (s ! k))"
  by (simp add: char_pos_def take_Suc_conv_app_nth utf8_Cons)

lemma utf8_char_pos: "0 < length (utf8_char c)"
  using utf8_char_length [of c] utf8_len_pos [of c] by simp

lemma char_pos_less: "j < k \<Longrightarrow> k \<le> length s \<Longrightarrow> char_pos s j < char_pos s k"
proof (induction k)
  case (Suc k)
  then show ?case using char_pos_Suc [of k s] utf8_char_pos [of "s ! k"] by (cases "j = k") auto
qed simp

lemma char_pos_mono: "j \<le> k \<Longrightarrow> k \<le> length s \<Longrightarrow> char_pos s j \<le> char_pos s k"
  using char_pos_less [of j k s] by (cases "j = k") auto

lemma char_pos_le: "k \<le> length s \<Longrightarrow> char_pos s k \<le> length (utf8 s)"
  using char_pos_mono [of k "length s" s] by (simp add: char_pos_end)

lemma utf8_char_inside:
  assumes "scalar c" "0 < n" "n < length (utf8_char c)" shows "is_cont (unat (utf8_char c ! n))"
proof -
  have "c < 0x110000" using assms(1) by (simp add: scalar_def)
  then have "c div 262144 \<le> 4" "c div 64 mod 64 < 64" "c mod 64 < 64" "c div 4096 mod 64 < 64" by simp_all
  then show ?thesis using assms(2,3)
    by (auto simp: utf8_char_def is_cont_def unat_of_small nth_Cons split: if_splits nat.splits simp del: of_nat_add)
qed

lemma boundary_is_char_pos:
  assumes "list_all scalar s" "is_char_boundary (utf8 s) n"
  shows "\<exists>k\<le>length s. n = char_pos s k"
  using assms
proof (induction s arbitrary: n)
  case (Cons c s)
  show ?case
  proof (cases "n < length (utf8_char c)")
    case True
    have "n = 0"
    proof (rule ccontr)
      assume "n \<noteq> 0"
      then have "is_cont (unat (utf8 (c # s) ! n))"
        using utf8_char_inside [of c n] Cons.prems(1) True by (simp add: utf8_Cons nth_append)
      then show False using Cons.prems(2) \<open>n \<noteq> 0\<close> True by (simp add: is_char_boundary_def utf8_Cons)
    qed
    then show ?thesis by (intro exI [of _ 0]) simp
  next
    case False
    then have "is_char_boundary (utf8 s) (n - length (utf8_char c))"
      using Cons.prems(2) by (auto simp: is_char_boundary_def utf8_Cons nth_append)
    then obtain k where "k \<le> length s" "n - length (utf8_char c) = char_pos s k"
      using Cons.IH Cons.prems(1) by auto
    then show ?thesis using False by (intro exI [of _ "Suc k"]) (simp add: char_pos_Cons)
  qed
qed (simp add: is_char_boundary_def)

lemma char_pos_boundary: "list_all scalar s \<Longrightarrow> is_char_boundary (utf8 s) (char_pos s k)"
  using boundary_between [of "take k s" "drop k s"] utf8_append [of "take k s" "drop k s"]
  by (auto simp: char_pos_def list_all_iff dest: in_set_takeD in_set_dropD)

lemma ceil_walk_spec:
  "n \<le> length t \<Longrightarrow> n \<le> ceil_walk t n \<and> ceil_walk t n \<le> length t \<and> is_char_boundary t (ceil_walk t n)
     \<and> (\<forall>k. is_char_boundary t k \<longrightarrow> n \<le> k \<longrightarrow> ceil_walk t n \<le> k)"
proof (induction t n rule: ceil_walk.induct)
  case (1 t i)
  show ?case
  proof (cases "i < length t \<and> \<not> is_char_boundary t i")
    case True
    then have "\<And>k. is_char_boundary t k \<Longrightarrow> i \<le> k \<Longrightarrow> Suc i \<le> k" by (metis Suc_leI le_neq_implies_less)
    then show ?thesis using 1(1) [OF True] True by (subst (1 2 3 4) ceil_walk.simps) auto
  next
    case False
    then have "is_char_boundary t i" using 1(2) by (auto simp: is_char_boundary_def)
    then show ?thesis using 1(2) False by (subst (1 2 3 4) ceil_walk.simps) auto
  qed
qed

lemma floor_walk_spec:
  "floor_walk t n \<le> n \<and> is_char_boundary t (floor_walk t n)
     \<and> (\<forall>k. is_char_boundary t k \<longrightarrow> k \<le> n \<longrightarrow> k \<le> floor_walk t n)"
  by (induction n) (auto simp: is_char_boundary_def le_Suc_eq)

lemma slice_utf8:
  assumes "i \<le> j" "j \<le> length s"
  shows "take (char_pos s j - char_pos s i) (drop (char_pos s i) (utf8 s)) = utf8 (take (j - i) (drop i s))"
proof -
  have s: "s = take i s @ take (j - i) (drop i s) @ drop j s"
    using assms by (metis append_take_drop_id drop_drop le_add_diff_inverse2)
  have t: "take j s = take i s @ take (j - i) (drop i s)"
    using assms by (metis le_add_diff_inverse take_add)
  have "utf8 s = utf8 (take i s) @ utf8 (take (j - i) (drop i s)) @ utf8 (drop j s)"
    using s by (metis utf8_append)
  then show ?thesis using t by (simp add: char_pos_def)
qed

text \<open>C30: The readers hand out exactly what a range names and never panic. Lines and raw bytes are those at
  the positions of the range; of the plain text it is the characters that lie wholly within the
  named bytes, whatever bounds are given, within, beyond or across characters.\<close>

theorem readers_exact:
  assumes "list_all scalar s" "length (utf8 s) \<le> usize_max" "length lines \<le> usize_max"
    "length (trd_raw r) \<le> usize_max" "trd_plain r = utf8 s"
  shows "scrollback_lines lines rg = Some (map ((!) lines) (filter (in_range rg) [0..<length lines]))
    \<and> ansi_bytes r rg = Some (map ((!) (trd_raw r)) (filter (in_range rg) [0..<length (trd_raw r)]))
    \<and> (\<exists>a b. slice_range rg (length (utf8 s)) = (a, b) \<and> plain_text r rg = Some (utf8 (chars_within a b s)))"
proof -
  let ?t = "utf8 s"
  obtain a b where ab: "slice_range rg (length ?t) = (a, b)" by fastforce
  note ok = slice_range_ok [OF ab]
  obtain i where i: "i \<le> length s" "ceil_char_boundary ?t a = char_pos s i"
    using ceil_walk_spec [of a ?t] ok boundary_is_char_pos [OF assms(1)] by (auto simp: ceil_char_boundary_def)
  obtain j where j: "j \<le> length s" "floor_char_boundary ?t b = char_pos s j"
    using floor_walk_spec [of ?t b] ok boundary_is_char_pos [OF assms(1)] by (auto simp: floor_char_boundary_def)
  have ia: "a \<le> char_pos s i" and jb: "char_pos s j \<le> b"
    using ceil_walk_spec [of a ?t] floor_walk_spec [of ?t b] ok i(2) j(2)
    by (simp_all add: ceil_char_boundary_def floor_char_boundary_def)
  have a_le: "a \<le> char_pos s k \<longleftrightarrow> i \<le> k" if "k \<le> length s" for k
  proof
    assume "a \<le> char_pos s k"
    then have "char_pos s i \<le> char_pos s k"
      using ceil_walk_spec [of a ?t] ok i(2) char_pos_boundary [OF assms(1)] by (simp add: ceil_char_boundary_def)
    then show "i \<le> k" using char_pos_less [of k i s] i(1) by (meson leD le_less_linear)
  next
    assume "i \<le> k"
    then show "a \<le> char_pos s k"
      using char_pos_mono [OF _ that, of i] ia by simp
  qed
  have b_le: "char_pos s k \<le> b \<longleftrightarrow> k \<le> j" if "k \<le> length s" for k
  proof
    assume "char_pos s k \<le> b"
    then have "char_pos s k \<le> char_pos s j"
      using floor_walk_spec [of ?t b] ok j(2) char_pos_boundary [OF assms(1)] by (simp add: floor_char_boundary_def)
    then show "k \<le> j" using char_pos_less [of j k s] that by (meson leD le_less_linear)
  next
    assume "k \<le> j"
    then show "char_pos s k \<le> b"
      using char_pos_mono [OF _ j(1), of k] jb by simp
  qed
  have "filter (\<lambda>k. a \<le> char_pos s k \<and> char_pos s (Suc k) \<le> b) [0..<length s] = filter (\<lambda>k. i \<le> k \<and> k < j) [0..<length s]"
    using a_le b_le by (intro filter_cong) (auto simp: Suc_le_eq)
  then have within: "chars_within a b s = take (j - i) (drop i s)"
    using j(1) by (simp add: chars_within_def filter_interval take_drop_nth)
  have "utf8_byte_slice_range ?t rg = (min (char_pos s i) (char_pos s j), char_pos s j)"
    using ab i(2) j(2) by (simp add: utf8_byte_slice_range_def Let_def)
  moreover have "is_char_boundary ?t (min (char_pos s i) (char_pos s j))"
    using char_pos_boundary [OF assms(1)] by (simp add: min_def)
  moreover have "take (char_pos s j - min (char_pos s i) (char_pos s j)) (drop (min (char_pos s i) (char_pos s j)) ?t)
      = utf8 (take (j - i) (drop i s))"
  proof (cases "i \<le> j")
    case True
    then show ?thesis using slice_utf8 [OF True j(1)] char_pos_mono [OF True j(1)] by (simp add: min_def)
  next
    case False
    then have "char_pos s j \<le> char_pos s i" using char_pos_mono [of j i s] i(1) by simp
    then show ?thesis using False by (simp add: min_def)
  qed
  ultimately have "plain_text r rg = Some (utf8 (chars_within a b s))"
    using assms(5) char_pos_boundary [OF assms(1)] char_pos_le [OF j(1)]
    by (simp add: plain_text_def str_slice_def subslice_def within)
  then show ?thesis using ab slice_named [OF assms(3)] slice_named [OF assms(4)] by (simp add: scrollback_lines_def ansi_bytes_def)
qed

theorem readers_exact_witness:
  "plain_text \<lparr>trd_raw_start_offset = 0, trd_plain_start_offset = 0, trd_raw = [], trd_plain = utf8 [0xe9, 0x61]\<rparr>
     (Included 1, Excluded 3) = Some (utf8 [0x61])"
proof -
  let ?r = "\<lparr>trd_raw_start_offset = 0, trd_plain_start_offset = 0, trd_raw = [], trd_plain = utf8 [0xe9, 0x61]\<rparr>"
  have "length (utf8 [0xe9, 0x61]) = 3" by (simp add: utf8_Cons utf8_char_def)
  moreover have "chars_within 1 3 [0xe9, 0x61] = [0x61]"
    by (simp add: chars_within_def char_pos_def utf8_Cons utf8_char_def numeral_2_eq_2 upt_rec take_Cons')
  ultimately show ?thesis
    using readers_exact [of "[0xe9, 0x61]" "[]" ?r "(Included 1, Excluded 3)"]
    by (simp add: scalar_def usize_max_def slice_range_def)
qed

end
