(* ===== verification/Manager_Data.thy ===== *)
theory Manager_Data
  imports Manager_Runs
begin

text \<open>
  What a pane has recorded: over everything that can happen to it, its surface, its mode overlay, its
  transcript and its size history stay four records of one and the same sequence of feeds and
  resizes.
\<close>

section \<open>Feeds and resizes\<close>

datatype data_op = DO_Feed "u8 list" | DO_Resize pane_size

fun op_bytes :: "data_op list \<Rightarrow> u8 list" where
  "op_bytes [] = []"
| "op_bytes (DO_Feed b # ops) = b @ op_bytes ops"
| "op_bytes (DO_Resize z # ops) = op_bytes ops"

fun op_surface :: "'s surface_backend \<Rightarrow> data_op list \<Rightarrow> 's \<Rightarrow> 's" where
  "op_surface sb [] s = s"
| "op_surface sb (DO_Feed b # ops) s = op_surface sb ops (snd (sb_feed sb s b))"
| "op_surface sb (DO_Resize z # ops) s = op_surface sb ops (snd (sb_resize sb s z))"

fun op_overlay :: "data_op list \<Rightarrow> mode_overlay \<Rightarrow> mode_overlay" where
  "op_overlay [] o1 = o1"
| "op_overlay (DO_Feed b # ops) o1 = op_overlay ops (snd (update_from_output o1 b))"
| "op_overlay (DO_Resize z # ops) o1 = op_overlay ops o1"

text \<open>The size history: each size with the number of bytes before it.\<close>

fun op_sizes :: "nat \<Rightarrow> data_op list \<Rightarrow> repro_size_event list" where
  "op_sizes n [] = []"
| "op_sizes n (DO_Feed b # ops) = op_sizes (n + length b) ops"
| "op_sizes n (DO_Resize z # ops) = \<lparr>rse_transcript_offset = n, rse_size = z\<rparr> # op_sizes n ops"

definition op_ok :: "'s surface_backend \<Rightarrow> data_op list \<Rightarrow> bool" where
  "op_ok sb ops = (\<forall>z. DO_Resize z \<in> set ops \<longrightarrow> (\<exists>s. sb_validate_resize sb s z = Inr ()))"

lemma op_append [simp]:
  "op_bytes (xs @ ys) = op_bytes xs @ op_bytes ys"
  "op_surface sb (xs @ ys) s = op_surface sb ys (op_surface sb xs s)"
  "op_overlay (xs @ ys) o1 = op_overlay ys (op_overlay xs o1)"
  "op_sizes n (xs @ ys) = op_sizes n xs @ op_sizes (n + length (op_bytes xs)) ys"
  "op_ok sb (xs @ ys) = (op_ok sb xs \<and> op_ok sb ys)"
proof -
  show "op_sizes n (xs @ ys) = op_sizes n xs @ op_sizes (n + length (op_bytes xs)) ys"
    by (induction n xs rule: op_sizes.induct) (simp_all add: add.assoc)
qed (induction xs arbitrary: s o1 rule: op_bytes.induct; auto simp: op_ok_def)+

text \<open>What a resize of the surface may rely on: once the size has been validated, it succeeds.\<close>

definition honest_surface :: "'s surface_backend \<Rightarrow> bool" where
  "honest_surface sb = (\<forall>s t z. sb_validate_resize sb s z = Inr () \<longrightarrow> fst (sb_resize sb t z) = Inr ())"

definition data_to :: "'s surface_backend \<Rightarrow> ('s, 'p) pane \<Rightarrow> ('s, 'p) pane \<Rightarrow> bool" where
  "data_to sb p p' =
     (\<exists>ops. op_ok sb ops
       \<and> pn_surface p' = op_surface sb ops (pn_surface p)
       \<and> pn_mode_overlay p' = op_overlay ops (pn_mode_overlay p)
       \<and> tr_mode (pn_transcript p') = tr_mode (pn_transcript p)
       \<and> tr_next_raw_offset (pn_transcript p') = tr_next_raw_offset (pn_transcript p) + length (op_bytes ops)
       \<and> suffix (tr_raw (pn_transcript p')) (tr_raw (pn_transcript p)
            @ (if records_raw_bytes (pn_transcript p) then op_bytes ops else []))
       \<and> pn_size_history p' = pn_size_history p @ op_sizes (tr_next_raw_offset (pn_transcript p)) ops)"

lemma data_to_same: "same_data p q \<Longrightarrow> data_to sb p q"
  by (auto simp: same_data_def data_to_def op_ok_def intro: exI [of _ "[]"])

lemma records_raw_mode: "tr_mode t' = tr_mode t \<Longrightarrow> records_raw_bytes t' = records_raw_bytes t"
  by (simp add: records_raw_bytes_def)

lemma data_to_trans:
  assumes "data_to sb p q" "data_to sb q r" shows "data_to sb p r"
proof -
  obtain xs where x: "op_ok sb xs" "pn_surface q = op_surface sb xs (pn_surface p)"
    "pn_mode_overlay q = op_overlay xs (pn_mode_overlay p)"
    "tr_mode (pn_transcript q) = tr_mode (pn_transcript p)"
    "tr_next_raw_offset (pn_transcript q) = tr_next_raw_offset (pn_transcript p) + length (op_bytes xs)"
    "suffix (tr_raw (pn_transcript q)) (tr_raw (pn_transcript p)
        @ (if records_raw_bytes (pn_transcript p) then op_bytes xs else []))"
    "pn_size_history q = pn_size_history p @ op_sizes (tr_next_raw_offset (pn_transcript p)) xs"
    using assms(1) unfolding data_to_def by (elim exE conjE) (rule that)
  obtain ys where y: "op_ok sb ys" "pn_surface r = op_surface sb ys (pn_surface q)"
    "pn_mode_overlay r = op_overlay ys (pn_mode_overlay q)"
    "tr_mode (pn_transcript r) = tr_mode (pn_transcript q)"
    "tr_next_raw_offset (pn_transcript r) = tr_next_raw_offset (pn_transcript q) + length (op_bytes ys)"
    "suffix (tr_raw (pn_transcript r)) (tr_raw (pn_transcript q)
        @ (if records_raw_bytes (pn_transcript q) then op_bytes ys else []))"
    "pn_size_history r = pn_size_history q @ op_sizes (tr_next_raw_offset (pn_transcript q)) ys"
    using assms(2) unfolding data_to_def by (elim exE conjE) (rule that)
  have "suffix (tr_raw (pn_transcript r)) (tr_raw (pn_transcript p)
      @ (if records_raw_bytes (pn_transcript p) then op_bytes (xs @ ys) else []))"
    using suffix_order.trans [OF y(6)] x(6) records_raw_mode [OF x(4)]
    by (cases "records_raw_bytes (pn_transcript p)") (auto simp: append_assoc [symmetric] simp del: append_assoc)
  then show ?thesis unfolding data_to_def using x y
    by (intro exI [of _ "xs @ ys"]) (simp add: add.assoc)
qed

lemma record_frame_raw:
  assumes "record_frame t bytes = Some (rec, t')"
  shows "suffix (tr_raw t') (tr_raw t @ (if records_raw_bytes t then bytes else []))"
proof -
  have e: "enforce_limits u = Some (r, u') \<Longrightarrow> suffix (tr_raw u') (tr_raw u)" for u r u'
    by (auto simp: enforce_limits_def Let_def bind_eq_Some_conv suffix_drop split: if_splits prod.splits)
  have p: "record_plain u bytes = (a, b, u') \<Longrightarrow> tr_raw u' = tr_raw u" for u a b u'
    by (auto simp: record_plain_def Let_def split: if_splits)
  show ?thesis using assms
    by (auto simp: record_frame_def Let_def bind_eq_Some_conv records_raw_bytes_def split: if_splits prod.splits
        dest!: e p)
qed

lemma flush_pending_raw:
  assumes "flush_pending t = Some (rot, t')" shows "suffix (tr_raw t') (tr_raw t)"
  using assms by (auto simp: flush_pending_def enforce_limits_def Let_def bind_eq_Some_conv suffix_drop
      split: if_splits prod.splits)


section \<open>Every step records\<close>

definition same_all :: "('s, 'p) pane_manager \<Rightarrow> ('s, 'p) pane_manager \<Rightarrow> bool" where
  "same_all m m' = (mg_config m' = mg_config m \<and> (\<forall>i. rel_option same_data (mg_panes m i) (mg_panes m' i)))"

lemma same_data_refl [simp]: "same_data p p"
  by (simp add: same_data_def)

lemma same_all_refl [simp]: "same_all m m"
  by (simp add: same_all_def option.rel_refl)

lemma same_all_trans: "same_all m m1 \<Longrightarrow> same_all m1 m2 \<Longrightarrow> same_all m m2"
proof -
  assume a: "same_all m m1" "same_all m1 m2"
  have "rel_option same_data (mg_panes m i) (mg_panes m2 i)" for i
    using a unfolding same_all_def by (cases "mg_panes m i"; cases "mg_panes m1 i"; cases "mg_panes m2 i")
      (fastforce simp: same_data_def dest: spec [of _ i])+
  then show ?thesis using a by (simp add: same_all_def)
qed

lemma same_all_put: "mg_panes m i = Some p \<Longrightarrow> same_data p q \<Longrightarrow> same_all m (put_pane i q m)"
  by (simp add: same_all_def option.rel_refl)

lemma same_all_push: "push_event i k m = Some m' \<Longrightarrow> same_all m m'"
  using same_all_put [of m i] by (auto simp: push_event_eq same_all_def split: option.splits)

lemma same_all_transition:
  assumes "transition_state i s m = Some m'" shows "same_all m m'"
proof -
  obtain p where p: "mg_panes m i = Some p" using assms by (auto simp: transition_state_def split: option.splits)
  have "same_all m (put_pane i (p \<lparr>pn_state := s\<rparr>) m)" using p by (auto intro: same_all_put simp: same_data_def)
  then show ?thesis using assms p
    by (auto simp: transition_state_def split: if_splits intro: same_all_trans same_all_push)
qed

lemma same_all_modify:
  "modify_pane i f m = Some m' \<Longrightarrow> (\<And>p. same_data p (f p)) \<Longrightarrow> same_all m m'"
  by (auto simp: modify_pane_def intro: same_all_put)

lemma same_all_exit: "set_exit_if_not_killed_or_failed i x m = Some m' \<Longrightarrow> same_all m m'"
  unfolding set_exit_if_not_killed_or_failed_def
  by (erule same_all_modify) (simp add: same_data_def split: option.split pane_exit.split)

lemma same_all_rotated: "push_rotated i r m = Some m' \<Longrightarrow> same_all m m'"
  by (auto simp: push_rotated_def intro: same_all_push split: option.splits)

text \<open>A frame is recorded four times: by the overlay, the transcript, the surface, and in the offset.\<close>

lemma record_output_data:
  assumes "record_output_frame i bytes m = Some (r, m')"
  shows "\<exists>p p0. mg_panes m i = Some p \<and> data_to (mc_surface (mg_config m)) p p0 \<and> same_all (put_pane i p0 m) m'"
proof -
  let ?sb = "mc_surface (mg_config m)"
  obtain p rec t where p: "mg_panes m i = Some p" "record_frame (pn_transcript p) bytes = Some (rec, t)"
    using assms by (auto simp: record_output_frame_def bind_eq_Some_conv)
  let ?p0 = "p \<lparr>pn_mode_overlay := snd (update_from_output (pn_mode_overlay p) bytes), pn_transcript := t\<rparr>"
  obtain m1 where m1: "push_rotated i (rec_rotated rec) (put_pane i ?p0 m) = Some m1"
    using assms p by (auto simp: record_output_frame_def bind_eq_Some_conv Let_def)
  note s1 = same_all_rotated [OF m1]
  obtain q where q: "mg_panes m1 i = Some q" "same_data ?p0 q" "mg_config m1 = mg_config m"
    using s1 by (cases "mg_panes m1 i") (auto simp: same_all_def dest!: spec [of _ i])
  obtain x m2 where x: "feed_surface_bytes i bytes m1 = (x, m2)" by fastforce
  define s where "s = snd (sb_feed ?sb (pn_surface p) bytes)"
  define p1 where "p1 = ?p0 \<lparr>pn_surface := s\<rparr>"
  have "same_all (put_pane i p1 m) m2"
  proof -
    obtain q2 where q2: "m2 = put_pane i q2 m1" "same_data p1 q2"
      using x q by (auto simp: feed_surface_bytes_def Let_def same_data_def p1_def s_def split: prod.splits sum.splits)
    have "rel_option same_data (mg_panes (put_pane i p1 m) j) (mg_panes m2 j)" for j
      using s1 q2 by (cases "j = i") (auto simp: same_all_def dest!: spec [of _ j])
    then show ?thesis using q(3) q2(1) by (simp add: same_all_def)
  qed
  moreover have "same_all m2 m'"
    using assms p m1 x
    by (cases x) (auto simp: record_output_frame_def bind_eq_Some_conv Let_def split: if_splits prod.splits
        intro: same_all_trans same_all_push)
  moreover have "data_to ?sb p p1"
    using record_frame_static [OF p(2)] record_frame_raw [OF p(2)]
    by (auto simp: data_to_def p1_def s_def op_ok_def intro!: exI [of _ "[DO_Feed bytes]"])
  ultimately show ?thesis using p(1) same_all_trans by blast
qed

definition data_all :: "('s, 'p) pane_manager \<Rightarrow> ('s, 'p) pane_manager \<Rightarrow> bool" where
  "data_all m m' = (\<forall>i. rel_option (data_to (mc_surface (mg_config m))) (mg_panes m i) (mg_panes m' i))"

lemma data_to_refl [simp]: "data_to sb p p"
  by (rule data_to_same) simp

lemma same_all_data: "same_all m m' \<Longrightarrow> data_all m m'"
  unfolding same_all_def data_all_def using data_to_same by (blast intro: option.rel_mono_strong)

lemma data_all_put: "mg_panes m i = Some p \<Longrightarrow> data_to (mc_surface (mg_config m)) p q \<Longrightarrow> data_all m (put_pane i q m)"
  by (simp add: data_all_def option.rel_refl)

lemma data_all_trans:
  assumes "data_all m m1" "data_all m1 m2" "mg_config m1 = mg_config m" shows "data_all m m2"
proof -
  have "rel_option (data_to (mc_surface (mg_config m))) (mg_panes m i) (mg_panes m2 i)" for i
    using assms data_to_trans unfolding data_all_def
    by (cases "mg_panes m i"; cases "mg_panes m1 i"; cases "mg_panes m2 i") (fastforce dest: spec [of _ i])+
  then show ?thesis by (simp add: data_all_def)
qed

lemma pane_step_data:
  assumes "pane_step m m'" "honest_surface (mc_surface (mg_config m))" shows "data_all m m'"
  using assms
proof (induction rule: pane_step.induct)
  case (event i k m m')
  then show ?case by (intro same_all_data same_all_push)
next
  case (ended m i p s x m1 m2)
  then show ?case by (intro same_all_data) (blast intro: same_all_trans same_all_exit same_all_transition)
next
  case (recorded i bytes m r m')
  then obtain p p0 where p: "mg_panes m i = Some p" "data_to (mc_surface (mg_config m)) p p0"
    "same_all (put_pane i p0 m) m'" using record_output_data by blast
  from data_all_trans [OF data_all_put [OF p(1,2)] same_all_data [OF p(3)]] show ?case by simp
next
  case (flushed m i p rot t)
  then show ?case using flush_pending_static [OF flushed(2)] flush_pending_raw [OF flushed(2)]
    by (intro data_all_put) (auto simp: data_to_def op_ok_def suffix_appendI intro!: exI [of _ "[]"])
next
  case (resized m i p x z s)
  then show ?case
    by (intro data_all_put) (auto simp: data_to_def op_ok_def intro!: exI [of _ "[DO_Resize z]"])
next
  case (resize_failed m i p x z e s)
  then have "fst (sb_resize (mc_surface (mg_config m)) (pn_surface p) z) = Inr ()"
    unfolding honest_surface_def by blast
  then show ?case using resize_failed(4) by simp
next
  case (clock m)
  show ?case by (simp add: data_all_def option.rel_refl)
qed (auto intro!: same_all_data same_all_put simp: same_data_def)

lemma evolves_data:
  assumes "evolves_to m m'" "honest_surface (mc_surface (mg_config m))" shows "data_all m m'"
  using assms
proof (induction rule: rtranclp_induct)
  case base
  show ?case by (simp add: data_all_def option.rel_refl)
next
  case (step m1 m2)
  have c: "mg_config m1 = mg_config m" by (rule evolves_to_config [OF step(1)])
  from data_all_trans [OF step(3) [OF step(4)] pane_step_data [OF step(2)] c] step(4) c show ?case by simp
qed


section \<open>Every reachable pane has recorded its life\<close>

text \<open>A call of the host is a spawn, or it lets the manager evolve and may take a pane out of it.\<close>

lemma host_step_shape:
  assumes "host_step m c out m'"
  shows "(\<exists>config r. spawn config m = Some (r, m'))
    \<or> (\<exists>m1. evolves_to m m1 \<and> (\<forall>i p. mg_panes m' i = Some p \<longrightarrow> mg_panes m1 i = Some p))"
proof -
  have removed: "\<exists>m1. evolves_to m0 m1 \<and> (\<forall>j p. mg_panes m' j = Some p \<longrightarrow> mg_panes m1 j = Some p)"
    if "remove_pane i m0 = Some (r, m')" for i m0 r
    using evolves_to_refl
  proof (cases rule: remove_cases [OF that])
    case (3 m1 p)
    then show ?thesis by (intro exI [of _ m1]) (auto split: if_splits)
  qed blast+
  from assms show ?thesis
  proof cases
    case (2 i r)
    then show ?thesis using removed by blast
  next
    case (4 i reason r)
    show ?thesis
    proof (cases rule: kill_and_remove_cases [OF 4(3)])
      case (1 e)
      then show ?thesis using kill_evolves by blast
    next
      case (2 m1)
      then show ?thesis using removed [OF 2(2)] evolves_to_trans [OF kill_evolves [OF 2(1)]] by blast
    qed
  next
    case 11
    then obtain m1 where m1: "poll_panes m = Some m1" "m' = m1 \<lparr>mg_events := []\<rparr>"
      by (auto simp: drain_events_def bind_eq_Some_conv)
    then show ?thesis using poll_panes_evolves [OF m1(1)] by (intro disjI2 exI [of _ m1]) simp
  qed (use evolves_to_refl in \<open>auto simp: manager_write_bytes_def subscribe_def hang_up_def set_event_sink_def
      clear_event_sink_def alloc_placeholder_id_def dest!: kill_evolves resize_evolves send_raw_evolves send_input_evolves
      send_transaction_evolves polled_evolves attach_evolves dump_evolves\<close>)
qed

definition recorded :: "('s, 'p) manager_config \<Rightarrow> pane_id \<Rightarrow> ('s, 'p) pane \<Rightarrow> bool" where
  "recorded cfg i p =
     (\<exists>k c s q. mc_surface_factory cfg k i c = Inr s \<and> pane_config_validate c = Inr ()
        \<and> pc_scrollback c \<noteq> None \<and> pn_spawn_config p = c \<lparr>pc_id := Some i\<rparr>
        \<and> data_to (mc_surface cfg) (pane_spawned (c \<lparr>pc_id := Some i\<rparr>) s q) p)"

lemma evolves_recorded:
  assumes "evolves_to m m'" "honest_surface (mc_surface (mg_config m))" "mg_panes m' i = Some p'"
    "\<And>p. mg_panes m i = Some p \<Longrightarrow> recorded (mg_config m) i p"
  shows "recorded (mg_config m) i p'"
proof -
  obtain es p where p: "mg_panes m i = Some p" "pane_evolves (retention m) i p es p'"
    by (rule evolves_to_back [OF assms(1,3)])
  have "rel_option (data_to (mc_surface (mg_config m))) (mg_panes m i) (mg_panes m' i)"
    using evolves_data [OF assms(1,2)] unfolding data_all_def by blast
  then have d: "data_to (mc_surface (mg_config m)) p p'" using p(1) assms(3) by simp
  have "pn_spawn_config p' = pn_spawn_config p" using p(2) by (simp add: pane_evolves_def)
  then show ?thesis using assms(4) [OF p(1)] data_to_trans [OF _ d] unfolding recorded_def by metis
qed

lemma host_run_recorded:
  assumes "host_run m cs out m'" "honest_surface (mc_surface (mg_config m))"
    "\<And>i p. mg_panes m i = Some p \<Longrightarrow> recorded (mg_config m) i p" "mg_panes m' i = Some p'"
  shows "recorded (mg_config m) i p'"
  using assms
proof (induction rule: host_run.induct)
  case (2 m c out m1 cs outs m')
  have c: "mg_config m1 = mg_config m" by (rule host_step_config [OF 2(1)])
  have "recorded (mg_config m1) j p" if p: "mg_panes m1 j = Some p" for j p
    using host_step_shape [OF 2(1)]
  proof (elim disjE exE conjE)
    fix m2 assume e: "evolves_to m m2" "\<forall>i p. mg_panes m1 i = Some p \<longrightarrow> mg_panes m2 i = Some p"
    then show ?thesis using evolves_recorded [OF e(1) 2(4)] 2(5) p c by simp
  next
    fix config r assume s: "spawn config m = Some (r, m1)"
    show ?thesis
    proof (cases rule: spawn_cases [of config m])
      case (failed e n t)
      then show ?thesis using s p 2(5) c by auto
    next
      case (spawned i n s' q c' p' m2)
      have "m1 = m2" using s spawned(1) by simp
      have v: "pane_config_validate c' = Inr ()" "pc_scrollback c' \<noteq> None"
        using spawned(2,5) by (simp_all add: pane_config_validate_ok_iff)
      have "pn_spawn_config p' = c' \<lparr>pc_id := Some i\<rparr>"
        using spawned(8) by (simp add: pane_evolves_def pane_spawned_def)
      then have "recorded (mg_config m) i p'"
        using spawned(6) v data_to_same [OF spawned(12)] unfolding recorded_def by blast
      then show ?thesis using p 2(5) c spawned(11) \<open>m1 = m2\<close> by (auto split: if_splits)
    qed
  qed
  then show ?case using 2(3) [OF _ _ 2(6)] 2(4) c by simp
qed auto

end
