(* ===== verification/Vt100_Surface.thy ===== *)
theory Vt100_Surface
  imports Mode_Overlay
begin

text \<open>
  The terminal surface (\<open>vt100_surface.rs\<close>), and the two backends that wrap it
  (\<open>default_surface.rs\<close> and \<open>panesmith-vt100/src/backend.rs\<close>).

  The parser is the crate \<open>vt100\<close>, which is not part of the sources: it is a record of
  its operations over an abstract screen and an abstract cell. A screen has a viewport that can be
  scrolled back over its history. \<open>process\<close> reports the calls of the callbacks, and the hasher of the
  standard library is a function of the values it was fed.
\<close>

section \<open>The parser\<close>

datatype vt_color = VT_Default | VT_Idx u8 | VT_Rgb u8 u8 u8

datatype vt_mouse_mode = VM_None | VM_Press | VM_PressRelease | VM_ButtonMotion | VM_AnyMotion

datatype vt_callback = CB_Icon_Name "u8 list" | CB_Title "u8 list"

datatype hash_item = H_Bool bool | H_Str rstr | H_U8 u8

record ('v, 'c) vt100 =
  vt_new :: "u16 \<Rightarrow> u16 \<Rightarrow> nat \<Rightarrow> 'v"
  vt_process :: "'v \<Rightarrow> u8 list \<Rightarrow> vt_callback list \<times> 'v"
  vt_size :: "'v \<Rightarrow> u16 \<times> u16"
  vt_set_size :: "'v \<Rightarrow> u16 \<Rightarrow> u16 \<Rightarrow> 'v"
  vt_scrollback :: "'v \<Rightarrow> nat"
  vt_set_scrollback :: "'v \<Rightarrow> nat \<Rightarrow> 'v"
  vt_cursor_position :: "'v \<Rightarrow> u16 \<times> u16"
  vt_hide_cursor :: "'v \<Rightarrow> bool"
  vt_bracketed_paste :: "'v \<Rightarrow> bool"
  vt_mouse_protocol_mode :: "'v \<Rightarrow> vt_mouse_mode"
  vt_application_cursor :: "'v \<Rightarrow> bool"
  vt_alternate_screen :: "'v \<Rightarrow> bool"
  vt_cell :: "'v \<Rightarrow> u16 \<Rightarrow> u16 \<Rightarrow> 'c option"
  vt_row_wrapped :: "'v \<Rightarrow> u16 \<Rightarrow> bool"
  vt_rows :: "'v \<Rightarrow> u16 \<Rightarrow> u16 \<Rightarrow> rstr list"
  vc_contents :: "'c \<Rightarrow> rstr"
  vc_is_wide :: "'c \<Rightarrow> bool"
  vc_is_wide_continuation :: "'c \<Rightarrow> bool"
  vc_fgcolor :: "'c \<Rightarrow> vt_color"
  vc_bgcolor :: "'c \<Rightarrow> vt_color"
  vc_bold :: "'c \<Rightarrow> bool"
  vc_dim :: "'c \<Rightarrow> bool"
  vc_italic :: "'c \<Rightarrow> bool"
  vc_underline :: "'c \<Rightarrow> bool"
  vc_inverse :: "'c \<Rightarrow> bool"
  vt_hash :: "hash_item list \<Rightarrow> nat"


section \<open>The surface\<close>

record scrollback_state =
  sbs_len :: nat
  sbs_digest :: "nat option"

record 'v vt_surface =
  vs_pane_id :: pane_id
  vs_parser :: 'v
  vs_title_name :: "rstr option"
  vs_icon_name :: "rstr option"
  vs_scrollback_state :: scrollback_state
  vs_previous_byte_was_escape :: bool
  vs_mode_overlay :: mode_overlay
  vs_validation_name :: rstr
  vs_scrollback_capacity :: nat

text \<open>\<open>BackendCallbacks\<close>.\<close>

definition callback :: "vt_callback \<Rightarrow> 'v vt_surface \<Rightarrow> 'v vt_surface" where
  "callback cb s =
     (case cb of
        CB_Icon_Name name \<Rightarrow> s \<lparr>vs_icon_name := Some (utf8_lossy name)\<rparr>
      | CB_Title name \<Rightarrow> s \<lparr>vs_title_name := Some (utf8_lossy name)\<rparr>)"

definition vs_title :: "'v vt_surface \<Rightarrow> rstr option" where
  "vs_title s = (if vs_title_name s \<noteq> None then vs_title_name s else vs_icon_name s)"

definition process :: "('v, 'c) vt100 \<Rightarrow> u8 list \<Rightarrow> 'v vt_surface \<Rightarrow> 'v vt_surface" where
  "process vt bytes s =
     (let (calls, parser) = vt_process vt (vs_parser s) bytes
      in fold callback calls (s \<lparr>vs_parser := parser\<rparr>))"

definition validate_supported_size :: "pane_size \<Rightarrow> rstr \<Rightarrow> pane_error + pane_size" where
  "validate_supported_size size1 name =
     (case size_try_new (sz_rows size1) (sz_cols size1) of
        Inl e \<Rightarrow> Inl e
      | Inr z \<Rightarrow>
          if sz_rows z < 2 then
            Inl (Surface_Error (name @ lit '' requires at least two rows; got rows=''
              @ dec_str (unat (sz_rows z)) @ lit '' cols='' @ dec_str (unat (sz_cols z))))
          else Inr z)"

definition size_from_screen :: "('v, 'c) vt100 \<Rightarrow> 'v \<Rightarrow> pane_size" where
  "size_from_screen vt v = (case vt_size vt v of (rows, cols) \<Rightarrow> mk_size rows cols)"

definition cursor_from_screen :: "('v, 'c) vt100 \<Rightarrow> 'v \<Rightarrow> cursor_state" where
  "cursor_from_screen vt v =
     \<lparr>cu_position = Some (vt_cursor_position vt v), cu_visible = (\<not> vt_hide_cursor vt v)\<rparr>"

definition mouse_mode_from_vt100 :: "vt_mouse_mode \<Rightarrow> mouse_mode" where
  "mouse_mode_from_vt100 mode =
     (case mode of VM_None \<Rightarrow> MM_None | VM_Press \<Rightarrow> MM_X10 | VM_PressRelease \<Rightarrow> MM_Normal
      | VM_ButtonMotion \<Rightarrow> MM_ButtonEvent | VM_AnyMotion \<Rightarrow> MM_AnyEvent)"

definition modes_from_screen :: "('v, 'c) vt100 \<Rightarrow> 'v \<Rightarrow> terminal_modes" where
  "modes_from_screen vt v =
     \<lparr>tm_bracketed_paste = vt_bracketed_paste vt v, tm_focus_events = False,
      tm_application_cursor = vt_application_cursor vt v,
      tm_alternate_screen = vt_alternate_screen vt v,
      tm_mouse = mouse_mode_from_vt100 (vt_mouse_protocol_mode vt v)\<rparr>"

definition vs_modes :: "('v, 'c) vt100 \<Rightarrow> 'v vt_surface \<Rightarrow> terminal_modes" where
  "vs_modes vt s = merge_with (vs_mode_overlay s) (modes_from_screen vt (vs_parser s))"


section \<open>Cells and rows\<close>

definition color_from_vt100 :: "vt_color \<Rightarrow> color_spec option" where
  "color_from_vt100 color =
     (case color of VT_Default \<Rightarrow> None | VT_Idx i \<Rightarrow> Some (Color_Indexed i)
      | VT_Rgb r g b \<Rightarrow> Some (Color_Rgb r g b))"

definition style_from_vt100_cell :: "('v, 'c) vt100 \<Rightarrow> 'c \<Rightarrow> cell_style" where
  "style_from_vt100_cell vt c =
     \<lparr>cs_fg = color_from_vt100 (vc_fgcolor vt c), cs_bg = color_from_vt100 (vc_bgcolor vt c),
      cs_underline_color = None,
      cs_attrs =
        \<lparr>ca_bold = vc_bold vt c, ca_dim = vc_dim vt c, ca_italic = vc_italic vt c,
         ca_underlined = vc_underline vt c, ca_slow_blink = False, ca_rapid_blink = False,
         ca_reversed = vc_inverse vt c, ca_hidden = False, ca_crossed_out = False\<rparr>\<rparr>"

definition width_from_vt100_cell :: "('v, 'c) vt100 \<Rightarrow> 'c \<Rightarrow> cell_width" where
  "width_from_vt100_cell vt c =
     (if vc_is_wide_continuation vt c then CW_Continuation
      else if vc_is_wide vt c then CW_Double else CW_Single)"

definition surface_cell_from_vt100 :: "('v, 'c) vt100 \<Rightarrow> 'c option \<Rightarrow> surface_cell" where
  "surface_cell_from_vt100 vt cell =
     (case cell of
        None \<Rightarrow> \<lparr>sc_text = [], sc_width = CW_Single, sc_style = cell_style_default\<rparr>
      | Some c \<Rightarrow>
          \<lparr>sc_text = vc_contents vt c, sc_width = width_from_vt100_cell vt c,
           sc_style = style_from_vt100_cell vt c\<rparr>)"

definition snapshot_row :: "('v, 'c) vt100 \<Rightarrow> 'v \<Rightarrow> u16 \<Rightarrow> u16 \<Rightarrow> surface_row" where
  "snapshot_row vt v row cols =
     \<lparr>sr_cells = map (\<lambda>col. surface_cell_from_vt100 vt (vt_cell vt v row (word_of_nat col))) [0..<unat cols],
      sr_wrapped = vt_row_wrapped vt v row\<rparr>"

definition snapshot_rows :: "('v, 'c) vt100 \<Rightarrow> 'v \<Rightarrow> surface_row list" where
  "snapshot_rows vt v =
     (let z = size_from_screen vt v
      in map (\<lambda>row. snapshot_row vt v (word_of_nat row) (sz_cols z)) [0..<unat (sz_rows z)])"

definition vs_snapshot :: "('v, 'c) vt100 \<Rightarrow> 'v vt_surface \<Rightarrow> surface_snapshot" where
  "vs_snapshot vt s =
     \<lparr>ss_size = size_from_screen vt (vs_parser s), ss_rows = snapshot_rows vt (vs_parser s),
      ss_cursor = cursor_from_screen vt (vs_parser s), ss_modes = vs_modes vt s, ss_title = vs_title s\<rparr>"

text \<open>The values of a row that are hashed.\<close>

definition hash_vt100_color :: "vt_color \<Rightarrow> hash_item list" where
  "hash_vt100_color color =
     (case color of VT_Default \<Rightarrow> [H_U8 0] | VT_Idx i \<Rightarrow> [H_U8 1, H_U8 i]
      | VT_Rgb r g b \<Rightarrow> [H_U8 2, H_U8 r, H_U8 g, H_U8 b])"

definition hash_vt100_cell :: "('v, 'c) vt100 \<Rightarrow> 'c \<Rightarrow> hash_item list" where
  "hash_vt100_cell vt c =
     [H_Bool True, H_Str (vc_contents vt c), H_Bool (vc_is_wide vt c), H_Bool (vc_is_wide_continuation vt c)]
     @ hash_vt100_color (vc_fgcolor vt c) @ hash_vt100_color (vc_bgcolor vt c)
     @ [H_Bool (vc_bold vt c), H_Bool (vc_dim vt c), H_Bool (vc_italic vt c), H_Bool (vc_underline vt c),
        H_Bool (vc_inverse vt c)]"

definition hash_scrollback_row :: "('v, 'c) vt100 \<Rightarrow> 'v \<Rightarrow> u16 \<Rightarrow> u16 \<Rightarrow> hash_item list" where
  "hash_scrollback_row vt v row cols =
     H_Bool (vt_row_wrapped vt v row)
     # concat (map (\<lambda>col. case vt_cell vt v row (word_of_nat col) of
                            Some c \<Rightarrow> hash_vt100_cell vt c | None \<Rightarrow> [H_Bool False]) [0..<unat cols])"


section \<open>Scrollback\<close>

text \<open>The reading functions scroll the viewport of the screen and put it back.\<close>

definition scrollback_len_from_screen :: "('v, 'c) vt100 \<Rightarrow> 'v \<Rightarrow> nat \<times> 'v" where
  "scrollback_len_from_screen vt v =
     (let previous_offset = vt_scrollback vt v;
          v = vt_set_scrollback vt v usize_max;
          len = vt_scrollback vt v
      in (len, vt_set_scrollback vt v previous_offset))"

definition newest_scrollback_row_digest_from_screen :: "('v, 'c) vt100 \<Rightarrow> 'v \<Rightarrow> nat \<times> 'v" where
  "newest_scrollback_row_digest_from_screen vt v =
     (let previous_offset = vt_scrollback vt v;
          v = vt_set_scrollback vt v usize_max;
          v = vt_set_scrollback vt v 1;
          digest = vt_hash vt (hash_scrollback_row vt v 0 (sz_cols (size_from_screen vt v)))
      in (digest, vt_set_scrollback vt v previous_offset))"

definition page_height :: "pane_size \<Rightarrow> nat" where "page_height z = max (unat (sz_rows z)) 1"

text \<open>The paging loop: a page at a time from the oldest row, \<open>read\<close> giving what is read of the
  first rows of the viewport.\<close>

function scrollback_pages ::
    "('v, 'c) vt100 \<Rightarrow> ('v \<Rightarrow> nat \<Rightarrow> 'b list) \<Rightarrow> pane_size \<Rightarrow> nat \<Rightarrow> 'v \<Rightarrow> 'b list \<times> 'v" where
  "scrollback_pages vt read z remaining v =
     (if remaining = 0 then ([], v)
      else
        (let v = vt_set_scrollback vt v remaining;
             out = read v (min remaining (page_height z));
             (outs, v) = scrollback_pages vt read z (remaining - page_height z) v
         in (out @ outs, v)))"
  by pat_completeness auto
termination
  by (relation "measure (\<lambda>(vt, read, z, remaining, v). remaining)") (auto simp: page_height_def)

declare scrollback_pages.simps [simp del]

definition hash_page :: "('v, 'c) vt100 \<Rightarrow> u16 \<Rightarrow> 'v \<Rightarrow> nat \<Rightarrow> hash_item list" where
  "hash_page vt cols v n = concat (map (\<lambda>row. hash_scrollback_row vt v (word_of_nat row) cols) [0..<n])"

definition scrollback_digest_from_screen ::
    "('v, 'c) vt100 \<Rightarrow> 'v \<Rightarrow> nat \<Rightarrow> nat \<Rightarrow> bool \<Rightarrow> nat option \<times> 'v" where
  "scrollback_digest_from_screen vt v total_rows capacity force =
     (if total_rows < capacity \<and> \<not> force then (None, v)
      else if total_rows = 0 then (None, v)
      else
        (let z = size_from_screen vt v;
             (items, v) = scrollback_pages vt (hash_page vt (sz_cols z)) z total_rows v
         in (Some (vt_hash vt items), v)))"

definition scrollback_state_from_screen ::
    "('v, 'c) vt100 \<Rightarrow> 'v \<Rightarrow> nat \<Rightarrow> bool \<Rightarrow> scrollback_state \<times> 'v" where
  "scrollback_state_from_screen vt v capacity force =
     (let previous_offset = vt_scrollback vt v;
          v = vt_set_scrollback vt v usize_max;
          len = vt_scrollback vt v;
          (digest, v) = scrollback_digest_from_screen vt v len capacity force
      in (\<lparr>sbs_len = len, sbs_digest = digest\<rparr>, vt_set_scrollback vt v previous_offset))"

definition scrollback_state_after_feed ::
    "('v, 'c) vt100 \<Rightarrow> 'v \<Rightarrow> scrollback_state \<Rightarrow> bool \<Rightarrow> nat \<Rightarrow> scrollback_state \<times> 'v" where
  "scrollback_state_after_feed vt v previous may_reset capacity =
     (let previous_offset = vt_scrollback vt v;
          v = vt_set_scrollback vt v usize_max;
          len = vt_scrollback vt v;
          force = (may_reset \<and> len = sbs_len previous \<and> len < capacity);
          (state, v) =
            (if len = sbs_len previous \<and> len < capacity \<and> \<not> force then (previous, v)
             else (case scrollback_digest_from_screen vt v len capacity force of
                     (digest, v) \<Rightarrow> (\<lparr>sbs_len = len, sbs_digest = digest\<rparr>, v)))
      in (state, vt_set_scrollback vt v previous_offset))"

definition feed_may_reset_scrollback :: "u8 list \<Rightarrow> bool \<Rightarrow> bool" where
  "feed_may_reset_scrollback bytes previous_byte_was_escape =
     ((previous_byte_was_escape \<and> starts_with bytes [0x63])
      \<or> list_ex (\<lambda>i. starts_with (drop i bytes) [0x1b, 0x63]) [0..<length bytes])"

definition scrollback_line_from_screen ::
    "('v, 'c) vt100 \<Rightarrow> 'v \<Rightarrow> u16 \<Rightarrow> u16 \<Rightarrow> rstr \<Rightarrow> scrollback_line" where
  "scrollback_line_from_screen vt v row cols text1 =
     \<lparr>sl_text = text1, sl_row = snapshot_row vt v row cols\<rparr>"

definition snapshot_page :: "('v, 'c) vt100 \<Rightarrow> u16 \<Rightarrow> 'v \<Rightarrow> nat \<Rightarrow> scrollback_line list" where
  "snapshot_page vt cols v n =
     (let texts = take n (vt_rows vt v 0 cols)
      in map (\<lambda>row. scrollback_line_from_screen vt v (word_of_nat row) cols (texts ! row)) [0..<length texts])"

definition scrollback_snapshot_from_screen :: "('v, 'c) vt100 \<Rightarrow> 'v \<Rightarrow> scrollback_line list" where
  "scrollback_snapshot_from_screen vt v =
     (let z = size_from_screen vt v;
          v = vt_set_scrollback vt v usize_max
      in fst (scrollback_pages vt (snapshot_page vt (sz_cols z)) z (vt_scrollback vt v) v))"


section \<open>Dirty rows\<close>

definition row_differs :: "('v, 'c) vt100 \<Rightarrow> 'v \<Rightarrow> 'v \<Rightarrow> u16 \<Rightarrow> u16 \<Rightarrow> bool" where
  "row_differs vt previous current row cols =
     (vt_row_wrapped vt previous row \<noteq> vt_row_wrapped vt current row
      \<or> list_ex (\<lambda>col. vt_cell vt previous row (word_of_nat col) \<noteq> vt_cell vt current row (word_of_nat col))
          [0..<unat cols])"

text \<open>The loop over the rows, with the first row that differs and the end of the last.\<close>

definition dirty_bounds :: "(nat \<Rightarrow> bool) \<Rightarrow> nat list \<Rightarrow> nat option \<times> nat \<Rightarrow> nat option \<times> nat" where
  "dirty_bounds differs rows =
     fold (\<lambda>row (first, last_exclusive).
       if differs row then ((case first of None \<Rightarrow> Some row | Some f \<Rightarrow> Some f), row + 1)
       else (first, last_exclusive)) rows"

definition dirty_rows_between :: "('v, 'c) vt100 \<Rightarrow> 'v \<Rightarrow> 'v \<Rightarrow> dirty_rows" where
  "dirty_rows_between vt previous current =
     (if vt_size vt previous \<noteq> vt_size vt current then Dirty_All
      else
        (let (rows, cols) = vt_size vt current;
             (first, last_exclusive) =
               dirty_bounds (\<lambda>row. row_differs vt previous current (word_of_nat row) cols) [0..<unat rows] (None, 0)
         in case first of
              None \<Rightarrow> Dirty_None
            | Some start \<Rightarrow>
                if start = 0 \<and> last_exclusive = unat rows then Dirty_All
                else Dirty_Range (word_of_nat start) (word_of_nat last_exclusive)))"


section \<open>Feeding and resizing\<close>

definition vs_new ::
    "('v, 'c) vt100 \<Rightarrow> pane_id \<Rightarrow> pane_size \<Rightarrow> nat \<Rightarrow> rstr \<Rightarrow> pane_error + 'v vt_surface" where
  "vs_new vt pane_id size1 capacity name =
     (case validate_supported_size size1 name of
        Inl e \<Rightarrow> Inl e
      | Inr z \<Rightarrow>
          (case scrollback_state_from_screen vt (vt_new vt (sz_rows z) (sz_cols z) capacity) capacity False of
             (state, parser) \<Rightarrow>
               Inr \<lparr>vs_pane_id = pane_id, vs_parser = parser, vs_title_name = None, vs_icon_name = None,
                    vs_scrollback_state = state, vs_previous_byte_was_escape = False,
                    vs_mode_overlay = mode_overlay_default, vs_validation_name = name,
                    vs_scrollback_capacity = capacity\<rparr>))"

definition vs_validate_resize :: "'v vt_surface \<Rightarrow> pane_size \<Rightarrow> pane_error + unit" where
  "vs_validate_resize s size1 = map_sum id (\<lambda>_. ()) (validate_supported_size size1 (vs_validation_name s))"

definition vs_resize ::
    "('v, 'c) vt100 \<Rightarrow> 'v vt_surface \<Rightarrow> pane_size \<Rightarrow> (pane_error + unit) \<times> 'v vt_surface" where
  "vs_resize vt s size1 =
     (case validate_supported_size size1 (vs_validation_name s) of
        Inl e \<Rightarrow> (Inl e, s)
      | Inr _ \<Rightarrow>
          (case scrollback_state_from_screen vt (vt_set_size vt (vs_parser s) (sz_rows size1) (sz_cols size1))
                  (vs_scrollback_capacity s) False of
             (state, parser) \<Rightarrow> (Inr (), s \<lparr>vs_parser := parser, vs_scrollback_state := state\<rparr>)))"

text \<open>\<open>process_bytes_and_count_scrollback_drops\<close>: an unlimited buffer drops nothing and is fed
  the bytes at once; a limited one is fed byte by byte, and a drop is counted when the buffer was and
  stays full and its newest row changed.\<close>

fun count_drops :: "('v, 'c) vt100 \<Rightarrow> u8 list \<Rightarrow> nat \<Rightarrow> nat \<Rightarrow> 'v vt_surface \<Rightarrow> nat \<times> 'v vt_surface" where
  "count_drops vt [] before_len dropped s = (dropped, s)"
| "count_drops vt (b # bs) before_len dropped s =
     (let capacity = vs_scrollback_capacity s;
          full = (0 < capacity \<and> before_len = capacity);
          (before_newest, s) =
            (if full then
               (case newest_scrollback_row_digest_from_screen vt (vs_parser s) of
                  (d, v) \<Rightarrow> (Some d, s \<lparr>vs_parser := v\<rparr>))
             else (None, s));
          s = process vt [b] s;
          (after_len, v) = scrollback_len_from_screen vt (vs_parser s);
          s = s \<lparr>vs_parser := v\<rparr>;
          (dropped, s) =
            (if full \<and> after_len = capacity then
               (case newest_scrollback_row_digest_from_screen vt (vs_parser s) of
                  (d, v) \<Rightarrow>
                    (if before_newest \<noteq> Some d then min (dropped + 1) u64_max else dropped,
                     s \<lparr>vs_parser := v\<rparr>))
             else (dropped, s))
      in count_drops vt bs after_len dropped s)"

definition process_bytes_and_count_scrollback_drops ::
    "('v, 'c) vt100 \<Rightarrow> u8 list \<Rightarrow> 'v vt_surface \<Rightarrow> nat \<times> 'v vt_surface" where
  "process_bytes_and_count_scrollback_drops vt bytes s =
     (if vs_scrollback_capacity s = usize_max then (0, process vt bytes s)
      else
        (case scrollback_len_from_screen vt (vs_parser s) of
           (before_len, v) \<Rightarrow> count_drops vt bytes before_len 0 (s \<lparr>vs_parser := v\<rparr>)))"

definition vs_feed ::
    "('v, 'c) vt100 \<Rightarrow> 'v vt_surface \<Rightarrow> u8 list \<Rightarrow> (pane_error + surface_update) \<times> 'v vt_surface" where
  "vs_feed vt s bytes =
     (if bytes = [] then (Inr (surface_update_new Dirty_None), s)
      else
        (let previous_screen = vs_parser s;
             previous_cursor = cursor_from_screen vt previous_screen;
             previous_modes = vs_modes vt s;
             previous_title = vs_title s;
             may_reset = feed_may_reset_scrollback bytes (vs_previous_byte_was_escape s);
             (previous_state, previous_screen) =
               (if may_reset \<and> sbs_len (vs_scrollback_state s) < vs_scrollback_capacity s
                then scrollback_state_from_screen vt previous_screen (vs_scrollback_capacity s) True
                else (vs_scrollback_state s, previous_screen));
             s = s \<lparr>vs_mode_overlay := snd (update_from_output (vs_mode_overlay s) bytes)\<rparr>;
             (dropped, s) = process_bytes_and_count_scrollback_drops vt bytes s;
             s = s \<lparr>vs_previous_byte_was_escape := (last bytes = 0x1b)\<rparr>;
             cursor = cursor_from_screen vt (vs_parser s);
             modes = vs_modes vt s;
             dirty = dirty_rows_between vt previous_screen (vs_parser s);
             (state, v) = scrollback_state_after_feed vt (vs_parser s) previous_state may_reset
               (vs_scrollback_capacity s);
             s = s \<lparr>vs_parser := v, vs_scrollback_state := state\<rparr>
         in (Inr \<lparr>su_dirty_rows = dirty, su_cursor_changed = (cursor \<noteq> previous_cursor),
                  su_title_changed = (vs_title s \<noteq> previous_title), su_modes_changed = (modes \<noteq> previous_modes),
                  su_scrollback_changed = (state \<noteq> previous_state), su_scrollback_lines_dropped = dropped\<rparr>, s)))"

text \<open>The two backends differ in their names only.\<close>

definition vt_backend :: "('v, 'c) vt100 \<Rightarrow> surface_metadata \<Rightarrow> 'v vt_surface surface_backend" where
  "vt_backend vt metadata =
     \<lparr>sb_size = (\<lambda>s. size_from_screen vt (vs_parser s)), sb_resize = vs_resize vt,
      sb_validate_resize = vs_validate_resize, sb_feed = vs_feed vt, sb_snapshot = vs_snapshot vt,
      sb_cursor = (\<lambda>s. cursor_from_screen vt (vs_parser s)), sb_modes = vs_modes vt,
      sb_scrollback = (\<lambda>s. scrollback_snapshot_from_screen vt (vs_parser s)),
      sb_metadata = (\<lambda>_. metadata)\<rparr>"

definition configured_scrollback_rows :: "scrollback_config \<Rightarrow> nat" where
  "configured_scrollback_rows config = (case sb_max_lines config of Some n \<Rightarrow> n | None \<Rightarrow> usize_max)"

definition default_surface_metadata :: "rstr \<Rightarrow> surface_metadata" where
  "default_surface_metadata version =
     \<lparr>sm_name = lit ''panesmith-core/default-surface-vt100'', sm_version = version,
      sm_replay_kind = Some DefaultSurfaceVt100\<rparr>"

definition default_surface_backend :: "('v, 'c) vt100 \<Rightarrow> rstr \<Rightarrow> 'v vt_surface surface_backend" where
  "default_surface_backend vt version = vt_backend vt (default_surface_metadata version)"

definition default_surface_new ::
    "('v, 'c) vt100 \<Rightarrow> pane_id \<Rightarrow> pane_size \<Rightarrow> scrollback_config \<Rightarrow> pane_error + 'v vt_surface" where
  "default_surface_new vt pane_id size1 config =
     vs_new vt pane_id size1 (configured_scrollback_rows config) (lit ''default surface backend'')"

definition vt100_backend_metadata :: "rstr \<Rightarrow> surface_metadata" where
  "vt100_backend_metadata version =
     \<lparr>sm_name = lit ''panesmith-vt100/reference-backend'', sm_version = version,
      sm_replay_kind = Some DefaultSurfaceVt100\<rparr>"

definition vt100_backend :: "('v, 'c) vt100 \<Rightarrow> rstr \<Rightarrow> 'v vt_surface surface_backend" where
  "vt100_backend vt version = vt_backend vt (vt100_backend_metadata version)"

definition vt100_backend_new ::
    "('v, 'c) vt100 \<Rightarrow> pane_id \<Rightarrow> pane_size \<Rightarrow> pane_error + 'v vt_surface" where
  "vt100_backend_new vt pane_id size1 = vs_new vt pane_id size1 usize_max (lit ''vt100 backend'')"

definition vt100_backend_new_with_scrollback ::
    "('v, 'c) vt100 \<Rightarrow> pane_id \<Rightarrow> pane_size \<Rightarrow> scrollback_config \<Rightarrow> pane_error + 'v vt_surface" where
  "vt100_backend_new_with_scrollback vt pane_id size1 config =
     vs_new vt pane_id size1 (case sb_max_lines config of Some n \<Rightarrow> n | None \<Rightarrow> usize_max) (lit ''vt100 backend'')"

end
