(* ===== verification/Vt100_Laws.thy ===== *)
theory Vt100_Laws
  imports Vt100_Surface
begin

text \<open>
  What holds of the terminal surface, for every parser that keeps the documented behaviour of the crate:
  its scrollback is complete and in order, its dirty rows are exact, feeding never fails and does not
  depend on how the bytes are cut, and the count of dropped lines misses repeated lines.
\<close>

section \<open>The documented behaviour of the parser\<close>

definition history :: "('v, 'c) vt100 \<Rightarrow> 'v \<Rightarrow> nat" where
  "history vt v = vt_scrollback vt (vt_set_scrollback vt v usize_max)"

text \<open>Scrolling the viewport clamps to the history, moves nothing else, and can be undone. Row \<open>r\<close> of a viewport
  scrolled back by \<open>n\<close> is the first row of one scrolled back by \<open>n - r\<close>.\<close>

definition scrolls :: "('v, 'c) vt100 \<Rightarrow> bool" where
  "scrolls vt =
     (\<forall>v n m. vt_scrollback vt (vt_set_scrollback vt v n) = min n (history vt v)
       \<and> vt_set_scrollback vt (vt_set_scrollback vt v n) m = vt_set_scrollback vt v m
       \<and> vt_set_scrollback vt v (vt_scrollback vt v) = v
       \<and> vt_size vt (vt_set_scrollback vt v n) = vt_size vt v)"

definition line_at :: "('v, 'c) vt100 \<Rightarrow> 'v \<Rightarrow> nat \<Rightarrow> scrollback_line" where
  "line_at vt v row =
     (let cols = snd (vt_size vt v)
      in scrollback_line_from_screen vt v (word_of_nat row) cols (vt_rows vt v 0 cols ! row))"

definition pages :: "('v, 'c) vt100 \<Rightarrow> bool" where
  "pages vt =
     (\<forall>v. length (vt_rows vt v 0 (snd (vt_size vt v))) = unat (fst (vt_size vt v))
       \<and> (\<forall>n r. n \<le> history vt v \<longrightarrow> r < n \<longrightarrow> r < unat (fst (vt_size vt v)) \<longrightarrow>
            line_at vt (vt_set_scrollback vt v n) r = line_at vt (vt_set_scrollback vt v (n - r)) 0))"

text \<open>Parsing does not depend on how the bytes are cut, and a fresh screen can be resized at will.\<close>

definition streams :: "('v, 'c) vt100 \<Rightarrow> bool" where
  "streams vt =
     ((\<forall>v. vt_process vt v [] = ([], v))
      \<and> (\<forall>v a b. vt_process vt v (a @ b) =
           (let (xs, v1) = vt_process vt v a; (ys, v2) = vt_process vt v1 b in (xs @ ys, v2)))
      \<and> (\<forall>r c cap r' c'. vt_set_size vt (vt_new vt r c cap) r' c' = vt_new vt r' c' cap))"

lemma scrollsD:
  assumes "scrolls vt"
  shows "vt_scrollback vt (vt_set_scrollback vt v n) = min n (history vt v)"
    and "vt_set_scrollback vt (vt_set_scrollback vt v n) m = vt_set_scrollback vt v m"
    and "vt_set_scrollback vt v (vt_scrollback vt v) = v"
    and "vt_size vt (vt_set_scrollback vt v n) = vt_size vt v"
  using assms unfolding scrolls_def by blast+

lemma pagesD:
  assumes "pages vt"
  shows "length (vt_rows vt v 0 (snd (vt_size vt v))) = unat (fst (vt_size vt v))"
    and "n \<le> history vt v \<Longrightarrow> r < n \<Longrightarrow> r < unat (fst (vt_size vt v)) \<Longrightarrow>
      line_at vt (vt_set_scrollback vt v n) r = line_at vt (vt_set_scrollback vt v (n - r)) 0"
  using assms unfolding pages_def by blast+

lemma history_set: "scrolls vt \<Longrightarrow> history vt (vt_set_scrollback vt v n) = history vt v"
  by (simp add: history_def scrollsD(2))

lemma streamsD:
  assumes "streams vt"
  shows "vt_process vt v [] = ([], v)"
    and "vt_process vt v (a @ b) =
           (let (xs, v1) = vt_process vt v a; (ys, v2) = vt_process vt v1 b in (xs @ ys, v2))"
    and "vt_set_size vt (vt_new vt r c cap) r' c' = vt_new vt r' c' cap"
  using assms unfolding streams_def by blast+


section \<open>Reading the history\<close>

lemma len_from_screen: "scrolls vt \<Longrightarrow> scrollback_len_from_screen vt v = (history vt v, v)"
  by (simp add: scrollback_len_from_screen_def scrollsD(2,3) Let_def history_def)

lemma newest_from_screen: "scrolls vt \<Longrightarrow> snd (newest_scrollback_row_digest_from_screen vt v) = v"
  by (simp add: newest_scrollback_row_digest_from_screen_def scrollsD(2,3) Let_def)

lemma pages_scroll: "scrolls vt \<Longrightarrow> vt_set_scrollback vt (snd (scrollback_pages vt read z n v)) k = vt_set_scrollback vt v k"
proof (induction n arbitrary: v rule: less_induct)
  case (less n)
  show ?case
  proof (cases "n = 0")
    case False
    then have "n - page_height z < n" by (simp add: page_height_def)
    from less.IH [OF this less.prems] show ?thesis using False
      by (subst scrollback_pages.simps) (simp add: Let_def split_def scrollsD(2) [OF less.prems])
  qed (simp add: scrollback_pages.simps)
qed

lemma digest_scroll: "scrolls vt \<Longrightarrow>
    vt_set_scrollback vt (snd (scrollback_digest_from_screen vt v n cap force)) k = vt_set_scrollback vt v k"
  using pages_scroll by (auto simp: scrollback_digest_from_screen_def Let_def split_def)

lemma state_from_screen: "scrolls vt \<Longrightarrow> snd (scrollback_state_from_screen vt v cap force) = v"
  by (simp add: scrollback_state_from_screen_def Let_def split_def digest_scroll scrollsD(2,3))

lemma state_after_feed: "scrolls vt \<Longrightarrow> snd (scrollback_state_after_feed vt v prev reset cap) = v"
  by (simp add: scrollback_state_after_feed_def Let_def split_def digest_scroll scrollsD(2,3))

lemma pages_in_order:
  assumes "scrolls vt" "n \<le> h"
    and page: "\<And>k. k \<le> h \<Longrightarrow> read (vt_set_scrollback vt v k) (min k (page_height z)) = map f [h - k..<h - k + min k (page_height z)]"
  shows "fst (scrollback_pages vt read z n (vt_set_scrollback vt v m)) = map f [h - n..<h]"
  using assms(2)
proof (induction n arbitrary: m rule: less_induct)
  case (less n)
  show ?case
  proof (cases "n = 0")
    case False
    define p where "p = min n (page_height z)"
    have p: "0 < p" "p \<le> n" "n - page_height z = n - p" using False by (auto simp: p_def page_height_def)
    then have "n - page_height z < n" "n - page_height z \<le> h" using less.prems False by auto
    from less.IH [OF this, of n] have rest: "fst (scrollback_pages vt read z (n - page_height z) (vt_set_scrollback vt v n))
        = map f [h - (n - p)..<h]" using p(3) by simp
    have "h - n + p = h - (n - p)" using p less.prems by simp
    then have "[h - n..<h - n + p] @ [h - (n - p)..<h] = [h - n..<h]"
      using upt_add_eq_append [of "h - n" "h - n + p" "n - p"] p(2) less.prems by simp
    then show ?thesis using False page [OF less.prems] rest scrollsD(2) [OF assms(1)]
      by (subst scrollback_pages.simps) (simp add: Let_def split_def p_def [symmetric] flip: map_append)
  qed (simp add: scrollback_pages.simps)
qed

text \<open>C19: The scrollback that is read is the whole history. However long it is and however high the screen, the
  paging loop yields every retained row exactly once, oldest first, text and cells.\<close>

theorem scrollback_complete:
  assumes "scrolls vt" "pages vt" "fst (vt_size vt v) \<noteq> 0"
  shows "scrollback_snapshot_from_screen vt v
    = map (\<lambda>k. line_at vt (vt_set_scrollback vt v (history vt v - k)) 0) [0..<history vt v]"
proof -
  let ?h = "history vt v" and ?z = "size_from_screen vt v" and ?cols = "snd (vt_size vt v)"
  have rows: "page_height ?z = unat (fst (vt_size vt v))" "sz_cols ?z = ?cols"
    using assms(3) unat_gt_0 [of "fst (vt_size vt v)"]
    by (simp_all add: page_height_def size_from_screen_def split_def mk_size_def max_def)
  have page: "snapshot_page vt (sz_cols ?z) (vt_set_scrollback vt v k) (min k (page_height ?z))
      = map (\<lambda>k. line_at vt (vt_set_scrollback vt v (?h - k)) 0) [?h - k..<?h - k + min k (page_height ?z)]"
    if "k \<le> ?h" for k
  proof -
    let ?w = "vt_set_scrollback vt v k" and ?n = "min k (page_height ?z)"
    have z: "vt_size vt ?w = vt_size vt v" by (rule scrollsD(4) [OF assms(1)])
    have len: "length (vt_rows vt ?w 0 ?cols) = unat (fst (vt_size vt v))"
      using pagesD(1) [OF assms(2), of ?w] z by simp
    have line: "line_at vt ?w r = line_at vt (vt_set_scrollback vt v (k - r)) 0" if "r < ?n" for r
      using pagesD(2) [OF assms(2) \<open>k \<le> ?h\<close>, of r] that rows(1) by simp
    show ?thesis
    proof (rule nth_equalityI)
      show "length (snapshot_page vt (sz_cols ?z) ?w ?n) = length (map (\<lambda>k. line_at vt (vt_set_scrollback vt v (?h - k)) 0)
          [?h - k..<?h - k + ?n])"
        using len rows by (simp add: snapshot_page_def)
      fix r assume "r < length (snapshot_page vt (sz_cols ?z) ?w ?n)"
      then have r: "r < ?n" using len rows by (simp add: snapshot_page_def)
      then have "snapshot_page vt (sz_cols ?z) ?w ?n ! r = line_at vt ?w r"
        using len rows z by (simp add: snapshot_page_def line_at_def Let_def)
      also have "\<dots> = line_at vt (vt_set_scrollback vt v (?h - (?h - k + r))) 0"
        using line [OF r] r that by simp
      finally show "snapshot_page vt (sz_cols ?z) ?w ?n ! r = map (\<lambda>k. line_at vt (vt_set_scrollback vt v (?h - k)) 0)
          [?h - k..<?h - k + ?n] ! r" using r by simp
    qed
  qed
  have "vt_scrollback vt (vt_set_scrollback vt v usize_max) = ?h" by (simp add: history_def)
  then show ?thesis using pages_in_order [OF assms(1) order_refl page, of usize_max]
    by (simp add: scrollback_snapshot_from_screen_def Let_def)
qed


section \<open>A small parser\<close>

text \<open>A parser on which the theorems are tried out: every byte is a row of history, numbered from 0, of which the
  last \<open>cap\<close> are kept. The state is the size, the capacity, the number of rows dropped, and the rows
  above and below the top of the viewport. Nothing here models code.\<close>

type_synonym tape = "(u16 \<times> u16) \<times> nat \<times> nat \<times> nat \<times> nat"

definition tape_small :: "tape \<Rightarrow> bool" where
  "tape_small = (\<lambda>(z, cap, base, up, down). up + down \<le> usize_max)"

definition tape_fill :: "nat \<Rightarrow> nat \<Rightarrow> nat \<Rightarrow> nat" where
  "tape_fill room up n = max up (min room (up + n))"

lemma tape_fill: "tape_fill room up 0 = up" "tape_fill room (tape_fill room up m) n = tape_fill room up (m + n)"
  "tape_fill room up n \<le> up + n"
  by (auto simp: tape_fill_def max_def min_def)

lemma tape_dropped:
  "up + (m + n) - tape_fill room up (m + n) =
     up + m - tape_fill room up m + (tape_fill room up m + n - tape_fill room up (m + n))"
  using tape_fill(3) [of room up m] tape_fill(3) [of room "tape_fill room up m" n] by (simp add: tape_fill(2))

definition tape_vt :: "(tape, unit) vt100" where
  "tape_vt =
     \<lparr>vt_new = (\<lambda>r c cap. ((r, c), cap, 0, 0, 0)),
      vt_process = (\<lambda>(z, cap, base, up, down) bs.
        let n = length bs; up' = tape_fill (cap - down) up n
        in ([], (z, cap, base + (up + n - up'), up', down))),
      vt_size = fst, vt_set_size = (\<lambda>(z, v) r c. ((r, c), v)),
      vt_scrollback = (\<lambda>v. if tape_small v then snd (snd (snd (snd v))) else 0),
      vt_set_scrollback = (\<lambda>(z, cap, base, up, down) n.
        if tape_small (z, cap, base, up, down)
        then (z, cap, base, up + down - min n (up + down), min n (up + down))
        else (z, cap, base, up, down)),
      vt_cursor_position = (\<lambda>_. (0, 0)), vt_hide_cursor = (\<lambda>_. False), vt_bracketed_paste = (\<lambda>_. False),
      vt_mouse_protocol_mode = (\<lambda>_. VM_None), vt_application_cursor = (\<lambda>_. False),
      vt_alternate_screen = (\<lambda>_. False), vt_cell = (\<lambda>_ _ _. None), vt_row_wrapped = (\<lambda>_ _. False),
      vt_rows = (\<lambda>((rows, cols), cap, base, up, down) _ _.
        map (\<lambda>r. if r < down then [base + up + r] else []) [0..<unat rows]),
      vc_contents = (\<lambda>_. []), vc_is_wide = (\<lambda>_. False), vc_is_wide_continuation = (\<lambda>_. False),
      vc_fgcolor = (\<lambda>_. VT_Default), vc_bgcolor = (\<lambda>_. VT_Default), vc_bold = (\<lambda>_. False),
      vc_dim = (\<lambda>_. False), vc_italic = (\<lambda>_. False), vc_underline = (\<lambda>_. False), vc_inverse = (\<lambda>_. False),
      vt_hash = length\<rparr>"

lemma tape_size: "vt_size tape_vt v = fst v"
  by (simp add: tape_vt_def)

lemma tape_history: "history tape_vt v = (case v of (z, cap, base, up, down) \<Rightarrow>
    if tape_small v then up + down else 0)"
  by (cases v) (auto simp: history_def tape_vt_def tape_small_def)

lemma tape_scrolls: "scrolls tape_vt"
  unfolding scrolls_def tape_history by (auto simp: tape_vt_def tape_small_def)

lemma tape_pages: "pages tape_vt"
  unfolding pages_def tape_history
  by (auto simp: tape_vt_def tape_small_def line_at_def scrollback_line_from_screen_def snapshot_row_def Let_def)

lemma tape_streams: "streams tape_vt"
  by (auto simp: streams_def tape_vt_def tape_fill(1,2) tape_dropped Let_def)

theorem scrollback_complete_witness:
  "map sl_text (scrollback_snapshot_from_screen tape_vt ((2, 4), 9, 5, 3, 0)) = [[5], [6], [7]]"
proof -
  have "map sl_text (scrollback_snapshot_from_screen tape_vt ((2, 4), 9, 5, 3, 0))
      = map (\<lambda>k. sl_text (line_at tape_vt (vt_set_scrollback tape_vt ((2, 4), 9, 5, 3, 0) (3 - k)) 0)) [0..<3]"
    using scrollback_complete [OF tape_scrolls tape_pages, of "((2, 4), 9, 5, 3, 0)"]
    by (simp add: tape_history tape_small_def usize_max_def tape_size)
  then show ?thesis
    by (simp add: upt_rec line_at_def tape_vt_def tape_small_def usize_max_def scrollback_line_from_screen_def)
qed


section \<open>Dirty rows\<close>

lemma dirty_bounds_spec:
  "dirty_bounds d [0..<n] (None, 0) =
     (let R = filter d [0..<n] in if R = [] then (None, 0) else (Some (hd R), last R + 1))"
proof (induction n)
  case (Suc n)
  then show ?case
    by (cases "filter d [0..<n] = []") (auto simp: dirty_bounds_def Let_def hd_append split: option.splits)
qed (simp add: dirty_bounds_def)

text \<open>C20: Dirty rows are exact. After a change of size all rows are dirty; otherwise the report is the smallest
  range that contains every row whose wrapping or any of whose cells changed, nothing when none did,
  and the whole screen only when the first and the last row are in it.\<close>

theorem dirty_rows_exact:
  "dirty_rows_between vt previous current =
     (let rows = unat (fst (vt_size vt current)); cols = unat (snd (vt_size vt current));
          look = (\<lambda>v r. (vt_row_wrapped vt v (word_of_nat r), map (\<lambda>c. vt_cell vt v (word_of_nat r) (word_of_nat c)) [0..<cols]));
          changed = filter (\<lambda>r. look previous r \<noteq> look current r) [0..<rows]
      in if vt_size vt previous \<noteq> vt_size vt current then Dirty_All
         else if changed = [] then Dirty_None
         else if hd changed = 0 \<and> last changed = rows - 1 then Dirty_All
         else Dirty_Range (word_of_nat (hd changed)) (word_of_nat (last changed + 1)))"
proof -
  define rows cols where "rows = unat (fst (vt_size vt current))" and "cols = unat (snd (vt_size vt current))"
  define D where "D = (\<lambda>r. row_differs vt previous current (word_of_nat r) (snd (vt_size vt current)))"
  have D: "D = (\<lambda>r. (vt_row_wrapped vt previous (word_of_nat r), map (\<lambda>c. vt_cell vt previous (word_of_nat r) (word_of_nat c)) [0..<cols])
      \<noteq> (vt_row_wrapped vt current (word_of_nat r), map (\<lambda>c. vt_cell vt current (word_of_nat r) (word_of_nat c)) [0..<cols]))"
    by (auto simp: D_def row_differs_def list_ex_iff cols_def)
  have last: "last (filter D [0..<rows]) + 1 = rows \<longleftrightarrow> last (filter D [0..<rows]) = rows - 1" if "filter D [0..<rows] \<noteq> []"
    using last_in_set [OF that] by auto
  have "dirty_rows_between vt previous current =
     (if vt_size vt previous \<noteq> vt_size vt current then Dirty_All
      else if filter D [0..<rows] = [] then Dirty_None
      else if hd (filter D [0..<rows]) = 0 \<and> last (filter D [0..<rows]) = rows - 1 then Dirty_All
      else Dirty_Range (word_of_nat (hd (filter D [0..<rows]))) (word_of_nat (last (filter D [0..<rows]) + 1)))"
    using last by (auto simp: dirty_rows_between_def dirty_bounds_spec Let_def split_def D_def [symmetric] rows_def [symmetric])
  then show ?thesis unfolding D rows_def cols_def Let_def .
qed


section \<open>Feeding\<close>

lemma callback_fields [simp]:
  "vs_parser (callback cb s) = vs_parser s" "vs_mode_overlay (callback cb s) = vs_mode_overlay s"
  "vs_scrollback_capacity (callback cb s) = vs_scrollback_capacity s"
  "vs_validation_name (callback cb s) = vs_validation_name s" "vs_pane_id (callback cb s) = vs_pane_id s"
  "vs_previous_byte_was_escape (callback cb s) = vs_previous_byte_was_escape s"
  "callback cb (s \<lparr>vs_parser := v\<rparr>) = (callback cb s) \<lparr>vs_parser := v\<rparr>"
  "callback cb (s \<lparr>vs_mode_overlay := mo\<rparr>) = (callback cb s) \<lparr>vs_mode_overlay := mo\<rparr>"
  by (cases cb; simp add: callback_def)+

lemma callbacks_fields [simp]:
  "vs_parser (fold callback cs s) = vs_parser s" "vs_mode_overlay (fold callback cs s) = vs_mode_overlay s"
  "vs_scrollback_capacity (fold callback cs s) = vs_scrollback_capacity s"
  "vs_validation_name (fold callback cs s) = vs_validation_name s" "vs_pane_id (fold callback cs s) = vs_pane_id s"
  "vs_previous_byte_was_escape (fold callback cs s) = vs_previous_byte_was_escape s"
  "fold callback cs (s \<lparr>vs_parser := v\<rparr>) = (fold callback cs s) \<lparr>vs_parser := v\<rparr>"
  "fold callback cs (s \<lparr>vs_mode_overlay := mo\<rparr>) = (fold callback cs s) \<lparr>vs_mode_overlay := mo\<rparr>"
  by (induction cs arbitrary: s) simp_all

lemma process_fields [simp]:
  "vs_mode_overlay (process vt bytes s) = vs_mode_overlay s"
  "vs_scrollback_capacity (process vt bytes s) = vs_scrollback_capacity s"
  "vs_validation_name (process vt bytes s) = vs_validation_name s"
  "vs_pane_id (process vt bytes s) = vs_pane_id s"
  "process vt bytes (s \<lparr>vs_mode_overlay := mo\<rparr>) = (process vt bytes s) \<lparr>vs_mode_overlay := mo\<rparr>"
  by (simp_all add: process_def split_def Let_def)

lemma process_Nil: "streams vt \<Longrightarrow> process vt [] s = s"
  by (simp add: process_def streamsD(1))

lemma process_append: "streams vt \<Longrightarrow> process vt (a @ b) s = process vt b (process vt a s)"
  by (simp add: process_def streamsD(2) split_def Let_def)

lemma parser_same: "s \<lparr>vs_parser := vs_parser s\<rparr> = s"
  by simp

lemma count_drops_process:
  assumes "scrolls vt" "streams vt"
  shows "snd (count_drops vt bs before d s) = process vt bs s"
proof (induction bs arbitrary: before d s)
  case (Cons b bs)
  have "process vt (b # bs) s = process vt bs (process vt [b] s)"
    using process_append [OF assms(2), of "[b]" bs s] by simp
  then show ?case
    using Cons.IH by (simp add: Let_def split_def len_from_screen [OF assms(1)] newest_from_screen [OF assms(1)])
qed (simp add: process_Nil assms(2))

lemma drops_process:
  "scrolls vt \<Longrightarrow> streams vt \<Longrightarrow> snd (process_bytes_and_count_scrollback_drops vt bs s) = process vt bs s"
  by (simp add: process_bytes_and_count_scrollback_drops_def count_drops_process len_from_screen)

text \<open>What feeding does, apart from the bookkeeping for the update: the reads of the history leave the screen
  as it was, and a limited buffer ends where an unlimited one does.\<close>

definition fed :: "('v, 'c) vt100 \<Rightarrow> u8 list \<Rightarrow> 'v vt_surface \<Rightarrow> 'v vt_surface" where
  "fed vt bytes s = (process vt bytes s)
     \<lparr>vs_mode_overlay := snd (update_from_output (vs_mode_overlay s) bytes),
      vs_previous_byte_was_escape := (last bytes = 0x1b)\<rparr>"

lemma feed_fed:
  assumes "scrolls vt" "streams vt" "bytes \<noteq> []"
  shows "\<exists>u st. vs_feed vt s bytes = (Inr u, (fed vt bytes s) \<lparr>vs_scrollback_state := st\<rparr>)"
  using assms(3)
  by (simp add: vs_feed_def Let_def split_def drops_process [OF assms(1,2)] state_after_feed [OF assms(1)] fed_def)
    (intro conjI impI exI; rule refl)

text \<open>The screen after the first \<open>k\<close> bytes, and the digest of the newest row of its history.\<close>

definition screen_after :: "('v, 'c) vt100 \<Rightarrow> 'v \<Rightarrow> u8 list \<Rightarrow> nat \<Rightarrow> 'v" where
  "screen_after vt v bytes k = snd (vt_process vt v (take k bytes))"

definition newest :: "('v, 'c) vt100 \<Rightarrow> 'v \<Rightarrow> nat" where
  "newest vt v = fst (newest_scrollback_row_digest_from_screen vt v)"

definition counted_drop :: "('v, 'c) vt100 \<Rightarrow> nat \<Rightarrow> 'v \<Rightarrow> 'v \<Rightarrow> bool" where
  "counted_drop vt cap v w = (0 < cap \<and> history vt v = cap \<and> history vt w = cap \<and> newest vt v \<noteq> newest vt w)"

lemma newest_pair: "scrolls vt \<Longrightarrow> newest_scrollback_row_digest_from_screen vt v = (newest vt v, v)"
  using newest_from_screen by (simp add: newest_def prod_eq_iff)

lemma count_drops_exact:
  assumes "scrolls vt" "streams vt" "before = history vt (vs_parser s)" "d \<le> u64_max"
  shows "fst (count_drops vt bs before d s) =
    min u64_max (d + length (filter (\<lambda>k. counted_drop vt (vs_scrollback_capacity s)
      (screen_after vt (vs_parser s) bs k) (screen_after vt (vs_parser s) bs (Suc k))) [0..<length bs]))"
  using assms(3,4)
proof (induction bs arbitrary: before d s)
  case (Cons b bs)
  let ?s = "process vt [b] s"
  have p: "screen_after vt (vs_parser s) (b # bs) (Suc 0) = vs_parser ?s"
    by (simp add: process_def screen_after_def split_def Let_def)
  have later: "screen_after vt (vs_parser s) (b # bs) (Suc k) = screen_after vt (vs_parser ?s) bs k" for k
    using streamsD(2) [OF assms(2), of "vs_parser s" "[b]" "take k bs"]
    by (simp add: screen_after_def process_def split_def Let_def)
  have zero: "screen_after vt (vs_parser s) (b # bs) 0 = vs_parser s"
    by (simp add: screen_after_def streamsD(1) [OF assms(2)])
  let ?c = "\<lambda>k. counted_drop vt (vs_scrollback_capacity s)
      (screen_after vt (vs_parser s) (b # bs) k) (screen_after vt (vs_parser s) (b # bs) (Suc k))"
  have "[0..<length (b # bs)] = 0 # map Suc [0..<length bs]"
    by (simp add: upt_conv_Cons map_Suc_upt del: upt_Suc)
  then have split: "length (filter ?c [0..<length (b # bs)]) =
      of_bool (?c 0) + length (filter (\<lambda>k. counted_drop vt (vs_scrollback_capacity s)
        (screen_after vt (vs_parser ?s) bs k) (screen_after vt (vs_parser ?s) bs (Suc k))) [0..<length bs])"
    by (simp add: filter_map comp_def later)
  define d' where "d' = (if ?c 0 then min (d + 1) u64_max else d)"
  have "count_drops vt (b # bs) before d s = count_drops vt bs (history vt (vs_parser ?s)) d' ?s"
    using Cons.prems(1) zero p
    by (auto simp: Let_def split_def newest_pair [OF assms(1)] len_from_screen [OF assms(1)] d'_def counted_drop_def)
  moreover have "d' \<le> u64_max" using Cons.prems(2) by (simp add: d'_def)
  ultimately show ?case using Cons.IH [OF refl, of d' ?s] split by (auto simp: d'_def min_def)
qed simp

text \<open>C38: What is counted as a dropped line. An unlimited buffer reports none. A full one reports the bytes after
  which it was still full and its newest row looked different; a line that is pushed out by one
  that looks like the newest is not counted.\<close>

theorem drops_counted_by_change:
  assumes "scrolls vt" "streams vt"
  shows "fst (process_bytes_and_count_scrollback_drops vt bytes s) =
    (if vs_scrollback_capacity s = usize_max then 0
     else min u64_max (length (filter (\<lambda>k. counted_drop vt (vs_scrollback_capacity s)
        (screen_after vt (vs_parser s) bytes k) (screen_after vt (vs_parser s) bytes (Suc k))) [0..<length bytes])))"
  using count_drops_exact [OF assms refl, of 0 bytes s]
  by (simp add: process_bytes_and_count_scrollback_drops_def len_from_screen [OF assms(1)])

text \<open>Three lines are pushed out of a full buffer of two by lines that look the same: none is counted.\<close>

theorem drops_counted_by_change_witness:
  "\<exists>s. vs_scrollback_capacity s = 2 \<and> vs_parser s = ((2, 4), 2, 0, 2, 0)
     \<and> fst (process_bytes_and_count_scrollback_drops tape_vt [3, 4, 5] s) = 0
     \<and> vs_parser (snd (process_bytes_and_count_scrollback_drops tape_vt [3, 4, 5] s)) = ((2, 4), 2, 3, 2, 0)"
proof -
  let ?s = "\<lparr>vs_pane_id = 1, vs_parser = ((2, 4), 2, 0, 2, 0), vs_title_name = None, vs_icon_name = None,
    vs_scrollback_state = \<lparr>sbs_len = 2, sbs_digest = None\<rparr>, vs_previous_byte_was_escape = False,
    vs_mode_overlay = mode_overlay_default, vs_validation_name = [], vs_scrollback_capacity = 2\<rparr>"
  have "newest tape_vt v = Suc (unat (snd (fst v)))" for v
    by (cases v) (simp add: newest_def newest_scrollback_row_digest_from_screen_def hash_scrollback_row_def
        size_from_screen_def tape_vt_def tape_small_def mk_size_def Let_def split_def comp_def length_concat map_replicate_const
        sum_list_replicate)
  moreover have "fst (screen_after tape_vt v bs k) = fst v" for v bs k
    by (cases v) (simp add: screen_after_def tape_vt_def Let_def)
  ultimately have "\<not> counted_drop tape_vt c (screen_after tape_vt v bs k) (screen_after tape_vt v bs l)" for c v bs k l
    by (simp add: counted_drop_def)
  then have "fst (process_bytes_and_count_scrollback_drops tape_vt [3, 4, 5] ?s) = 0"
    by (simp add: drops_counted_by_change [OF tape_scrolls tape_streams] usize_max_def)
  moreover have "vs_parser (snd (process_bytes_and_count_scrollback_drops tape_vt [3, 4, 5] ?s)) = ((2, 4), 2, 3, 2, 0)"
    by (simp add: drops_process [OF tape_scrolls tape_streams]) (simp add: process_def tape_vt_def tape_fill_def Let_def)
  ultimately show ?thesis by (intro exI [of _ ?s]) simp
qed

end
