(* ===== verification/Repro.thy ===== *)
theory Repro
  imports Manager_Data Vt100_Laws
begin

text \<open>
  The replay of a dump (\<open>repro.rs\<close>): the surface and the modes rebuilt from the raw bytes and the sizes.
\<close>

section \<open>Replay\<close>

record pane_replay =
  pr_backend :: replay_backend_kind
  pr_size_history :: "repro_size_event list"
  pr_raw_start_offset :: nat
  pr_raw_bytes :: "u8 list"

definition truncated_replay_error :: "nat \<Rightarrow> pane_error" where
  "truncated_replay_error start_offset =
     Surface_Error (lit ''repro dump replay requires an untruncated raw transcript; retained bytes start at offset ''
       @ dec_str start_offset)"

definition pane_replay_new ::
    "replay_backend_kind \<Rightarrow> repro_size_event list \<Rightarrow> nat \<Rightarrow> u8 list \<Rightarrow> pane_error + pane_replay" where
  "pane_replay_new backend size_history raw_start_offset raw_bytes =
     (if size_history = [] then
        Inl (Surface_Error (lit ''replay requires at least one size-history entry''))
      else
        Inr \<lparr>pr_backend = backend, pr_size_history = sort_key rse_transcript_offset size_history,
             pr_raw_start_offset = raw_start_offset, pr_raw_bytes = raw_bytes\<rparr>)"

definition pane_replay_from_dump :: "repro_dump \<Rightarrow> pane_error + pane_replay" where
  "pane_replay_from_dump dump =
     (case rd_raw_transcript dump of
        None \<Rightarrow> Inl (Surface_Error (lit ''repro dump does not include raw transcript bytes''))
      | Some raw \<Rightarrow>
          if 0 < rrt_start_offset raw then Inl (truncated_replay_error (rrt_start_offset raw))
          else
            (case sm_replay_kind (rd_backend dump) of
               None \<Rightarrow> Inl (Surface_Error (lit ''surface backend '' @ sm_name (rd_backend dump)
                 @ lit '' is not replayable in panesmith-core''))
             | Some backend \<Rightarrow>
                 pane_replay_new backend (rd_size_history dump) (rrt_start_offset raw) (rrt_bytes raw)))"

definition from_raw_transcript ::
    "u8 list \<Rightarrow> repro_size_event list \<Rightarrow> replay_backend_kind \<Rightarrow> pane_error + pane_replay" where
  "from_raw_transcript bytes size_history backend = pane_replay_new backend size_history 0 bytes"

definition current_size_at_offset :: "repro_size_event list \<Rightarrow> nat \<Rightarrow> pane_size option" where
  "current_size_at_offset size_history offset =
     (let entries = takeWhile (\<lambda>entry. rse_transcript_offset entry \<le> offset) size_history
      in if entries = [] then None else Some (rse_size (last entries)))"

text \<open>The bytes up to an end not yet consumed, fed to the overlay and the surface.\<close>

definition replay_chunk ::
    "'s surface_backend \<Rightarrow> u8 list \<Rightarrow> nat \<Rightarrow> nat \<times> 's \<times> mode_overlay \<Rightarrow> pane_error + nat \<times> 's \<times> mode_overlay" where
  "replay_chunk sb raw end1 st =
     (case st of (consumed, s, o1) \<Rightarrow>
        if consumed < end1 then
          (let chunk = take (end1 - consumed) (drop consumed raw)
           in case sb_feed sb s chunk of
                (Inl e, _) \<Rightarrow> Inl e
              | (Inr _, s) \<Rightarrow> Inr (end1, s, snd (update_from_output o1 chunk)))
        else Inr st)"

definition replay_resize ::
    "'s surface_backend \<Rightarrow> pane_size \<Rightarrow> nat \<times> 's \<times> mode_overlay \<Rightarrow> pane_error + nat \<times> 's \<times> mode_overlay" where
  "replay_resize sb z st =
     (case st of (consumed, s, o1) \<Rightarrow>
        (case sb_resize sb s z of (Inl e, _) \<Rightarrow> Inl e | (Inr _, s) \<Rightarrow> Inr (consumed, s, o1)))"

text \<open>The loop over the resizes: the bytes up to each, then the resize.\<close>

fun replay_resizes ::
    "'s surface_backend \<Rightarrow> nat \<Rightarrow> u8 list \<Rightarrow> repro_size_event list \<Rightarrow> nat \<times> 's \<times> mode_overlay \<Rightarrow>
     pane_error + nat \<times> 's \<times> mode_overlay" where
  "replay_resizes sb start raw [] st = Inr st"
| "replay_resizes sb start raw (resize # rest) st =
     (case replay_chunk sb raw (min (min (rse_transcript_offset resize - start) usize_max) (length raw)) st of
        Inl e \<Rightarrow> Inl e
      | Inr st \<Rightarrow>
          (case replay_resize sb (rse_size resize) st of
             Inl e \<Rightarrow> Inl e
           | Inr st \<Rightarrow> replay_resizes sb start raw rest st))"

definition final_surface_over ::
    "'s surface_backend \<Rightarrow> (pane_size \<Rightarrow> pane_error + 's) \<Rightarrow> pane_replay \<Rightarrow> pane_error + surface_snapshot" where
  "final_surface_over sb new_backend r =
     (let start = pr_raw_start_offset r; raw = pr_raw_bytes r
      in if 0 < start then Inl (truncated_replay_error start)
         else
           (case current_size_at_offset (pr_size_history r) start of
              None \<Rightarrow> Inl (Surface_Error (lit ''replay size history must include an entry at or before offset ''
                @ dec_str start))
            | Some initial_size \<Rightarrow>
                (case new_backend initial_size of
                   Inl e \<Rightarrow> Inl e
                 | Inr s \<Rightarrow>
                     (case replay_resizes sb start raw
                             (dropWhile (\<lambda>entry. rse_transcript_offset entry \<le> start) (pr_size_history r))
                             (0, s, mode_overlay_default) of
                        Inl e \<Rightarrow> Inl e
                      | Inr st \<Rightarrow>
                          (case replay_chunk sb raw (length raw) st of
                             Inl e \<Rightarrow> Inl e
                           | Inr (_, s, o1) \<Rightarrow>
                               (let snapshot = sb_snapshot sb s
                                in Inr (snapshot \<lparr>ss_modes := merge_with o1 (ss_modes snapshot)\<rparr>)))))))"

definition replay_sentinel_pane_id :: pane_id where "replay_sentinel_pane_id = - 1"

definition replay_backend ::
    "('v, 'c) vt100 \<Rightarrow> replay_backend_kind \<Rightarrow> pane_size \<Rightarrow> pane_error + 'v vt_surface" where
  "replay_backend vt kind size1 =
     (case kind of DefaultSurfaceVt100 \<Rightarrow>
        default_surface_new vt replay_sentinel_pane_id size1 \<lparr>sb_max_lines = None\<rparr>)"

definition final_surface :: "('v, 'c) vt100 \<Rightarrow> rstr \<Rightarrow> pane_replay \<Rightarrow> pane_error + surface_snapshot" where
  "final_surface vt version r =
     final_surface_over (default_surface_backend vt version) (replay_backend vt (pr_backend r)) r"

text \<open>The surface of a pane in the default configuration of the manager.\<close>

definition default_surface_factory ::
    "('v, 'c) vt100 \<Rightarrow> nat \<Rightarrow> pane_id \<Rightarrow> pane_config \<Rightarrow> pane_error + 'v vt_surface" where
  "default_surface_factory vt ticks pane_id config =
     default_surface_new vt pane_id (pc_size config)
       (case pc_scrollback config of Some policy \<Rightarrow> policy | None \<Rightarrow> \<lparr>sb_max_lines = None\<rparr>)"

end
