(* ===== verification/Repro_Laws.thy ===== *)
theory Repro_Laws
  imports Repro Manager_Example
begin

text \<open>
  A replay reconstructs the screen a dump was taken from: the interface a surface must
  offer for that, its interpretation on the default surface, and the theorem for every dump a
  host can take.
\<close>

section \<open>Size histories\<close>

lemma op_sizes_from: "e \<in> set (op_sizes n ops) \<Longrightarrow> n \<le> rse_transcript_offset e"
  by (induction n ops rule: op_sizes.induct) auto

lemma op_sizes_sorted: "sorted (map rse_transcript_offset (op_sizes n ops))"
  by (induction n ops rule: op_sizes.induct) (auto dest: op_sizes_from)

lemma op_sizes_idle: "op_bytes ops = [] \<Longrightarrow> e \<in> set (op_sizes n ops) \<Longrightarrow> rse_transcript_offset e = n"
  by (induction n ops rule: op_sizes.induct) auto

lemma first_byte:
  "\<exists>xs ys. ops = xs @ ys \<and> op_bytes xs = [] \<and> (\<forall>e\<in>set (op_sizes 0 ys). 0 < rse_transcript_offset e)"
proof (induction ops)
  case (Cons x ops)
  then obtain xs ys where i: "ops = xs @ ys" "op_bytes xs = []" "\<forall>e\<in>set (op_sizes 0 ys). 0 < rse_transcript_offset e" by blast
  show ?case
  proof (cases "\<exists>b. x = DO_Feed b \<and> b \<noteq> []")
    case True
    then obtain b where b: "x = DO_Feed b" "0 < length b" by auto
    then have "\<forall>e\<in>set (op_sizes 0 (x # ops)). 0 < rse_transcript_offset e"
      using op_sizes_from [of _ "length b" ops] less_le_trans [OF b(2)] by auto
    then show ?thesis by (metis append_Nil op_bytes.simps(1))
  next
    case False
    then have "op_bytes [x] = []" by (cases x) auto
    then show ?thesis using i by - (rule exI [of _ "x # xs"], rule exI [of _ ys], cases x; simp)
  qed
qed auto

lemma op_overlay_stream:
  "short_sequences (w @ op_bytes ops) \<Longrightarrow> op_overlay ops (overlay_of_stream w) = overlay_of_stream (w @ op_bytes ops)"
proof (induction ops arbitrary: w)
  case (Cons x ops)
  then show ?case
    using update_overlay_of_stream [of w] short_sequences_prefix by (cases x) (force simp flip: append_assoc)+
qed simp


lemma recorded_pane:
  assumes "recorded cfg i p"
  obtains k c s ops where "mc_surface_factory cfg k i c = Inr s" "op_ok (mc_surface cfg) ops"
    "pn_surface p = op_surface (mc_surface cfg) ops s"
    "pn_mode_overlay p = op_overlay ops mode_overlay_default" "tr_next_raw_offset (pn_transcript p) = length (op_bytes ops)"
    "suffix (tr_raw (pn_transcript p)) (if records_raw_bytes (pn_transcript p) then op_bytes ops else [])"
    "pn_size_history p = \<lparr>rse_transcript_offset = 0, rse_size = pc_size c\<rparr> # op_sizes 0 ops"
proof -
  obtain k c s q where c: "mc_surface_factory cfg k i c = Inr s" "pn_spawn_config p = c \<lparr>pc_id := Some i\<rparr>"
    "data_to (mc_surface cfg) (pane_spawned (c \<lparr>pc_id := Some i\<rparr>) s q) p"
    using assms unfolding recorded_def by blast
  let ?p = "pane_spawned (c \<lparr>pc_id := Some i\<rparr>) s q"
  have n: "pn_surface ?p = s" "pn_mode_overlay ?p = mode_overlay_default" "tr_next_raw_offset (pn_transcript ?p) = 0"
    "tr_raw (pn_transcript ?p) = []" "pn_size_history ?p = [\<lparr>rse_transcript_offset = 0, rse_size = pc_size c\<rparr>]"
    by (simp_all add: pane_spawned_def transcript_new_def mode_overlay_default_def)
  show ?thesis using c(3) n records_raw_mode [of "pn_transcript p" "pn_transcript ?p"]
    unfolding data_to_def by (elim exE conjE) (rule that [OF c(1)]; simp)
qed


section \<open>What a replay relies on\<close>

text \<open>\<open>fresh z s\<close>: the surface has just been made with size \<open>z\<close>; \<open>at w s\<close>: it has been fed \<open>w\<close> in all;
  \<open>alike s t\<close>: nobody will see a difference.\<close>

locale replayable =
  fixes sb :: "'s surface_backend"
    and mk :: "pane_size \<Rightarrow> pane_error + 's"
    and fresh :: "pane_size \<Rightarrow> 's \<Rightarrow> bool"
    and at :: "u8 list \<Rightarrow> 's \<Rightarrow> bool"
    and alike :: "'s \<Rightarrow> 's \<Rightarrow> bool"
  assumes refl [simp, intro]: "alike s s"
    and sym: "alike s t \<Longrightarrow> alike t s"
    and trans [trans]: "alike s t \<Longrightarrow> alike t u \<Longrightarrow> alike s u"
    and made: "fresh z s \<Longrightarrow> \<exists>t. mk z = Inr t \<and> fresh z t"
    and fresh_at: "fresh z s \<Longrightarrow> at [] s"
    and fresh_alike: "fresh z s \<Longrightarrow> fresh z t \<Longrightarrow> alike s t"
    and fresh_resize: "fresh z s \<Longrightarrow> sb_validate_resize sb t z' = Inr () \<Longrightarrow>
      \<exists>s'. fresh z' s' \<and> alike s' (snd (sb_resize sb s z'))"
    and fed_ok: "\<exists>u. fst (sb_feed sb s b) = Inr u"
    and fed_at: "at w s \<Longrightarrow> short_sequences (w @ b) \<Longrightarrow> at (w @ b) (snd (sb_feed sb s b))"
    and fed_alike: "alike s t \<Longrightarrow> alike (snd (sb_feed sb s b)) (snd (sb_feed sb t b))"
    and fed_nothing: "alike (snd (sb_feed sb s [])) s"
    and fed_twice: "at w s \<Longrightarrow> short_sequences (w @ a @ b) \<Longrightarrow>
      alike (snd (sb_feed sb (snd (sb_feed sb s a)) b)) (snd (sb_feed sb s (a @ b)))"
    and resize_ok: "sb_validate_resize sb s z = Inr () \<Longrightarrow> fst (sb_resize sb t z) = Inr ()"
    and resized_at: "at w s \<Longrightarrow> at w (snd (sb_resize sb s z))"
    and resized_alike: "alike s t \<Longrightarrow> alike (snd (sb_resize sb s z)) (snd (sb_resize sb t z))"
    and shown: "alike s t \<Longrightarrow> sb_snapshot sb s = sb_snapshot sb t"
    and snapshot_parts: "sb_cursor sb s = ss_cursor (sb_snapshot sb s)" "sb_modes sb s = ss_modes (sb_snapshot sb s)"
begin

lemma honest: "honest_surface sb"
  unfolding honest_surface_def using resize_ok by blast

text \<open>Before the first byte a resize only changes the size the surface was made with.\<close>

lemma before_bytes:
  assumes "op_bytes ops = []" "op_ok sb ops" "fresh z s"
  shows "\<exists>s'. fresh (rse_size (last (\<lparr>rse_transcript_offset = 0, rse_size = z\<rparr> # op_sizes n ops))) s'
    \<and> alike s' (op_surface sb ops s)"
  using assms
proof (induction ops rule: rev_induct)
  case (snoc x ops)
  then obtain s' where s': "fresh (rse_size (last (\<lparr>rse_transcript_offset = 0, rse_size = z\<rparr> # op_sizes n ops))) s'"
    "alike s' (op_surface sb ops s)" by auto
  show ?case
  proof (cases x)
    case (DO_Feed b)
    then have "b = []" using snoc.prems(1) by simp
    then show ?thesis using s' DO_Feed trans [OF s'(2) sym [OF fed_nothing]] by auto
  next
    case (DO_Resize z')
    then obtain t where "sb_validate_resize sb t z' = Inr ()" using snoc.prems(2) by (auto simp: op_ok_def)
    from fresh_resize [OF s'(1) this] obtain s'' where s'': "fresh z' s''" "alike s'' (snd (sb_resize sb s' z'))" by blast
    then show ?thesis using DO_Resize trans [OF s''(2) resized_alike [OF s'(2)]] by auto
  qed
qed auto

lemma replay_append:
  "replay_resizes sb n raw (xs @ ys) st =
     (case replay_resizes sb n raw xs st of Inl e \<Rightarrow> Inl e | Inr st' \<Rightarrow> replay_resizes sb n raw ys st')"
  by (induction xs arbitrary: st) (simp_all split: sum.split)

text \<open>One round of the replay: the bytes up to a resize, and the resize.\<close>

lemma chunk_follows:
  assumes "c \<le> length w" "at (take c w) t" "short_sequences (w @ rest)"
  shows "\<exists>t'. replay_chunk sb (w @ rest) (length w) (c, t, overlay_of_stream (take c w)) = Inr (length w, t', overlay_of_stream w)
    \<and> at w t' \<and> alike t' (snd (sb_feed sb t (drop c w)))"
proof (cases "c < length w")
  case True
  have short: "short_sequences w" using short_sequences_prefix [OF assms(3)] .
  obtain u t1 where f: "sb_feed sb t (drop c w) = (Inr u, t1)"
    using fed_ok [of t "drop c w"] by (cases "sb_feed sb t (drop c w)") auto
  have "snd (update_from_output (overlay_of_stream (take c w)) (drop c w)) = overlay_of_stream w"
    using update_overlay_of_stream [of "take c w" "drop c w"] short by simp
  moreover have "at w t1" using fed_at [OF assms(2), of "drop c w"] f short by simp
  moreover have "take (length w - c) (drop c (w @ rest)) = drop c w" using True by simp
  ultimately show ?thesis using True f by (simp add: replay_chunk_def Let_def)
next
  case False
  then have "c = length w" using assms(1) by simp
  then show ?thesis using assms(2) sym [OF fed_nothing] by (simp add: replay_chunk_def)
qed

lemma resize_follows:
  "at w t \<Longrightarrow> sb_validate_resize sb s z = Inr () \<Longrightarrow>
     replay_resize sb z (n, t, o1) = Inr (n, snd (sb_resize sb t z), o1)"
  using resize_ok [of s z t] by (cases "sb_resize sb t z") (simp add: replay_resize_def)

lemma replay_one:
  assumes "c \<le> length w" "at (take c w) t" "short_sequences (w @ rest)" "length (w @ rest) \<le> usize_max"
    "sb_validate_resize sb s z = Inr ()"
  shows "\<exists>t'. replay_resizes sb 0 (w @ rest) [\<lparr>rse_transcript_offset = length w, rse_size = z\<rparr>]
        (c, t, overlay_of_stream (take c w)) = Inr (length w, t', overlay_of_stream w)
    \<and> at w t' \<and> alike t' (snd (sb_resize sb (snd (sb_feed sb t (drop c w))) z))"
proof -
  obtain t' where t': "replay_chunk sb (w @ rest) (length w) (c, t, overlay_of_stream (take c w)) = Inr (length w, t', overlay_of_stream w)"
    "at w t'" "alike t' (snd (sb_feed sb t (drop c w)))" using chunk_follows [OF assms(1-3)] by blast
  have "min (min (length w) usize_max) (length (w @ rest)) = length w" using assms(4) by simp
  then show ?thesis using t' resize_follows [OF t'(2) assms(5)] resized_at [OF t'(2)] resized_alike [OF t'(3)]
    by (intro exI [of _ "snd (sb_resize sb t' z)"]) simp
qed

lemma replay_follows:
  assumes "at [] s" "alike t s" "at [] t" "short_sequences (op_bytes ops @ rest)"
    "length (op_bytes ops @ rest) \<le> usize_max" "op_ok sb ops"
  shows "\<exists>c t'. replay_resizes sb 0 (op_bytes ops @ rest) (op_sizes 0 ops) (0, t, mode_overlay_default)
        = Inr (c, t', overlay_of_stream (take c (op_bytes ops)))
    \<and> c \<le> length (op_bytes ops) \<and> at (take c (op_bytes ops)) t'
    \<and> alike (snd (sb_feed sb t' (drop c (op_bytes ops)))) (op_surface sb ops s)"
  using assms(4-6)
proof (induction ops arbitrary: rest rule: rev_induct)
  case Nil
  then show ?case using assms(2,3) trans [OF fed_nothing] by (simp add: overlay_of_Nil)
next
  case (snoc x ops)
  let ?w = "op_bytes ops"
  show ?case
  proof (cases x)
    case (DO_Feed b)
    from snoc.IH [of "b @ rest"] snoc.prems DO_Feed obtain c t' where t':
      "replay_resizes sb 0 (?w @ b @ rest) (op_sizes 0 ops) (0, t, mode_overlay_default)
        = Inr (c, t', overlay_of_stream (take c ?w))" "c \<le> length ?w" "at (take c ?w) t'"
      "alike (snd (sb_feed sb t' (drop c ?w))) (op_surface sb ops s)" by auto
    have "short_sequences (take c ?w @ drop c ?w @ b)"
      using snoc.prems(1) DO_Feed short_sequences_prefix [of "?w @ b" rest] by (simp flip: append_assoc)
    from fed_twice [OF t'(3) this] have "alike (snd (sb_feed sb t' (drop c ?w @ b))) (snd (sb_feed sb (op_surface sb ops s) b))"
      using trans [OF sym fed_alike [OF t'(4)]] by blast
    then show ?thesis using t' DO_Feed by (intro exI [of _ c] exI [of _ t']) simp
  next
    case (DO_Resize z)
    from snoc.IH [of rest] snoc.prems DO_Resize obtain c t' where t':
      "replay_resizes sb 0 (?w @ rest) (op_sizes 0 ops) (0, t, mode_overlay_default)
        = Inr (c, t', overlay_of_stream (take c ?w))" "c \<le> length ?w" "at (take c ?w) t'"
      "alike (snd (sb_feed sb t' (drop c ?w))) (op_surface sb ops s)" by auto
    obtain u where u: "sb_validate_resize sb u z = Inr ()" using snoc.prems(3) DO_Resize by (auto simp: op_ok_def)
    from replay_one [OF t'(2,3) _ _ u, of rest] snoc.prems DO_Resize obtain t2 where t2:
      "replay_resizes sb 0 (?w @ rest) [\<lparr>rse_transcript_offset = length ?w, rse_size = z\<rparr>]
        (c, t', overlay_of_stream (take c ?w)) = Inr (length ?w, t2, overlay_of_stream ?w)"
      "at ?w t2" "alike t2 (snd (sb_resize sb (snd (sb_feed sb t' (drop c ?w))) z))" by auto
    have "alike (snd (sb_feed sb t2 [])) (snd (sb_resize sb (op_surface sb ops s) z))"
      by (rule trans [OF fed_nothing trans [OF t2(3) resized_alike [OF t'(4)]]])
    then show ?thesis using t' t2 DO_Resize
      by (intro exI [of _ "length ?w"] exI [of _ t2]) (simp add: replay_append del: replay_resizes.simps)
  qed
qed

lemma alike_through: "alike u v \<Longrightarrow> alike (op_surface sb ops u) (op_surface sb ops v)"
proof (induction ops arbitrary: u v)
  case (Cons x ops)
  then show ?case by (cases x) (simp_all add: fed_alike resized_alike)
qed simp

text \<open>A replay of what a surface has been through shows what the surface shows.\<close>

lemma replay_shows:
  assumes "fresh z s" "op_ok sb ops" "short_sequences (op_bytes ops)" "length (op_bytes ops) \<le> usize_max"
    "pr_size_history r = \<lparr>rse_transcript_offset = 0, rse_size = z\<rparr> # op_sizes 0 ops"
    "pr_raw_start_offset r = 0" "pr_raw_bytes r = op_bytes ops"
  shows "final_surface_over sb mk r = Inr ((sb_snapshot sb (op_surface sb ops s))
    \<lparr>ss_modes := merge_with (overlay_of_stream (op_bytes ops)) (ss_modes (sb_snapshot sb (op_surface sb ops s)))\<rparr>)"
proof -
  obtain xs ys where ops: "ops = xs @ ys" "op_bytes xs = []" "\<forall>e\<in>set (op_sizes 0 ys). 0 < rse_transcript_offset e"
    using first_byte by blast
  define h where "h = \<lparr>rse_transcript_offset = 0, rse_size = z\<rparr> # op_sizes 0 xs"
  have hist: "pr_size_history r = h @ op_sizes 0 ys" using assms(5) ops by (simp add: h_def)
  have idle: "\<forall>e\<in>set h. rse_transcript_offset e \<le> 0" using op_sizes_idle [OF ops(2)] by (auto simp: h_def)
  have "takeWhile (\<lambda>e. rse_transcript_offset e \<le> 0) (h @ op_sizes 0 ys) = h"
    using idle ops(3) by (cases "op_sizes 0 ys") (simp_all add: takeWhile_append2)
  moreover have "dropWhile (\<lambda>e. rse_transcript_offset e \<le> 0) (h @ op_sizes 0 ys) = op_sizes 0 ys"
    using idle ops(3) by (cases "op_sizes 0 ys") (simp_all add: dropWhile_append2)
  ultimately have split: "takeWhile (\<lambda>e. rse_transcript_offset e \<le> 0) (pr_size_history r) = h"
    "dropWhile (\<lambda>e. rse_transcript_offset e \<le> 0) (pr_size_history r) = op_sizes 0 ys" by (simp_all add: hist)
  have ok: "op_ok sb xs" "op_ok sb ys" using assms(2) ops(1) by simp_all
  obtain s' where s': "fresh (rse_size (last h)) s'" "alike s' (op_surface sb xs s)"
    using before_bytes [OF ops(2) ok(1) assms(1)] unfolding h_def by blast
  obtain t where t: "mk (rse_size (last h)) = Inr t" "fresh (rse_size (last h)) t" using made [OF s'(1)] by blast
  let ?w = "op_bytes ys"
  have w: "op_bytes ops = ?w" using ops by simp
  obtain c t' where t': "replay_resizes sb 0 ?w (op_sizes 0 ys) (0, t, mode_overlay_default)
        = Inr (c, t', overlay_of_stream (take c ?w))" "c \<le> length ?w" "at (take c ?w) t'"
    "alike (snd (sb_feed sb t' (drop c ?w))) (op_surface sb ys s')"
    using replay_follows [OF fresh_at [OF s'(1)] fresh_alike [OF t(2) s'(1)] fresh_at [OF t(2)], of ys "[]"] assms(3,4) w ok(2)
    by auto
  obtain t2 where t2: "replay_chunk sb ?w (length ?w) (c, t', overlay_of_stream (take c ?w)) = Inr (length ?w, t2, overlay_of_stream ?w)"
    "alike t2 (snd (sb_feed sb t' (drop c ?w)))"
    using chunk_follows [OF t'(2,3), of "[]"] assms(3) w by auto
  from alike_through [OF s'(2), of ys] have "alike t2 (op_surface sb ops s)"
    using trans [OF t2(2) trans [OF t'(4)]] ops(1) by simp
  moreover have "h \<noteq> []" by (simp add: h_def)
  ultimately show ?thesis
    using t'(1) t2(1) t(1) split assms(6,7) w shown [of t2 "op_surface sb ops s"]
    by (simp add: final_surface_over_def current_size_at_offset_def Let_def)
qed

text \<open>So does a replay of the dump of a pane that has recorded its life, as long as no byte has been dropped.\<close>

lemma dump_replays:
  assumes "recorded cfg i p" "mc_surface cfg = sb"
    "\<And>k c s. mc_surface_factory cfg k i c = Inr s \<Longrightarrow> fresh (pc_size c) s"
    "sm_replay_kind (sb_metadata sb (pn_surface p)) = Some kind"
    "rd_raw_transcript (dump_of sb i options p) = Some raw" "rrt_start_offset raw = 0"
    "short_sequences (rrt_bytes raw)" "length (rrt_bytes raw) \<le> usize_max"
  shows "\<exists>r. pane_replay_from_dump (dump_of sb i options p) = Inr r \<and> pr_backend r = kind
    \<and> final_surface_over sb mk r = Inr (rd_final_surface (dump_of sb i options p))"
proof -
  obtain k c s ops where p: "mc_surface_factory cfg k i c = Inr s" "op_ok sb ops" "pn_surface p = op_surface sb ops s"
    "pn_mode_overlay p = op_overlay ops mode_overlay_default" "tr_next_raw_offset (pn_transcript p) = length (op_bytes ops)"
    "suffix (tr_raw (pn_transcript p)) (if records_raw_bytes (pn_transcript p) then op_bytes ops else [])"
    "pn_size_history p = \<lparr>rse_transcript_offset = 0, rse_size = pc_size c\<rparr> # op_sizes 0 ops"
    using recorded_pane [OF assms(1)] unfolding assms(2) by metis
  have raw: "rrt_bytes raw = tr_raw (pn_transcript p)" "retained_raw_start_offset (pn_transcript p) = 0"
    "records_raw_bytes (pn_transcript p)"
    using assms(5,6) by (auto simp: dump_of_def Let_def split: if_splits)
  have w: "tr_raw (pn_transcript p) = op_bytes ops"
    using raw(2,3) p(5,6) by (auto simp: retained_raw_start_offset_def suffix_def)
  define r where "r = \<lparr>pr_backend = kind, pr_size_history = pn_size_history p, pr_raw_start_offset = 0, pr_raw_bytes = op_bytes ops\<rparr>"
  have "sort_key rse_transcript_offset (pn_size_history p) = pn_size_history p"
    using op_sizes_sorted by (intro sort_key_id_if_sorted) (simp add: p(7))
  then have "pane_replay_from_dump (dump_of sb i options p) = Inr r"
    using assms(4) raw(2,3) w p(7) by (simp add: pane_replay_from_dump_def dump_of_def Let_def pane_replay_new_def r_def)
  moreover have "op_overlay ops mode_overlay_default = overlay_of_stream (op_bytes ops)"
    using op_overlay_stream [of "[]" ops] assms(7) raw(1) w by (simp add: overlay_of_Nil)
  then have "rd_final_surface (dump_of sb i options p) = (sb_snapshot sb (op_surface sb ops s))
    \<lparr>ss_modes := merge_with (overlay_of_stream (op_bytes ops)) (ss_modes (sb_snapshot sb (op_surface sb ops s)))\<rparr>"
    using p(3,4) by (simp add: dump_of_def Let_def merged_surface_snapshot_def snapshot_parts)
  ultimately show ?thesis
    using replay_shows [OF assms(3) [OF p(1)] p(2), of r] assms(7,8) raw(1) w p(7) by (simp add: r_def)
qed

end


section \<open>The default surface\<close>

text \<open>Screens that cannot be told apart by what they show, now or after any output or resize. The capacity
  of the history is not shown.\<close>

definition same_screen :: "('v, 'c) vt100 \<Rightarrow> 'v \<Rightarrow> 'v \<Rightarrow> bool" where
  "same_screen vt v w =
     (vt_size vt v = vt_size vt w \<and> vt_cursor_position vt v = vt_cursor_position vt w
      \<and> vt_hide_cursor vt v = vt_hide_cursor vt w \<and> vt_bracketed_paste vt v = vt_bracketed_paste vt w
      \<and> vt_mouse_protocol_mode vt v = vt_mouse_protocol_mode vt w
      \<and> vt_application_cursor vt v = vt_application_cursor vt w
      \<and> vt_alternate_screen vt v = vt_alternate_screen vt w
      \<and> vt_cell vt v = vt_cell vt w \<and> vt_row_wrapped vt v = vt_row_wrapped vt w)"

definition indistinct :: "('v, 'c) vt100 \<Rightarrow> ('v \<Rightarrow> 'v \<Rightarrow> bool) \<Rightarrow> bool" where
  "indistinct vt R =
     (\<forall>v w. R v w \<longrightarrow> same_screen vt v w
        \<and> (\<forall>bs. fst (vt_process vt v bs) = fst (vt_process vt w bs)
              \<and> R (snd (vt_process vt v bs)) (snd (vt_process vt w bs)))
        \<and> (\<forall>r c. R (vt_set_size vt v r c) (vt_set_size vt w r c)))"

definition twins :: "('v, 'c) vt100 \<Rightarrow> 'v \<Rightarrow> 'v \<Rightarrow> bool" where
  "twins vt v w = (\<exists>R. indistinct vt R \<and> R v w)"

definition capacity_blind :: "('v, 'c) vt100 \<Rightarrow> bool" where
  "capacity_blind vt = (\<forall>r c a b. twins vt (vt_new vt r c a) (vt_new vt r c b))"

lemma twins_refl [simp]: "twins vt v v"
  unfolding twins_def by (rule exI [of _ "(=)"]) (simp add: indistinct_def same_screen_def)

lemma twins_sym: "twins vt v w \<Longrightarrow> twins vt w v"
  unfolding twins_def by (elim exE, rule_tac x = "\<lambda>v w. R w v" in exI) (simp add: indistinct_def same_screen_def)

lemma same_screen_trans: "same_screen vt u v \<Longrightarrow> same_screen vt v w \<Longrightarrow> same_screen vt u w"
  by (simp add: same_screen_def)

lemma indistinctD:
  assumes "indistinct vt R" "R v w"
  shows "same_screen vt v w" "fst (vt_process vt v bs) = fst (vt_process vt w bs)"
    "R (snd (vt_process vt v bs)) (snd (vt_process vt w bs))" "R (vt_set_size vt v r c) (vt_set_size vt w r c)"
  using assms unfolding indistinct_def by blast+

lemma twins_trans: assumes "twins vt u v" "twins vt v w" shows "twins vt u w"
proof -
  obtain R S where R: "indistinct vt R" "R u v" and S: "indistinct vt S" "S v w"
    using assms unfolding twins_def by blast
  have "indistinct vt (\<lambda>v w. \<exists>u. R v u \<and> S u w)"
    unfolding indistinct_def
  proof (intro allI impI, elim exE conjE)
    fix v w x assume r: "R v x" "S x w"
    have "same_screen vt v w" by (rule same_screen_trans [OF indistinctD(1) [OF R(1) r(1)] indistinctD(1) [OF S(1) r(2)]])
    then show "same_screen vt v w
        \<and> (\<forall>bs. fst (vt_process vt v bs) = fst (vt_process vt w bs)
            \<and> (\<exists>u. R (snd (vt_process vt v bs)) u \<and> S u (snd (vt_process vt w bs))))
        \<and> (\<forall>r c. \<exists>u. R (vt_set_size vt v r c) u \<and> S u (vt_set_size vt w r c))"
      using indistinctD(2-4) [OF R(1) r(1)] indistinctD(2-4) [OF S(1) r(2)] by metis
  qed
  then show ?thesis using R(2) S(2) unfolding twins_def by blast
qed

lemma twinsD:
  assumes "twins vt v w"
  shows "same_screen vt v w" "fst (vt_process vt v bs) = fst (vt_process vt w bs)"
    "twins vt (snd (vt_process vt v bs)) (snd (vt_process vt w bs))"
    "twins vt (vt_set_size vt v r c) (vt_set_size vt w r c)"
  using assms indistinctD [of vt _ v w] unfolding twins_def by blast+

definition vs_fresh :: "('v, 'c) vt100 \<Rightarrow> pane_size \<Rightarrow> 'v vt_surface \<Rightarrow> bool" where
  "vs_fresh vt z s = (\<exists>i cap name. vs_new vt i z cap name = Inr s)"

definition vs_at :: "u8 list \<Rightarrow> 'v vt_surface \<Rightarrow> bool" where
  "vs_at w s = (vs_mode_overlay s = overlay_of_stream w)"

definition vs_alike :: "('v, 'c) vt100 \<Rightarrow> 'v vt_surface \<Rightarrow> 'v vt_surface \<Rightarrow> bool" where
  "vs_alike vt s t = (twins vt (vs_parser s) (vs_parser t) \<and> vs_title_name s = vs_title_name t
     \<and> vs_icon_name s = vs_icon_name t \<and> vs_mode_overlay s = vs_mode_overlay t)"

lemma validate_any_name:
  "validate_supported_size z n = Inr z' \<Longrightarrow> z' = z \<and> validate_supported_size z n' = Inr z"
  by (auto simp: validate_supported_size_def size_try_new_def mk_size_def split: if_splits)

lemma vs_new_parts:
  assumes "scrolls vt" "vs_new vt i z cap name = Inr s"
  shows "vs_parser s = vt_new vt (sz_rows z) (sz_cols z) cap" "vs_title_name s = None" "vs_icon_name s = None"
    "vs_mode_overlay s = mode_overlay_default" "validate_supported_size z n = Inr z"
proof -
  obtain z' where z': "validate_supported_size z name = Inr z'"
    using assms(2) by (cases "validate_supported_size z name") (auto simp: vs_new_def)
  then have v: "validate_supported_size z n = Inr z" "z' = z" for n using validate_any_name [OF z'] by simp_all
  then show "validate_supported_size z n = Inr z" by simp
  show "vs_parser s = vt_new vt (sz_rows z) (sz_cols z) cap" "vs_title_name s = None" "vs_icon_name s = None"
    "vs_mode_overlay s = mode_overlay_default"
    using assms(2) v(1) [of name] state_from_screen [OF assms(1)] by (auto simp: vs_new_def split_beta)
qed

lemma vs_new_ok: "validate_supported_size z n = Inr z \<Longrightarrow> \<exists>s. vs_new vt i z cap name = Inr s"
  using validate_any_name [of z n z name] by (simp add: vs_new_def split_beta)

lemma vs_resize_ok:
  assumes "scrolls vt" "validate_supported_size z n = Inr z"
  shows "fst (vs_resize vt s z) = Inr ()"
    "\<exists>st. snd (vs_resize vt s z) = s \<lparr>vs_parser := vt_set_size vt (vs_parser s) (sz_rows z) (sz_cols z), vs_scrollback_state := st\<rparr>"
proof -
  have "validate_supported_size z (vs_validation_name s) = Inr z" using validate_any_name [OF assms(2)] by simp
  then show "fst (vs_resize vt s z) = Inr ()"
    "\<exists>st. snd (vs_resize vt s z) = s \<lparr>vs_parser := vt_set_size vt (vs_parser s) (sz_rows z) (sz_cols z), vs_scrollback_state := st\<rparr>"
    by (auto simp: vs_resize_def split_beta state_from_screen [OF assms(1)])
qed

lemma vs_resize_bad:
  "validate_supported_size z n = Inl e \<Longrightarrow> snd (vs_resize vt s z) = s"
proof (cases "validate_supported_size z (vs_validation_name s)")
  case (Inr z')
  assume "validate_supported_size z n = Inl e"
  then show ?thesis using validate_any_name [OF Inr, of n] by simp
qed (simp add: vs_resize_def)

lemma callbacks_alike:
  "vs_title_name s = vs_title_name t \<Longrightarrow> vs_icon_name s = vs_icon_name t \<Longrightarrow>
     vs_title_name (fold callback cs s) = vs_title_name (fold callback cs t)
     \<and> vs_icon_name (fold callback cs s) = vs_icon_name (fold callback cs t)"
  by (induction cs arbitrary: s t) (auto simp: callback_def split: vt_callback.splits)

lemma process_alike: "vs_alike vt s t \<Longrightarrow> vs_alike vt (process vt b s) (process vt b t)"
  using callbacks_alike [of "s\<lparr>vs_parser := v\<rparr>" "t\<lparr>vs_parser := w\<rparr>" for v w]
  by (auto simp: vs_alike_def process_def split_def Let_def twinsD)

lemma feed_nothing [simp]: "vs_feed vt s [] = (Inr (surface_update_new Dirty_None), s)"
  by (simp add: vs_feed_def)

lemma feed_one:
  assumes "scrolls vt" "streams vt"
  shows "\<exists>u. fst (vs_feed vt s b) = Inr u"
    "b \<noteq> [] \<Longrightarrow> vs_mode_overlay (snd (vs_feed vt s b)) = snd (update_from_output (vs_mode_overlay s) b)"
    "b \<noteq> [] \<Longrightarrow> vs_parser (snd (vs_feed vt s b)) = vs_parser (process vt b s)"
    "b \<noteq> [] \<Longrightarrow> vs_title_name (snd (vs_feed vt s b)) = vs_title_name (process vt b s)"
    "b \<noteq> [] \<Longrightarrow> vs_icon_name (snd (vs_feed vt s b)) = vs_icon_name (process vt b s)"
proof -
  show "\<exists>u. fst (vs_feed vt s b) = Inr u"
    using feed_fed [OF assms, of b s] by (cases "b = []") auto
  assume "b \<noteq> []"
  from feed_fed [OF assms this, of s] obtain u st where
    f: "vs_feed vt s b = (Inr u, (fed vt b s) \<lparr>vs_scrollback_state := st\<rparr>)" by blast
  show "vs_mode_overlay (snd (vs_feed vt s b)) = snd (update_from_output (vs_mode_overlay s) b)"
    "vs_parser (snd (vs_feed vt s b)) = vs_parser (process vt b s)"
    "vs_title_name (snd (vs_feed vt s b)) = vs_title_name (process vt b s)"
    "vs_icon_name (snd (vs_feed vt s b)) = vs_icon_name (process vt b s)"
    by (simp_all add: f fed_def)
qed

lemma fed_alike_process:
  assumes "scrolls vt" "streams vt" "b \<noteq> []"
  shows "vs_alike vt (snd (vs_feed vt s b))
    ((process vt b s) \<lparr>vs_mode_overlay := snd (update_from_output (vs_mode_overlay s) b)\<rparr>)"
  using feed_one(2-5) [OF assms(1,2,3)] by (simp add: vs_alike_def)

lemma vs_alike_refl: "vs_alike vt s s" and vs_alike_sym: "vs_alike vt s t \<Longrightarrow> vs_alike vt t s"
  and vs_alike_trans [trans]: "vs_alike vt s t \<Longrightarrow> vs_alike vt t u \<Longrightarrow> vs_alike vt s u"
  by (auto simp: vs_alike_def intro: twins_sym twins_trans)

lemma vs_alike_overlay:
  "vs_alike vt s t \<Longrightarrow> vs_alike vt (s \<lparr>vs_mode_overlay := o1\<rparr>) (t \<lparr>vs_mode_overlay := o1\<rparr>)"
  by (simp add: vs_alike_def)

lemma vs_fed_alike:
  assumes "scrolls vt" "streams vt" "vs_alike vt s t"
  shows "vs_alike vt (snd (vs_feed vt s b)) (snd (vs_feed vt t b))"
proof (cases "b = []")
  case False
  have "vs_mode_overlay s = vs_mode_overlay t" using assms(3) by (simp add: vs_alike_def)
  then have "vs_alike vt ((process vt b s) \<lparr>vs_mode_overlay := snd (update_from_output (vs_mode_overlay s) b)\<rparr>)
      ((process vt b t) \<lparr>vs_mode_overlay := snd (update_from_output (vs_mode_overlay t) b)\<rparr>)"
    using vs_alike_overlay [OF process_alike [OF assms(3)]] by simp
  then show ?thesis
    using fed_alike_process [OF assms(1,2) False] vs_alike_trans vs_alike_sym by meson
qed (use assms in simp)

lemma vs_fed_at:
  assumes "scrolls vt" "streams vt" "vs_at w s" "short_sequences (w @ b)"
  shows "vs_at (w @ b) (snd (vs_feed vt s b))"
  using assms(3) update_overlay_of_stream [OF assms(4)] feed_one(2) [OF assms(1,2)]
  by (cases "b = []") (simp_all add: vs_at_def)

lemma vs_fed_twice:
  assumes "scrolls vt" "streams vt" "vs_at w s" "short_sequences (w @ a @ b)"
  shows "vs_alike vt (snd (vs_feed vt (snd (vs_feed vt s a)) b)) (snd (vs_feed vt s (a @ b)))"
proof (cases "a = [] \<or> b = []")
  case False
  let ?s = "(process vt a s) \<lparr>vs_mode_overlay := overlay_of_stream (w @ a)\<rparr>"
  have o: "vs_mode_overlay s = overlay_of_stream w" using assms(3) by (simp add: vs_at_def)
  have short: "short_sequences (w @ a)" "short_sequences ((w @ a) @ b)"
    using assms(4) short_sequences_prefix [of "w @ a" b] by simp_all
  have "vs_alike vt (snd (vs_feed vt s a)) ?s"
    using fed_alike_process [OF assms(1,2), of a s] False update_overlay_of_stream [OF short(1)] o by simp
  from vs_fed_alike [OF assms(1,2) this]
  have "vs_alike vt (snd (vs_feed vt (snd (vs_feed vt s a)) b)) (snd (vs_feed vt ?s b))" .
  also have "vs_alike vt (snd (vs_feed vt ?s b)) ((process vt (a @ b) s) \<lparr>vs_mode_overlay := overlay_of_stream (w @ a @ b)\<rparr>)"
    using fed_alike_process [OF assms(1,2), of b ?s] False update_overlay_of_stream [OF short(2)]
    by (simp add: process_append [OF assms(2)])
  also have "vs_alike vt ((process vt (a @ b) s) \<lparr>vs_mode_overlay := overlay_of_stream (w @ a @ b)\<rparr>) (snd (vs_feed vt s (a @ b)))"
    using vs_alike_sym [OF fed_alike_process [OF assms(1,2), of "a @ b" s]] False update_overlay_of_stream [OF assms(4)] o by simp
  finally show ?thesis .
qed (auto simp: vs_alike_refl)

lemma vs_resized:
  assumes "scrolls vt"
  shows "vs_at w s \<Longrightarrow> vs_at w (snd (vs_resize vt s z))"
    "vs_alike vt s t \<Longrightarrow> vs_alike vt (snd (vs_resize vt s z)) (snd (vs_resize vt t z))"
proof -
  have "(vs_at w s \<longrightarrow> vs_at w (snd (vs_resize vt s z)))
    \<and> (vs_alike vt s t \<longrightarrow> vs_alike vt (snd (vs_resize vt s z)) (snd (vs_resize vt t z)))"
  proof (cases "validate_supported_size z []")
    case (Inl e)
    then show ?thesis by (simp add: vs_resize_bad)
  next
    case (Inr z')
    then have "validate_supported_size z [] = Inr z" using validate_any_name by blast
    from vs_resize_ok(2) [OF assms this, of s] vs_resize_ok(2) [OF assms this, of t] show ?thesis
      by (auto simp: vs_at_def vs_alike_def twinsD)
  qed
  then show "vs_at w s \<Longrightarrow> vs_at w (snd (vs_resize vt s z))"
    "vs_alike vt s t \<Longrightarrow> vs_alike vt (snd (vs_resize vt s z)) (snd (vs_resize vt t z))" by blast+
qed

lemma vs_shown: "vs_alike vt s t \<Longrightarrow> vs_snapshot vt s = vs_snapshot vt t"
  using twinsD(1) [of vt "vs_parser s" "vs_parser t"]
  by (simp add: vs_alike_def same_screen_def vs_snapshot_def size_from_screen_def snapshot_rows_def
      snapshot_row_def cursor_from_screen_def vs_modes_def modes_from_screen_def vs_title_def)

lemma validated: "vs_validate_resize t z = Inr () \<Longrightarrow> validate_supported_size z n = Inr z"
  using validate_any_name [of z "vs_validation_name t" _ n]
  by (cases "validate_supported_size z (vs_validation_name t)") (simp_all add: vs_validate_resize_def)

lemma vs_fresh_resized:
  assumes "scrolls vt" "streams vt" "vs_fresh vt z s" "vs_validate_resize t z' = Inr ()"
  shows "\<exists>s'. vs_fresh vt z' s' \<and> vs_alike vt s' (snd (vs_resize vt s z'))"
proof -
  obtain i cap name where s: "vs_new vt i z cap name = Inr s" using assms(3) by (auto simp: vs_fresh_def)
  have v: "validate_supported_size z' [] = Inr z'" by (rule validated [OF assms(4)])
  obtain s' where s': "vs_new vt i z' cap name = Inr s'" using vs_new_ok [OF v] by blast
  have "vs_alike vt s' (snd (vs_resize vt s z'))"
    using vs_resize_ok(2) [OF assms(1) v, of s] vs_new_parts(1-4) [OF assms(1) s] vs_new_parts(1-4) [OF assms(1) s']
    by (auto simp: vs_alike_def streamsD(3) [OF assms(2)])
  then show ?thesis using s' unfolding vs_fresh_def by blast
qed

lemma vs_made: "scrolls vt \<Longrightarrow> vs_fresh vt z s \<Longrightarrow> \<exists>t. replay_backend vt k z = Inr t \<and> vs_fresh vt z t"
  using vs_new_parts(5) [of vt] vs_new_ok unfolding vs_fresh_def
  by (cases k) (simp add: replay_backend_def default_surface_new_def, blast)

lemma vs_fresh_alike:
  "scrolls vt \<Longrightarrow> capacity_blind vt \<Longrightarrow> vs_fresh vt z s \<Longrightarrow> vs_fresh vt z t \<Longrightarrow> vs_alike vt s t"
  by (auto simp: vs_fresh_def vs_alike_def capacity_blind_def vs_new_parts)

lemma vt_replayable:
  assumes "scrolls vt" "streams vt" "capacity_blind vt"
  shows "replayable (default_surface_backend vt version) (replay_backend vt k) (vs_fresh vt) vs_at (vs_alike vt)"
proof (unfold_locales, goal_cases)
  case (5 z s)
  then show ?case using vs_new_parts(4) [OF assms(1)] by (auto simp: vs_fresh_def vs_at_def overlay_of_Nil)
next
  case (13 s z t)
  then show ?case using vs_resize_ok(1) [OF assms(1) validated]
    by (simp add: default_surface_backend_def vt_backend_def)
next
  case (16 s t)
  then show ?case using vs_shown by (simp add: default_surface_backend_def vt_backend_def)
qed (use assms in \<open>auto simp: default_surface_backend_def vt_backend_def feed_one vs_alike_refl vs_shown vs_snapshot_def
    intro: vs_alike_sym vs_alike_trans vs_made vs_fresh_alike vs_fresh_resized vs_fed_at vs_fed_alike vs_fed_twice
      vs_resized\<close>)

lemma run_config: "host_run m cs outs m' \<Longrightarrow> mg_config m' = mg_config m"
  by (induction rule: host_run.induct) (auto dest: host_step_config)

lemma tape_blind: "capacity_blind tape_vt"
proof -
  have "indistinct tape_vt (\<lambda>v w. fst v = fst w)"
    by (auto simp: indistinct_def same_screen_def tape_vt_def Let_def)
  then have "twins tape_vt (vt_new tape_vt r c a) (vt_new tape_vt r c b)" for r c a b
    unfolding twins_def by (intro exI conjI) (assumption, simp add: tape_vt_def)
  then show ?thesis by (simp add: capacity_blind_def)
qed

interpretation tape_replay: replayable "default_surface_backend tape_vt version" "replay_backend tape_vt k"
  "vs_fresh tape_vt" vs_at "vs_alike tape_vt" for version k
  by (rule vt_replayable [OF tape_scrolls tape_streams tape_blind])


section \<open>Every dump\<close>

text \<open>C6: A replay reconstructs the screen. Whatever calls a host has made on a manager with the default surface, earlier
  dumps among them and with any retention of scrollback, consider the dump of a pane that records raw bytes and
  still has them from the first on. When no sequence that sets terminal modes in these bytes is longer than
  the 64 bytes that the overlay carries from one frame to the next (\<open>short_sequences\<close>), the dump can be replayed,
  and the screen reconstructed from its bytes and sizes, with the overlaid modes, is the one in the dump:
  however the output was cut into frames and wherever resizes fell between and before them. Of the parser crate
  it is assumed that it works on a stream of bytes and keeps the scrollback it is asked to keep.\<close>

theorem replay_reconstructs:
  assumes "scrolls vt" "streams vt" "capacity_blind vt"
    and "mc_surface cfg = default_surface_backend vt version" "mc_surface_factory cfg = default_surface_factory vt"
    and "host_run (manager_new cfg) cs outs m" "dump_repro i options m = Some (Inr d, m')"
    and "rd_raw_transcript d = Some raw" "rrt_start_offset raw = 0"
    and "short_sequences (rrt_bytes raw)" "length (rrt_bytes raw) \<le> usize_max"
  shows "\<exists>r. pane_replay_from_dump d = Inr r \<and> final_surface vt version r = Inr (rd_final_surface d)"
proof -
  let ?sb = "default_surface_backend vt version" and ?k = DefaultSurfaceVt100
  note laws = vt_replayable [OF assms(1-3), of version ?k]
  have honest: "honest_surface ?sb" by (rule replayable.honest [OF laws])
  have c: "mg_config m = cfg" using run_config [OF assms(6)] by (simp add: manager_new_def)
  obtain p where p: "drain_pane_frames_for_repro i m = Some (Inr (), m')" "mg_panes m' i = Some p"
    "d = dump_of (mc_surface (mg_config m')) i options p"
  proof -
    obtain x m1 where x: "drain_pane_frames_for_repro i m = Some (x, m1)"
      using assms(7) by (auto simp: dump_repro_def bind_eq_Some_conv)
    then show thesis using assms(7) that by (cases x) (auto simp: dump_repro_def split: option.splits)
  qed
  have e: "evolves_to m m'" by (rule drain_repro_evolves [OF p(1)])
  have d: "d = dump_of ?sb i options p" using p(3) evolves_to_config [OF e] c assms(4) by simp
  have rec: "recorded cfg j q" if "mg_panes m j = Some q" for j q
    using host_run_recorded [OF assms(6) _ _ that] honest assms(4) by (simp add: manager_new_def)
  have "recorded cfg i p" using evolves_recorded [OF e _ p(2)] honest assms(4) c rec by simp
  moreover have "vs_fresh vt (pc_size c) s" if "mc_surface_factory cfg k i c = Inr s" for k c s
    using that by (auto simp: assms(5) default_surface_factory_def default_surface_new_def vs_fresh_def)
  moreover have "sm_replay_kind (sb_metadata ?sb (pn_surface p)) = Some ?k"
    by (simp add: default_surface_backend_def vt_backend_def default_surface_metadata_def)
  ultimately obtain r where r: "pane_replay_from_dump d = Inr r" "pr_backend r = ?k"
    "final_surface_over ?sb (replay_backend vt ?k) r = Inr (rd_final_surface d)"
    using replayable.dump_replays [OF laws _ assms(4), of i p ?k options raw] assms(8-11) unfolding d by blast
  then show ?thesis by (simp add: final_surface_def)
qed

text \<open>A child that has printed two bytes and been dumped.\<close>

definition demo_screen_host :: "(tape vt_surface, u8 list \<times> frame_queue) manager_config" where
  "demo_screen_host =
     \<lparr>mc_pty_spawner = (\<lambda>_ _. Inr ([], queue_push (PF_Output 0 [104, 105] 0) (queue_new 4))),
      mc_surface_factory = default_surface_factory tape_vt,
      mc_default_scrollback = \<lparr>sb_max_lines = Some 100\<rparr>, mc_event_log_retention = ELR_Unlimited,
      mc_max_pty_frames_per_drain = 2, mc_max_pty_frames_per_repro_dump = 4,
      mc_surface = default_surface_backend tape_vt [], mc_process = demo_process, mc_system_time = id, mc_instant = id\<rparr>"

lemma push_event_keeps:
  assumes "mg_panes m i = Some p"
  shows "\<exists>m' q. push_event i k m = Some m' \<and> mg_panes m' i = Some q \<and> mg_config m' = mg_config m
    \<and> pn_process q = pn_process p \<and> pn_transcript q = pn_transcript p"
  using assms by (simp add: push_event_eq)

lemma raw_frame:
  assumes "mg_panes m i = Some p" "tr_mode (pn_transcript p) = TM_RawBytes" "tr_max_bytes (pn_transcript p) = 0"
    "tr_max_lines (pn_transcript p) = 0" "sb_feed (mc_surface (mg_config m)) (pn_surface p) b = (Inr u, s)"
  shows "\<exists>m' q. handle_output_frame i b m = Some m' \<and> mg_panes m' i = Some q \<and> mg_config m' = mg_config m
    \<and> pn_process q = pn_process p \<and> tr_mode (pn_transcript q) = TM_RawBytes
    \<and> tr_raw (pn_transcript q) = tr_raw (pn_transcript p) @ b
    \<and> tr_next_raw_offset (pn_transcript q) = tr_next_raw_offset (pn_transcript p) + length b"
proof -
  obtain rec t where t: "record_frame (pn_transcript p) b = Some (rec, t)" "rec_rotated rec = None"
    "tr_mode t = TM_RawBytes" "tr_raw t = tr_raw (pn_transcript p) @ b"
    "tr_next_raw_offset t = tr_next_raw_offset (pn_transcript p) + length b"
    using that assms(2-4) by (cases "b = []") (auto simp: record_frame_def enforce_limits_def Let_def)
  let ?p = "p \<lparr>pn_mode_overlay := snd (update_from_output (pn_mode_overlay p) b), pn_transcript := t\<rparr>"
  obtain q where f: "feed_surface_bytes i b (put_pane i ?p m) = (Inr (u, pn_surface_generation p + 1), put_pane i q m)"
    "pn_process q = pn_process p" "pn_transcript q = t"
    using assms(5) by (simp add: feed_surface_bytes_def Let_def)
  from push_event_keeps [of "put_pane i q m" i q "output_event_of b (Some (rec_offset rec))"] obtain m1 q1 where
    m1: "push_event i (output_event_of b (Some (rec_offset rec))) (put_pane i q m) = Some m1" "mg_panes m1 i = Some q1"
    "mg_config m1 = mg_config m" "pn_process q1 = pn_process p" "pn_transcript q1 = t" using f by auto
  from push_event_keeps [OF m1(2), of "surface_changed (pn_surface_generation p + 1) u"]
  show ?thesis using assms(1) t f m1
    by (auto simp: handle_output_frame_def record_output_frame_def push_rotated_def Let_def)
qed

definition demo_queue :: frame_queue where "demo_queue = queue_push (PF_Output 0 [104, 105] 0) (queue_new 4)"

definition demo_screen_started :: "(tape vt_surface, u8 list \<times> frame_queue) pane_manager" where
  "demo_screen_started =
     (case spawn demo_pane (manager_new demo_screen_host) of Some (_, m) \<Rightarrow> m | None \<Rightarrow> manager_new demo_screen_host)"

lemma demo_queue_recv:
  "\<exists>q1. pp_try_recv demo_process ([], demo_queue) = (Some (PF_Output 0 [104, 105] 0), ([], q1))
     \<and> pp_try_recv demo_process ([], q1) = (None, ([], q1))"
  by (simp add: demo_process_def demo_queue_def queue_push_def push_output_def queue_new_def queue_try_recv_def Let_def)

lemma demo_screen_spawn:
  "\<exists>p. spawn demo_pane (manager_new demo_screen_host) = Some (Inr 1, demo_screen_started)
     \<and> mg_panes demo_screen_started = [1 \<mapsto> p] \<and> pn_process p = Some ([], demo_queue)
     \<and> tr_mode (pn_transcript p) = TM_RawBytes \<and> tr_max_bytes (pn_transcript p) = 0
     \<and> tr_max_lines (pn_transcript p) = 0 \<and> tr_raw (pn_transcript p) = [] \<and> tr_next_raw_offset (pn_transcript p) = 0
     \<and> mg_config demo_screen_started = demo_screen_host"
proof -
  have "validate_supported_size (mk_size 24 80) n = Inr (mk_size 24 80)" for n
    by (simp add: validate_supported_size_def size_try_new_def mk_size_def)
  from vs_new_ok [OF this] obtain s where s: "vs_new tape_vt 1 (mk_size 24 80) 100 (lit ''default surface backend'') = Inr s"
    by blast
  have "pc_id demo_pane = None" "pc_scrollback demo_pane = None" "pc_size demo_pane = mk_size 24 80"
    "pc_transcript demo_pane = \<lparr>tc_mode = TM_RawBytes, tc_max_lines = 0, tc_max_bytes = 0\<rparr>"
    by (simp_all add: demo_pane_def pane_config_default_def)
  then show ?thesis using s
    by (simp add: demo_screen_started_def spawn_def demo_valid Let_def choose_pane_id_def manager_new_def
        put_pane_def push_event_eq transition_state_def emit_def logged_def retain_event_log_def
        demo_screen_host_def default_surface_factory_def default_surface_new_def configured_scrollback_rows_def
        pane_spawned_def transcript_new_def single_eq demo_queue_def)
qed

lemma demo_dump:
  "\<exists>d m'. dump_repro 1 repro_dump_options_default demo_screen_started = Some (Inr d, m')
     \<and> rd_raw_transcript d = Some \<lparr>rrt_start_offset = 0, rrt_bytes = [104, 105]\<rparr>"
proof -
  let ?m = demo_screen_started and ?limit = "Suc (Suc (Suc (Suc 0)))"
  obtain p where p: "mg_panes ?m = [1 \<mapsto> p]" "pn_process p = Some ([], demo_queue)"
    "tr_mode (pn_transcript p) = TM_RawBytes" "tr_max_bytes (pn_transcript p) = 0"
    "tr_max_lines (pn_transcript p) = 0" "tr_raw (pn_transcript p) = []" "tr_next_raw_offset (pn_transcript p) = 0"
    "mg_config ?m = demo_screen_host" using demo_screen_spawn by blast
  obtain q1 where q1: "pp_try_recv demo_process ([], demo_queue) = (Some (PF_Output 0 [104, 105] 0), ([], q1))"
    "pp_try_recv demo_process ([], q1) = (None, ([], q1))" using demo_queue_recv by blast
  have c: "mc_process demo_screen_host = demo_process" "mc_surface demo_screen_host = default_surface_backend tape_vt []"
    "mc_max_pty_frames_per_repro_dump demo_screen_host = ?limit" by (simp_all add: demo_screen_host_def)
  let ?p1 = "p \<lparr>pn_process := Some ([], q1)\<rparr>"
  have n1: "next_frame 1 ?m = Some (Some (PF_Output 0 [104, 105] 0), put_pane 1 ?p1 ?m)"
    using p(2) q1(1) c(1) by (simp add: next_frame_def p(1,8))
  obtain u s where f: "sb_feed (mc_surface demo_screen_host) (pn_surface p) [104, 105] = (Inr u, s)"
    using tape_replay.fed_ok [of "[]" "pn_surface p" "[104, 105]"] c
    by (cases "sb_feed (mc_surface demo_screen_host) (pn_surface p) [104, 105]") auto
  from raw_frame [of "put_pane 1 ?p1 ?m" 1 ?p1 "[104, 105]" u s] p f obtain m2 p2 where
    m2: "handle_output_frame 1 [104, 105] (put_pane 1 ?p1 ?m) = Some m2" "mg_panes m2 1 = Some p2"
    "mg_config m2 = demo_screen_host" "pn_process p2 = Some ([], q1)" "tr_mode (pn_transcript p2) = TM_RawBytes"
    "tr_raw (pn_transcript p2) = [104, 105]" "tr_next_raw_offset (pn_transcript p2) = 2" by auto
  let ?p2 = "p2 \<lparr>pn_process := Some ([], q1)\<rparr>"
  have n2: "next_frame 1 m2 = Some (None, put_pane 1 ?p2 m2)"
    using m2 q1 c by (simp add: next_frame_def)
  have "drain_for_repro ?limit 1 ?m = Some (Inr True, put_pane 1 ?p2 m2)"
    using n1 n2 m2(1,2) p(1) by (simp add: handle_pty_frame_def)
  then have "drain_pane_frames_for_repro 1 ?m = Some (Inr (), put_pane 1 ?p2 m2)"
    using p(8) c(3) by (simp add: drain_pane_frames_for_repro_def)
  then show ?thesis using m2
    by (simp add: dump_repro_def dump_of_def Let_def records_raw_bytes_def retained_raw_start_offset_def)
qed

theorem replay_reconstructs_witness:
  "\<exists>m m' d r. host_run (manager_new demo_screen_host) [HC_Spawn demo_pane :: demo_call] [] m
     \<and> dump_repro 1 repro_dump_options_default m = Some (Inr d, m')
     \<and> rd_raw_transcript d = Some \<lparr>rrt_start_offset = 0, rrt_bytes = [104, 105]\<rparr>
     \<and> pane_replay_from_dump d = Inr r \<and> final_surface tape_vt [] r = Inr (rd_final_surface d)"
proof -
  have spawned: "spawn demo_pane (manager_new demo_screen_host) = Some (Inr 1, demo_screen_started)"
    using demo_screen_spawn by blast
  have "host_run (manager_new demo_screen_host) [HC_Spawn demo_pane :: demo_call] ([] @ []) demo_screen_started"
    using host_step.intros(1) [OF spawned] host_run.intros by blast
  then have run: "host_run (manager_new demo_screen_host) [HC_Spawn demo_pane :: demo_call] [] demo_screen_started" by simp
  obtain d m' where d: "dump_repro 1 repro_dump_options_default demo_screen_started = Some (Inr d, m')"
    "rd_raw_transcript d = Some \<lparr>rrt_start_offset = 0, rrt_bytes = [104, 105]\<rparr>" using demo_dump by blast
  have "short_sequences [104, 105]" by code_simp
  then obtain r where "pane_replay_from_dump d = Inr r" "final_surface tape_vt [] r = Inr (rd_final_surface d)"
    using replay_reconstructs [OF tape_scrolls tape_streams tape_blind _ _ run d, of "[]"]
    by (auto simp: demo_screen_host_def usize_max_def)
  then show ?thesis using run d by blast
qed

end
