(* ===== verification/Attach_Session.thy ===== *)
theory Attach_Session
  imports Manager_Attach Detach_Matcher
begin

text \<open>
  The blocking attach session of the crate \<open>panesmith-attach\<close> (\<open>attach.rs\<close> and \<open>session.rs\<close>): the bridge
  with its life cycle, the guard of the host terminal, the loop that relays input and output, detaching and
  the way back after an error.

  A computation yields \<open>None\<close> when it never ends, and otherwise an error, a failed
  assertion or a value, with the state. A failed assertion unwinds: it skips the way back, but
  drops the guard.
\<close>

section \<open>The bridge\<close>

datatype attach_state = AS_Embedded | AS_Attaching | AS_Attached | AS_Detaching

definition is_transitional :: "attach_state \<Rightarrow> bool" where
  "is_transitional state = (state = AS_Attaching \<or> state = AS_Detaching)"

definition is_active :: "attach_state \<Rightarrow> bool" where
  "is_active state = (state = AS_Attaching \<or> state = AS_Attached \<or> state = AS_Detaching)"

record attach_bridge =
  ab_pane_id :: pane_id
  ab_options :: attach_options
  ab_state :: attach_state

definition bridge_with_options :: "pane_id \<Rightarrow> attach_options \<Rightarrow> attach_bridge" where
  "bridge_with_options pane_id options = \<lparr>ab_pane_id = pane_id, ab_options = options, ab_state = AS_Embedded\<rparr>"

text \<open>The transitions; \<open>None\<close> is the failed assertion.\<close>

definition begin_attach :: "attach_bridge \<Rightarrow> attach_bridge option" where
  "begin_attach b = (if ab_state b = AS_Embedded then Some (b \<lparr>ab_state := AS_Attaching\<rparr>) else None)"

definition confirm_attached :: "attach_bridge \<Rightarrow> attach_bridge option" where
  "confirm_attached b = (if ab_state b = AS_Attaching then Some (b \<lparr>ab_state := AS_Attached\<rparr>) else None)"

definition begin_detach :: "attach_bridge \<Rightarrow> attach_bridge option" where
  "begin_detach b = (if ab_state b = AS_Attached then Some (b \<lparr>ab_state := AS_Detaching\<rparr>) else None)"

definition confirm_detached :: "attach_bridge \<Rightarrow> attach_bridge option" where
  "confirm_detached b = (if ab_state b = AS_Detaching then Some (b \<lparr>ab_state := AS_Embedded\<rparr>) else None)"


section \<open>The endpoints\<close>

text \<open>The traits \<open>AttachPtyEndpoint\<close> and \<open>AttachSurfaceSink\<close>; an error is its \<open>Debug\<close> text. The traits
  \<open>AttachTerminal\<close> and \<open>HostTerminalControl\<close> are those of \<open>Manager_Attach\<close>.\<close>

record 'p attach_pty =
  ep_try_recv :: "'p \<Rightarrow> (rstr + pty_frame option) \<times> 'p"
  ep_write_input :: "'p \<Rightarrow> u8 list \<Rightarrow> (rstr + unit) \<times> 'p"
  ep_resize :: "'p \<Rightarrow> pane_size \<Rightarrow> (rstr + unit) \<times> 'p"

record 'f attach_sink =
  sk_feed_output :: "'f \<Rightarrow> u8 list \<Rightarrow> (rstr + unit) \<times> 'f"
  sk_resize :: "'f \<Rightarrow> pane_size \<Rightarrow> (rstr + unit) \<times> 'f"

definition pty_endpoint :: "(pane_error \<Rightarrow> rstr) \<Rightarrow> 'p pty_process \<Rightarrow> 'p attach_pty" where
  "pty_endpoint debug pp =
     \<lparr>ep_try_recv = (\<lambda>p. case pp_try_recv pp p of (frame, p) \<Rightarrow> (Inr frame, p)),
      ep_write_input = (\<lambda>p bytes. map_prod (map_sum debug id) id (write_bytes (pp_writer pp) p bytes)),
      ep_resize = (\<lambda>p z. map_prod (map_sum debug id) id (pp_resize pp p z))\<rparr>"

definition surface_sink :: "(pane_error \<Rightarrow> rstr) \<Rightarrow> 's surface_backend \<Rightarrow> 's attach_sink" where
  "surface_sink debug sb =
     \<lparr>sk_feed_output = (\<lambda>s bytes. map_prod (map_sum debug (\<lambda>_. ())) id (sb_feed sb s bytes)),
      sk_resize = (\<lambda>s z. map_prod (map_sum debug id) id (sb_resize sb s z))\<rparr>"

record ('t, 'p, 'f, 'c, 'k) session_host =
  sh_terminal :: "'t attach_terminal"
  sh_pty :: "'p attach_pty"
  sh_surface :: "'f attach_sink"
  sh_control :: "('c, 'k) attach_control"
  sh_instant :: "nat \<Rightarrow> nat"
  sh_system_time :: "nat \<Rightarrow> nat"

datatype blocking_attach_error =
    BE_Suspend rstr
  | BE_Restore rstr
  | BE_TerminalInput rstr
  | BE_TerminalOutput rstr
  | BE_TerminalSize rstr
  | BE_PtyRead rstr
  | BE_PtyRuntime rstr
  | BE_PtyWrite rstr
  | BE_PtyResize rstr
  | BE_SurfaceFeed rstr
  | BE_SurfaceResize rstr

definition blocking_attach_error_str :: "blocking_attach_error \<Rightarrow> rstr" where
  "blocking_attach_error_str e =
     (case e of
        BE_Suspend message \<Rightarrow> lit ''attach suspend failed: '' @ message
      | BE_Restore message \<Rightarrow> lit ''attach restore failed: '' @ message
      | BE_TerminalInput message \<Rightarrow> lit ''attach stdin read failed: '' @ message
      | BE_TerminalOutput message \<Rightarrow> lit ''attach stdout write failed: '' @ message
      | BE_TerminalSize message \<Rightarrow> lit ''attach terminal size failed: '' @ message
      | BE_PtyRead message \<Rightarrow> lit ''attach PTY read failed: '' @ message
      | BE_PtyRuntime message \<Rightarrow> lit ''attach PTY runtime failed: '' @ message
      | BE_PtyWrite message \<Rightarrow> lit ''attach PTY write failed: '' @ message
      | BE_PtyResize message \<Rightarrow> lit ''attach PTY resize failed: '' @ message
      | BE_SurfaceFeed message \<Rightarrow> lit ''attach surface feed failed: '' @ message
      | BE_SurfaceResize message \<Rightarrow> lit ''attach surface resize failed: '' @ message)"

definition blocking_attach_error_to_pane_error :: "blocking_attach_error \<Rightarrow> pane_error" where
  "blocking_attach_error_to_pane_error error =
     (let n = normalize_debug_message
      in case error of
        BE_Suspend message \<Rightarrow> Attach_Error (lit ''attach suspend failed: '' @ n message)
      | BE_Restore message \<Rightarrow> Attach_Error (lit ''attach restore failed: '' @ n message)
      | BE_TerminalSize message \<Rightarrow> Attach_Error (lit ''attach terminal size failed: '' @ n message)
      | BE_PtyRuntime message \<Rightarrow> Attach_Error (lit ''attach PTY runtime failed: '' @ message)
      | BE_TerminalInput message \<Rightarrow> Io_Error Io_Read (lit ''attach stdin read failed: '' @ n message)
      | BE_PtyRead message \<Rightarrow> Io_Error Io_Read (lit ''attach PTY read failed: '' @ n message)
      | BE_TerminalOutput message \<Rightarrow> Io_Error Io_Write (lit ''attach stdout write failed: '' @ n message)
      | BE_PtyWrite message \<Rightarrow> Io_Error Io_Write (lit ''attach PTY write failed: '' @ n message)
      | BE_PtyResize message \<Rightarrow> Io_Error Io_Resize (lit ''attach PTY resize failed: '' @ n message)
      | BE_SurfaceFeed message \<Rightarrow> Surface_Error (lit ''attach surface feed failed: '' @ n message)
      | BE_SurfaceResize message \<Rightarrow> Surface_Error (lit ''attach surface resize failed: '' @ n message))"

datatype attach_stop = Stop_Error blocking_attach_error | Stop_Panic


section \<open>The session\<close>

record blocking_session =
  bs_bridge :: attach_bridge
  bs_embedded_size :: pane_size
  bs_poll_interval :: nat
  bs_next_event_seq :: nat
  bs_events :: "pane_event list"

definition default_poll_interval :: nat where "default_poll_interval = 10"
definition session_detach_drain_quiet :: nat where "session_detach_drain_quiet = 200"
definition session_detach_drain_max_wait :: nat where "session_detach_drain_max_wait = 2000"
definition session_frames_per_tick :: nat where "session_frames_per_tick = 32"

definition blocking_session_new :: "pane_id \<Rightarrow> attach_options \<Rightarrow> pane_size \<Rightarrow> nat \<Rightarrow> blocking_session" where
  "blocking_session_new pane_id options embedded_size initial_event_seq =
     \<lparr>bs_bridge = bridge_with_options pane_id options, bs_embedded_size = embedded_size,
      bs_poll_interval = default_poll_interval, bs_next_event_seq = initial_event_seq, bs_events = []\<rparr>"

definition with_poll_interval :: "nat \<Rightarrow> blocking_session \<Rightarrow> blocking_session" where
  "with_poll_interval poll_interval s = s \<lparr>bs_poll_interval := max poll_interval 1\<rparr>"

definition drain_session_events :: "blocking_session \<Rightarrow> pane_event list \<times> blocking_session" where
  "drain_session_events s = (bs_events s, s \<lparr>bs_events := []\<rparr>)"

text \<open>The session with what it runs on, and the variables of \<open>run\<close>, \<open>AttachLoopState\<close> and the guard.\<close>

record ('t, 'p, 'f, 'c, 'k) running =
  rn_session :: blocking_session
  rn_terminal :: 't
  rn_pty :: 'p
  rn_surface :: 'f
  rn_control :: 'c
  rn_ticks :: nat
  rn_token :: "'k option"
  rn_matcher :: detach_matcher
  rn_replay_buffer :: "u8 list"
  rn_child_exit_code :: "int option"
  rn_terminal_size :: pane_size
  rn_detach_reason :: "detach_reason option"
  rn_restored_embedded_size :: bool

type_synonym ('t, 'p, 'f, 'c, 'k, 'a) relay =
  "((attach_stop + 'a) \<times> ('t, 'p, 'f, 'c, 'k) running) option"

definition session_event ::
    "('t, 'p, 'f, 'c, 'k) session_host \<Rightarrow> event_kind \<Rightarrow> ('t, 'p, 'f, 'c, 'k) running \<Rightarrow> ('t, 'p, 'f, 'c, 'k) running" where
  "session_event h kind st =
     (let s = rn_session st;
          seq1 = bs_next_event_seq s + 1
      in st \<lparr>rn_session := s \<lparr>bs_next_event_seq := seq1,
               bs_events := bs_events s @ [\<lparr>ev_pane_id = ab_pane_id (bs_bridge s), ev_seq = seq1,
                 ev_at = sh_system_time h (rn_ticks st), ev_kind = kind\<rparr>]\<rparr>,
             rn_ticks := rn_ticks st + 1\<rparr>)"

definition session_error_event ::
    "('t, 'p, 'f, 'c, 'k) session_host \<Rightarrow> blocking_attach_error \<Rightarrow> ('t, 'p, 'f, 'c, 'k) running \<Rightarrow> ('t, 'p, 'f, 'c, 'k) running" where
  "session_error_event h error st = session_event h (Ev_Error (blocking_attach_error_to_pane_error error)) st"

definition session_now ::
    "('t, 'p, 'f, 'c, 'k) session_host \<Rightarrow> ('t, 'p, 'f, 'c, 'k) running \<Rightarrow> nat \<times> ('t, 'p, 'f, 'c, 'k) running" where
  "session_now h st = (sh_instant h (rn_ticks st), st \<lparr>rn_ticks := rn_ticks st + 1\<rparr>)"

text \<open>A step of the bridge, which may fail an assertion.\<close>

definition bridge_step ::
    "(attach_bridge \<Rightarrow> attach_bridge option) \<Rightarrow> ('t, 'p, 'f, 'c, 'k) running \<Rightarrow> ('t, 'p, 'f, 'c, 'k, unit) relay" where
  "bridge_step f st =
     (case f (bs_bridge (rn_session st)) of
        None \<Rightarrow> Some (Inl Stop_Panic, st)
      | Some b \<Rightarrow> Some (Inr (), st \<lparr>rn_session := (rn_session st) \<lparr>bs_bridge := b\<rparr>\<rparr>))"

definition reset_bridge :: "attach_options \<Rightarrow> ('t, 'p, 'f, 'c, 'k) running \<Rightarrow> ('t, 'p, 'f, 'c, 'k) running" where
  "reset_bridge options st =
     (let s = rn_session st
      in st \<lparr>rn_session := s \<lparr>bs_bridge := bridge_with_options (ab_pane_id (bs_bridge s)) options\<rparr>\<rparr>)"


section \<open>Steps with the endpoints\<close>

definition session_size ::
    "('t, 'p, 'f, 'c, 'k) session_host \<Rightarrow> ('t, 'p, 'f, 'c, 'k) running \<Rightarrow> ('t, 'p, 'f, 'c, 'k, pane_size) relay" where
  "session_size h st =
     (case tl_size (sh_terminal h) (rn_terminal st) of
        (Inl e, t) \<Rightarrow> Some (Inl (Stop_Error (BE_TerminalSize e)), st \<lparr>rn_terminal := t\<rparr>)
      | (Inr z, t) \<Rightarrow> Some (Inr z, st \<lparr>rn_terminal := t\<rparr>))"

definition session_stdout ::
    "('t, 'p, 'f, 'c, 'k) session_host \<Rightarrow> u8 list \<Rightarrow> ('t, 'p, 'f, 'c, 'k) running \<Rightarrow> ('t, 'p, 'f, 'c, 'k, unit) relay" where
  "session_stdout h bytes st =
     (case tl_write_stdout (sh_terminal h) (rn_terminal st) bytes of
        (Inl e, t) \<Rightarrow> Some (Inl (Stop_Error (BE_TerminalOutput e)), st \<lparr>rn_terminal := t\<rparr>)
      | (Inr _, t) \<Rightarrow> Some (Inr (), st \<lparr>rn_terminal := t\<rparr>))"

definition session_feed ::
    "('t, 'p, 'f, 'c, 'k) session_host \<Rightarrow> u8 list \<Rightarrow> ('t, 'p, 'f, 'c, 'k) running \<Rightarrow> ('t, 'p, 'f, 'c, 'k, unit) relay" where
  "session_feed h bytes st =
     (case sk_feed_output (sh_surface h) (rn_surface st) bytes of
        (Inl e, f) \<Rightarrow> Some (Inl (Stop_Error (BE_SurfaceFeed e)), st \<lparr>rn_surface := f\<rparr>)
      | (Inr _, f) \<Rightarrow> Some (Inr (), st \<lparr>rn_surface := f\<rparr>))"

definition session_write ::
    "('t, 'p, 'f, 'c, 'k) session_host \<Rightarrow> u8 list \<Rightarrow> ('t, 'p, 'f, 'c, 'k) running \<Rightarrow> ('t, 'p, 'f, 'c, 'k, unit) relay" where
  "session_write h bytes st =
     (case ep_write_input (sh_pty h) (rn_pty st) bytes of
        (Inl e, p) \<Rightarrow> Some (Inl (Stop_Error (BE_PtyWrite e)), st \<lparr>rn_pty := p\<rparr>)
      | (Inr _, p) \<Rightarrow>
          Some (Inr (), session_event h (input_sent Input_Bytes (length bytes)) (st \<lparr>rn_pty := p\<rparr>)))"

definition resize_attached_target ::
    "('t, 'p, 'f, 'c, 'k) session_host \<Rightarrow> pane_size \<Rightarrow> bool \<Rightarrow> ('t, 'p, 'f, 'c, 'k) running \<Rightarrow>
     ('t, 'p, 'f, 'c, 'k, unit) relay" where
  "resize_attached_target h z emit_event st =
     (case ep_resize (sh_pty h) (rn_pty st) z of
        (Inl e, p) \<Rightarrow> Some (Inl (Stop_Error (BE_PtyResize e)), st \<lparr>rn_pty := p\<rparr>)
      | (Inr _, p) \<Rightarrow>
          (case sk_resize (sh_surface h) (rn_surface st) z of
             (Inl e, f) \<Rightarrow> Some (Inl (Stop_Error (BE_SurfaceResize e)), st \<lparr>rn_pty := p, rn_surface := f\<rparr>)
           | (Inr _, f) \<Rightarrow>
               (let st = st \<lparr>rn_pty := p, rn_surface := f\<rparr>
                in Some (Inr (), if emit_event then session_event h (Ev_Resized z) st else st))))"

text \<open>\<open>AttachGuard\<close>: restoring keeps the token when it fails, and \<open>Drop\<close> tries once more.\<close>

definition session_guard_detach ::
    "('t, 'p, 'f, 'c, 'k) session_host \<Rightarrow> ('t, 'p, 'f, 'c, 'k) running \<Rightarrow> ('t, 'p, 'f, 'c, 'k, unit) relay" where
  "session_guard_detach h st =
     (case rn_token st of
        None \<Rightarrow> Some (Inr (), st)
      | Some token \<Rightarrow>
          (case ct_restore (sh_control h) (rn_control st) token of
             (Inl e, c, token) \<Rightarrow>
               Some (Inl (Stop_Error (BE_Restore e)), st \<lparr>rn_control := c, rn_token := Some token\<rparr>)
           | (Inr _, c, token) \<Rightarrow> Some (Inr (), st \<lparr>rn_control := c, rn_token := None\<rparr>)))"

definition session_guard_disarm :: "('t, 'p, 'f, 'c, 'k) running \<Rightarrow> ('t, 'p, 'f, 'c, 'k) running" where
  "session_guard_disarm st = st \<lparr>rn_token := None\<rparr>"

definition session_guard_drop ::
    "('t, 'p, 'f, 'c, 'k) session_host \<Rightarrow> ('t, 'p, 'f, 'c, 'k) running \<Rightarrow> ('t, 'p, 'f, 'c, 'k) running" where
  "session_guard_drop h st =
     (case rn_token st of
        None \<Rightarrow> st
      | Some token \<Rightarrow>
          (case ct_restore (sh_control h) (rn_control st) token of
             (_, c, _) \<Rightarrow> st \<lparr>rn_control := c, rn_token := None\<rparr>))"


section \<open>Input and output\<close>

datatype session_poll = SS_Idle | SS_Forwarded | SS_Detached "u8 list"

definition poll_stdin ::
    "('t, 'p, 'f, 'c, 'k) session_host \<Rightarrow> ('t, 'p, 'f, 'c, 'k) running \<Rightarrow> ('t, 'p, 'f, 'c, 'k, session_poll) relay" where
  "poll_stdin h st =
     (case tl_read_stdin (sh_terminal h) (rn_terminal st) of
        (Inl e, t) \<Rightarrow> Some (Inl (Stop_Error (BE_TerminalInput e)), st \<lparr>rn_terminal := t\<rparr>)
      | (Inr (Some (at1, bytes)), t) \<Rightarrow>
          (case feed_bytes (rn_matcher st) bytes at1 of
             (result, matcher) \<Rightarrow>
               (let st = st \<lparr>rn_terminal := t, rn_matcher := matcher\<rparr>
                in and_then (if fr_forward result \<noteq> [] then session_write h (fr_forward result) st else Some (Inr (), st))
                  (\<lambda>_ st. Some
                     (Inr (if fr_detached result then SS_Detached (fr_remaining result) else SS_Forwarded), st))))
      | (Inr None, t) \<Rightarrow>
          (case session_now h (st \<lparr>rn_terminal := t\<rparr>) of
             (instant, st) \<Rightarrow>
               (case check_timeout (rn_matcher st) instant of
                  (None, matcher) \<Rightarrow> Some (Inr SS_Idle, st \<lparr>rn_matcher := matcher\<rparr>)
                | (Some bytes, matcher) \<Rightarrow>
                    and_then (session_write h bytes (st \<lparr>rn_matcher := matcher\<rparr>))
                      (\<lambda>_ st. Some (Inr SS_Forwarded, st)))))"

definition session_recv ::
    "('t, 'p, 'f, 'c, 'k) session_host \<Rightarrow> ('t, 'p, 'f, 'c, 'k) running \<Rightarrow> ('t, 'p, 'f, 'c, 'k, pty_frame option) relay" where
  "session_recv h st =
     (case ep_try_recv (sh_pty h) (rn_pty st) of
        (Inl e, p) \<Rightarrow> Some (Inl (Stop_Error (BE_PtyRead e)), st \<lparr>rn_pty := p\<rparr>)
      | (Inr frame, p) \<Rightarrow> Some (Inr frame, st \<lparr>rn_pty := p\<rparr>))"

definition handle_session_frame ::
    "('t, 'p, 'f, 'c, 'k) session_host \<Rightarrow> attach_output_policy \<Rightarrow> pty_frame \<Rightarrow> ('t, 'p, 'f, 'c, 'k) running \<Rightarrow>
     ('t, 'p, 'f, 'c, 'k, unit) relay" where
  "handle_session_frame h output frame st =
     (case frame of
        PF_Output _ bytes _ \<Rightarrow>
          and_then (session_stdout h bytes st)
            (\<lambda>_ st. case output of
               FanoutToSurfaceAndStdout \<Rightarrow> session_feed h bytes st
             | StdoutOnlyThenReplay \<Rightarrow> Some (Inr (), st \<lparr>rn_replay_buffer := rn_replay_buffer st @ bytes\<rparr>))
      | PF_Exited _ code _ \<Rightarrow>
          Some (Inr (), if rn_child_exit_code st = None then st \<lparr>rn_child_exit_code := code\<rparr> else st)
      | PF_Error _ message _ \<Rightarrow> Some (Inl (Stop_Error (BE_PtyRuntime message)), st)
      | PF_Overflow _ _ _ _ \<Rightarrow> Some (Inr (), st)
      | PF_CursorPositionRequest _ _ \<Rightarrow> Some (Inr (), st))"

fun session_drain ::
    "nat \<Rightarrow> ('t, 'p, 'f, 'c, 'k) session_host \<Rightarrow> attach_output_policy \<Rightarrow> bool \<Rightarrow> ('t, 'p, 'f, 'c, 'k) running \<Rightarrow>
     ('t, 'p, 'f, 'c, 'k, bool) relay" where
  "session_drain 0 h output saw_output st = Some (Inr saw_output, st)"
| "session_drain (Suc n) h output saw_output st =
     and_then (session_recv h st)
       (\<lambda>frame st. case frame of
          None \<Rightarrow> Some (Inr saw_output, st)
        | Some frame \<Rightarrow>
            and_then (handle_session_frame h output frame st)
              (\<lambda>_ st. session_drain n h output True st))"

definition session_drain_output ::
    "('t, 'p, 'f, 'c, 'k) session_host \<Rightarrow> attach_output_policy \<Rightarrow> ('t, 'p, 'f, 'c, 'k) running \<Rightarrow>
     ('t, 'p, 'f, 'c, 'k, bool) relay" where
  "session_drain_output h output st = session_drain session_frames_per_tick h output False st"

partial_function (option) session_detaching_loop ::
    "('t, 'p, 'f, 'c, 'k) session_host \<Rightarrow> attach_output_policy \<Rightarrow> nat \<Rightarrow> nat \<Rightarrow> ('t, 'p, 'f, 'c, 'k) running \<Rightarrow>
     ('t, 'p, 'f, 'c, 'k, unit) relay" where
  "session_detaching_loop h output started last_activity st =
     and_then (session_drain_output h output st)
       (\<lambda>saw_output st.
          let (last_activity, st) = (if saw_output then session_now h st else (last_activity, st));
              (instant, st) = session_now h st
          in if session_detach_drain_quiet \<le> instant - last_activity
                \<or> session_detach_drain_max_wait \<le> instant - started
             then Some (Inr (), st)
             else session_detaching_loop h output started last_activity st)"

definition session_drain_detaching ::
    "('t, 'p, 'f, 'c, 'k) session_host \<Rightarrow> attach_output_policy \<Rightarrow> ('t, 'p, 'f, 'c, 'k) running \<Rightarrow>
     ('t, 'p, 'f, 'c, 'k, unit) relay" where
  "session_drain_detaching h output st =
     (case session_now h st of (started, st) \<Rightarrow> session_detaching_loop h output started started st)"


section \<open>Detaching and aborting\<close>

definition attach_ended :: "detach_reason \<Rightarrow> pane_size \<Rightarrow> nat \<Rightarrow> event_kind" where
  "attach_ended reason z duration =
     Ev_AttachEnded \<lparr>aee_reason = reason, aee_restored_size = z, aee_duration = duration\<rparr>"

definition end_event ::
    "('t, 'p, 'f, 'c, 'k) session_host \<Rightarrow> detach_reason \<Rightarrow> nat \<Rightarrow> ('t, 'p, 'f, 'c, 'k) running \<Rightarrow> ('t, 'p, 'f, 'c, 'k) running" where
  "end_event h reason started_at st =
     (case session_now h st of
        (instant, st) \<Rightarrow>
          session_event h (attach_ended reason (bs_embedded_size (rn_session st)) (instant - started_at)) st)"

definition session_finish_detach ::
    "('t, 'p, 'f, 'c, 'k) session_host \<Rightarrow> attach_options \<Rightarrow> nat \<Rightarrow> detach_reason \<Rightarrow> u8 list \<Rightarrow>
     ('t, 'p, 'f, 'c, 'k) running \<Rightarrow> ('t, 'p, 'f, 'c, 'k, attach_outcome) relay" where
  "session_finish_detach h options started_at reason remaining_input st =
     and_then (bridge_step begin_detach st)
     (\<lambda>_ st. and_then (session_drain_detaching h (ao_output options) st)
     (\<lambda>_ st. and_then
        (if ao_output options = StdoutOnlyThenReplay \<and> rn_replay_buffer st \<noteq> [] then
           and_then (session_feed h (rn_replay_buffer st) st) (\<lambda>_ st. Some (Inr (), st \<lparr>rn_replay_buffer := []\<rparr>))
         else Some (Inr (), st))
     (\<lambda>_ st. and_then
        (if ao_resize options = UseRealTerminalSize then
           and_then (resize_attached_target h (bs_embedded_size (rn_session st)) True st)
             (\<lambda>_ st. Some (Inr (), st \<lparr>rn_restored_embedded_size := True\<rparr>))
         else Some (Inr (), st))
     (\<lambda>_ st. and_then (session_guard_detach h st)
     (\<lambda>_ st. and_then (bridge_step confirm_detached st)
     (\<lambda>_ st.
        let st = end_event h reason started_at st
        in Some (Inr \<lparr>aoc_reason = reason, aoc_child_exit_code = rn_child_exit_code st,
                      aoc_terminal_size = rn_terminal_size st,
                      aoc_restored_size = bs_embedded_size (rn_session st),
                      aoc_remaining_input = remaining_input\<rparr>, st)))))))"

text \<open>An error on the way back is only reported in the telemetry.\<close>

definition session_report ::
    "('t, 'p, 'f, 'c, 'k) session_host \<Rightarrow> ('t, 'p, 'f, 'c, 'k, unit) relay \<Rightarrow> ('t, 'p, 'f, 'c, 'k) running option" where
  "session_report h r =
     (case r of
        None \<Rightarrow> None
      | Some (Inl (Stop_Error e), st) \<Rightarrow> Some (session_error_event h e st)
      | Some (_, st) \<Rightarrow> Some st)"

definition session_abort ::
    "('t, 'p, 'f, 'c, 'k) session_host \<Rightarrow> attach_options \<Rightarrow> nat \<Rightarrow> ('t, 'p, 'f, 'c, 'k) running \<Rightarrow>
     ('t, 'p, 'f, 'c, 'k) running option" where
  "session_abort h options started_at st = do {
     let reason = (case rn_detach_reason st of Some reason \<Rightarrow> reason | None \<Rightarrow> Detach_Error);
     let st = (case begin_detach (bs_bridge (rn_session st)) of
                 Some b \<Rightarrow> st \<lparr>rn_session := (rn_session st) \<lparr>bs_bridge := b\<rparr>\<rparr> | None \<Rightarrow> st);
     st \<leftarrow>
       (if is_active (ab_state (bs_bridge (rn_session st))) \<and> ao_resize options = UseRealTerminalSize
           \<and> \<not> rn_restored_embedded_size st
        then session_report h (resize_attached_target h (bs_embedded_size (rn_session st)) True st)
        else Some st);
     st \<leftarrow>
       (if rn_token st \<noteq> None then do {
          st \<leftarrow> session_report h (session_guard_detach h st);
          if rn_token st \<noteq> None then do {
            st \<leftarrow> session_report h (session_guard_detach h st);
            Some (if rn_token st \<noteq> None then session_guard_disarm st else st)
          } else Some st
        } else Some st);
     Some (reset_bridge options (end_event h reason started_at st))
   }"


section \<open>The loop\<close>

text \<open>The size check at the top of a round.\<close>

definition session_follow_size ::
    "('t, 'p, 'f, 'c, 'k) session_host \<Rightarrow> attach_options \<Rightarrow> ('t, 'p, 'f, 'c, 'k) running \<Rightarrow> ('t, 'p, 'f, 'c, 'k, unit) relay" where
  "session_follow_size h options st =
     and_then (session_size h st)
     (\<lambda>current_size st.
        if current_size = rn_terminal_size st then Some (Inr (), st)
        else
          (let st = st \<lparr>rn_terminal_size := current_size\<rparr>
           in if ao_resize options = UseRealTerminalSize
              then resize_attached_target h (rn_terminal_size st) True st
              else Some (Inr (), st)))"

partial_function (option) session_loop ::
    "('t, 'p, 'f, 'c, 'k) session_host \<Rightarrow> attach_options \<Rightarrow> nat \<Rightarrow> ('t, 'p, 'f, 'c, 'k) running \<Rightarrow>
     ('t, 'p, 'f, 'c, 'k, attach_outcome) relay" where
  "session_loop h options started_at st =
     and_then (session_follow_size h options st)
     (\<lambda>_ st. and_then (poll_stdin h st)
     (\<lambda>polled st. case polled of
        SS_Detached remaining_input \<Rightarrow>
          session_finish_detach h options started_at Detach_UserChord remaining_input
            (st \<lparr>rn_detach_reason := Some Detach_UserChord\<rparr>)
      | _ \<Rightarrow>
          and_then (session_drain_output h (ao_output options) st)
            (\<lambda>_ st. session_loop h options started_at st)))"

definition run_attached ::
    "('t, 'p, 'f, 'c, 'k) session_host \<Rightarrow> attach_options \<Rightarrow> nat \<Rightarrow> ('t, 'p, 'f, 'c, 'k) running \<Rightarrow>
     ('t, 'p, 'f, 'c, 'k, attach_outcome) relay" where
  "run_attached h options started_at st =
     and_then
       (if ao_resize options = UseRealTerminalSize
        then resize_attached_target h (rn_terminal_size st) True st else Some (Inr (), st))
     (\<lambda>_ st. and_then (bridge_step confirm_attached st)
     (\<lambda>_ st. and_then (session_size h st)
     (\<lambda>_ st. session_loop h options started_at st)))"

text \<open>From the moment the host is suspended.\<close>

definition session_suspended ::
    "('t, 'p, 'f, 'c, 'k) session_host \<Rightarrow> attach_options \<Rightarrow> ('t, 'p, 'f, 'c, 'k) running \<Rightarrow>
     ('t, 'p, 'f, 'c, 'k, attach_outcome) relay" where
  "session_suspended h options st =
     (let (started_at, st) = session_now h st;
          st = session_event h
            (Ev_AttachStarted \<lparr>ase_terminal_size = rn_terminal_size st,
                               ase_embedded_size = bs_embedded_size (rn_session st),
                               ase_screen_policy = ao_screen options\<rparr>) st
      in do {
        (result, st) \<leftarrow> run_attached h options started_at st;
        st \<leftarrow> (case result of
                Inl (Stop_Error error) \<Rightarrow> session_abort h options started_at (session_error_event h error st)
              | _ \<Rightarrow> Some st);
        Some (result, session_guard_drop h st)
      })"

definition session_run ::
    "('t, 'p, 'f, 'c, 'k) session_host \<Rightarrow> blocking_session \<Rightarrow> 't \<Rightarrow> 'p \<Rightarrow> 'f \<Rightarrow> 'c \<Rightarrow> nat \<Rightarrow>
     ('t, 'p, 'f, 'c, 'k, attach_outcome) relay" where
  "session_run h s t p f c ticks =
     (let options = ab_options (bs_bridge s);
          st = \<lparr>rn_session = s, rn_terminal = t, rn_pty = p, rn_surface = f, rn_control = c, rn_ticks = ticks,
                rn_token = None, rn_matcher = detach_matcher_new (ao_detach options), rn_replay_buffer = [],
                rn_child_exit_code = None, rn_terminal_size = bs_embedded_size s, rn_detach_reason = None,
                rn_restored_embedded_size = False\<rparr>
      in case session_size h st of
           Some (Inl (Stop_Error error), st) \<Rightarrow> Some (Inl (Stop_Error error), session_error_event h error st)
         | r \<Rightarrow>
             and_then r
             (\<lambda>z st. and_then (bridge_step begin_attach (st \<lparr>rn_terminal_size := z\<rparr>))
             (\<lambda>_ st. case ct_suspend (sh_control h) (rn_control st) (ao_screen options) of
                (Inl e, c) \<Rightarrow>
                  Some (Inl (Stop_Error (BE_Suspend e)),
                    reset_bridge options (session_error_event h (BE_Suspend e) (st \<lparr>rn_control := c\<rparr>)))
              | (Inr token, c) \<Rightarrow>
                  session_suspended h options (st \<lparr>rn_control := c, rn_token := Some token\<rparr>))))"

end
