(* ===== verification/Attach_Session_Example.thy ===== *)
theory Attach_Session_Example
  imports Attach_Session Manager_Attach_Example
begin

text \<open>
  A small host for a blocking attach session: a terminal that records what it shows and what was typed, a
  child that has one frame of output, and a user who types a letter, the chord and one more
  letter. Nothing here models code.
\<close>

text \<open>The terminal: the chunks still to be read, what it has shown, what was typed.\<close>

definition noting_terminal :: "((nat \<times> u8 list) list \<times> u8 list \<times> u8 list list) attach_terminal" where
  "noting_terminal =
     \<lparr>tl_read_stdin = (\<lambda>(cs, shown, typed). case cs of
        [] \<Rightarrow> (Inr None, [], shown, typed) | c # cs \<Rightarrow> (Inr (Some c), cs, shown, typed @ [snd c])),
      tl_write_stdout = (\<lambda>(cs, shown, typed) bytes. (Inr (), cs, shown @ bytes, typed)),
      tl_size = (\<lambda>t. (Inr (mk_size 24 80), t))\<rparr>"

text \<open>The child: its frames, what it has been read of, what it was sent.\<close>

definition noting_pty :: "(pty_frame list \<times> u8 list \<times> u8 list) attach_pty" where
  "noting_pty =
     \<lparr>ep_try_recv = (\<lambda>(fs, got, sent). case fs of
        [] \<Rightarrow> (Inr None, [], got, sent)
      | f # fs \<Rightarrow> (Inr (Some f), fs, got @ (case f of PF_Output _ bytes _ \<Rightarrow> bytes | _ \<Rightarrow> []), sent)),
      ep_write_input = (\<lambda>(fs, got, sent) bytes. (Inr (), fs, got, sent @ bytes)),
      ep_resize = (\<lambda>p _. (Inr (), p))\<rparr>"

definition noting_sink :: "u8 list attach_sink" where
  "noting_sink = \<lparr>sk_feed_output = (\<lambda>fed bytes. (Inr (), fed @ bytes)), sk_resize = (\<lambda>fed _. (Inr (), fed))\<rparr>"

definition noting_host ::
    "((nat \<times> u8 list) list \<times> u8 list \<times> u8 list list, pty_frame list \<times> u8 list \<times> u8 list, u8 list, bool, unit) session_host" where
  "noting_host =
     \<lparr>sh_terminal = noting_terminal, sh_pty = noting_pty, sh_surface = noting_sink, sh_control = demo_control,
      sh_instant = (\<lambda>n. 1000 * n), sh_system_time = (\<lambda>n. n)\<rparr>"

definition demo_session :: blocking_session where
  "demo_session = blocking_session_new 1 demo_options (mk_size 1 80) 7"

lemma demo_chord:
  "feed_bytes (detach_matcher_new (ao_detach demo_options)) [0x78, 0x64, 0x79] 0 =
     (\<lparr>fr_forward = [0x78], fr_detached = True, fr_remaining = [0x79]\<rparr>, detach_matcher_new (ao_detach demo_options))"
  by (auto simp: feed_bytes_def check_timeout_def detach_matcher_new_def next_input_def demo_options_def
      feed_byte_inner_def dm_push_def dm_reset_def ctrl_letter_detach_chord_def parse_ctrl_detach_encoding_def
      split: prod.splits)

lemmas noting_defs = noting_host_def noting_terminal_def noting_pty_def noting_sink_def demo_control_def

lemma noting_empty:
  "rn_pty st = ([], got, sent) \<Longrightarrow> session_drain n noting_host out saw st = Some (Inr saw, st)"
  by (cases n) (simp_all add: session_recv_def noting_defs)

lemma noting_drain:
  assumes "rn_pty st = ([PF_Output 0 bytes 0], got, sent)" "rn_terminal st = (cs, shown, typed)"
  shows "session_drain_output noting_host FanoutToSurfaceAndStdout st =
    Some (Inr True, st \<lparr>rn_pty := ([], got @ bytes, sent), rn_terminal := (cs, shown @ bytes, typed),
      rn_surface := rn_surface st @ bytes\<rparr>)"
  using assms by (simp add: session_drain_output_def session_frames_per_tick_def numeral_eq_Suc session_recv_def
      handle_session_frame_def session_stdout_def session_feed_def noting_empty noting_defs)

lemma noting_detaching:
  assumes "rn_pty st = ([PF_Output 0 bytes 0], got, sent)" "rn_terminal st = (cs, shown, typed)"
  shows "session_drain_detaching noting_host FanoutToSurfaceAndStdout st =
    Some (Inr (), st \<lparr>rn_pty := ([], got @ bytes, sent), rn_terminal := (cs, shown @ bytes, typed),
      rn_surface := rn_surface st @ bytes, rn_ticks := rn_ticks st + 3\<rparr>)"
proof -
  have i: "sh_instant noting_host n = 1000 * n" for n by (simp add: noting_host_def)
  show ?thesis unfolding session_drain_detaching_def session_now_def prod.case
    using assms by (subst session_detaching_loop.simps)
      (simp add: noting_drain i session_now_def session_detach_drain_quiet_def)
qed

lemma noting_host_simps:
  "ct_suspend (sh_control noting_host) c p = (Inr (), False)" "ct_restore (sh_control noting_host) c k = (Inr (), True, ())"
  "tl_size (sh_terminal noting_host) t = (Inr (mk_size 24 80), t)"
  "ep_write_input (sh_pty noting_host) (fs, got, sent) bytes = (Inr (), fs, got, sent @ bytes)"
  "tl_read_stdin (sh_terminal noting_host) (x # cs, shown, typed) = (Inr (Some x), cs, shown, typed @ [snd x])"
  "sh_instant noting_host n = 1000 * n" "sh_system_time noting_host n = n"
  by (simp_all add: noting_defs)

lemma demo_options_simps:
  "ao_resize demo_options = KeepEmbeddedSize" "ao_output demo_options = FanoutToSurfaceAndStdout"
  by (simp_all add: demo_options_def)

definition demo_bridge :: attach_bridge where
  "demo_bridge = \<lparr>ab_pane_id = 1, ab_options = demo_options, ab_state = AS_Attached\<rparr>"

definition demo_attached_at :: "blocking_session \<Rightarrow> nat \<Rightarrow> ((nat \<times> u8 list) list \<times> u8 list \<times> u8 list list,
    pty_frame list \<times> u8 list \<times> u8 list, u8 list, bool, unit) running" where
  "demo_attached_at s n = \<lparr>rn_session = s, rn_terminal = ([(0, [0x78, 0x64, 0x79])], [], []),
     rn_pty = ([PF_Output 0 [0x6f, 0x6b] 0], [], []), rn_surface = [], rn_control = False, rn_ticks = n, rn_token = Some (),
     rn_matcher = detach_matcher_new (ao_detach demo_options), rn_replay_buffer = [], rn_child_exit_code = None,
     rn_terminal_size = mk_size 24 80, rn_detach_reason = None, rn_restored_embedded_size = False\<rparr>"

lemma demo_loop:
  assumes "bs_bridge s = demo_bridge"
  shows "\<exists>outcome st. session_loop noting_host demo_options t0 (demo_attached_at s n) = Some (Inr outcome, st)
     \<and> aoc_remaining_input outcome = [0x79] \<and> rn_terminal st = ([], [0x6f, 0x6b], [[0x78, 0x64, 0x79]])
     \<and> rn_pty st = ([], [0x6f, 0x6b], [0x78]) \<and> rn_surface st = [0x6f, 0x6b] \<and> rn_control st \<and> rn_token st = None"
  using assms by (subst session_loop.simps)
    (simp add: demo_attached_at_def demo_bridge_def noting_host_simps demo_options_simps session_size_def session_follow_size_def
      poll_stdin_def demo_chord session_write_def Let_def session_event_def session_finish_detach_def bridge_step_def
      begin_detach_def noting_detaching session_guard_detach_def confirm_detached_def end_event_def session_now_def)

lemma demo_session_runs:
  "\<exists>outcome st. session_run noting_host demo_session ([(0, [0x78, 0x64, 0x79])], [], []) ([PF_Output 0 [0x6f, 0x6b] 0], [], []) [] True 0
      = Some (Inr outcome, st)
     \<and> aoc_remaining_input outcome = [0x79] \<and> rn_terminal st = ([], [0x6f, 0x6b], [[0x78, 0x64, 0x79]])
     \<and> rn_pty st = ([], [0x6f, 0x6b], [0x78]) \<and> rn_surface st = [0x6f, 0x6b] \<and> rn_control st"
proof -
  let ?s = "\<lparr>bs_bridge = demo_bridge, bs_embedded_size = mk_size 1 80, bs_poll_interval = default_poll_interval,
    bs_next_event_seq = 8, bs_events = [\<lparr>ev_pane_id = 1, ev_seq = 8, ev_at = 1, ev_kind = Ev_AttachStarted
      \<lparr>ase_terminal_size = mk_size 24 80, ase_embedded_size = mk_size 1 80, ase_screen_policy = ao_screen demo_options\<rparr>\<rparr>]\<rparr>"
  have "session_run noting_host demo_session ([(0, [0x78, 0x64, 0x79])], [], []) ([PF_Output 0 [0x6f, 0x6b] 0], [], []) [] True 0
      = do {
        (result, st) \<leftarrow> session_loop noting_host demo_options 0 (demo_attached_at ?s 2);
        st \<leftarrow> (case result of
                Inl (Stop_Error error) \<Rightarrow> session_abort noting_host demo_options 0 (session_error_event noting_host error st)
              | _ \<Rightarrow> Some st);
        Some (result, session_guard_drop noting_host st)
      }"
    by (simp add: demo_attached_at_def demo_bridge_def session_run_def demo_session_def blocking_session_new_def bridge_with_options_def
        session_size_def noting_host_simps demo_options_simps bridge_step_def begin_attach_def session_suspended_def Let_def
        session_now_def session_event_def run_attached_def confirm_attached_def numeral_2_eq_2 cong: sum.case_cong attach_stop.case_cong)
  moreover have "bs_bridge ?s = demo_bridge" by simp
  ultimately show ?thesis using demo_loop [of ?s 0 2] by (auto simp: session_guard_drop_def)
qed

end
