(* ===== verification/Attach_Session_Laws.thy ===== *)
theory Attach_Session_Laws
  imports Attach_Session_Example Manager_Attach_Laws
begin

text \<open>
  What holds of a blocking attach session: its assertions never fail and everything is given back. The locales carry a relation between
  the states of a session through its parts, given that every single step respects it.
\<close>

section \<open>Relations through a session\<close>

locale session_quiet = sequenced R
  for R :: "bool \<Rightarrow> ('t, 'p, 'f, 'c, 'k) running \<Rightarrow> ('t, 'p, 'f, 'c, 'k) running \<Rightarrow> bool" +
  fixes h :: "('t, 'p, 'f, 'c, 'k) session_host" and opts :: attach_options
  assumes vars: "R True st (st \<lparr>rn_terminal_size := z\<rparr>)"
    and clock: "R True st (snd (session_now h st))"
    and term_size: "leads R st (session_size h st)"
    and resize: "leads R st (resize_attached_target h z True st)"
    and no_frame: "session_recv h st = Some (r, st1) \<Longrightarrow> (\<forall>f. r \<noteq> Inr (Some f)) \<Longrightarrow> R (\<not> isl r) st st1"
    and frame: "session_recv h st = Some (Inr (Some f), st1) \<Longrightarrow>
        leads R st (handle_session_frame h (ao_output opts) f st1)"
begin

lemma follow_size: "leads R st (session_follow_size h opts st)"
  unfolding session_follow_size_def Let_def
  by (rule leads_then [OF term_size]) (auto intro: leads_from [OF vars] leads_value vars resize)

lemma drain: "leads R st (session_drain n h (ao_output opts) saw st)"
proof (induction n arbitrary: saw st)
  case (Suc n)
  obtain r st1 where r: "session_recv h st = Some (r, st1)"
    by (cases "ep_try_recv (sh_pty h) (rn_pty st)"; cases "fst (ep_try_recv (sh_pty h) (rn_pty st))")
      (auto simp: session_recv_def)
  show ?case
  proof (cases "\<exists>f. r = Inr (Some f)")
    case True
    then obtain f where f: "r = Inr (Some f)" by blast
    have "leads R st (and_then (handle_session_frame h (ao_output opts) f st1)
        (\<lambda>_ st. session_drain n h (ao_output opts) True st))"
      by (rule leads_then [OF frame [OF r [unfolded f]] Suc.IH])
    then show ?thesis using r f by simp
  next
    case False
    then have "R (\<not> isl r) st st1" using no_frame [OF r] by blast
    then show ?thesis using r False
      by (cases r) (auto simp: leads_def split: option.splits)
  qed
qed simp

lemma drain_output: "leads R st (session_drain_output h (ao_output opts) st)"
  unfolding session_drain_output_def by (rule drain)

lemma tick: "session_now h st = (t, st1) \<Longrightarrow> R True st st1"
  using clock [of st] by simp

lemma detaching:
  assumes d: "session_detaching_loop h (ao_output opts) started last_activity st = Some r"
  shows "R (\<not> isl (fst r)) st (snd r)"
proof -
  have "(h, ao_output opts) = (h, ao_output opts) \<longrightarrow> R (\<not> isl (fst r)) st (snd r)"
  proof (rule session_detaching_loop.raw_induct
      [of "\<lambda>h' out started last st r. (h', out) = (h, ao_output opts) \<longrightarrow> R (\<not> isl (fst r)) st (snd r)", OF _ d],
      goal_cases)
    case 1: (1 loop h' out started last st r)
    let ?next = "\<lambda>saw_output st.
          let (last_activity, st) = (if saw_output then session_now h st else (last, st));
              (instant, st) = session_now h st
          in if session_detach_drain_quiet \<le> instant - last_activity
                \<or> session_detach_drain_max_wait \<le> instant - started
             then Some (Inr (), st)
             else loop h (ao_output opts) started last_activity st"
    have "leads R st (and_then (session_drain_output h (ao_output opts) st) ?next)" if eq: "(h', out) = (h, ao_output opts)"
    proof (rule leads_then [OF drain_output])
      fix saw st1
      obtain l st2 where l: "(if saw then session_now h st1 else (last, st1)) = (l, st2)" by fastforce
      obtain t st3 where t: "session_now h st2 = (t, st3)" by fastforce
      have "R True st1 st2" using l tick [of st1] keep by (cases saw) auto
      moreover have "R True st2 st3" using tick [OF t] .
      ultimately have "R True st1 st3" by (rule join)
      moreover have "leads R st3 (loop h (ao_output opts) started l st3)"
        using 1(1) by (fastforce simp: leads_def)
      ultimately show "leads R st1 (?next saw st1)"
        unfolding l t Let_def prod.case by (auto intro: leads_value leads_from)
    qed
    then show ?case using 1(2) by (cases r) (auto simp: leads_def)
  qed
  then show ?thesis by simp
qed

lemma detaching_output: "leads R st (session_drain_detaching h (ao_output opts) st)"
proof -
  obtain t st1 where t: "session_now h st = (t, st1)" by fastforce
  have "leads R st1 (session_detaching_loop h (ao_output opts) t t st1)"
    using detaching by (fastforce intro: leadsI)
  then show ?thesis using t leads_from [OF tick [OF t]] by (simp add: session_drain_detaching_def)
qed

end

locale session_finish = session_quiet +
  assumes replay: "leads R st (and_then (session_feed h (rn_replay_buffer st) st)
        (\<lambda>_ st. Some (Inr (), st \<lparr>rn_replay_buffer := []\<rparr>)))"
    and flags: "R True st (st \<lparr>rn_restored_embedded_size := b, rn_detach_reason := reason\<rparr>)"
    and restore: "leads R st (session_guard_detach h st)"
    and bridge: "f = begin_detach \<or> f = confirm_attached \<or> f = confirm_detached \<Longrightarrow> leads R st (bridge_step f st)"
    and ended: "R True st (end_event h reason1 t0 st)"
begin

lemmas bridges =
  bridge [OF disjI1, OF refl] bridge [OF disjI2, OF disjI1, OF refl] bridge [OF disjI2, OF disjI2, OF refl]

lemma restored: "R True st (st \<lparr>rn_restored_embedded_size := b\<rparr>)"
  using flags [where st = st and b = b and reason = "rn_detach_reason st"] by simp

lemma reasoned: "R True st (st \<lparr>rn_detach_reason := reason\<rparr>)"
  using flags [where st = st and b = "rn_restored_embedded_size st" and reason = reason] by simp

lemma replayed: "leads R st
    (if ao_output opts = StdoutOnlyThenReplay \<and> rn_replay_buffer st \<noteq> [] then
       and_then (session_feed h (rn_replay_buffer st) st) (\<lambda>_ st. Some (Inr (), st \<lparr>rn_replay_buffer := []\<rparr>))
     else Some (Inr (), st))"
  using replay by simp

lemma sized: "leads R st
    (if ao_resize opts = UseRealTerminalSize then
       and_then (resize_attached_target h z True st)
         (\<lambda>_ st. Some (Inr (), st \<lparr>rn_restored_embedded_size := True\<rparr>))
     else Some (Inr (), st))"
  by (auto intro!: leads_then resize leads_value restored)

lemma finish: "leads R st (session_finish_detach h opts t0 reason1 rest st)"
  unfolding session_finish_detach_def Let_def
  by (intro leads_then bridges detaching_output replayed sized restore leads_value ended)

end

locale session_steps = session_finish +
  assumes stdin: "leads R st (poll_stdin h st)"
begin

lemma loop:
  assumes d: "session_loop h opts t0 st = Some r"
  shows "R (\<not> isl (fst r)) st (snd r)"
proof -
  have "(h, opts) = (h, opts) \<longrightarrow> R (\<not> isl (fst r)) st (snd r)"
  proof (rule session_loop.raw_induct
      [of "\<lambda>h' opts' t0 st r. (h', opts') = (h, opts) \<longrightarrow> R (\<not> isl (fst r)) st (snd r)", OF _ d], goal_cases)
    case 1: (1 loop h' opts' t0 st r)
    have rest: "leads R st1 (case polled of
        SS_Detached rest \<Rightarrow> session_finish_detach h opts t0 Detach_UserChord rest (st1 \<lparr>rn_detach_reason := Some Detach_UserChord\<rparr>)
      | _ \<Rightarrow> and_then (session_drain_output h (ao_output opts) st1) (\<lambda>_ st. loop h opts t0 st))" for polled st1
    proof -
      have "leads R st2 (loop h opts t0 st2)" for st2 using 1(1) by (fastforce simp: leads_def)
      then have "leads R st1 (and_then (session_drain_output h (ao_output opts) st1) (\<lambda>_ st. loop h opts t0 st))"
        by (intro leads_then drain_output)
      then show ?thesis using leads_from [OF reasoned finish] by (cases polled) simp_all
    qed
    have "leads R st (and_then (session_follow_size h opts st) (\<lambda>_ st. and_then (poll_stdin h st) (\<lambda>polled st. case polled of
        SS_Detached rest \<Rightarrow> session_finish_detach h opts t0 Detach_UserChord rest (st \<lparr>rn_detach_reason := Some Detach_UserChord\<rparr>)
      | _ \<Rightarrow> and_then (session_drain_output h (ao_output opts) st) (\<lambda>_ st. loop h opts t0 st))))"
      by (intro leads_then follow_size stdin rest)
    then show ?case using 1(2) by (cases r) (auto simp: leads_def)
  qed
  then show ?thesis by simp
qed

lemma run: "leads R st (run_attached h opts t0 st)"
proof -
  have "leads R st (session_loop h opts t0 st)" for st using loop by (fastforce intro: leadsI)
  then show ?thesis unfolding run_attached_def
    by (intro leads_then bridges term_size) (use resize in simp)
qed

end


section \<open>Single steps\<close>

lemma session_event_simps [simp]:
  "rn_terminal (session_event h k st) = rn_terminal st" "rn_pty (session_event h k st) = rn_pty st"
  "rn_surface (session_event h k st) = rn_surface st" "rn_control (session_event h k st) = rn_control st"
  "rn_token (session_event h k st) = rn_token st" "rn_matcher (session_event h k st) = rn_matcher st"
  "rn_replay_buffer (session_event h k st) = rn_replay_buffer st"
  "rn_detach_reason (session_event h k st) = rn_detach_reason st"
  "bs_bridge (rn_session (session_event h k st)) = bs_bridge (rn_session st)"
  "bs_embedded_size (rn_session (session_event h k st)) = bs_embedded_size (rn_session st)"
  by (simp_all add: session_event_def Let_def)

lemma session_now_snd [simp]: "snd (session_now h st) = st \<lparr>rn_ticks := rn_ticks st + 1\<rparr>"
  by (simp add: session_now_def)

lemma end_event_eq:
  "end_event h reason t0 st = session_event h (attach_ended reason (bs_embedded_size (rn_session st))
     (sh_instant h (rn_ticks st) - t0)) (st \<lparr>rn_ticks := rn_ticks st + 1\<rparr>)"
  by (simp add: end_event_def session_now_def)

text \<open>A step either leaves the session record as it is or adds an event to it.\<close>

definition tells :: "('t, 'p, 'f, 'c, 'k) running \<Rightarrow> ('t, 'p, 'f, 'c, 'k) running \<Rightarrow> bool" where
  "tells st st' =
     (let s = rn_session st
      in rn_session st' = s
         \<or> (\<exists>k t. rn_session st' = s \<lparr>bs_next_event_seq := bs_next_event_seq s + 1,
              bs_events := bs_events s @ [\<lparr>ev_pane_id = ab_pane_id (bs_bridge s),
                ev_seq = bs_next_event_seq s + 1, ev_at = t, ev_kind = k\<rparr>]\<rparr>))"

lemma tells_same: "rn_session st' = rn_session st \<Longrightarrow> tells st st'"
  by (simp add: tells_def)

lemma tells_event: "rn_session st0 = rn_session st \<Longrightarrow> tells st (session_event h k st0)"
  unfolding tells_def Let_def session_event_def
  by (intro disjI2 exI [of _ k] exI [of _ "sh_system_time h (rn_ticks st0)"]) simp

lemmas endpoint_defs = session_size_def session_stdout_def session_feed_def session_write_def
  resize_attached_target_def session_guard_detach_def session_recv_def

lemma endpoint_tells:
  "session_size h st = Some (r1, st') \<Longrightarrow> tells st st'"
  "session_stdout h bytes st = Some (r2, st') \<Longrightarrow> tells st st'"
  "session_feed h bytes st = Some (r2, st') \<Longrightarrow> tells st st'"
  "session_write h bytes st = Some (r2, st') \<Longrightarrow> tells st st'"
  "resize_attached_target h z True st = Some (r2, st') \<Longrightarrow> tells st st'"
  "session_guard_detach h st = Some (r2, st') \<Longrightarrow> tells st st'"
  "session_recv h st = Some (r3, st') \<Longrightarrow> tells st st'"
  by (auto simp: endpoint_defs Let_def split: prod.splits sum.splits option.splits
      intro: tells_same tells_event)

lemma frame_session:
  assumes "session_recv h st = Some (Inr (Some f), st1)" "handle_session_frame h out f st1 = Some (x, st')"
  shows "rn_session st' = rn_session st"
  using assms by (auto simp: handle_session_frame_def session_stdout_def session_feed_def session_recv_def
      split: pty_frame.splits attach_output_policy.splits prod.splits sum.splits if_splits elim!: and_then_SomeE)

lemma stdin_tells: "poll_stdin h st = Some (x, st') \<Longrightarrow> tells st st'"
  by (auto simp: poll_stdin_def session_write_def session_now_def Let_def split: prod.splits sum.splits option.splits if_splits
      elim!: and_then_SomeE intro: tells_same tells_event)

lemma replay_session:
  "and_then (session_feed h b st) (\<lambda>_ st. Some (Inr (), st \<lparr>rn_replay_buffer := []\<rparr>)) = Some (x, st') \<Longrightarrow>
     rn_session st' = rn_session st"
  by (auto simp: session_feed_def split: prod.splits sum.splits elim!: and_then_SomeE)


section \<open>The bridge\<close>

definition steady :: "('t, 'p, 'f, 'c, 'k) running \<Rightarrow> ('t, 'p, 'f, 'c, 'k) running \<Rightarrow> bool" where
  "steady st st' = (bs_bridge (rn_session st') = bs_bridge (rn_session st)
     \<and> bs_embedded_size (rn_session st') = bs_embedded_size (rn_session st))"

lemma tells_steady: "tells st st' \<Longrightarrow> steady st st'"
  by (auto simp: tells_def steady_def Let_def)

interpretation keeping: session_quiet "\<lambda>_. steady" h opts for h opts
proof (unfold_locales, goal_cases)
  case (8 st f st1)
  then show ?case using frame_session [OF 8] by (auto intro!: leadsI simp: steady_def)
qed (auto intro!: leadsI simp: steady_def dest!: endpoint_tells tells_steady)


section \<open>The telemetry\<close>

text \<open>Events in the order of their numbers, the first one after \<open>n\<close>.\<close>

definition numbered :: "pane_id \<Rightarrow> nat \<Rightarrow> pane_event list \<Rightarrow> bool" where
  "numbered i n es = (map ev_seq es = [n + 1..<n + 1 + length es] \<and> list_all (\<lambda>e. ev_pane_id e = i) es)"

lemma numbered_Nil [simp]: "numbered i n []"
  by (simp add: numbered_def)

lemma numbered_one [simp]: "numbered i n [e] = (ev_seq e = n + 1 \<and> ev_pane_id e = i)"
  by (simp add: numbered_def upt_rec)

lemma numbered_append: "numbered i n es1 \<Longrightarrow> numbered i (n + length es1) es2 \<Longrightarrow> numbered i n (es1 @ es2)"
  using upt_add_eq_append [of "n + 1" "n + 1 + length es1" "length es2"]
  by (simp add: numbered_def add.assoc add.left_commute [of n] del: upt_Suc)

definition told :: "('t, 'p, 'f, 'c, 'k) running \<Rightarrow> ('t, 'p, 'f, 'c, 'k) running \<Rightarrow> bool" where
  "told st st' =
     (ab_pane_id (bs_bridge (rn_session st')) = ab_pane_id (bs_bridge (rn_session st))
      \<and> bs_embedded_size (rn_session st') = bs_embedded_size (rn_session st)
      \<and> (\<exists>es. bs_events (rn_session st') = bs_events (rn_session st) @ es
           \<and> bs_next_event_seq (rn_session st') = bs_next_event_seq (rn_session st) + length es
           \<and> numbered (ab_pane_id (bs_bridge (rn_session st))) (bs_next_event_seq (rn_session st)) es))"

lemma told_same: "rn_session st' = rn_session st \<Longrightarrow> told st st'"
  by (simp add: told_def)

lemma told_trans: "told st st1 \<Longrightarrow> told st1 st2 \<Longrightarrow> told st st2"
  unfolding told_def by (elim conjE exE) (auto intro: numbered_append)

lemma tells_told: "tells st st' \<Longrightarrow> told st st'"
  by (auto simp: tells_def told_def Let_def)

lemma bridge_told:
  "f = begin_detach \<or> f = confirm_attached \<or> f = confirm_detached \<Longrightarrow> bridge_step f st = Some (x, st') \<Longrightarrow> told st st'"
  by (auto simp: bridge_step_def told_def begin_detach_def confirm_attached_def confirm_detached_def
      split: option.splits if_splits)

interpretation telling: session_steps "\<lambda>_. told" h opts for h opts
proof (unfold_locales, goal_cases)
  case (2 st st1 ok st2)
  then show ?case by (rule told_trans)
next
  case (8 st f st1)
  then show ?case using frame_session by (auto intro!: leadsI told_same)
next
  case (9 st)
  show ?case by (rule leadsI, rule told_same, erule replay_session)
next
  case (12 f st)
  then show ?case using bridge_told by (blast intro: leadsI)
next
  case (13 st reason1 t0)
  show ?case unfolding end_event_eq by (rule tells_told, rule tells_event) simp
qed (auto intro!: leadsI simp: told_same dest!: endpoint_tells stdin_tells tells_told)


section \<open>The guard\<close>

definition given_back :: "('c \<Rightarrow> bool) \<Rightarrow> ('t, 'p, 'f, 'c, 'k) running \<Rightarrow> bool" where
  "given_back own st = (rn_token st = None \<longrightarrow> own (rn_control st))"

definition same_control :: "('t, 'p, 'f, 'c, 'k) running \<Rightarrow> ('t, 'p, 'f, 'c, 'k) running \<Rightarrow> bool" where
  "same_control st st' = (rn_control st' = rn_control st \<and> rn_token st' = rn_token st)"

lemma endpoint_control:
  "session_size h st = Some (r1, st') \<Longrightarrow> same_control st st'"
  "session_stdout h bytes st = Some (r2, st') \<Longrightarrow> same_control st st'"
  "session_feed h bytes st = Some (r2, st') \<Longrightarrow> same_control st st'"
  "session_write h bytes st = Some (r2, st') \<Longrightarrow> same_control st st'"
  "resize_attached_target h z True st = Some (r2, st') \<Longrightarrow> same_control st st'"
  "session_recv h st = Some (r3, st') \<Longrightarrow> same_control st st'"
  "bridge_step f st = Some (r2, st') \<Longrightarrow> same_control st st'"
  by (auto simp: endpoint_defs bridge_step_def Let_def same_control_def split: prod.splits sum.splits option.splits)

lemma frame_control: "handle_session_frame h out f st = Some (x, st') \<Longrightarrow> same_control st st'"
  by (auto simp: handle_session_frame_def session_stdout_def session_feed_def same_control_def
      split: pty_frame.splits attach_output_policy.splits prod.splits sum.splits if_splits elim!: and_then_SomeE)

lemma stdin_control: "poll_stdin h st = Some (x, st') \<Longrightarrow> same_control st st'"
  by (auto simp: poll_stdin_def session_write_def session_now_def Let_def same_control_def
      split: prod.splits sum.splits option.splits if_splits elim!: and_then_SomeE)

lemma replay_control:
  "and_then (session_feed h b st) (\<lambda>_ st. Some (Inr (), st \<lparr>rn_replay_buffer := []\<rparr>)) = Some (x, st') \<Longrightarrow> same_control st st'"
  by (auto simp: session_feed_def same_control_def split: prod.splits sum.splits elim!: and_then_SomeE)

lemma same_control_given: "same_control st st' \<Longrightarrow> given_back own st' = given_back own st"
  by (simp add: same_control_def given_back_def)

lemma restore_given:
  "honest_control (sh_control h) own \<Longrightarrow> given_back own st \<Longrightarrow> session_guard_detach h st = Some (x, st') \<Longrightarrow> given_back own st'"
  by (auto simp: session_guard_detach_def given_back_def split: option.splits prod.splits sum.splits dest: honest_restore)

interpretation guarded: session_steps
  "\<lambda>_ st st'. honest_control (sh_control h) own \<longrightarrow> given_back own st \<longrightarrow> given_back own st'" h opts
  for h own opts
proof (unfold_locales, goal_cases)
  case (8 st f st1)
  then show ?case by (auto intro!: leadsI dest!: endpoint_control frame_control same_control_given)
next
  case (9 st)
  show ?case using same_control_given by (auto intro!: leadsI dest: replay_control)
next
  case (11 st)
  show ?case by (auto intro: leadsI restore_given)
qed (auto intro!: leadsI simp: given_back_def end_event_eq dest!: endpoint_control stdin_control same_control_given)


section \<open>How a session ends\<close>

fun is_start :: "event_kind \<Rightarrow> bool" where
  "is_start (Ev_AttachStarted _) = True"
| "is_start _ = False"

fun is_end :: "event_kind \<Rightarrow> bool" where
  "is_end (Ev_AttachEnded _) = True"
| "is_end _ = False"

definition ended_with :: "attach_bridge \<Rightarrow> ('t, 'p, 'f, 'c, 'k) running \<Rightarrow> bool" where
  "ended_with b st = (bs_bridge (rn_session st) = b \<lparr>ab_state := AS_Embedded\<rparr> \<and> rn_token st = None
     \<and> bs_events (rn_session st) \<noteq> [] \<and> is_end (ev_kind (last (bs_events (rn_session st)))))"

lemma end_event_ends:
  "bs_events (rn_session (end_event h reason t0 st)) \<noteq> [] \<and> is_end (ev_kind (last (bs_events (rn_session (end_event h reason t0 st)))))"
  by (simp add: end_event_eq session_event_def attach_ended_def Let_def)

text \<open>What every outcome of a computation satisfies, a failed assertion being none of them.\<close>

definition ends :: "('a \<Rightarrow> ('t, 'p, 'f, 'c, 'k) running \<Rightarrow> bool) \<Rightarrow> ('t, 'p, 'f, 'c, 'k, 'a) relay \<Rightarrow> bool" where
  "ends Q r = (\<forall>x st. r = Some (x, st) \<longrightarrow> x \<noteq> Inl Stop_Panic \<and> (\<forall>v. x = Inr v \<longrightarrow> Q v st))"

lemma ends_then: "ends (\<lambda>_ _. True) r \<Longrightarrow> (\<And>v st1. r = Some (Inr v, st1) \<Longrightarrow> ends Q (f v st1)) \<Longrightarrow> ends Q (and_then r f)"
  unfolding ends_def by (auto elim!: and_then_SomeE)

lemma endpoint_ends:
  "ends (\<lambda>_ _. True) (session_size h st)" "ends (\<lambda>_ _. True) (session_stdout h bytes st)"
  "ends (\<lambda>_ _. True) (session_feed h bytes st)" "ends (\<lambda>_ _. True) (session_write h bytes st)"
  "ends (\<lambda>_ _. True) (resize_attached_target h z True st)" "ends (\<lambda>_ _. True) (session_recv h st)"
  "ends (\<lambda>_ st. rn_token st = None) (session_guard_detach h st)"
  by (auto simp: endpoint_defs Let_def ends_def split: prod.splits sum.splits option.splits)

lemma frame_ends: "ends (\<lambda>_ _. True) (handle_session_frame h out f st)"
  by (auto simp: handle_session_frame_def ends_def session_stdout_def session_feed_def
      split: pty_frame.splits attach_output_policy.splits prod.splits sum.splits if_splits elim!: and_then_SomeE)

lemma stdin_ends: "ends (\<lambda>_ _. True) (poll_stdin h st)"
  by (auto simp: poll_stdin_def session_write_def session_now_def Let_def ends_def
      split: prod.splits sum.splits option.splits if_splits elim!: and_then_SomeE)

lemma value_ends [simp]: "ends (\<lambda>_ _. True) (Some (Inr v, st))"
  by (simp add: ends_def)

lemma follow_ends: "ends (\<lambda>_ _. True) (session_follow_size h opts st)"
  unfolding session_follow_size_def Let_def by (rule ends_then [OF endpoint_ends(1)]) (simp add: endpoint_ends)

lemma drain_ends: "ends (\<lambda>_ _. True) (session_drain n h out saw st)"
proof (induction n arbitrary: saw st)
  case (Suc n)
  show ?case
    by (auto intro!: ends_then endpoint_ends frame_ends Suc split: option.split)
qed simp

lemma detaching_ends:
  assumes d: "session_detaching_loop h out started la st = Some r" shows "fst r \<noteq> Inl Stop_Panic"
proof (rule session_detaching_loop.raw_induct [of "\<lambda>h out started la st r. fst r \<noteq> Inl Stop_Panic", OF _ d], goal_cases)
  case 1: (1 loop h out started la st r)
  have l: "ends (\<lambda>_ _. True) (loop h out started la st)" for la st
    using 1(1) by (fastforce simp: ends_def)
  have "ends (\<lambda>_ _. True) (and_then (session_drain_output h out st) (\<lambda>saw_output st.
          let (last_activity, st) = (if saw_output then session_now h st else (la, st));
              (instant, st) = session_now h st
          in if session_detach_drain_quiet \<le> instant - last_activity
                \<or> session_detach_drain_max_wait \<le> instant - started
             then Some (Inr (), st)
             else loop h out started last_activity st))"
    by (rule ends_then) (auto simp: session_drain_output_def drain_ends l Let_def split: prod.split)
  then show ?case using 1(2) by (cases r) (auto simp: ends_def)
qed

lemma drain_detaching_ends: "ends (\<lambda>_ _. True) (session_drain_detaching h out st)"
  using detaching_ends by (fastforce simp: ends_def session_drain_detaching_def split: prod.splits)

lemma finish_ends:
  assumes "ab_state (bs_bridge (rn_session st)) = AS_Attached"
  shows "ends (\<lambda>_. ended_with (bs_bridge (rn_session st))) (session_finish_detach h opts t0 reason rest st)"
proof -
  let ?b = "(bs_bridge (rn_session st)) \<lparr>ab_state := AS_Detaching\<rparr>"
  have quiet: "bs_bridge (rn_session st5) = ?b \<and> rn_token st5 = None"
    if s: "bridge_step begin_detach st = Some (Inr v, st1)"
      "session_drain_detaching h (ao_output opts) st1 = Some (Inr v1, st2)"
      "(if ao_output opts = StdoutOnlyThenReplay \<and> rn_replay_buffer st2 \<noteq> [] then
          and_then (session_feed h (rn_replay_buffer st2) st2) (\<lambda>_ st. Some (Inr (), st \<lparr>rn_replay_buffer := []\<rparr>))
        else Some (Inr (), st2)) = Some (Inr v2, st3)"
      "(if ao_resize opts = UseRealTerminalSize then
          and_then (resize_attached_target h (bs_embedded_size (rn_session st3)) True st3)
            (\<lambda>_ st. Some (Inr (), st \<lparr>rn_restored_embedded_size := True\<rparr>))
        else Some (Inr (), st3)) = Some (Inr v3, st4)"
      "session_guard_detach h st4 = Some (Inr v4, st5)"
    for v st1 v1 st2 v2 st3 v3 st4 v4 st5
  proof -
    have "bs_bridge (rn_session st1) = ?b" using s(1) assms by (auto simp: bridge_step_def begin_detach_def)
    moreover have "steady st1 st2" using keeping.detaching_output [where h = h and opts = opts and st = st1] s(2) by (simp add: leads_def)
    moreover have "rn_session st3 = rn_session st2" using s(3) replay_session by (auto split: if_splits)
    moreover have "steady st3 st4" using s(4)
      by (auto simp: steady_def split: if_splits elim!: and_then_SomeE dest!: endpoint_tells tells_steady)
    moreover have "steady st4 st5" by (rule tells_steady [OF endpoint_tells(6) [OF s(5)]])
    moreover have "rn_token st5 = None" using endpoint_ends(7) [of h st4] s(5) by (simp add: ends_def)
    ultimately show ?thesis by (simp add: steady_def)
  qed
  show ?thesis unfolding session_finish_detach_def
  proof (intro ends_then, goal_cases)
    case 1
    show ?case using assms by (simp add: bridge_step_def begin_detach_def ends_def)
  next
    case (2 v st1)
    show ?case by (rule drain_detaching_ends)
  next
    case (3 v st1 v1 st2)
    show ?case by (auto intro!: ends_then endpoint_ends)
  next
    case (4 v st1 v1 st2 v2 st3)
    show ?case by (auto intro!: ends_then endpoint_ends)
  next
    case (5 v st1 v1 st2 v2 st3 v3 st4)
    show ?case using endpoint_ends(7) by (fastforce simp: ends_def)
  next
    case (6 v st1 v1 st2 v2 st3 v3 st4 v4 st5)
    from quiet [OF this] show ?case by (simp add: bridge_step_def confirm_detached_def ends_def)
  next
    case (7 v st1 v1 st2 v2 st3 v3 st4 v4 st5 v5 st6)
    from quiet [OF 7(1-5)] 7(6) show ?case
      by (auto simp: bridge_step_def confirm_detached_def ends_def ended_with_def end_event_ends end_event_eq Let_def
          split: if_splits) (simp_all add: session_event_def attach_ended_def Let_def)
  qed
qed

lemma loop_ends:
  assumes d: "session_loop h opts t0 st = Some r" and "ab_state (bs_bridge (rn_session st)) = AS_Attached"
  shows "fst r \<noteq> Inl Stop_Panic \<and> (\<forall>v. fst r = Inr v \<longrightarrow> ended_with (bs_bridge (rn_session st)) (snd r))"
proof -
  have "ab_state (bs_bridge (rn_session st)) = AS_Attached \<longrightarrow>
      fst r \<noteq> Inl Stop_Panic \<and> (\<forall>v. fst r = Inr v \<longrightarrow> ended_with (bs_bridge (rn_session st)) (snd r))"
  proof (rule session_loop.raw_induct [of "\<lambda>h opts t0 st r. ab_state (bs_bridge (rn_session st)) = AS_Attached \<longrightarrow>
      fst r \<noteq> Inl Stop_Panic \<and> (\<forall>v. fst r = Inr v \<longrightarrow> ended_with (bs_bridge (rn_session st)) (snd r))", OF _ d],
      goal_cases)
    case 1: (1 loop h opts t0 st r)
    let ?b = "bs_bridge (rn_session st)"
    have l: "ends (\<lambda>_. ended_with ?b) (loop h opts t0 st1)" if "bs_bridge (rn_session st1) = ?b" "ab_state ?b = AS_Attached" for st1
      using 1(1) that unfolding ends_def by fastforce
    have "ends (\<lambda>_. ended_with ?b) (and_then (session_follow_size h opts st) (\<lambda>_ st. and_then (poll_stdin h st) (\<lambda>polled st.
        case polled of
          SS_Detached rest \<Rightarrow> session_finish_detach h opts t0 Detach_UserChord rest (st \<lparr>rn_detach_reason := Some Detach_UserChord\<rparr>)
        | _ \<Rightarrow> and_then (session_drain_output h (ao_output opts) st) (\<lambda>_ st. loop h opts t0 st))))"
      if a: "ab_state ?b = AS_Attached"
    proof (intro ends_then [OF follow_ends] ends_then [OF stdin_ends], goal_cases)
      case (1 v st1 polled st2)
      have "steady st st1" using keeping.follow_size [where h = h and opts = opts and st = st] 1(1) by (simp add: leads_def)
      moreover have "steady st1 st2" by (rule tells_steady [OF stdin_tells [OF 1(2)]])
      ultimately have b: "bs_bridge (rn_session st2) = ?b" by (simp add: steady_def)
      have "ends (\<lambda>_. ended_with ?b) (and_then (session_drain_output h (ao_output opts) st2) (\<lambda>_ st. loop h opts t0 st))"
      proof (rule ends_then)
        show "ends (\<lambda>_ _. True) (session_drain_output h (ao_output opts) st2)"
          unfolding session_drain_output_def by (rule drain_ends)
        fix v st3 assume "session_drain_output h (ao_output opts) st2 = Some (Inr v, st3)"
        then have "steady st2 st3"
          using keeping.drain_output [where h = h and opts = opts and st = st2] by (simp add: leads_def)
        then show "ends (\<lambda>_. ended_with ?b) (loop h opts t0 st3)" using b a by (intro l) (simp_all add: steady_def)
      qed
      then show ?case
        using finish_ends [of "st2 \<lparr>rn_detach_reason := Some Detach_UserChord\<rparr>"] b a by (cases polled) simp_all
    qed
    then show ?case using 1(2) by (cases r) (auto simp: ends_def)
  qed
  then show ?thesis using assms(2) by blast
qed

lemma run_ends:
  assumes "ab_state (bs_bridge (rn_session st)) = AS_Attaching"
  shows "ends (\<lambda>_. ended_with (bs_bridge (rn_session st))) (run_attached h opts t0 st)"
  unfolding run_attached_def
proof (intro ends_then, goal_cases)
  case 1
  show ?case by (simp add: endpoint_ends)
next
  case (2 v st1)
  then have "bs_bridge (rn_session st1) = bs_bridge (rn_session st)"
    by (auto simp: steady_def split: if_splits dest!: endpoint_tells tells_steady)
  then show ?case using assms by (simp add: bridge_step_def confirm_attached_def ends_def)
next
  case (3 v st1 v1 st2)
  show ?case by (rule endpoint_ends)
next
  case (4 v st1 v1 st2 v2 st3)
  have "bs_bridge (rn_session st1) = bs_bridge (rn_session st)"
    using 4(1) by (auto simp: steady_def split: if_splits dest!: endpoint_tells tells_steady)
  moreover have "bs_bridge (rn_session st2) = (bs_bridge (rn_session st1)) \<lparr>ab_state := AS_Attached\<rparr>"
    using 4(2) by (auto simp: bridge_step_def confirm_attached_def split: option.splits if_splits)
  moreover have "steady st2 st3" by (rule tells_steady [OF endpoint_tells(1) [OF 4(3)]])
  ultimately have b: "bs_bridge (rn_session st3) = (bs_bridge (rn_session st)) \<lparr>ab_state := AS_Attached\<rparr>"
    by (simp add: steady_def)
  then show ?case using loop_ends [of h opts t0 st3] by (auto simp: ends_def ended_with_def)
qed

lemma report_cases:
  assumes "session_report h r = Some st'"
  obtains x st1 where "r = Some (x, st1)" "same_control st1 st'" "tells st1 st'" "steady st1 st'"
proof -
  obtain x st1 where r: "r = Some (x, st1)" using assms by (auto simp: session_report_def split: option.splits)
  have "st' = st1 \<or> (\<exists>e. st' = session_error_event h e st1)"
    using assms r by (auto simp: session_report_def split: sum.splits attach_stop.splits)
  then have "same_control st1 st'" "tells st1 st'"
    by (auto simp: same_control_def session_error_event_def intro: tells_same tells_event)
  then show thesis using that r tells_steady by blast
qed

lemma report_resize:
  assumes "(if P then session_report h (resize_attached_target h z True st) else Some st) = Some st'"
  shows "told st st' \<and> same_control st st'"
proof (cases P)
  case True
  then have "session_report h (resize_attached_target h z True st) = Some st'" using assms by simp
  then show ?thesis
  proof (cases rule: report_cases)
    case (1 x st1)
    from told_trans [OF tells_told [OF endpoint_tells(5) [OF 1(1)]] tells_told [OF 1(3)]]
    show ?thesis using endpoint_control(5) [OF 1(1)] 1(2) by (simp add: same_control_def)
  qed
qed (use assms in \<open>simp add: same_control_def told_same\<close>)

lemma abort_ends:
  assumes "session_abort h opts t0 st = Some st'"
    and "honest_control (sh_control h) own" "given_back own st"
  shows "bs_bridge (rn_session st') = bridge_with_options (ab_pane_id (bs_bridge (rn_session st))) opts \<and> rn_token st' = None
    \<and> bs_events (rn_session st') \<noteq> [] \<and> is_end (ev_kind (last (bs_events (rn_session st')))) \<and> told st st'
    \<and> ((\<forall>c k. \<not> isl (fst (ct_restore (sh_control h) c k))) \<longrightarrow> own (rn_control st'))"
proof -
  let ?sure = "\<forall>c k. \<not> isl (fst (ct_restore (sh_control h) c k))"
  define reason where "reason = (case rn_detach_reason st of Some reason \<Rightarrow> reason | None \<Rightarrow> Detach_Error)"
  define st0 where "st0 = (case begin_detach (bs_bridge (rn_session st)) of
      Some b \<Rightarrow> st \<lparr>rn_session := (rn_session st) \<lparr>bs_bridge := b\<rparr>\<rparr> | None \<Rightarrow> st)"
  have t0: "told st st0" "same_control st st0"
    by (auto simp: st0_def told_def begin_detach_def same_control_def split: option.splits if_splits)
  obtain st1 st2 where sized: "(if is_active (ab_state (bs_bridge (rn_session st0))) \<and> ao_resize opts = UseRealTerminalSize
           \<and> \<not> rn_restored_embedded_size st0
        then session_report h (resize_attached_target h (bs_embedded_size (rn_session st0)) True st0)
        else Some st0) = Some st1"
    and guarded: "(if rn_token st1 \<noteq> None then do {
          st \<leftarrow> session_report h (session_guard_detach h st1);
          if rn_token st \<noteq> None then do {
            st \<leftarrow> session_report h (session_guard_detach h st);
            Some (if rn_token st \<noteq> None then session_guard_disarm st else st)
          } else Some st
        } else Some st1) = Some st2"
    and st': "st' = reset_bridge opts (end_event h reason t0 st2)"
    using assms(1) unfolding session_abort_def Let_def st0_def [symmetric] reason_def [symmetric]
    by (elim bind_SomeE) (erule (1) that, simp)
  have t1: "told st0 st1" "same_control st0 st1" using report_resize [OF sized] by simp_all
  have g1: "given_back own st1" using assms(3) t0(2) t1(2) by (simp add: given_back_def same_control_def)
  have t2: "told st1 st2 \<and> rn_token st2 = None \<and> (?sure \<longrightarrow> own (rn_control st2))"
  proof (cases "rn_token st1")
    case None
    then show ?thesis using guarded g1 by (auto simp: given_back_def intro: told_same)
  next
    case (Some k)
    obtain sta where a: "session_report h (session_guard_detach h st1) = Some sta"
      "(if rn_token sta \<noteq> None then do {
            st \<leftarrow> session_report h (session_guard_detach h sta);
            Some (if rn_token st \<noteq> None then session_guard_disarm st else st)
          } else Some sta) = Some st2"
      using guarded Some by (auto simp: bind_eq_Some_conv)
    have given: "session_report h (session_guard_detach h u) = Some w \<Longrightarrow> given_back own u \<Longrightarrow>
        told u w \<and> given_back own w \<and> (?sure \<longrightarrow> rn_token w = None)" for u w
    proof (erule report_cases)
      fix x u1 assume r: "session_guard_detach h u = Some (x, u1)" "same_control u1 w" "tells u1 w" and g: "given_back own u"
      have "told u w" by (rule told_trans [OF tells_told [OF endpoint_tells(6) [OF r(1)]] tells_told [OF r(3)]])
      moreover have "given_back own w"
        using restore_given [OF assms(2) g r(1)] r(2) by (simp add: given_back_def same_control_def)
      moreover have "rn_token u1 = None" if ?sure
        using r(1) that by (auto simp: session_guard_detach_def split: option.splits prod.splits sum.splits)
          (metis fst_conv sum.disc(1))
      ultimately show ?thesis using r(2) by (simp add: same_control_def)
    qed
    note ga = given [OF a(1) g1]
    show ?thesis
    proof (cases "rn_token sta")
      case None
      then show ?thesis using a(2) ga by (auto simp: given_back_def)
    next
      case (Some k')
      then obtain stb where b: "session_report h (session_guard_detach h sta) = Some stb"
        "st2 = (if rn_token stb \<noteq> None then session_guard_disarm stb else stb)"
        using a(2) by (auto simp: bind_eq_Some_conv)
      note gb = given [OF b(1) conjunct1 [OF conjunct2 [OF ga]]]
      have "told stb st2" "rn_token st2 = None" by (auto simp: b(2) session_guard_disarm_def intro: told_same)
      moreover have "\<not> ?sure" using ga Some by auto
      ultimately show ?thesis using told_trans ga gb by blast
    qed
  qed
  have e: "told st2 (end_event h reason t0 st2)" by (rule telling.ended)
  have t: "told st (end_event h reason t0 st2)"
    using told_trans [OF told_trans [OF told_trans [OF t0(1) t1(1)] conjunct1 [OF t2]] e] .
  moreover have "told (end_event h reason t0 st2) st'"
    by (simp add: st' reset_bridge_def told_def Let_def bridge_with_options_def)
  ultimately have "told st st'" by (rule told_trans)
  then show ?thesis using t t2 end_event_ends [of h reason t0 st2]
    by (auto simp: st' reset_bridge_def Let_def told_def end_event_eq)
qed

lemma suspended_ends:
  assumes "session_suspended h opts st = Some (r, st')" "ab_state (bs_bridge (rn_session st)) = AS_Attaching"
    and "honest_control (sh_control h) own" "rn_token st \<noteq> None" "opts = ab_options (bs_bridge (rn_session st))"
  shows "r \<noteq> Inl Stop_Panic \<and> bs_bridge (rn_session st') = (bs_bridge (rn_session st)) \<lparr>ab_state := AS_Embedded\<rparr>
    \<and> (\<not> isl r \<longrightarrow> own (rn_control st'))
    \<and> ((\<forall>c k. \<not> isl (fst (ct_restore (sh_control h) c k))) \<longrightarrow> own (rn_control st'))
    \<and> (\<exists>es. bs_events (rn_session st') = bs_events (rn_session st) @ es \<and> es \<noteq> []
        \<and> bs_next_event_seq (rn_session st') = bs_next_event_seq (rn_session st) + length es
        \<and> numbered (ab_pane_id (bs_bridge (rn_session st))) (bs_next_event_seq (rn_session st)) es
        \<and> is_start (ev_kind (hd es)) \<and> is_end (ev_kind (last es)))"
proof -
  define start where "start = Ev_AttachStarted \<lparr>ase_terminal_size = rn_terminal_size st,
    ase_embedded_size = bs_embedded_size (rn_session st), ase_screen_policy = ao_screen opts\<rparr>"
  define st0 where "st0 = session_event h start (st \<lparr>rn_ticks := rn_ticks st + 1\<rparr>)"
  let ?t0 = "sh_instant h (rn_ticks st)"
  obtain sta stb where s: "run_attached h opts ?t0 st0 = Some (r, sta)"
    "(case r of Inl (Stop_Error error) \<Rightarrow> session_abort h opts ?t0 (session_error_event h error sta) | _ \<Rightarrow> Some sta) = Some stb"
    "st' = session_guard_drop h stb"
    using assms(1) by (auto simp: session_suspended_def session_now_def bind_eq_Some_conv st0_def start_def Let_def)
  let ?b = "bs_bridge (rn_session st)"
  have b0: "bs_bridge (rn_session st0) = ?b" "rn_token st0 \<noteq> None" using assms(4) by (simp_all add: st0_def)
  have e: "ends (\<lambda>_. ended_with ?b) (run_attached h opts ?t0 st0)" using run_ends [of st0 h opts] assms(2) b0 by simp
  have panic: "r \<noteq> Inl Stop_Panic" using e s(1) by (simp add: ends_def)
  have ta: "told st0 sta" using telling.run [where h = h and opts = opts and st = st0 and ?t0.0 = ?t0] s(1) by (simp add: leads_def)
  have ga: "given_back own sta"
    using guarded.run [where h = h and own = own and st = st0 and opts = opts and ?t0.0 = ?t0] s(1) assms(3) b0(2) by (simp add: leads_def given_back_def)
  let ?sure = "\<forall>c k. \<not> isl (fst (ct_restore (sh_control h) c k))"
  have fin: "bs_bridge (rn_session stb) = ?b \<lparr>ab_state := AS_Embedded\<rparr> \<and> rn_token stb = None
      \<and> is_end (ev_kind (last (bs_events (rn_session stb)))) \<and> told st0 stb
      \<and> (\<not> isl r \<longrightarrow> own (rn_control stb)) \<and> (?sure \<longrightarrow> own (rn_control stb))"
  proof (cases r)
    case (Inr v)
    then have "ended_with ?b sta" "stb = sta" using e s(1,2) by (auto simp: ends_def)
    then show ?thesis using ta ga by (simp add: ended_with_def given_back_def)
  next
    case (Inl x)
    then obtain error where x: "x = Stop_Error error" using panic by (cases x) auto
    let ?sta = "session_error_event h error sta"
    have t: "told st0 ?sta" unfolding session_error_event_def
      by (rule told_trans [OF ta tells_told [OF tells_event]]) simp
    have "session_abort h opts ?t0 ?sta = Some stb" "given_back own ?sta"
      using s(2) Inl x ga by (simp_all add: session_error_event_def given_back_def)
    note a = abort_ends [OF this(1) assms(3) this(2)]
    have "told st0 stb" by (rule told_trans [OF t]) (use a in blast)
    moreover have "ab_pane_id (bs_bridge (rn_session ?sta)) = ab_pane_id ?b" using t b0(1) by (simp add: told_def)
    then have "bs_bridge (rn_session stb) = ?b \<lparr>ab_state := AS_Embedded\<rparr>"
      using conjunct1 [OF a] assms(5) by (intro attach_bridge.equality) (simp_all add: bridge_with_options_def)
    ultimately show ?thesis using a Inl by simp
  qed
  have "st' = stb" using fin s(3) by (simp add: session_guard_drop_def)
  moreover obtain e0 where e0: "bs_events (rn_session st0) = bs_events (rn_session st) @ [e0]" "ev_kind e0 = start"
    "ev_seq e0 = bs_next_event_seq (rn_session st) + 1" "ev_pane_id e0 = ab_pane_id ?b"
    "bs_next_event_seq (rn_session st0) = bs_next_event_seq (rn_session st) + 1"
    by (simp add: st0_def session_event_def Let_def)
  moreover obtain es where es: "bs_events (rn_session stb) = bs_events (rn_session st0) @ es"
    "bs_next_event_seq (rn_session stb) = bs_next_event_seq (rn_session st0) + length es"
    "numbered (ab_pane_id ?b) (bs_next_event_seq (rn_session st0)) es"
    using fin b0(1) by (auto simp: told_def)
  moreover have "numbered (ab_pane_id ?b) (bs_next_event_seq (rn_session st)) ([e0] @ es)"
    using e0 es(3) by (intro numbered_append) simp_all
  moreover have "is_end (ev_kind (last (e0 # es)))" using fin es(1) e0(1) by (simp split: if_splits)
  ultimately show ?thesis using fin panic
    by (intro conjI exI [of _ "e0 # es"]) (simp_all add: start_def)
qed

text \<open>C10: A session gives everything back and accounts for itself. Whenever \<open>run\<close> returns, after a detach or any
  error, no assertion of the bridge has failed, the session can be run again (its bridge is what it was),
  the host has its terminal again on success and also after an error unless restoring itself
  failed, and the telemetry is numbered without gaps, begins with the start and finishes with the
  end of the attachment when there was one.\<close>

theorem session_gives_back:
  assumes "session_run h s t p f c n = Some (r, st')" "ab_state (bs_bridge s) = AS_Embedded"
    and "honest_control (sh_control h) own" "own c"
  shows "r \<noteq> Inl Stop_Panic \<and> bs_bridge (rn_session st') = bs_bridge s
    \<and> (\<not> isl r \<longrightarrow> own (rn_control st'))
    \<and> ((\<forall>c k. \<not> isl (fst (ct_restore (sh_control h) c k))) \<longrightarrow> own (rn_control st'))
    \<and> (\<exists>es. bs_events (rn_session st') = bs_events s @ es \<and> es \<noteq> []
        \<and> bs_next_event_seq (rn_session st') = bs_next_event_seq s + length es
        \<and> map ev_seq es = [bs_next_event_seq s + 1..<bs_next_event_seq s + 1 + length es]
        \<and> (\<forall>e\<in>set es. ev_pane_id e = ab_pane_id (bs_bridge s))
        \<and> is_start (ev_kind (hd es)) = is_end (ev_kind (last es)) \<and> (\<not> isl r \<longrightarrow> is_end (ev_kind (last es))))"
proof -
  let ?opts = "ab_options (bs_bridge s)"
  define st0 where "st0 = \<lparr>rn_session = s, rn_terminal = t, rn_pty = p, rn_surface = f, rn_control = c, rn_ticks = n,
    rn_token = None :: 'e option, rn_matcher = detach_matcher_new (ao_detach ?opts), rn_replay_buffer = [],
    rn_child_exit_code = None, rn_terminal_size = bs_embedded_size s, rn_detach_reason = None,
    rn_restored_embedded_size = False\<rparr>"
  have st0: "rn_session st0 = s" "rn_control st0 = c" by (simp_all add: st0_def)
  obtain x st1 where x: "session_size h st0 = Some (x, st1)"
    by (cases "tl_size (sh_terminal h) (rn_terminal st0)"; cases "fst (tl_size (sh_terminal h) (rn_terminal st0))")
      (auto simp: session_size_def)
  have st1: "rn_session st1 = s" "rn_control st1 = c"
    using x st0 by (auto simp: session_size_def split: prod.splits sum.splits)
  note run = assms(1) [unfolded session_run_def Let_def, folded st0_def, unfolded x]
  have failed: ?thesis if "r = Inl (Stop_Error e)" "rn_control st' = c'" "own c'" "bs_bridge (rn_session st') = bs_bridge s"
    "bs_events (rn_session st') = bs_events s @ [\<lparr>ev_pane_id = ab_pane_id (bs_bridge s), ev_seq = bs_next_event_seq s + 1,
       ev_at = a, ev_kind = Ev_Error e'\<rparr>]" "bs_next_event_seq (rn_session st') = bs_next_event_seq s + 1" for e e' c' a
    using that by (simp add: upt_rec)
  show ?thesis
  proof (cases x)
    case (Inl e)
    then obtain e' where "e = Stop_Error e'" "r = Inl (Stop_Error e')" "st' = session_error_event h e' st1"
      using x run by (auto simp: session_size_def split: prod.splits sum.splits)
    then show ?thesis using st1 assms(4)
      by (intro failed) (auto simp: session_error_event_def session_event_def Let_def)
  next
    case (Inr z)
    let ?b = "(bs_bridge s) \<lparr>ab_state := AS_Attaching\<rparr>"
    obtain y c1 where y: "ct_suspend (sh_control h) c (ao_screen ?opts) = (y, c1)" by fastforce
    show ?thesis
    proof (cases y)
      case y': (Inl e)
      have "own c1" using assms(3,4) y y' unfolding honest_control_def by (metis sum.disc(1))
      then show ?thesis using run y y' Inr st1 assms(2)
        by (intro failed) (auto simp: bridge_step_def begin_attach_def reset_bridge_def session_error_event_def session_event_def
            bridge_with_options_def Let_def)
    next
      case y': (Inr token)
      let ?st = "st1 \<lparr>rn_terminal_size := z, rn_session := s \<lparr>bs_bridge := ?b\<rparr>, rn_control := c1, rn_token := Some token\<rparr>"
      have "session_suspended h ?opts ?st = Some (r, st')"
        using run y y' Inr st1 assms(2) by (simp add: bridge_step_def begin_attach_def)
      from suspended_ends [OF this _ assms(3)] obtain es where
        "r \<noteq> Inl Stop_Panic" "bs_bridge (rn_session st') = ?b \<lparr>ab_state := AS_Embedded\<rparr>" "\<not> isl r \<longrightarrow> own (rn_control st')"
        "(\<forall>c k. \<not> isl (fst (ct_restore (sh_control h) c k))) \<longrightarrow> own (rn_control st')"
        "bs_events (rn_session st') = bs_events s @ es" "es \<noteq> []" "bs_next_event_seq (rn_session st') = bs_next_event_seq s + length es"
        "numbered (ab_pane_id (bs_bridge s)) (bs_next_event_seq s) es" "is_start (ev_kind (hd es))" "is_end (ev_kind (last es))"
        by auto
      moreover have "?b \<lparr>ab_state := AS_Embedded\<rparr> = bs_bridge s" using assms(2) by simp
      ultimately show ?thesis by (auto simp: numbered_def list_all_iff)
    qed
  qed
qed

theorem session_gives_back_witness:
  "\<exists>outcome st es. session_run noting_host demo_session ([(0, [0x78, 0x64, 0x79])], [], []) ([PF_Output 0 [0x6f, 0x6b] 0], [], []) [] True 0
      = Some (Inr outcome, st)
     \<and> rn_control st \<and> bs_events (rn_session st) = es \<and> map ev_seq es = [8..<8 + length es] \<and> is_end (ev_kind (last es))"
proof -
  obtain outcome st where run: "session_run noting_host demo_session ([(0, [0x78, 0x64, 0x79])], [], [])
      ([PF_Output 0 [0x6f, 0x6b] 0], [], []) [] True 0 = Some (Inr outcome, st)"
    using demo_session_runs by blast
  have "honest_control (sh_control noting_host) (\<lambda>own. own)"
    by (auto simp: honest_control_def noting_host_def demo_control_def)
  moreover have "ab_state (bs_bridge demo_session) = AS_Embedded" "bs_events demo_session = []" "bs_next_event_seq demo_session = 7"
    by (simp_all add: demo_session_def blocking_session_new_def bridge_with_options_def)
  ultimately show ?thesis using session_gives_back [OF run, of "\<lambda>own. own"] run by auto
qed

end
