(* ===== verification/Attach_Session_Relay.thy ===== *)
theory Attach_Session_Relay
  imports Attach_Session_Laws
begin

text \<open>
  What a blocking attach session relays. The endpoints are read through a view: what a terminal has shown
  and what was typed on it, what was received from a child and sent to it, what a surface was
  fed. On success everything the child printed is on the terminal and in the surface, and
  everything typed in front of the chord has reached the child.
\<close>

section \<open>Endpoints that can be trusted\<close>

record ('t, 'p, 'f) relay_view =
  vw_shown :: "'t \<Rightarrow> u8 list"
  vw_typed :: "'t \<Rightarrow> u8 list list"
  vw_got :: "'p \<Rightarrow> u8 list"
  vw_sent :: "'p \<Rightarrow> u8 list"
  vw_fed :: "'f \<Rightarrow> u8 list"

definition frame_output :: "pty_frame option \<Rightarrow> u8 list" where
  "frame_output frame = (case frame of Some (PF_Output _ bytes _) \<Rightarrow> bytes | _ \<Rightarrow> [])"

definition honest_terminal :: "'t attach_terminal \<Rightarrow> ('t \<Rightarrow> u8 list) \<Rightarrow> ('t \<Rightarrow> u8 list list) \<Rightarrow> bool" where
  "honest_terminal tm shown typed =
     ((\<forall>t bytes u t'. tl_write_stdout tm t bytes = (Inr u, t') \<longrightarrow> shown t' = shown t @ bytes \<and> typed t' = typed t)
      \<and> (\<forall>t r t'. tl_read_stdin tm t = (Inr r, t') \<longrightarrow> shown t' = shown t
           \<and> typed t' = typed t @ (case r of None \<Rightarrow> [] | Some chunk \<Rightarrow> [snd chunk]))
      \<and> (\<forall>t z t'. tl_size tm t = (Inr z, t') \<longrightarrow> shown t' = shown t \<and> typed t' = typed t))"

definition honest_pty :: "'p attach_pty \<Rightarrow> ('p \<Rightarrow> u8 list) \<Rightarrow> ('p \<Rightarrow> u8 list) \<Rightarrow> bool" where
  "honest_pty ep got sent =
     ((\<forall>p r p'. ep_try_recv ep p = (Inr r, p') \<longrightarrow> got p' = got p @ frame_output r \<and> sent p' = sent p)
      \<and> (\<forall>p bytes u p'. ep_write_input ep p bytes = (Inr u, p') \<longrightarrow> got p' = got p \<and> sent p' = sent p @ bytes)
      \<and> (\<forall>p z u p'. ep_resize ep p z = (Inr u, p') \<longrightarrow> got p' = got p \<and> sent p' = sent p))"

definition honest_sink :: "'f attach_sink \<Rightarrow> ('f \<Rightarrow> u8 list) \<Rightarrow> bool" where
  "honest_sink sk fed =
     ((\<forall>f bytes u f'. sk_feed_output sk f bytes = (Inr u, f') \<longrightarrow> fed f' = fed f @ bytes)
      \<and> (\<forall>f z u f'. sk_resize sk f z = (Inr u, f') \<longrightarrow> fed f' = fed f))"

definition honest_host :: "('t, 'p, 'f, 'c, 'k) session_host \<Rightarrow> ('t, 'p, 'f) relay_view \<Rightarrow> bool" where
  "honest_host h vw = (honest_terminal (sh_terminal h) (vw_shown vw) (vw_typed vw)
     \<and> honest_pty (sh_pty h) (vw_got vw) (vw_sent vw) \<and> honest_sink (sh_surface h) (vw_fed vw))"

section \<open>Output\<close>

text \<open>The output still to be replayed is the difference between the terminal and the surface.\<close>

definition relays :: "('t, 'p, 'f) relay_view \<Rightarrow> ('t, 'p, 'f, 'c, 'k) running \<Rightarrow> ('t, 'p, 'f, 'c, 'k) running \<Rightarrow> bool" where
  "relays vw st st' =
     (\<exists>X. vw_shown vw (rn_terminal st') = vw_shown vw (rn_terminal st) @ X
        \<and> vw_got vw (rn_pty st') = vw_got vw (rn_pty st) @ X
        \<and> vw_fed vw (rn_surface st') @ rn_replay_buffer st' = vw_fed vw (rn_surface st) @ rn_replay_buffer st @ X)"

definition no_input :: "('t, 'p, 'f) relay_view \<Rightarrow> ('t, 'p, 'f, 'c, 'k) running \<Rightarrow> ('t, 'p, 'f, 'c, 'k) running \<Rightarrow> bool" where
  "no_input vw st st' = (rn_matcher st' = rn_matcher st \<and> vw_typed vw (rn_terminal st') = vw_typed vw (rn_terminal st)
     \<and> vw_sent vw (rn_pty st') = vw_sent vw (rn_pty st))"

definition replayable :: "attach_output_policy \<Rightarrow> ('t, 'p, 'f, 'c, 'k) running \<Rightarrow> bool" where
  "replayable out st = (out = FanoutToSurfaceAndStdout \<longrightarrow> rn_replay_buffer st = [])"

definition shows_all :: "('t, 'p, 'f, 'c, 'k) session_host \<Rightarrow> ('t, 'p, 'f) relay_view \<Rightarrow> attach_output_policy \<Rightarrow> bool \<Rightarrow>
    ('t, 'p, 'f, 'c, 'k) running \<Rightarrow> ('t, 'p, 'f, 'c, 'k) running \<Rightarrow> bool" where
  "shows_all h vw out ok st st' = (honest_host h vw \<longrightarrow> ok \<longrightarrow> replayable out st \<longrightarrow>
     replayable out st' \<and> relays vw st st' \<and> no_input vw st st')"

lemma relays_trans: "relays vw st st1 \<Longrightarrow> relays vw st1 st2 \<Longrightarrow> relays vw st st2"
  unfolding relays_def by (elim exE conjE, rule exI, intro conjI) (simp, simp, metis append.assoc)

lemma relays_same:
  "rn_terminal st' = rn_terminal st \<Longrightarrow> rn_pty st' = rn_pty st \<Longrightarrow> rn_surface st' = rn_surface st \<Longrightarrow>
   rn_replay_buffer st' = rn_replay_buffer st \<Longrightarrow> relays vw st st'"
  by (simp add: relays_def)

lemma shows_all_trans:
  "shows_all h vw out True st st1 \<Longrightarrow> shows_all h vw out ok st1 st2 \<Longrightarrow> shows_all h vw out ok st st2"
  unfolding shows_all_def no_input_def using relays_trans by metis

lemma shows_all_same:
  "rn_terminal st' = rn_terminal st \<Longrightarrow> rn_pty st' = rn_pty st \<Longrightarrow> rn_surface st' = rn_surface st \<Longrightarrow>
   rn_replay_buffer st' = rn_replay_buffer st \<Longrightarrow> rn_matcher st' = rn_matcher st \<Longrightarrow> shows_all h vw out ok st st'"
  by (simp add: shows_all_def no_input_def replayable_def relays_same)

lemma shows_allI:
  "(honest_host h vw \<Longrightarrow> ok \<Longrightarrow> replayable out st \<Longrightarrow> replayable out st' \<and> relays vw st st' \<and> no_input vw st st') \<Longrightarrow>
   shows_all h vw out ok st st'"
  by (simp add: shows_all_def)

lemmas honest_defs = honest_host_def honest_terminal_def honest_pty_def honest_sink_def
lemmas shows_defs = shows_all_def relays_def no_input_def replayable_def

lemma size_shows: "leads (shows_all h vw out) st (session_size h st)"
  by (auto intro!: leadsI simp: session_size_def shows_defs honest_defs split: prod.splits sum.splits)

lemma resize_shows: "leads (shows_all h vw out) st (resize_attached_target h z e st)"
  by (auto intro!: leadsI simp: resize_attached_target_def shows_defs honest_defs Let_def split: prod.splits sum.splits)

lemma feed_shows: "leads (shows_all h vw out) st (and_then (session_feed h (rn_replay_buffer st) st)
    (\<lambda>_ st. Some (Inr (), st \<lparr>rn_replay_buffer := []\<rparr>)))"
  by (auto intro!: leadsI simp: session_feed_def shows_defs honest_defs split: prod.splits sum.splits elim!: and_then_SomeE)

lemma no_frame_shows:
  "session_recv h st = Some (r, st1) \<Longrightarrow> (\<forall>f. r \<noteq> Inr (Some f)) \<Longrightarrow> shows_all h vw out (\<not> isl r) st st1"
  by (auto simp: session_recv_def shows_defs honest_defs frame_output_def split: prod.splits sum.splits option.splits)

lemma frame_shows:
  assumes "session_recv h st = Some (Inr (Some f), st1)"
  shows "leads (shows_all h vw out) st (handle_session_frame h out f st1)"
proof (rule leadsI, rule shows_allI)
  fix x st' assume x: "handle_session_frame h out f st1 = Some (x, st')" and h: "honest_host h vw"
    and "\<not> isl x" and r: "replayable out st"
  obtain p where p: "ep_try_recv (sh_pty h) (rn_pty st) = (Inr (Some f), p)" "st1 = st \<lparr>rn_pty := p\<rparr>"
    using assms by (auto simp: session_recv_def split: prod.splits sum.splits)
  have got: "vw_got vw p = vw_got vw (rn_pty st) @ frame_output (Some f)" "vw_sent vw p = vw_sent vw (rn_pty st)"
    using h p(1) by (auto simp: honest_defs)
  show "replayable out st' \<and> relays vw st st' \<and> no_input vw st st'"
    using x got r h p(2) \<open>\<not> isl x\<close>
    by (cases f; cases out) (auto simp: handle_session_frame_def session_stdout_def session_feed_def shows_defs honest_defs
        frame_output_def split: prod.splits sum.splits if_splits elim!: and_then_SomeE)
qed

interpretation showing: session_finish "shows_all h vw (ao_output opts)" h opts for h vw opts
proof (unfold_locales, goal_cases)
  case (2 st st1 ok st2)
  then show ?case by (rule shows_all_trans)
next
  case (12 f st)
  show ?case by (auto intro!: leadsI shows_all_same simp: bridge_step_def split: option.splits)
next
  case (11 st)
  show ?case by (auto intro!: leadsI shows_all_same simp: session_guard_detach_def split: option.splits prod.splits sum.splits)
qed (auto intro: shows_all_same size_shows resize_shows feed_shows no_frame_shows frame_shows simp: end_event_eq)


section \<open>The end of a session\<close>

definition same_buffer :: "bool \<Rightarrow> ('t, 'p, 'f, 'c, 'k) running \<Rightarrow> ('t, 'p, 'f, 'c, 'k) running \<Rightarrow> bool" where
  "same_buffer ok st st' = (rn_replay_buffer st' = rn_replay_buffer st)"

interpretation buffer: sequenced same_buffer
  by unfold_locales (simp_all add: same_buffer_def)

lemma tail_buffer:
  "leads same_buffer st (resize_attached_target h z e st)" "leads same_buffer st (session_guard_detach h st)"
  "leads same_buffer st (bridge_step f st)" "same_buffer ok st (st \<lparr>rn_restored_embedded_size := b\<rparr>)"
  by (auto intro!: leadsI simp: same_buffer_def resize_attached_target_def session_guard_detach_def bridge_step_def Let_def
      split: prod.splits sum.splits option.splits)

lemma finish_empties:
  assumes "session_finish_detach h opts t0 reason rest st = Some (Inr v, st')"
  shows "(ao_output opts = StdoutOnlyThenReplay \<longrightarrow> rn_replay_buffer st' = []) \<and> aoc_remaining_input v = rest"
proof -
  obtain u st2 where s: "(if ao_output opts = StdoutOnlyThenReplay \<and> rn_replay_buffer st2 \<noteq> [] then
           and_then (session_feed h (rn_replay_buffer st2) st2) (\<lambda>_ st. Some (Inr (), st \<lparr>rn_replay_buffer := []\<rparr>))
         else Some (Inr (), st2)) = Some (Inr (), u)"
    "and_then (if ao_resize opts = UseRealTerminalSize then
           and_then (resize_attached_target h (bs_embedded_size (rn_session u)) True u)
             (\<lambda>_ st. Some (Inr (), st \<lparr>rn_restored_embedded_size := True\<rparr>))
         else Some (Inr (), u))
     (\<lambda>_ st. and_then (session_guard_detach h st)
     (\<lambda>_ st. and_then (bridge_step confirm_detached st)
     (\<lambda>_ st.
        let st = end_event h reason t0 st
        in Some (Inr \<lparr>aoc_reason = reason, aoc_child_exit_code = rn_child_exit_code st,
                      aoc_terminal_size = rn_terminal_size st,
                      aoc_restored_size = bs_embedded_size (rn_session st),
                      aoc_remaining_input = rest\<rparr>, st)))) = Some (Inr v, st')" (is "?tail = _")
    using assms(1) unfolding session_finish_detach_def by (auto elim!: and_then_SomeE)
  have "leads same_buffer u ?tail" unfolding Let_def
    by (auto intro!: buffer.leads_then tail_buffer buffer.leads_value simp: same_buffer_def end_event_eq)
  then have "rn_replay_buffer st' = rn_replay_buffer u" using s(2) by (simp add: leads_def same_buffer_def)
  moreover have "ao_output opts = StdoutOnlyThenReplay \<longrightarrow> rn_replay_buffer u = []"
    using s(1) by (auto split: if_splits elim!: and_then_SomeE)
  moreover have "aoc_remaining_input v = rest" using s(2) by (auto simp: Let_def elim!: and_then_SomeE)
  ultimately show ?thesis by simp
qed


section \<open>Input\<close>

text \<open>What was typed is what was sent, followed by \<open>left\<close>.\<close>

definition hands_over :: "('t, 'p, 'f) relay_view \<Rightarrow> u8 list \<Rightarrow> ('t, 'p, 'f, 'c, 'k) running \<Rightarrow> ('t, 'p, 'f, 'c, 'k) running \<Rightarrow> bool" where
  "hands_over vw left st st' =
     (\<exists>Y cs. vw_typed vw (rn_terminal st') = vw_typed vw (rn_terminal st) @ cs
        \<and> vw_sent vw (rn_pty st') = vw_sent vw (rn_pty st) @ Y
        \<and> dm_held (rn_matcher st) @ concat (map (\<lambda>bs. normalize_attach_detach_input bs (dm_chord (rn_matcher st))) cs) = Y @ left)"

lemma hands_over_trans:
  assumes "hands_over vw (dm_held (rn_matcher st1)) st st1" "hands_over vw left st1 st2"
    and "dm_chord (rn_matcher st1) = dm_chord (rn_matcher st)"
  shows "hands_over vw left st st2"
proof -
  let ?n = "\<lambda>cs. concat (map (\<lambda>bs. normalize_attach_detach_input bs (dm_chord (rn_matcher st))) cs)"
  obtain Y cs where 1: "vw_typed vw (rn_terminal st1) = vw_typed vw (rn_terminal st) @ cs"
    "vw_sent vw (rn_pty st1) = vw_sent vw (rn_pty st) @ Y" "dm_held (rn_matcher st) @ ?n cs = Y @ dm_held (rn_matcher st1)"
    using assms(1) unfolding hands_over_def by blast
  obtain Z ds where 2: "vw_typed vw (rn_terminal st2) = vw_typed vw (rn_terminal st1) @ ds"
    "vw_sent vw (rn_pty st2) = vw_sent vw (rn_pty st1) @ Z" "dm_held (rn_matcher st1) @ ?n ds = Z @ left"
    using assms(2,3) unfolding hands_over_def by auto
  have "dm_held (rn_matcher st) @ ?n (cs @ ds) = (Y @ Z) @ left"
    using arg_cong [OF 1(3), of "\<lambda>xs. xs @ ?n ds"] 2(3) by simp
  then show ?thesis unfolding hands_over_def using 1(1,2) 2(1,2)
    by (intro exI [of _ "Y @ Z"] exI [of _ "cs @ ds"]) simp
qed

lemma no_input_hands: "no_input vw st st' \<Longrightarrow> hands_over vw (dm_held (rn_matcher st')) st st'"
  unfolding hands_over_def no_input_def by (intro exI [of _ "[]"]) simp

lemma hands_over_end: "hands_over vw left st st1 \<Longrightarrow> no_input vw st1 st2 \<Longrightarrow> hands_over vw left st st2"
  by (simp add: hands_over_def no_input_def)

definition unread :: "session_poll \<Rightarrow> detach_matcher \<Rightarrow> u8 list" where
  "unread poll1 m = (case poll1 of
     SS_Detached rest \<Rightarrow> dm_chord m @ normalize_attach_detach_input rest (dm_chord m) | _ \<Rightarrow> dm_held m)"

definition quiet_output :: "('t, 'p, 'f) relay_view \<Rightarrow> ('t, 'p, 'f, 'c, 'k) running \<Rightarrow> ('t, 'p, 'f, 'c, 'k) running \<Rightarrow> bool" where
  "quiet_output vw st st' = (vw_shown vw (rn_terminal st') = vw_shown vw (rn_terminal st)
     \<and> vw_got vw (rn_pty st') = vw_got vw (rn_pty st) \<and> rn_surface st' = rn_surface st
     \<and> rn_replay_buffer st' = rn_replay_buffer st)"

lemma write_hands:
  assumes "session_write h bytes st = Some (Inr u, st')" "honest_host h vw"
  shows "vw_sent vw (rn_pty st') = vw_sent vw (rn_pty st) @ bytes \<and> vw_got vw (rn_pty st') = vw_got vw (rn_pty st)
    \<and> rn_terminal st' = rn_terminal st \<and> rn_surface st' = rn_surface st \<and> rn_replay_buffer st' = rn_replay_buffer st
    \<and> rn_matcher st' = rn_matcher st"
  using assms by (auto simp: session_write_def honest_defs split: prod.splits sum.splits)

lemma stdin_hands:
  assumes "poll_stdin h st = Some (Inr poll1, st')" "honest_host h vw" "dm_ok (rn_matcher st)"
  shows "quiet_output vw st st' \<and> dm_ok (rn_matcher st') \<and> dm_chord (rn_matcher st') = dm_chord (rn_matcher st)
    \<and> hands_over vw (unread poll1 (rn_matcher st')) st st'"
proof (cases "tl_read_stdin (sh_terminal h) (rn_terminal st)")
  case (Pair r t)
  then obtain chunk where r: "r = Inr chunk" using assms(1) by (cases r) (auto simp: poll_stdin_def)
  have t: "vw_shown vw t = vw_shown vw (rn_terminal st)"
    "vw_typed vw t = vw_typed vw (rn_terminal st) @ (case chunk of None \<Rightarrow> [] | Some c \<Rightarrow> [snd c])"
    using assms(2) Pair r by (auto simp: honest_defs)
  show ?thesis
  proof (cases chunk)
    case None
    obtain o1 m where m: "check_timeout (rn_matcher st) (sh_instant h (rn_ticks st)) = (o1, m)" by fastforce
    note c = check_timeout_spec [OF assms(3) m]
    show ?thesis
    proof (cases o1)
      case n: None
      then show ?thesis using assms(1) Pair r None m c t
        by (auto simp: poll_stdin_def session_now_def quiet_output_def hands_over_def unread_def)
    next
      case (Some bytes)
      have w: "session_write h bytes (st \<lparr>rn_terminal := t, rn_ticks := rn_ticks st + 1, rn_matcher := m\<rparr>) = Some (Inr (), st')"
        "poll1 = SS_Forwarded"
        using assms(1) Pair r None m Some by (auto simp: poll_stdin_def session_now_def elim!: and_then_SomeE)
      show ?thesis using write_hands [OF w(1) assms(2)] w(2) c t None Some
        by (auto simp: quiet_output_def hands_over_def unread_def)
    qed
  next
    case (Some c)
    obtain at1 bytes where c: "c = (at1, bytes)" by fastforce
    obtain f m where m: "feed_bytes (rn_matcher st) bytes at1 = (f, m)" by fastforce
    let ?st = "st \<lparr>rn_terminal := t, rn_matcher := m\<rparr>"
    have w: "(if fr_forward f \<noteq> [] then session_write h (fr_forward f) ?st else Some (Inr (), ?st)) = Some (Inr (), st')"
      "poll1 = (if fr_detached f then SS_Detached (fr_remaining f) else SS_Forwarded)"
      using assms(1) Pair r Some c m by (auto simp: poll_stdin_def Let_def elim!: and_then_SomeE)
    have s: "vw_sent vw (rn_pty st') = vw_sent vw (rn_pty st) @ fr_forward f" "rn_terminal st' = t" "rn_matcher st' = m"
      "vw_got vw (rn_pty st') = vw_got vw (rn_pty st)" "rn_surface st' = rn_surface st" "rn_replay_buffer st' = rn_replay_buffer st"
      using w(1) write_hands [of h "fr_forward f" ?st "()" st' vw] assms(2) by (auto split: if_splits)
    show ?thesis using s t Some c feed_bytes_conserves [OF assms(3) m] w(2)
      by (auto simp: quiet_output_def hands_over_def unread_def)
  qed
qed


section \<open>The whole session\<close>

definition delivers ::
    "('t, 'p, 'f) relay_view \<Rightarrow> attach_outcome \<Rightarrow> ('t, 'p, 'f, 'c, 'k) running \<Rightarrow> ('t, 'p, 'f, 'c, 'k) running \<Rightarrow> bool" where
  "delivers vw v st st' = (rn_replay_buffer st' = [] \<and> relays vw st st'
     \<and> hands_over vw (unread (SS_Detached (aoc_remaining_input v)) (rn_matcher st)) st st')"

definition ready :: "attach_output_policy \<Rightarrow> ('t, 'p, 'f, 'c, 'k) running \<Rightarrow> bool" where
  "ready out st = (replayable out st \<and> dm_ok (rn_matcher st))"

definition moves ::
    "('t, 'p, 'f) relay_view \<Rightarrow> attach_output_policy \<Rightarrow> ('t, 'p, 'f, 'c, 'k) running \<Rightarrow> ('t, 'p, 'f, 'c, 'k) running \<Rightarrow> bool" where
  "moves vw out st st' = (ready out st' \<and> relays vw st st' \<and> hands_over vw (dm_held (rn_matcher st')) st st'
     \<and> dm_chord (rn_matcher st') = dm_chord (rn_matcher st))"

lemma moves_delivers: "moves vw out st st1 \<Longrightarrow> delivers vw v st1 st2 \<Longrightarrow> delivers vw v st st2"
  unfolding moves_def delivers_def
  by (auto simp: unread_def intro: relays_trans hands_over_trans)

lemma moves_trans: "moves vw out st st1 \<Longrightarrow> moves vw out st1 st2 \<Longrightarrow> moves vw out st st2"
  unfolding moves_def by (auto intro: relays_trans hands_over_trans)

lemma shows_all_moves:
  "shows_all h vw out True st st1 \<Longrightarrow> honest_host h vw \<Longrightarrow> ready out st \<Longrightarrow> moves vw out st st1"
  using no_input_hands [of vw st st1] by (auto simp: shows_all_def moves_def ready_def no_input_def)

lemma quiet_relays: "quiet_output vw st st1 \<Longrightarrow> relays vw st st1"
  by (simp add: quiet_output_def relays_def)

lemma stdin_moves:
  assumes "poll_stdin h st = Some (Inr poll1, st1)" "honest_host h vw" "ready out st" "\<forall>rest. poll1 \<noteq> SS_Detached rest"
  shows "moves vw out st st1"
proof -
  have "unread poll1 (rn_matcher st1) = dm_held (rn_matcher st1)" using assms(4) by (cases poll1) (auto simp: unread_def)
  then show ?thesis using stdin_hands [OF assms(1,2)] assms(3) quiet_relays
    by (auto simp: moves_def ready_def replayable_def quiet_output_def)
qed

lemma detached_delivers:
  assumes "poll_stdin h st = Some (Inr (SS_Detached rest), st1)" "honest_host h vw" "ready (ao_output opts) st"
    and "session_finish_detach h opts t0 reason rest (st1 \<lparr>rn_detach_reason := r\<rparr>) = Some (Inr v, st2)"
  shows "delivers vw v st st2"
proof -
  note s = stdin_hands [OF assms(1,2)]
  have ok: "dm_ok (rn_matcher st)" "replayable (ao_output opts) (st1 \<lparr>rn_detach_reason := r\<rparr>)"
    using assms(3) s by (auto simp: ready_def replayable_def quiet_output_def)
  have f: "replayable (ao_output opts) st2" "relays vw (st1 \<lparr>rn_detach_reason := r\<rparr>) st2" "no_input vw (st1 \<lparr>rn_detach_reason := r\<rparr>) st2"
    using showing.finish [where h = h and vw = vw and opts = opts and st = "st1 \<lparr>rn_detach_reason := r\<rparr>"]
      assms(2,4) ok(2) unfolding leads_def shows_all_def by fastforce+
  have e: "rn_replay_buffer st2 = []" "aoc_remaining_input v = rest"
    using finish_empties [OF assms(4)] f(1) by (cases "ao_output opts"; simp add: replayable_def)+
  have "relays vw st1 st2" "no_input vw st1 st2" using f(2,3) by (simp_all add: relays_def no_input_def)
  then show ?thesis using s ok(1) e hands_over_end relays_trans quiet_relays unfolding delivers_def
    by (fastforce simp: unread_def)
qed

lemma loop_delivers:
  assumes "session_loop h opts t0 st = Some (Inr v, st')" "honest_host h vw" "ready (ao_output opts) st"
  shows "delivers vw v st st'"
proof -
  have "(h, opts) = (h, opts) \<longrightarrow> ready (ao_output opts) st \<longrightarrow>
      (Inr v :: attach_stop + attach_outcome, st') = (Inr v, st') \<longrightarrow> delivers vw v st st'"
  proof (rule session_loop.raw_induct [of "\<lambda>h' opts' t0 st r. (h', opts') = (h, opts) \<longrightarrow> ready (ao_output opts) st \<longrightarrow>
      r = (Inr v, st') \<longrightarrow> delivers vw v st st'", OF _ assms(1)], goal_cases)
    case 1: (1 loop h' opts' t0 st r)
    have l: "delivers vw v st3 st'" if "loop h opts t0 st3 = Some (Inr v, st')" "ready (ao_output opts) st3" for st3
      using 1(1) [OF that(1)] that(2) by simp
    have "delivers vw v st st'" if eq: "h' = h" "opts' = opts" "r = (Inr v, st')" and r: "ready (ao_output opts) st"
    proof -
      obtain st1 poll1 st2 where s: "session_follow_size h opts st = Some (Inr (), st1)" "poll_stdin h st1 = Some (Inr poll1, st2)"
        "(case poll1 of
          SS_Detached rest \<Rightarrow> session_finish_detach h opts t0 Detach_UserChord rest (st2 \<lparr>rn_detach_reason := Some Detach_UserChord\<rparr>)
        | _ \<Rightarrow> and_then (session_drain_output h (ao_output opts) st2) (\<lambda>_ st. loop h opts t0 st)) = Some (Inr v, st')"
        using 1(2) unfolding eq by (auto elim!: and_then_SomeE)
      have m1: "moves vw (ao_output opts) st st1"
        using showing.follow_size [where h = h and vw = vw and opts = opts and st = st] s(1) assms(2) r
        by (intro shows_all_moves) (auto simp: leads_def)
      then have r1: "ready (ao_output opts) st1" by (simp add: moves_def)
      have "delivers vw v st1 st'"
      proof (cases "\<exists>rest. poll1 = SS_Detached rest")
        case True
        then obtain rest where "poll1 = SS_Detached rest" by blast
        then show ?thesis using detached_delivers [OF _ assms(2) r1] s(2,3) by fastforce
      next
        case False
        then have m2: "moves vw (ao_output opts) st1 st2" using stdin_moves [OF s(2) assms(2) r1] by blast
        obtain b st3 where d: "session_drain_output h (ao_output opts) st2 = Some (Inr b, st3)" "loop h opts t0 st3 = Some (Inr v, st')"
          using s(3) False by (cases poll1) (auto elim!: and_then_SomeE)
        have m3: "moves vw (ao_output opts) st2 st3"
          using showing.drain_output [where h = h and vw = vw and opts = opts and st = st2] d(1) assms(2) m2
          by (intro shows_all_moves) (auto simp: leads_def moves_def)
        have "delivers vw v st3 st'" using l [OF d(2)] m3 by (simp add: moves_def)
        then show ?thesis using moves_delivers m2 m3 by blast
      qed
      then show ?thesis using moves_delivers m1 by blast
    qed
    then show ?case by blast
  qed
  then show ?thesis using assms(3) by simp
qed

lemma run_delivers:
  assumes "run_attached h opts t0 st = Some (Inr v, st')" "honest_host h vw" "ready (ao_output opts) st"
  shows "delivers vw v st st'"
proof -
  obtain st1 st2 z st3 where s: "(if ao_resize opts = UseRealTerminalSize
      then resize_attached_target h (rn_terminal_size st) True st else Some (Inr (), st)) = Some (Inr (), st1)"
    "bridge_step confirm_attached st1 = Some (Inr (), st2)" "session_size h st2 = Some (Inr z, st3)"
    "session_loop h opts t0 st3 = Some (Inr v, st')"
    using assms(1) unfolding run_attached_def by (auto elim!: and_then_SomeE)
  have "shows_all h vw (ao_output opts) True st st1"
    using s(1) resize_shows [of h vw "ao_output opts" st "rn_terminal_size st" True] showing.keep
    by (auto simp: leads_def shows_all_same split: if_splits)
  moreover have "shows_all h vw (ao_output opts) True st1 st2"
    using showing.bridges(2) [where h = h and vw = vw and opts = opts and st = st1] s(2) by (auto simp: leads_def)
  moreover have "shows_all h vw (ao_output opts) True st2 st3" using size_shows s(3) by (fastforce simp: leads_def)
  ultimately have "moves vw (ao_output opts) st st3"
    using assms(2,3) by (intro shows_all_moves) (blast intro: shows_all_trans)+
  moreover from this have "delivers vw v st3 st'" using loop_delivers [OF s(4) assms(2)] by (simp add: moves_def)
  ultimately show ?thesis by (rule moves_delivers)
qed

text \<open>C3: A session relays faithfully. When \<open>run\<close> returns with an outcome, everything received from the child
  has been shown on the terminal and, under either output policy, fed to the embedded surface,
  each exactly once and in order; and what the user typed is, with its chord encodings
  normalised, what was sent to the child, then the chord, then the input handed back to the host.\<close>

theorem session_relays:
  assumes "session_run h s t p f c n = Some (Inr outcome, st')" "ab_state (bs_bridge s) = AS_Embedded"
    and "honest_host h vw" "chord = dc_chord (ao_detach (ab_options (bs_bridge s)))"
  shows "\<exists>X Y cs.
      vw_shown vw (rn_terminal st') = vw_shown vw t @ X \<and> vw_got vw (rn_pty st') = vw_got vw p @ X
      \<and> vw_fed vw (rn_surface st') = vw_fed vw f @ X
      \<and> vw_typed vw (rn_terminal st') = vw_typed vw t @ cs \<and> vw_sent vw (rn_pty st') = vw_sent vw p @ Y
      \<and> concat (map (\<lambda>bs. normalize_attach_detach_input bs chord) cs)
          = Y @ chord @ normalize_attach_detach_input (aoc_remaining_input outcome) chord"
proof -
  let ?opts = "ab_options (bs_bridge s)"
  define st0 where "st0 = \<lparr>rn_session = s, rn_terminal = t, rn_pty = p, rn_surface = f, rn_control = c, rn_ticks = n,
    rn_token = None :: 'e option, rn_matcher = detach_matcher_new (ao_detach ?opts), rn_replay_buffer = [],
    rn_child_exit_code = None, rn_terminal_size = bs_embedded_size s, rn_detach_reason = None,
    rn_restored_embedded_size = False\<rparr>"
  obtain z st1 where z: "session_size h st0 = Some (Inr z, st1)"
    using assms(1) unfolding session_run_def Let_def st0_def [symmetric]
    by (auto split: option.splits sum.splits attach_stop.splits elim!: and_then_SomeE)
  then obtain t1 where t1: "tl_size (sh_terminal h) t = (Inr z, t1)" "st1 = st0 \<lparr>rn_terminal := t1\<rparr>"
    by (auto simp: session_size_def st0_def split: prod.splits sum.splits)
  obtain token c1 where token: "ct_suspend (sh_control h) c (ao_screen ?opts) = (Inr token, c1)"
    using assms(1,2) z unfolding session_run_def Let_def st0_def [symmetric]
    by (cases "ct_suspend (sh_control h) c (ao_screen ?opts)"; cases "fst (ct_suspend (sh_control h) c (ao_screen ?opts))")
      (auto simp: t1(2) bridge_step_def begin_attach_def st0_def)
  let ?st = "st1 \<lparr>rn_terminal_size := z, rn_session := s \<lparr>bs_bridge := (bs_bridge s) \<lparr>ab_state := AS_Attaching\<rparr>\<rparr>,
    rn_control := c1, rn_token := Some token\<rparr>"
  have "session_suspended h ?opts ?st = Some (Inr outcome, st')"
    using assms(1,2) z token unfolding session_run_def Let_def st0_def [symmetric]
    by (simp add: t1(2) bridge_step_def begin_attach_def) (simp add: st0_def)
  then obtain start sta where run: "run_attached h ?opts (sh_instant h (rn_ticks ?st)) (session_event h start (?st \<lparr>rn_ticks := rn_ticks ?st + 1\<rparr>))
      = Some (Inr outcome, sta)" "st' = session_guard_drop h sta"
    by (auto simp: session_suspended_def session_now_def bind_eq_Some_conv Let_def split: sum.splits attach_stop.splits)
      (metis sum.exhaust)
  have ready: "ready (ao_output ?opts) (session_event h start (?st \<lparr>rn_ticks := rn_ticks ?st + 1\<rparr>))"
    using new_matcher_ok(1) by (simp add: ready_def replayable_def t1(2) st0_def)
  have "delivers vw outcome ?st st'"
    using run_delivers [OF run(1) assms(3) ready]
    by (auto simp: run(2) session_guard_drop_def delivers_def relays_def hands_over_def split: option.splits prod.splits)
  moreover have "vw_shown vw t1 = vw_shown vw t" "vw_typed vw t1 = vw_typed vw t"
    using assms(3) t1(1) by (auto simp: honest_defs)
  ultimately show ?thesis
    by (auto simp: delivers_def relays_def hands_over_def unread_def t1(2) st0_def detach_matcher_new_def assms(4))
qed

theorem session_relays_witness:
  "\<exists>outcome st. session_run noting_host demo_session ([(0, [0x78, 0x64, 0x79])], [], []) ([PF_Output 0 [0x6f, 0x6b] 0], [], []) [] True 0
      = Some (Inr outcome, st)
     \<and> fst (snd (rn_terminal st)) = [0x6f, 0x6b] \<and> rn_surface st = fst (snd (rn_pty st))
     \<and> concat (map (\<lambda>bs. normalize_attach_detach_input bs [0x64]) (snd (snd (rn_terminal st))))
          = snd (snd (rn_pty st)) @ [0x64] @ normalize_attach_detach_input (aoc_remaining_input outcome) [0x64]"
proof -
  let ?vw = "\<lparr>vw_shown = \<lambda>t. fst (snd t), vw_typed = \<lambda>t. snd (snd t), vw_got = \<lambda>p. fst (snd p), vw_sent = \<lambda>p. snd (snd p),
    vw_fed = \<lambda>f. f\<rparr> :: ((nat \<times> u8 list) list \<times> u8 list \<times> u8 list list, pty_frame list \<times> u8 list \<times> u8 list, u8 list) relay_view"
  obtain outcome st where run: "session_run noting_host demo_session ([(0, [0x78, 0x64, 0x79])], [], [])
      ([PF_Output 0 [0x6f, 0x6b] 0], [], []) [] True 0 = Some (Inr outcome, st)"
    and shown: "rn_terminal st = ([], [0x6f, 0x6b], [[0x78, 0x64, 0x79]])"
    using demo_session_runs by blast
  have h: "honest_host noting_host ?vw"
    by (auto simp: honest_defs noting_defs frame_output_def split: list.splits pty_frame.splits)
  have b: "ab_state (bs_bridge demo_session) = AS_Embedded" "[0x64] = dc_chord (ao_detach (ab_options (bs_bridge demo_session)))"
    by (simp_all add: demo_session_def blocking_session_new_def bridge_with_options_def demo_options_def)
  show ?thesis using session_relays [OF run b(1) h b(2)] run shown
    by (intro exI [of _ outcome] exI [of _ st]) auto
qed

end
