(* ===== verification/Crossterm_Host.thy ===== *)
theory Crossterm_Host
  imports Manager_Attach
begin

text \<open>
  The crossterm host of the crate \<open>panesmith-attach\<close> (\<open>crossterm_host.rs\<close>): taking the real terminal for
  an attach and giving it back, and the terminal on raw standard input and output.

  The writer, the raw-mode calls, the bytes crossterm has for a command and the calls of libc are
  operations over one state of the world. A call that never returns or panics is \<open>None\<close>.
\<close>

section \<open>Commands and tokens\<close>

text \<open>The crossterm commands that are queued.\<close>

datatype crossterm_command =
    Push_Keyboard_Flags
  | Pop_Keyboard_Flags
  | Enable_Mouse_Capture
  | Show_Cursor
  | Leave_Alternate_Screen
  | Enter_Alternate_Screen
  | Clear_All
  | Move_To_Origin

text \<open>Queueing a command adds bytes to a buffer, also when it fails.\<close>

record 'w crossterm_ops =
  co_write :: "'w \<Rightarrow> u8 list \<Rightarrow> (io_error + nat) \<times> 'w"
  co_flush :: "'w \<Rightarrow> (io_error + unit) \<times> 'w"
  co_is_raw_mode_enabled :: "'w \<Rightarrow> (io_error + bool) \<times> 'w"
  co_enable_raw_mode :: "'w \<Rightarrow> (io_error + unit) \<times> 'w"
  co_disable_raw_mode :: "'w \<Rightarrow> (io_error + unit) \<times> 'w"
  co_queue :: "crossterm_command \<Rightarrow> u8 list \<times> (io_error + unit)"

record 'w crossterm_control =
  cc_world :: 'w
  cc_host_uses_alternate_screen :: bool

definition with_raw_mode_ops :: "'w \<Rightarrow> 'w crossterm_control" where
  "with_raw_mode_ops w = \<lparr>cc_world = w, cc_host_uses_alternate_screen = False\<rparr>"

definition with_host_alternate_screen :: "bool \<Rightarrow> 'w crossterm_control \<Rightarrow> 'w crossterm_control" where
  "with_host_alternate_screen enabled c = c \<lparr>cc_host_uses_alternate_screen := enabled\<rparr>"

record restore_token =
  rt_screen_policy :: attach_screen_policy
  rt_consumed :: bool
  rt_raw_mode_was_enabled :: bool
  rt_left_host_alternate_screen :: bool
  rt_entered_fresh_alternate_screen :: bool
  rt_keyboard_enhancement_pushed :: bool
  rt_mouse_modes_saved :: bool

definition restore_token_new :: "attach_screen_policy \<Rightarrow> restore_token" where
  "restore_token_new policy =
     \<lparr>rt_screen_policy = policy, rt_consumed = False, rt_raw_mode_was_enabled = False,
      rt_left_host_alternate_screen = False, rt_entered_fresh_alternate_screen = False,
      rt_keyboard_enhancement_pushed = False, rt_mouse_modes_saved = False\<rparr>"

definition consume :: "restore_token \<Rightarrow> restore_token" where
  "consume token = token \<lparr>rt_consumed := True\<rparr>"

definition save_mouse_modes :: "u8 list" where
  "save_mouse_modes = concat (map (\<lambda>n. 0x1b # asc ''[?'' @ asc n @ asc ''s'') [''1000'', ''1002'', ''1003'', ''1015'', ''1006''])"

definition restore_mouse_modes :: "u8 list" where
  "restore_mouse_modes = concat (map (\<lambda>n. 0x1b # asc ''[?'' @ asc n @ asc ''r'') [''1006'', ''1015'', ''1003'', ''1002'', ''1000''])"


section \<open>Writing\<close>

definition write_zero :: io_error where
  "write_zero = \<lparr>ie_kind = OtherKind, ie_text = lit ''failed to write attach bytes''\<rparr>"

partial_function (option) retrying_write_all ::
    "'w crossterm_ops \<Rightarrow> u8 list \<Rightarrow> 'w \<Rightarrow> ((io_error + unit) \<times> 'w) option" where
  "retrying_write_all ops bytes w =
     (if bytes = [] then Some (Inr (), w)
      else case co_write ops w bytes of
        (Inr written, w) \<Rightarrow>
          if written = 0 then Some (Inl write_zero, w)
          else if length bytes < written then None
          else retrying_write_all ops (drop written bytes) w
      | (Inl e, w) \<Rightarrow>
          if is_transient_io (ie_kind e) then retrying_write_all ops bytes w else Some (Inl e, w))"

partial_function (option) retrying_flush ::
    "'w crossterm_ops \<Rightarrow> 'w \<Rightarrow> ((io_error + unit) \<times> 'w) option" where
  "retrying_flush ops w =
     (case co_flush ops w of
        (Inr _, w) \<Rightarrow> Some (Inr (), w)
      | (Inl e, w) \<Rightarrow> if is_transient_io (ie_kind e) then retrying_flush ops w else Some (Inl e, w))"

text \<open>Writing bytes and flushing them, as every caller does.\<close>

definition write_and_flush :: "'w crossterm_ops \<Rightarrow> u8 list \<Rightarrow> 'w \<Rightarrow> ((io_error + unit) \<times> 'w) option" where
  "write_and_flush ops bytes w = and_then (retrying_write_all ops bytes w) (\<lambda>_. retrying_flush ops)"


section \<open>Suspending\<close>

text \<open>The closure of \<open>suspend_for_attach\<close>, over the bytes queued so far and the token.\<close>

type_synonym queued = "u8 list \<times> restore_token"

definition queue_command :: "'w crossterm_ops \<Rightarrow> crossterm_command \<Rightarrow> queued \<Rightarrow> ((io_error + unit) \<times> queued) option" where
  "queue_command ops cmd q = (case q of (bytes, token) \<Rightarrow> (case co_queue ops cmd of (bs, r) \<Rightarrow> Some (r, bytes @ bs, token)))"

definition note_token :: "(restore_token \<Rightarrow> restore_token) \<Rightarrow> queued \<Rightarrow> ((io_error + unit) \<times> queued) option" where
  "note_token f q = (case q of (bytes, token) \<Rightarrow> Some (Inr (), bytes, f token))"

definition queue_bytes :: "u8 list \<Rightarrow> queued \<Rightarrow> ((io_error + unit) \<times> queued) option" where
  "queue_bytes bs q = (case q of (bytes, token) \<Rightarrow> Some (Inr (), bytes @ bs, token))"

definition queue_screen :: "'w crossterm_ops \<Rightarrow> bool \<Rightarrow> attach_screen_policy \<Rightarrow> queued \<Rightarrow> ((io_error + unit) \<times> queued) option" where
  "queue_screen ops host_alternate policy q =
     (case policy of
        ReuseHostAlternateScreen \<Rightarrow> queue_command ops Show_Cursor q
      | LeaveAlternateScreen \<Rightarrow>
          and_then (queue_command ops Show_Cursor q)
          (\<lambda>_ q. if host_alternate
             then and_then (queue_command ops Leave_Alternate_Screen q)
               (\<lambda>_. note_token (rt_left_host_alternate_screen_update (\<lambda>_. True)))
             else Some (Inr (), q))
      | EnterFreshAlternateScreen \<Rightarrow>
          and_then (queue_command ops Show_Cursor q)
          (\<lambda>_ q. and_then
             (if \<not> host_alternate
              then and_then (queue_command ops Enter_Alternate_Screen q)
                (\<lambda>_. note_token (rt_entered_fresh_alternate_screen_update (\<lambda>_. True)))
              else Some (Inr (), q))
          (\<lambda>_ q. and_then (queue_command ops Clear_All q)
          (\<lambda>_. queue_command ops Move_To_Origin))))"

definition queue_suspend :: "'w crossterm_ops \<Rightarrow> bool \<Rightarrow> attach_screen_policy \<Rightarrow> queued \<Rightarrow> ((io_error + unit) \<times> queued) option" where
  "queue_suspend ops host_alternate policy q =
     and_then (queue_command ops Push_Keyboard_Flags q)
     (\<lambda>_ q. and_then (note_token (rt_keyboard_enhancement_pushed_update (\<lambda>_. True)) q)
     (\<lambda>_ q. and_then (queue_bytes save_mouse_modes q)
     (\<lambda>_ q. and_then (note_token (rt_mouse_modes_saved_update (\<lambda>_. True)) q)
     (\<lambda>_ q. and_then (queue_command ops Enable_Mouse_Capture q)
     (\<lambda>_. queue_screen ops host_alternate policy)))))"

text \<open>The bytes that undo what the token has noted; a command that cannot be queued is reported.\<close>

definition queue_undo :: "'w crossterm_ops \<Rightarrow> restore_token \<Rightarrow> (u8 list \<times> (io_error + unit)) list" where
  "queue_undo ops token =
     (if rt_mouse_modes_saved token then [(restore_mouse_modes, Inr ())] else [])
     @ (if rt_keyboard_enhancement_pushed token then [co_queue ops Pop_Keyboard_Flags] else [])
     @ (if rt_entered_fresh_alternate_screen token then [co_queue ops Leave_Alternate_Screen] else [])
     @ (if rt_left_host_alternate_screen token then [co_queue ops Enter_Alternate_Screen] else [])"

text \<open>The way back when suspending fails half way; its own errors are dropped.\<close>

definition suspend_cleanup :: "'w crossterm_ops \<Rightarrow> restore_token \<Rightarrow> bool \<Rightarrow> 'w \<Rightarrow> 'w option" where
  "suspend_cleanup ops token raw_mode_was_enabled w = do {
     (_, w) \<leftarrow> retrying_write_all ops (concat (map fst (queue_undo ops token))) w;
     (_, w) \<leftarrow> retrying_flush ops w;
     Some (if \<not> raw_mode_was_enabled then snd (co_disable_raw_mode ops w) else w)
   }"

definition suspend_screen ::
    "'w crossterm_ops \<Rightarrow> bool \<Rightarrow> attach_screen_policy \<Rightarrow> bool \<Rightarrow> 'w \<Rightarrow> ((io_error + restore_token) \<times> 'w) option" where
  "suspend_screen ops host_alternate policy raw_mode_was_enabled w = do {
     let token = (restore_token_new policy) \<lparr>rt_raw_mode_was_enabled := raw_mode_was_enabled\<rparr>;
     (queued, bytes, token) \<leftarrow> queue_suspend ops host_alternate policy ([], token);
     (result, w) \<leftarrow> (case queued of Inl e \<Rightarrow> Some (Inl e, w) | Inr _ \<Rightarrow> write_and_flush ops bytes w);
     case result of
       Inl e \<Rightarrow> do { w \<leftarrow> suspend_cleanup ops token raw_mode_was_enabled w; Some (Inl e, w) }
     | Inr _ \<Rightarrow> Some (Inr token, w)
   }"

definition suspend_for_attach ::
    "'w crossterm_ops \<Rightarrow> 'w crossterm_control \<Rightarrow> attach_screen_policy \<Rightarrow>
     ((io_error + restore_token) \<times> 'w crossterm_control) option" where
  "suspend_for_attach ops c policy =
     map_option (map_prod id (\<lambda>w. c \<lparr>cc_world := w\<rparr>))
       (and_then (retrying_flush ops (cc_world c))
       (\<lambda>_ w. and_then (Some (co_is_raw_mode_enabled ops w))
       (\<lambda>raw_mode_was_enabled w. and_then
          (Some (if \<not> raw_mode_was_enabled then co_enable_raw_mode ops w else (Inr (), w)))
       (\<lambda>_. suspend_screen ops (cc_host_uses_alternate_screen c) policy raw_mode_was_enabled))))"


section \<open>Restoring\<close>

text \<open>The first error in queueing ends the call before anything is written.\<close>

fun queued_bytes :: "(u8 list \<times> (io_error + unit)) list \<Rightarrow> io_error + u8 list" where
  "queued_bytes [] = Inr []"
| "queued_bytes ((bs, r) # qs) =
     (case r of Inl e \<Rightarrow> Inl e | Inr _ \<Rightarrow> map_sum id ((@) bs) (queued_bytes qs))"

definition restore_after_attach ::
    "'w crossterm_ops \<Rightarrow> 'w crossterm_control \<Rightarrow> restore_token \<Rightarrow>
     ((io_error + unit) \<times> 'w crossterm_control \<times> restore_token) option" where
  "restore_after_attach ops c token =
     (case queued_bytes (queue_undo ops token) of
        Inl e \<Rightarrow> Some (Inl e, c, token)
      | Inr bytes \<Rightarrow>
          map_option (\<lambda>(r, w). (r, c \<lparr>cc_world := w\<rparr>, if isl r then token else consume token))
            (and_then (write_and_flush ops bytes (cc_world c))
            (\<lambda>_ w. if \<not> rt_raw_mode_was_enabled token then Some (co_disable_raw_mode ops w) else Some (Inr (), w))))"


section \<open>Raw standard input and output\<close>

text \<open>The calls of libc on standard input, the size call of crossterm and the clock.\<close>

record 'w stdio_ops =
  so_getfl :: "'w \<Rightarrow> (io_error + 32 word) \<times> 'w"
  so_setfl :: "'w \<Rightarrow> 32 word \<Rightarrow> (io_error + unit) \<times> 'w"
  so_read :: "'w \<Rightarrow> nat \<Rightarrow> (io_error + u8 list) \<times> 'w"
  so_nonblock :: "32 word"
  so_instant :: "'w \<Rightarrow> nat"
  so_size :: "'w \<Rightarrow> (io_error + u16 \<times> u16) \<times> 'w"

text \<open>\<open>RawStdin::new\<close> yields the flags to be put back.\<close>

definition raw_stdin_new :: "'w stdio_ops \<Rightarrow> 'w \<Rightarrow> (io_error + 32 word) \<times> 'w" where
  "raw_stdin_new so w =
     (case so_getfl so w of
        (Inl e, w) \<Rightarrow> (Inl e, w)
      | (Inr original_flags, w) \<Rightarrow>
          (case so_setfl so w (or original_flags (so_nonblock so)) of
             (Inl e, w) \<Rightarrow> (Inl e, w)
           | (Inr _, w) \<Rightarrow> (Inr original_flags, w)))"

definition read_nonblocking :: "'w stdio_ops \<Rightarrow> 'w \<Rightarrow> (io_error + (nat \<times> u8 list) option) \<times> 'w" where
  "read_nonblocking so w =
     (case so_read so w 4096 of
        (Inr bytes, w) \<Rightarrow> (Inr (if bytes \<noteq> [] then Some (so_instant so w, bytes) else None), w)
      | (Inl e, w) \<Rightarrow> (if ie_kind e = WouldBlock then Inr None else Inl e, w))"

definition raw_stdin_drop :: "'w stdio_ops \<Rightarrow> 32 word \<Rightarrow> 'w \<Rightarrow> 'w" where
  "raw_stdin_drop so original_flags w = snd (so_setfl so w original_flags)"

definition stdio_size :: "'w stdio_ops \<Rightarrow> 'w \<Rightarrow> (io_error + pane_size) \<times> 'w" where
  "stdio_size so w = map_prod (map_sum id (\<lambda>(cols, rows). mk_size rows cols)) id (so_size so w)"


section \<open>What is sent to the terminal\<close>

text \<open>The parts that the bytes written consist of, and what takes each of them back. The mouse modes are saved before
  capture is switched on, so restoring them takes both back; showing the cursor, clearing and moving are
  not taken back.\<close>

datatype term_op = Command crossterm_command | Save_Mouse | Restore_Mouse

fun op_bytes :: "'w crossterm_ops \<Rightarrow> term_op \<Rightarrow> u8 list" where
  "op_bytes ops (Command cmd) = fst (co_queue ops cmd)"
| "op_bytes ops Save_Mouse = save_mouse_modes"
| "op_bytes ops Restore_Mouse = restore_mouse_modes"

fun taken_back_by :: "term_op \<Rightarrow> term_op option" where
  "taken_back_by (Command Push_Keyboard_Flags) = Some (Command Pop_Keyboard_Flags)"
| "taken_back_by (Command Leave_Alternate_Screen) = Some (Command Enter_Alternate_Screen)"
| "taken_back_by (Command Enter_Alternate_Screen) = Some (Command Leave_Alternate_Screen)"
| "taken_back_by Save_Mouse = Some Restore_Mouse"
| "taken_back_by _ = None"

fun switches_screen :: "term_op \<Rightarrow> bool" where
  "switches_screen (Command cmd) = (cmd = Leave_Alternate_Screen \<or> cmd = Enter_Alternate_Screen)"
| "switches_screen _ = False"

text \<open>The documented behaviour of the writer and of the raw-mode calls: \<open>sunk\<close> is what was written,
  \<open>raw\<close> whether the terminal is in raw mode. Queueing into a vector does not fail.\<close>

definition honest_ops :: "'w crossterm_ops \<Rightarrow> ('w \<Rightarrow> u8 list) \<Rightarrow> ('w \<Rightarrow> bool) \<Rightarrow> bool" where
  "honest_ops ops sunk raw =
     ((\<forall>w bs n w'. co_write ops w bs = (Inr n, w') \<longrightarrow> n \<le> length bs \<and> sunk w' = sunk w @ take n bs \<and> raw w' = raw w)
      \<and> (\<forall>w bs e w'. co_write ops w bs = (Inl e, w') \<longrightarrow> sunk w' = sunk w \<and> raw w' = raw w)
      \<and> (\<forall>w r w'. co_flush ops w = (r, w') \<longrightarrow> sunk w' = sunk w \<and> raw w' = raw w)
      \<and> (\<forall>w r w'. co_is_raw_mode_enabled ops w = (r, w') \<longrightarrow> sunk w' = sunk w \<and> raw w' = raw w \<and> (\<forall>b. r = Inr b \<longrightarrow> b = raw w))
      \<and> (\<forall>w r w'. co_enable_raw_mode ops w = (r, w') \<longrightarrow> sunk w' = sunk w \<and> raw w' = (\<not> isl r \<or> raw w))
      \<and> (\<forall>w r w'. co_disable_raw_mode ops w = (r, w') \<longrightarrow> sunk w' = sunk w \<and> raw w' = (isl r \<and> raw w))
      \<and> (\<forall>cmd. \<not> isl (snd (co_queue ops cmd))))"

lemma write_all_honest:
  assumes d: "retrying_write_all ops bytes w = Some r" and h: "honest_ops ops sunk raw"
  shows "raw (snd r) = raw w \<and> (\<exists>n. sunk (snd r) = sunk w @ take n bytes) \<and> (\<not> isl (fst r) \<longrightarrow> sunk (snd r) = sunk w @ bytes)"
proof -
  let ?P = "\<lambda>ops bytes w r. honest_ops ops sunk raw \<longrightarrow> raw (snd r) = raw w \<and> (\<exists>n. sunk (snd r) = sunk w @ take n bytes)
      \<and> (\<not> isl (fst r) \<longrightarrow> sunk (snd r) = sunk w @ bytes)"
  have "?P ops bytes w r"
  proof (rule retrying_write_all.raw_induct [of ?P, OF _ d], goal_cases)
    case 1: (1 loop ops bytes w r)
    obtain x w1 where x: "co_write ops w bytes = (x, w1)" by fastforce
    show ?case
    proof (cases "bytes = []")
      case True
      then show ?thesis using 1(2) by auto
    next
      case ne: False
      show ?thesis
      proof (cases x)
        case (Inl e)
        then have "honest_ops ops sunk raw \<longrightarrow> sunk w1 = sunk w \<and> raw w1 = raw w" using x by (auto simp: honest_ops_def)
        moreover have "loop ops bytes w1 = Some r \<or> r = (Inl e, w1)" using 1(2) x Inl ne by (auto split: if_splits)
        ultimately show ?thesis using 1(1) [of ops bytes w1 r] by (auto intro: exI [of _ 0])
      next
        case (Inr n)
        then have k: "honest_ops ops sunk raw \<longrightarrow> n \<le> length bytes \<and> sunk w1 = sunk w @ take n bytes \<and> raw w1 = raw w"
          using x by (auto simp: honest_ops_def)
        show ?thesis
        proof (cases "n = 0")
          case True
          then show ?thesis using 1(2) x Inr ne k by (auto intro: exI [of _ 0])
        next
          case False
          then have l: "loop ops (drop n bytes) w1 = Some r" using 1(2) x Inr ne by (auto split: if_splits)
          have t: "take n bytes @ take m (drop n bytes) = take (n + m) bytes" for m by (simp add: take_add)
          show ?thesis using 1(1) [OF l] k t by (metis append.assoc append_take_drop_id)
        qed
      qed
    qed
  qed
  then show ?thesis using h by blast
qed

lemma flush_honest:
  assumes d: "retrying_flush ops w = Some r" and h: "honest_ops ops sunk raw"
  shows "raw (snd r) = raw w \<and> sunk (snd r) = sunk w"
proof -
  let ?P = "\<lambda>ops w r. honest_ops ops sunk raw \<longrightarrow> raw (snd r) = raw w \<and> sunk (snd r) = sunk w"
  have "?P ops w r"
  proof (rule retrying_flush.raw_induct [of ?P, OF _ d], goal_cases)
    case 1: (1 loop ops w r)
    obtain x w1 where x: "co_flush ops w = (x, w1)" by fastforce
    then have "honest_ops ops sunk raw \<longrightarrow> sunk w1 = sunk w \<and> raw w1 = raw w" by (auto simp: honest_ops_def)
    moreover have "snd r = w1 \<or> loop ops w1 = Some r" using 1(2) unfolding x by (cases x) (auto split: if_splits)
    ultimately show ?case using 1(1) [of ops w1 r] by auto
  qed
  then show ?thesis using h by blast
qed

lemma write_and_flush_honest:
  assumes "write_and_flush ops bytes w = Some (r, w')" "honest_ops ops sunk raw"
  shows "raw w' = raw w \<and> (\<exists>n. sunk w' = sunk w @ take n bytes) \<and> (\<not> isl r \<longrightarrow> sunk w' = sunk w @ bytes)"
  using assms(1) unfolding write_and_flush_def
proof (cases rule: and_then_SomeE)
  case (err e)
  then show ?thesis using write_all_honest [OF err(1) assms(2)] by simp
next
  case (ok v w1)
  then show ?thesis using write_all_honest [OF ok(1) assms(2)] flush_honest [OF ok(2) assms(2)]
    by (auto intro: exI [of _ "length bytes"])
qed


section \<open>Suspending and restoring\<close>

definition suspend_acts :: "bool \<Rightarrow> attach_screen_policy \<Rightarrow> term_op list" where
  "suspend_acts host_alternate policy =
     [Command Push_Keyboard_Flags, Save_Mouse, Command Enable_Mouse_Capture, Command Show_Cursor]
     @ (case policy of
          ReuseHostAlternateScreen \<Rightarrow> []
        | LeaveAlternateScreen \<Rightarrow> (if host_alternate then [Command Leave_Alternate_Screen] else [])
        | EnterFreshAlternateScreen \<Rightarrow>
            (if host_alternate then [] else [Command Enter_Alternate_Screen]) @ [Command Clear_All, Command Move_To_Origin])"

definition undo_acts :: "restore_token \<Rightarrow> term_op list" where
  "undo_acts token =
     (if rt_mouse_modes_saved token then [Restore_Mouse] else [])
     @ (if rt_keyboard_enhancement_pushed token then [Command Pop_Keyboard_Flags] else [])
     @ (if rt_entered_fresh_alternate_screen token then [Command Leave_Alternate_Screen] else [])
     @ (if rt_left_host_alternate_screen token then [Command Enter_Alternate_Screen] else [])"

definition suspend_token :: "bool \<Rightarrow> attach_screen_policy \<Rightarrow> bool \<Rightarrow> restore_token" where
  "suspend_token host_alternate policy raw_mode_was_enabled =
     \<lparr>rt_screen_policy = policy, rt_consumed = False, rt_raw_mode_was_enabled = raw_mode_was_enabled,
      rt_left_host_alternate_screen = (policy = LeaveAlternateScreen \<and> host_alternate),
      rt_entered_fresh_alternate_screen = (policy = EnterFreshAlternateScreen \<and> \<not> host_alternate),
      rt_keyboard_enhancement_pushed = True, rt_mouse_modes_saved = True\<rparr>"

lemma queue_command_honest:
  assumes "honest_ops ops sunk raw"
  shows "queue_command ops cmd (bytes, token) = Some (Inr (), bytes @ fst (co_queue ops cmd), token)"
proof -
  have "\<not> isl (snd (co_queue ops cmd))" using assms by (simp add: honest_ops_def)
  then have "co_queue ops cmd = (fst (co_queue ops cmd), Inr ())" by (cases "co_queue ops cmd"; cases "snd (co_queue ops cmd)") auto
  then show ?thesis unfolding queue_command_def by (metis prod.case)
qed

lemma queue_suspend_honest:
  assumes "honest_ops ops sunk raw"
  shows "queue_suspend ops host_alternate policy ([], (restore_token_new policy) \<lparr>rt_raw_mode_was_enabled := raw0\<rparr>)
    = Some (Inr (), concat (map (op_bytes ops) (suspend_acts host_alternate policy)), suspend_token host_alternate policy raw0)"
  by (cases policy) (simp_all add: queue_suspend_def queue_screen_def queue_command_honest [OF assms] note_token_def queue_bytes_def
      suspend_acts_def suspend_token_def restore_token_new_def)

lemma undo_bytes: "concat (map fst (queue_undo ops token)) = concat (map (op_bytes ops) (undo_acts token))"
  by (simp add: queue_undo_def undo_acts_def)

lemma queued_bytes_ok: "list_all (\<lambda>q. \<not> isl (snd q)) qs \<Longrightarrow> queued_bytes qs = Inr (concat (map fst qs))"
  by (induction qs rule: queued_bytes.induct) (auto split: sum.splits)

lemma queued_undo_honest:
  assumes "honest_ops ops sunk raw"
  shows "queued_bytes (queue_undo ops token) = Inr (concat (map (op_bytes ops) (undo_acts token)))"
proof -
  have "list_all (\<lambda>q. \<not> isl (snd q)) (queue_undo ops token)" using assms by (simp add: queue_undo_def honest_ops_def)
  then show ?thesis by (simp add: queued_bytes_ok undo_bytes)
qed

lemma acts_undone:
  fixes host_alternate policy raw0
  defines "acts \<equiv> suspend_acts host_alternate policy" and "undo \<equiv> undo_acts (suspend_token host_alternate policy raw0)"
  shows "distinct undo \<and> set undo = set (List.map_filter taken_back_by acts)
    \<and> undo = [Restore_Mouse, Command Pop_Keyboard_Flags] @ List.map_filter taken_back_by (filter switches_screen acts)"
  unfolding acts_def undo_def
  by (cases policy) (auto simp: suspend_acts_def undo_acts_def suspend_token_def map_filter_simps)

lemma suspend_screen_honest:
  assumes "suspend_screen ops host_alternate policy raw0 w = Some (r, w')" "honest_ops ops sunk raw" "raw w"
  shows "case r of
      Inr token \<Rightarrow> token = suspend_token host_alternate policy raw0 \<and> raw w'
        \<and> sunk w' = sunk w @ concat (map (op_bytes ops) (suspend_acts host_alternate policy))
    | Inl e \<Rightarrow> (\<forall>w. \<not> isl (fst (co_disable_raw_mode ops w))) \<longrightarrow> raw w' = raw0"
proof -
  obtain x w1 where x: "write_and_flush ops (concat (map (op_bytes ops) (suspend_acts host_alternate policy))) w = Some (x, w1)"
    "(case x of
       Inl e \<Rightarrow> do { w \<leftarrow> suspend_cleanup ops (suspend_token host_alternate policy raw0) raw0 w1; Some (Inl e, w) }
     | Inr _ \<Rightarrow> Some (Inr (suspend_token host_alternate policy raw0), w1)) = Some (r, w')"
    using assms(1) by (auto simp: suspend_screen_def queue_suspend_honest [OF assms(2)] bind_eq_Some_conv Let_def)
  note w1 = write_and_flush_honest [OF x(1) assms(2)]
  show ?thesis
  proof (cases x)
    case (Inr u)
    then show ?thesis using x(2) w1 assms(3) by auto
  next
    case (Inl e)
    then obtain ra w2 rb w3 where c: "retrying_write_all ops (concat (map fst (queue_undo ops (suspend_token host_alternate policy raw0)))) w1
        = Some (ra, w2)" "retrying_flush ops w2 = Some (rb, w3)"
      "w' = (if \<not> raw0 then snd (co_disable_raw_mode ops w3) else w3)" "r = Inl e"
      using x(2) by (auto simp: suspend_cleanup_def bind_eq_Some_conv)
    have "raw w3" using write_all_honest [OF c(1) assms(2)] flush_honest [OF c(2) assms(2)] w1 assms(3) by simp
    moreover have "raw (snd (co_disable_raw_mode ops w3)) = (isl (fst (co_disable_raw_mode ops w3)) \<and> raw w3)"
      using assms(2) by (simp add: honest_ops_def)
    ultimately show ?thesis using c(3,4) by auto
  qed
qed

lemma restore_honest:
  assumes "restore_after_attach ops c token = Some (Inr u, c', token')" "honest_ops ops sunk raw" "raw (cc_world c)"
  shows "raw (cc_world c') = rt_raw_mode_was_enabled token \<and> rt_consumed token'
    \<and> sunk (cc_world c') = sunk (cc_world c) @ concat (map (op_bytes ops) (undo_acts token))"
proof -
  let ?bytes = "concat (map (op_bytes ops) (undo_acts token))"
  obtain w' where w': "and_then (write_and_flush ops ?bytes (cc_world c))
      (\<lambda>_ w. if \<not> rt_raw_mode_was_enabled token then Some (co_disable_raw_mode ops w) else Some (Inr (), w)) = Some (Inr u, w')"
    "cc_world c' = w'" "token' = consume token"
    using assms(1) by (auto simp: restore_after_attach_def queued_undo_honest [OF assms(2)])
  obtain w1 where w1: "write_and_flush ops ?bytes (cc_world c) = Some (Inr (), w1)"
    "(if \<not> rt_raw_mode_was_enabled token then Some (co_disable_raw_mode ops w1) else Some (Inr (), w1)) = Some (Inr u, w')"
    using w'(1) by (auto elim!: and_then_SomeE)
  have "sunk w1 = sunk (cc_world c) @ ?bytes" "raw w1" using write_and_flush_honest [OF w1(1) assms(2)] assms(3) by simp_all
  moreover have "sunk w' = sunk w1 \<and> raw w' = rt_raw_mode_was_enabled token"
    using w1(2) assms(2) \<open>raw w1\<close> by (auto simp: honest_ops_def split: if_splits)
  ultimately show ?thesis by (simp add: w' consume_def)
qed

text \<open>A world that counts the writes that still fail, and keeps what was written and the raw mode.\<close>

definition noting_crossterm :: "(nat \<times> u8 list \<times> bool) crossterm_ops" where
  "noting_crossterm =
     \<lparr>co_write = (\<lambda>(k, out, raw) bs. if k = 0 then (Inr (length bs), 0, out @ bs, raw) else (Inl write_zero, k - 1, out, raw)),
      co_flush = (\<lambda>w. (Inr (), w)),
      co_is_raw_mode_enabled = (\<lambda>(k, out, raw). (Inr raw, k, out, raw)),
      co_enable_raw_mode = (\<lambda>(k, out, raw). (Inr (), k, out, True)),
      co_disable_raw_mode = (\<lambda>(k, out, raw). (Inr (), k, out, False)),
      co_queue = (\<lambda>cmd. ([case cmd of Pop_Keyboard_Flags \<Rightarrow> 1 | _ \<Rightarrow> 2], Inr ()))\<rparr>"

lemma noting_crossterm_honest: "honest_ops noting_crossterm (\<lambda>w. fst (snd w)) (\<lambda>w. snd (snd w))"
  by (auto simp: honest_ops_def noting_crossterm_def split: prod.splits if_splits)

lemma noting_raw:
  "co_is_raw_mode_enabled noting_crossterm (k, out, raw) = (Inr raw, k, out, raw)"
  "co_enable_raw_mode noting_crossterm (k, out, raw) = (Inr (), k, out, True)"
  "co_disable_raw_mode noting_crossterm (k, out, raw) = (Inr (), k, out, False)"
  by (simp_all add: noting_crossterm_def)

lemma noting_flush: "retrying_flush noting_crossterm w = Some (Inr (), w)"
  by (subst retrying_flush.simps) (simp add: noting_crossterm_def)

lemma noting_write: "retrying_write_all noting_crossterm bs (0, out, raw) = Some (Inr (), 0, out @ bs, raw)"
proof -
  have nil: "retrying_write_all noting_crossterm [] w = Some (Inr (), w)" for w by (subst retrying_write_all.simps) simp
  show ?thesis by (subst retrying_write_all.simps) (simp add: noting_crossterm_def nil [unfolded noting_crossterm_def])
qed

lemma noting_fails:
  "bs \<noteq> [] \<Longrightarrow> retrying_write_all noting_crossterm bs (Suc k, out, raw) = Some (Inl write_zero, k, out, raw)"
  by (subst retrying_write_all.simps) (simp add: noting_crossterm_def write_zero_def is_transient_io_def)

text \<open>C11: The crossterm host takes back what it sent. When suspending succeeds the terminal is in raw mode and was
  sent exactly the commands that the screen policy asks for, however the writes were cut and retried;
  a later restore with the token puts raw mode back as it was and sends, each exactly once, what takes these
  commands back and nothing else: the mouse modes and the keyboard flags first, then the switch back to the
  screen of the host, if there was one. When suspending fails, raw mode is as it was unless leaving it failed.\<close>

theorem crossterm_gives_back:
  assumes "suspend_for_attach ops c policy = Some (r, c1)" "honest_ops ops sunk raw"
    and "acts = suspend_acts (cc_host_uses_alternate_screen c) policy"
  shows "case r of
      Inr token \<Rightarrow> raw (cc_world c1) \<and> sunk (cc_world c1) = sunk (cc_world c) @ concat (map (op_bytes ops) acts)
        \<and> (\<forall>c2 u c3 token3. restore_after_attach ops c2 token = Some (Inr u, c3, token3) \<and> raw (cc_world c2) \<longrightarrow>
             raw (cc_world c3) = raw (cc_world c) \<and> rt_consumed token3
             \<and> (\<exists>undo. sunk (cc_world c3) = sunk (cc_world c2) @ concat (map (op_bytes ops) undo)
                  \<and> distinct undo \<and> set undo = set (List.map_filter taken_back_by acts)
                  \<and> undo = [Restore_Mouse, Command Pop_Keyboard_Flags]
                       @ List.map_filter taken_back_by (filter switches_screen acts)))
    | Inl e \<Rightarrow> (\<forall>w. \<not> isl (fst (co_disable_raw_mode ops w))) \<longrightarrow> raw (cc_world c1) = raw (cc_world c)"
proof -
  let ?alt = "cc_host_uses_alternate_screen c"
  let ?screen = "\<lambda>raw0. suspend_screen ops ?alt policy raw0"
  obtain w' where w': "and_then (retrying_flush ops (cc_world c)) (\<lambda>_ w. and_then (Some (co_is_raw_mode_enabled ops w))
       (\<lambda>raw0 w. and_then (Some (if \<not> raw0 then co_enable_raw_mode ops w else (Inr (), w))) (\<lambda>_. ?screen raw0))) = Some (r, w')"
    "cc_world c1 = w'"
    using assms(1) by (auto simp: suspend_for_attach_def)
  note h = assms(2)
  show ?thesis using w'(1)
  proof (cases rule: and_then_SomeE)
    case (err e)
    then show ?thesis using flush_honest [OF err(1) h] w'(2) by simp
  next
    case (ok v wa)
    have a: "raw wa = raw (cc_world c)" "sunk wa = sunk (cc_world c)" using flush_honest [OF ok(1) h] by simp_all
    show ?thesis using ok(2)
    proof (cases rule: and_then_SomeE)
      case (err e)
      then show ?thesis using h a w'(2) by (auto simp: honest_ops_def)
    next
      case (ok raw0 wb)
      have b: "raw wb = raw wa" "sunk wb = sunk wa" "raw0 = raw wa" using ok(1) h by (auto simp: honest_ops_def)
      show ?thesis using ok(2)
      proof (cases rule: and_then_SomeE)
        case (err e)
        then show ?thesis using h a b w'(2) by (auto simp: honest_ops_def split: if_splits)
      next
        case (ok v wc)
        have c: "raw wc" "sunk wc = sunk wb" using ok(1) h b by (auto simp: honest_ops_def split: if_splits)
        note s = suspend_screen_honest [OF ok(2) h c(1)]
        show ?thesis
        proof (cases r)
          case (Inl e)
          then show ?thesis using s a b w'(2) by simp
        next
          case (Inr token)
          have t: "token = suspend_token ?alt policy raw0" "raw w'"
            "sunk w' = sunk (cc_world c) @ concat (map (op_bytes ops) (suspend_acts ?alt policy))"
            using s Inr a b c by simp_all
          have undone: "raw (cc_world c3) = raw (cc_world c) \<and> rt_consumed token3
             \<and> (\<exists>undo. sunk (cc_world c3) = sunk (cc_world c2) @ concat (map (op_bytes ops) undo)
                  \<and> distinct undo \<and> set undo = set (List.map_filter taken_back_by acts)
                  \<and> undo = [Restore_Mouse, Command Pop_Keyboard_Flags]
                       @ List.map_filter taken_back_by (filter switches_screen acts))"
            if r: "restore_after_attach ops c2 token = Some (Inr u, c3, token3)" "raw (cc_world c2)" for c2 u c3 token3
          proof -
            have "rt_raw_mode_was_enabled token = raw (cc_world c)" using t(1) a b by (simp add: suspend_token_def)
            then show ?thesis using restore_honest [OF r(1) h r(2)] acts_undone [of ?alt policy raw0]
              unfolding t(1) assms(3) by blast
          qed
          show ?thesis unfolding Inr sum.case
            by (intro conjI allI impI) (use undone t(2,3) w'(2) assms(3) in blast)+
        qed
      qed
    qed
  qed
qed

text \<open>A host on the alternate screen that lends the main screen.\<close>

theorem crossterm_gives_back_witness:
  "\<exists>token c1 c3 token3.
     suspend_for_attach noting_crossterm (with_host_alternate_screen True (with_raw_mode_ops (0, [], False))) LeaveAlternateScreen
       = Some (Inr token, c1)
     \<and> snd (snd (cc_world c1))
     \<and> restore_after_attach noting_crossterm c1 token = Some (Inr (), c3, token3)
     \<and> \<not> snd (snd (cc_world c3)) \<and> rt_consumed token3
     \<and> fst (snd (cc_world c3)) = fst (snd (cc_world c1)) @ restore_mouse_modes @ [1] @ [2]"
proof -
  let ?c = "with_host_alternate_screen True (with_raw_mode_ops (0 :: nat, [] :: u8 list, False))"
  have c: "cc_host_uses_alternate_screen ?c = True" "cc_world ?c = (0, [], False)"
    by (simp_all add: with_host_alternate_screen_def with_raw_mode_ops_def)
  note q = queue_suspend_honest [OF noting_crossterm_honest]
  obtain token c1 where s: "suspend_for_attach noting_crossterm ?c LeaveAlternateScreen = Some (Inr token, c1)"
    and w: "cc_world c1 = (0, concat (map (op_bytes noting_crossterm) (suspend_acts True LeaveAlternateScreen)), True)"
    by (simp add: suspend_for_attach_def c noting_flush noting_raw suspend_screen_def q write_and_flush_def
        noting_write Let_def)
  note given = crossterm_gives_back [OF s noting_crossterm_honest refl, unfolded c sum.case]
  obtain c3 where r: "restore_after_attach noting_crossterm c1 token = Some (Inr (), c3, consume token)"
    by (cases "rt_raw_mode_was_enabled token")
      (simp_all add: restore_after_attach_def queued_undo_honest [OF noting_crossterm_honest] write_and_flush_def w
        noting_write noting_flush noting_raw)
  have pop: "op_bytes noting_crossterm (Command Pop_Keyboard_Flags) = [1]"
    "op_bytes noting_crossterm (Command Enter_Alternate_Screen) = [2]" by (simp_all add: noting_crossterm_def)
  have "restore_after_attach noting_crossterm c1 token = Some (Inr (), c3, consume token) \<and> snd (snd (cc_world c1))"
    using r w by simp
  note restored = given [THEN conjunct2, THEN conjunct2, rule_format, OF this]
  have m: "List.map_filter taken_back_by (filter switches_screen (suspend_acts True LeaveAlternateScreen))
      = [Command Enter_Alternate_Screen]" by (simp add: suspend_acts_def)
  obtain undo where u: "fst (snd (cc_world c3)) = fst (snd (cc_world c1)) @ concat (map (op_bytes noting_crossterm) undo)"
    "undo = [Restore_Mouse, Command Pop_Keyboard_Flags, Command Enter_Alternate_Screen]"
    using restored unfolding m by auto
  have "fst (snd (cc_world c3)) = fst (snd (cc_world c1)) @ restore_mouse_modes @ [1] @ [2]"
    unfolding u list.map op_bytes.simps(3) pop by simp
  then have "\<not> snd (snd (cc_world c3)) \<and> rt_consumed (consume token)
     \<and> fst (snd (cc_world c3)) = fst (snd (cc_world c1)) @ restore_mouse_modes @ [1] @ [2]" using restored by simp
  then show ?thesis using s r w by auto
qed

text \<open>When the first write of a suspend fails, nothing of it has reached the terminal, and yet the way back takes a set
  of keyboard flags off it: one that the host had put there.\<close>

lemma failed_suspend_pops_host:
  "\<exists>e c1. suspend_for_attach noting_crossterm (with_raw_mode_ops (1, [], True)) ReuseHostAlternateScreen = Some (Inl e, c1)
     \<and> fst (snd (cc_world c1)) = restore_mouse_modes @ fst (co_queue noting_crossterm Pop_Keyboard_Flags)"
proof -
  note q = queue_suspend_honest [OF noting_crossterm_honest]
  let ?t = "suspend_token False ReuseHostAlternateScreen True"
  have "suspend_for_attach noting_crossterm (with_raw_mode_ops (1, [], True)) ReuseHostAlternateScreen
      = Some (Inl write_zero, \<lparr>cc_world = (0, concat (map (op_bytes noting_crossterm) (undo_acts ?t)), True),
          cc_host_uses_alternate_screen = False\<rparr>)"
    by (simp add: suspend_for_attach_def with_raw_mode_ops_def noting_flush noting_raw suspend_screen_def q write_and_flush_def
        noting_fails noting_write suspend_cleanup_def undo_bytes suspend_acts_def save_mouse_modes_def Let_def)
  moreover have "concat (map (op_bytes noting_crossterm) (undo_acts ?t))
      = restore_mouse_modes @ fst (co_queue noting_crossterm Pop_Keyboard_Flags)"
    by (simp add: undo_acts_def suspend_token_def)
  ultimately show ?thesis by fastforce
qed

end
