(* ===== verification/Pane_Widget.thy ===== *)
theory Pane_Widget
  imports Manager_Lifecycle Viewport
begin

text \<open>
  The ratatui widget of the crate \<open>panesmith-ratatui\<close> (\<open>widget.rs\<close>): a pane's screen and scrollback
  drawn into a part of a frame. Ratatui's buffers, rectangles and styles are operations of a
  record; drawing outside a buffer panics, which is \<open>None\<close>.
\<close>

section \<open>Ratatui\<close>

record rect =
  rc_x :: u16
  rc_y :: u16
  rc_width :: u16
  rc_height :: u16

datatype tui_color = TC_Indexed u8 | TC_Rgb u8 u8 u8

datatype modifier =
  M_Bold | M_Dim | M_Italic | M_Underlined | M_Slow_Blink | M_Rapid_Blink | M_Reversed | M_Hidden | M_Crossed_Out

record ('b, 'y) ratatui =
  rt_area :: "'b \<Rightarrow> rect"
  rt_intersection :: "rect \<Rightarrow> rect \<Rightarrow> rect"
  rt_is_empty :: "rect \<Rightarrow> bool"
  rt_right :: "rect \<Rightarrow> u16"
  rt_bottom :: "rect \<Rightarrow> u16"
  rt_has :: "u16 \<times> u16 \<Rightarrow> 'b \<Rightarrow> bool"
  rt_reset :: "u16 \<times> u16 \<Rightarrow> 'b \<Rightarrow> 'b option"
  rt_set_symbol :: "u16 \<times> u16 \<Rightarrow> rstr \<Rightarrow> 'b \<Rightarrow> 'b option"
  rt_set_char :: "u16 \<times> u16 \<Rightarrow> rchar \<Rightarrow> 'b \<Rightarrow> 'b option"
  rt_set_style :: "u16 \<times> u16 \<Rightarrow> 'y \<Rightarrow> 'b \<Rightarrow> 'b option"
  rt_set_stringn :: "u16 \<times> u16 \<Rightarrow> rstr \<Rightarrow> nat \<Rightarrow> 'y \<Rightarrow> 'b \<Rightarrow> 'b option"
  st_new :: 'y
  st_default :: 'y
  st_fg :: "tui_color \<Rightarrow> 'y \<Rightarrow> 'y"
  st_bg :: "tui_color \<Rightarrow> 'y \<Rightarrow> 'y"
  st_add_modifier :: "modifier set \<Rightarrow> 'y \<Rightarrow> 'y"
  st_remove_modifier :: "modifier set \<Rightarrow> 'y \<Rightarrow> 'y"
  st_added :: "'y \<Rightarrow> modifier set"
  st_subtracted :: "'y \<Rightarrow> modifier set"

text \<open>A loop whose body may panic.\<close>

primrec for_each :: "('a \<Rightarrow> 'b \<Rightarrow> 'b option) \<Rightarrow> 'a list \<Rightarrow> 'b \<Rightarrow> 'b option" where
  "for_each f [] b = Some b"
| "for_each f (x # xs) b = Option.bind (f x b) (for_each f xs)"


section \<open>The widget\<close>

datatype cursor_render_mode = Cursor_Hidden | Cursor_InvertCell

record pane_widget =
  wd_snapshot :: pane_snapshot
  wd_scrollback :: "scrollback_line list option"
  wd_viewport :: viewport
  wd_focused :: bool
  wd_cursor_render_mode :: cursor_render_mode

definition widget_new :: "pane_snapshot \<Rightarrow> pane_widget" where
  "widget_new s =
     \<lparr>wd_snapshot = s, wd_scrollback = None, wd_viewport = viewport_default, wd_focused = True,
      wd_cursor_render_mode = Cursor_InvertCell\<rparr>"

definition with_scrollback :: "scrollback_line list \<Rightarrow> pane_widget \<Rightarrow> pane_widget" where
  "with_scrollback scrollback1 w = w \<lparr>wd_scrollback := Some scrollback1\<rparr>"

definition with_viewport :: "viewport \<Rightarrow> pane_widget \<Rightarrow> pane_widget" where
  "with_viewport v w = w \<lparr>wd_viewport := v\<rparr>"

definition with_focus :: "bool \<Rightarrow> pane_widget \<Rightarrow> pane_widget" where
  "with_focus b w = w \<lparr>wd_focused := b\<rparr>"

definition with_cursor_render_mode :: "cursor_render_mode \<Rightarrow> pane_widget \<Rightarrow> pane_widget" where
  "with_cursor_render_mode mode w = w \<lparr>wd_cursor_render_mode := mode\<rparr>"


section \<open>Styles\<close>

definition map_color :: "color_spec option \<Rightarrow> tui_color option" where
  "map_color color =
     (case (case color of Some c \<Rightarrow> c | None \<Rightarrow> Color_Default) of
        Color_Default \<Rightarrow> None
      | Color_Indexed i \<Rightarrow> Some (TC_Indexed i)
      | Color_Rgb r g b \<Rightarrow> Some (TC_Rgb r g b))"

definition map_modifiers :: "cell_attrs \<Rightarrow> modifier set" where
  "map_modifiers attrs =
     (if ca_bold attrs then {M_Bold} else {}) \<union> (if ca_dim attrs then {M_Dim} else {})
     \<union> (if ca_italic attrs then {M_Italic} else {}) \<union> (if ca_underlined attrs then {M_Underlined} else {})
     \<union> (if ca_slow_blink attrs then {M_Slow_Blink} else {}) \<union> (if ca_rapid_blink attrs then {M_Rapid_Blink} else {})
     \<union> (if ca_reversed attrs then {M_Reversed} else {}) \<union> (if ca_hidden attrs then {M_Hidden} else {})
     \<union> (if ca_crossed_out attrs then {M_Crossed_Out} else {})"

definition map_style :: "('b, 'y) ratatui \<Rightarrow> cell_style \<Rightarrow> 'y" where
  "map_style R style =
     (let mapped = st_new R;
          mapped = (case map_color (cs_fg style) of Some fg \<Rightarrow> st_fg R fg mapped | None \<Rightarrow> mapped);
          mapped = (case map_color (cs_bg style) of Some bg \<Rightarrow> st_bg R bg mapped | None \<Rightarrow> mapped);
          modifiers = map_modifiers (cs_attrs style)
      in if modifiers \<noteq> {} then st_add_modifier R modifiers mapped else mapped)"

definition cursor_style :: "('b, 'y) ratatui \<Rightarrow> 'y \<Rightarrow> cursor_render_mode \<Rightarrow> 'y" where
  "cursor_style R style mode =
     (case mode of
        Cursor_Hidden \<Rightarrow> style
      | Cursor_InvertCell \<Rightarrow>
          if M_Reversed \<in> st_added R style \<and> M_Reversed \<notin> st_subtracted R style
          then st_remove_modifier R {M_Reversed} style
          else st_add_modifier R {M_Reversed} style)"


section \<open>Drawing\<close>

definition clear_area :: "('b, 'y) ratatui \<Rightarrow> rect \<Rightarrow> 'b \<Rightarrow> 'b option" where
  "clear_area R area =
     for_each (\<lambda>y. for_each (\<lambda>x. rt_reset R (of_nat x, of_nat y)) [unat (rc_x area)..<unat (rt_right R area)])
       [unat (rc_y area)..<unat (rt_bottom R area)]"

definition sat_succ :: "u16 \<Rightarrow> u16" where
  "sat_succ x = (if x = 0xFFFF then x else x + 1)"

definition render_cell ::
    "('b, 'y) ratatui \<Rightarrow> rect \<Rightarrow> u16 \<Rightarrow> u16 \<Rightarrow> bool \<Rightarrow> bool \<Rightarrow> surface_cell \<Rightarrow> cursor_render_mode \<Rightarrow> 'b \<Rightarrow> 'b option" where
  "render_cell R area x y at_right_edge render_cursor cell mode b =
     (let base_style = map_style R (sc_style cell);
          style = (if render_cursor then cursor_style R base_style mode else base_style);
          symbol = (if sc_text cell = [] then lit '' '' else sc_text cell)
      in if \<not> rt_has R (x, y) b then None
         else if sc_width cell = CW_Continuation then Some b
         else if sc_width cell = CW_Double \<and> at_right_edge then do {
           b \<leftarrow> rt_set_char R (x, y) 32 b;
           rt_set_style R (x, y) style b
         } else do {
           b \<leftarrow> rt_set_symbol R (x, y) symbol b;
           b \<leftarrow> rt_set_style R (x, y) style b;
           if sc_width cell = CW_Double \<and> sat_succ x < rt_right R area then do {
             b \<leftarrow> rt_reset R (sat_succ x, y) b;
             rt_set_style R (sat_succ x, y) style b
           } else Some b
         })"

text \<open>The loop over the cells of a row, with the flag \<open>cursor_rendered\<close>.\<close>

primrec render_cells ::
    "('b, 'y) ratatui \<Rightarrow> rect \<Rightarrow> u16 \<Rightarrow> nat \<Rightarrow> (u16 \<times> u16) option \<Rightarrow> cursor_render_mode \<Rightarrow>
     (nat \<times> surface_cell) list \<Rightarrow> 'b \<times> bool \<Rightarrow> ('b \<times> bool) option" where
  "render_cells R area y max_cols target mode [] st = Some st"
| "render_cells R area y max_cols target mode (ic # cells) st =
     (let x = rc_x area + of_nat (fst ic);
          render_cursor = (target = Some (x, y))
      in do {
        b \<leftarrow> render_cell R area x y (fst ic + 1 = max_cols) render_cursor (snd ic) mode (fst st);
        render_cells R area y max_cols target mode cells (b, snd st \<or> render_cursor)
      })"

definition render_surface_row ::
    "('b, 'y) ratatui \<Rightarrow> rect \<Rightarrow> u16 \<Rightarrow> nat \<Rightarrow> surface_row option \<Rightarrow> (u16 \<times> u16) option \<Rightarrow> cursor_render_mode \<Rightarrow>
     'b \<Rightarrow> 'b option" where
  "render_surface_row R area y max_cols row target mode b = do {
     (b, cursor_rendered) \<leftarrow>
       (case row of
          Some row \<Rightarrow> render_cells R area y max_cols target mode (enumerate 0 (take max_cols (sr_cells row))) (b, False)
        | None \<Rightarrow> Some (b, False));
     case target of
       Some (tx, ty) \<Rightarrow>
         if \<not> cursor_rendered \<and> ty = y
         then rt_set_style R (tx, ty) (cursor_style R (st_default R) mode) b else Some b
     | None \<Rightarrow> Some b
   }"

definition render_scrollback_line ::
    "('b, 'y) ratatui \<Rightarrow> rect \<Rightarrow> u16 \<Rightarrow> nat \<Rightarrow> scrollback_line \<Rightarrow> 'b \<Rightarrow> 'b option" where
  "render_scrollback_line R area y max_cols line =
     (if sr_cells (sl_row line) = []
      then rt_set_stringn R (rc_x area, y) (sl_text line) (unat (rc_width area)) (st_default R)
      else render_surface_row R area y max_cols (Some (sl_row line)) None Cursor_Hidden)"

definition resolve_cursor_col :: "surface_row option \<Rightarrow> nat \<Rightarrow> nat" where
  "resolve_cursor_col row col =
     (case row of
        Some row \<Rightarrow>
          if col < length (sr_cells row) \<and> sc_width (sr_cells row ! col) = CW_Continuation then col - 1 else col
      | None \<Rightarrow> col)"

text \<open>\<open>slice::get\<close>.\<close>

definition get_nth :: "'a list \<Rightarrow> nat \<Rightarrow> 'a option" where
  "get_nth xs i = (if i < length xs then Some (xs ! i) else None)"

definition cursor_target ::
    "pane_widget \<Rightarrow> rect \<Rightarrow> nat \<Rightarrow> nat \<Rightarrow> nat \<Rightarrow> nat \<Rightarrow> (u16 \<times> u16) option" where
  "cursor_target w area scrollback_rows start_row end_row max_cols =
     (let surface = ps_surface (wd_snapshot w);
          cursor = ps_cursor (wd_snapshot w)
      in if \<not> wd_focused w \<or> wd_cursor_render_mode w = Cursor_Hidden then None
         else if \<not> cu_visible cursor then None
         else case cu_position cursor of
           None \<Rightarrow> None
         | Some (row, col) \<Rightarrow>
             let surface_row_idx = unat row;
                 surface_col_idx = resolve_cursor_col (get_nth (ss_rows surface) surface_row_idx) (unat col);
                 logical_row_idx = scrollback_rows + surface_row_idx
             in if unat (sz_rows (ss_size surface)) \<le> surface_row_idx then None
                else if max_cols \<le> surface_col_idx then None
                else if logical_row_idx < start_row \<or> end_row \<le> logical_row_idx then None
                else Some (rc_x area + of_nat surface_col_idx, rc_y area + of_nat (logical_row_idx - start_row)))"

definition render_logical_row ::
    "('b, 'y) ratatui \<Rightarrow> pane_widget \<Rightarrow> rect \<Rightarrow> nat \<Rightarrow> (u16 \<times> u16) option \<Rightarrow> nat \<times> nat \<Rightarrow> 'b \<Rightarrow> 'b option" where
  "render_logical_row R w area max_cols target ri =
     (case ri of (render_row_idx, logical_row_idx) \<Rightarrow>
        let y = rc_y area + of_nat render_row_idx;
            lines = (case wd_scrollback w of None \<Rightarrow> [] | Some lines \<Rightarrow> lines)
        in case get_nth lines logical_row_idx of
             Some line \<Rightarrow> render_scrollback_line R area y max_cols line
           | None \<Rightarrow>
               render_surface_row R area y max_cols
                 (get_nth (ss_rows (ps_surface (wd_snapshot w))) (logical_row_idx - length lines)) target
                 (wd_cursor_render_mode w))"

definition render_widget :: "('b, 'y) ratatui \<Rightarrow> pane_widget \<Rightarrow> rect \<Rightarrow> 'b \<Rightarrow> 'b option" where
  "render_widget R w area b =
     (let area = rt_intersection R area (rt_area R b)
      in if rt_is_empty R area then Some b
         else do {
           b \<leftarrow> clear_area R area b;
           let surface = ps_surface (wd_snapshot w);
           let max_cols = unat (min (rc_width area) (sz_cols (ss_size surface)));
           let lines = (case wd_scrollback w of None \<Rightarrow> [] | Some lines \<Rightarrow> lines);
           let metrics = metrics_from_counts (wd_viewport w) (unat (sz_rows (ss_size surface))) (length lines)
                 (unat (rc_height area));
           let target = cursor_target w area (length lines) (vm_start_row metrics) (vm_end_row metrics) max_cols;
           for_each (render_logical_row R w area max_cols target)
             (enumerate 0 [vm_start_row metrics..<vm_end_row metrics]) b
         })"


section \<open>Buffers that can be trusted\<close>

definition in_rect :: "rect \<Rightarrow> u16 \<times> u16 \<Rightarrow> bool" where
  "in_rect r p =
     (unat (rc_x r) \<le> unat (fst p) \<and> unat (fst p) < unat (rc_x r) + unat (rc_width r)
      \<and> unat (rc_y r) \<le> unat (snd p) \<and> unat (snd p) < unat (rc_y r) + unat (rc_height r))"

text \<open>A rectangle whose edges are themselves coordinates.\<close>

definition edged :: "('b, 'y) ratatui \<Rightarrow> rect \<Rightarrow> bool" where
  "edged R r = (unat (rt_right R r) = unat (rc_x r) + unat (rc_width r) \<and> unat (rt_bottom R r) = unat (rc_y r) + unat (rc_height r))"

text \<open>The documented behaviour of ratatui, of which \<open>syms\<close> sees the symbol in every cell: an operation on a
  cell inside the buffer succeeds and touches that cell only, a string stays in its row and its width,
  and an intersection lies in both rectangles.\<close>

definition sets :: "('b, 'y) ratatui \<Rightarrow> ('b \<Rightarrow> u16 \<times> u16 \<Rightarrow> rstr) \<Rightarrow> 'b \<Rightarrow> 'b option \<Rightarrow> ((u16 \<times> u16 \<Rightarrow> rstr) \<Rightarrow> bool) \<Rightarrow> bool" where
  "sets R syms b r P = (\<exists>b'. r = Some b' \<and> rt_area R b' = rt_area R b \<and> P (syms b'))"

abbreviation space :: rstr where "space \<equiv> lit '' ''"

definition honest_ratatui :: "('b, 'y) ratatui \<Rightarrow> ('b \<Rightarrow> u16 \<times> u16 \<Rightarrow> rstr) \<Rightarrow> bool" where
  "honest_ratatui R syms =
     ((\<forall>a. rt_is_empty R a = (rc_width a = 0 \<or> rc_height a = 0))
      \<and> (\<forall>a b. \<not> rt_is_empty R (rt_intersection R a b) \<longrightarrow>
          edged R (rt_intersection R a b) \<and> (\<forall>p. in_rect (rt_intersection R a b) p \<longrightarrow> in_rect a p \<and> in_rect b p))
      \<and> (\<forall>b p. in_rect (rt_area R b) p \<longrightarrow>
          rt_has R p b
          \<and> sets R syms b (rt_reset R p b) (\<lambda>s. s = (syms b)(p := space))
          \<and> (\<forall>t. sets R syms b (rt_set_symbol R p t b) (\<lambda>s. s = (syms b)(p := t)))
          \<and> (\<forall>c. sets R syms b (rt_set_char R p c b) (\<lambda>s. s = (syms b)(p := [c])))
          \<and> (\<forall>y. sets R syms b (rt_set_style R p y b) (\<lambda>s. s = syms b))
          \<and> (\<forall>t n y. sets R syms b (rt_set_stringn R p t n y b)
               (\<lambda>s. \<forall>q. snd q \<noteq> snd p \<or> unat (fst q) < unat (fst p) \<or> unat (fst p) + n \<le> unat (fst q) \<longrightarrow> s q = syms b q))))"

lemma sets_bind:
  assumes "sets R syms b r P" "\<And>b1. rt_area R b1 = rt_area R b \<Longrightarrow> P (syms b1) \<Longrightarrow> sets R syms b1 (f b1) Q"
  shows "sets R syms b (Option.bind r f) Q"
  using assms unfolding sets_def by fastforce

lemma sets_value [simp]: "sets R syms b (Some b) P = P (syms b)"
  by (simp add: sets_def)

lemma sets_weaken: "sets R syms b r P \<Longrightarrow> (\<And>s. P s \<Longrightarrow> Q s) \<Longrightarrow> sets R syms b r Q"
  by (auto simp: sets_def)


section \<open>Positions\<close>

definition at :: "rect \<Rightarrow> nat \<Rightarrow> nat \<Rightarrow> u16 \<times> u16" where
  "at area c r = (rc_x area + of_nat c, rc_y area + of_nat r)"

lemma unat_offset:
  fixes a b :: u16
  assumes "unat b = unat a + n" "c \<le> n"
  shows "unat (a + of_nat c) = unat a + c"
proof -
  have l: "unat b \<le> 65535" by simp
  then have "c \<le> 65535" "unat a + c \<le> 65535" using assms by linarith+
  then show ?thesis by (simp add: unat_word_ariths unat_of_nat take_bit_eq_mod)
qed

lemma at_in_rect:
  assumes "edged R area" "c < unat (rc_width area)" "r < unat (rc_height area)"
  shows "in_rect area (at area c r)" "unat (fst (at area c r)) = unat (rc_x area) + c" "unat (snd (at area c r)) = unat (rc_y area) + r"
proof -
  have x: "unat (rc_x area + of_nat c) = unat (rc_x area) + c"
    using assms by (intro unat_offset [of "rt_right R area"]) (auto simp: edged_def)
  have y: "unat (rc_y area + of_nat r) = unat (rc_y area) + r"
    using assms by (intro unat_offset [of "rt_bottom R area"]) (auto simp: edged_def)
  show "in_rect area (at area c r)" using x y assms by (simp add: in_rect_def at_def)
  show "unat (fst (at area c r)) = unat (rc_x area) + c" "unat (snd (at area c r)) = unat (rc_y area) + r"
    using x y by (simp_all add: at_def)
qed

lemma at_inj:
  assumes "edged R area" "c < unat (rc_width area)" "r < unat (rc_height area)" "c' < unat (rc_width area)" "r' < unat (rc_height area)"
  shows "at area c r = at area c' r' \<longleftrightarrow> c = c' \<and> r = r'"
  using at_in_rect(2,3) [OF assms(1,2,3)] at_in_rect(2,3) [OF assms(1,4,5)] by auto

lemma in_rect_at:
  assumes "in_rect area p"
  obtains c r where "c < unat (rc_width area)" "r < unat (rc_height area)" "p = at area c r"
proof
  have "fst p = rc_x area + (fst p - rc_x area)" "snd p = rc_y area + (snd p - rc_y area)" by simp_all
  then show "p = at area (unat (fst p - rc_x area)) (unat (snd p - rc_y area))" by (cases p) (simp add: at_def)
  have "rc_x area \<le> fst p" "rc_y area \<le> snd p" using assms by (simp_all add: in_rect_def word_le_nat_alt)
  then have "unat (fst p - rc_x area) = unat (fst p) - unat (rc_x area)" "unat (snd p - rc_y area) = unat (snd p) - unat (rc_y area)"
    by (simp_all add: unat_sub)
  then show "unat (fst p - rc_x area) < unat (rc_width area)" "unat (snd p - rc_y area) < unat (rc_height area)"
    using assms by (auto simp: in_rect_def)
qed

lemma next_at:
  assumes "edged R area" "c < unat (rc_width area)"
  shows "sat_succ (rc_x area + of_nat c) = rc_x area + of_nat (c + 1)"
    and "sat_succ (rc_x area + of_nat c) < rt_right R area \<longleftrightarrow> c + 1 < unat (rc_width area)"
proof -
  have u: "unat (rc_x area + of_nat c) = unat (rc_x area) + c" "unat (rc_x area + of_nat (c + 1)) = unat (rc_x area) + (c + 1)"
    by (rule unat_offset [of "rt_right R area" _ "unat (rc_width area)"]; use assms in \<open>simp add: edged_def\<close>)+
  have "unat (rc_x area + of_nat c) < 65535" using u(2) unat_u16_le [of "rc_x area + of_nat (c + 1)"] u(1) by linarith
  then have "rc_x area + of_nat c \<noteq> 0xFFFF" by auto
  then show e: "sat_succ (rc_x area + of_nat c) = rc_x area + of_nat (c + 1)" by (simp add: sat_succ_def)
  show "sat_succ (rc_x area + of_nat c) < rt_right R area \<longleftrightarrow> c + 1 < unat (rc_width area)"
    unfolding e word_less_nat_alt using u(2) assms(1) by (simp add: edged_def)
qed


section \<open>Cells and rows\<close>

definition cell_symbol :: "bool \<Rightarrow> surface_cell \<Rightarrow> rstr" where
  "cell_symbol at_right_edge cell =
     (if sc_width cell = CW_Continuation \<or> sc_text cell = [] \<or> (sc_width cell = CW_Double \<and> at_right_edge)
      then space else sc_text cell)"

definition row_symbol :: "nat \<Rightarrow> surface_cell list \<Rightarrow> nat \<Rightarrow> rstr" where
  "row_symbol max_cols cells c =
     (if c < max_cols \<and> c < length cells then cell_symbol (c + 1 = max_cols) (cells ! c) else space)"

text \<open>A part of the buffer that may be drawn into, and a row of it that is still blank from a column on.\<close>

definition canvas :: "('b, 'y) ratatui \<Rightarrow> ('b \<Rightarrow> u16 \<times> u16 \<Rightarrow> rstr) \<Rightarrow> rect \<Rightarrow> 'b \<Rightarrow> bool" where
  "canvas R syms area b = (honest_ratatui R syms \<and> edged R area \<and> (\<forall>p. in_rect area p \<longrightarrow> in_rect (rt_area R b) p))"

lemma canvas_area: "rt_area R b' = rt_area R b \<Longrightarrow> canvas R syms area b' = canvas R syms area b"
  by (simp add: canvas_def)

lemma canvas_ops:
  assumes "canvas R syms area b" "c < unat (rc_width area)" "r < unat (rc_height area)"
  shows "rt_has R (at area c r) b" "sets R syms b (rt_reset R (at area c r) b) (\<lambda>s. s = (syms b)(at area c r := space))"
    "sets R syms b (rt_set_symbol R (at area c r) t b) (\<lambda>s. s = (syms b)(at area c r := t))"
    "sets R syms b (rt_set_char R (at area c r) k b) (\<lambda>s. s = (syms b)(at area c r := [k]))"
    "sets R syms b (rt_set_style R (at area c r) y b) (\<lambda>s. s = syms b)"
proof -
  have h: "honest_ratatui R syms" "in_rect (rt_area R b) (at area c r)"
    using assms(1) at_in_rect(1) [OF _ assms(2,3)] unfolding canvas_def by blast+
  note o = conjunct2 [OF conjunct2 [OF h(1) [unfolded honest_ratatui_def]], rule_format, OF h(2)]
  show "rt_has R (at area c r) b" "sets R syms b (rt_reset R (at area c r) b) (\<lambda>s. s = (syms b)(at area c r := space))"
    "sets R syms b (rt_set_symbol R (at area c r) t b) (\<lambda>s. s = (syms b)(at area c r := t))"
    "sets R syms b (rt_set_char R (at area c r) k b) (\<lambda>s. s = (syms b)(at area c r := [k]))"
    "sets R syms b (rt_set_style R (at area c r) y b) (\<lambda>s. s = syms b)"
    using o by blast+
qed

lemma then_style:
  assumes "canvas R syms area b" "c < unat (rc_width area)" "k < unat (rc_height area)" "sets R syms b r (\<lambda>s. s = S)"
  shows "sets R syms b (Option.bind r (rt_set_style R (at area c k) y)) (\<lambda>s. s = S)"
proof (rule sets_bind [OF assms(4)])
  fix b1 assume b1: "rt_area R b1 = rt_area R b" "syms b1 = S"
  then have "canvas R syms area b1" using assms(1) canvas_area [OF b1(1)] by (simp only:)
  from canvas_ops(5) [OF this assms(2,3)] show "sets R syms b1 (rt_set_style R (at area c k) y b1) (\<lambda>s. s = S)"
    unfolding b1(2) .
qed

definition blank_from :: "('b \<Rightarrow> u16 \<times> u16 \<Rightarrow> rstr) \<Rightarrow> rect \<Rightarrow> nat \<Rightarrow> nat \<Rightarrow> 'b \<Rightarrow> bool" where
  "blank_from syms area r k b = (\<forall>j. k \<le> j \<longrightarrow> j < unat (rc_width area) \<longrightarrow> syms b (at area j r) = space)"

lemma render_cell_sets:
  assumes c: "canvas R syms area b" "k < unat (rc_width area)" "r < unat (rc_height area)" and blank: "blank_from syms area r k b"
  shows "sets R syms b (render_cell R area (rc_x area + of_nat k) (rc_y area + of_nat r) e cur cell mode b)
    (\<lambda>s. s = (syms b)(at area k r := cell_symbol e cell))"
proof -
  have eq: "(rc_x area + of_nat k, rc_y area + of_nat r) = at area k r" by (simp add: at_def)
  have ed: "edged R area" using c(1) by (simp add: canvas_def)
  note nx = next_at [OF ed c(2)]
  have sp: "(syms b)(at area k r := space) = syms b" using blank c(2) by (auto simp: blank_from_def)
  show ?thesis
  proof (cases "sc_width cell = CW_Continuation")
    case True
    then show ?thesis using canvas_ops(1) [OF c] sp by (simp add: render_cell_def eq cell_symbol_def)
  next
    case nc: False
    show ?thesis
    proof (cases "sc_width cell = CW_Double \<and> e")
      case True
      have "sets R syms b (Option.bind (rt_set_char R (at area k r) 32 b) (rt_set_style R (at area k r) y))
          (\<lambda>s. s = (syms b)(at area k r := space))" for y
        using then_style [OF c canvas_ops(4) [OF c]] by simp
      then show ?thesis using True canvas_ops(1) [OF c] by (simp add: render_cell_def eq cell_symbol_def Let_def)
    next
      case False
      let ?t = "if sc_text cell = [] then space else sc_text cell"
      have t: "cell_symbol e cell = ?t" using nc False by (auto simp: cell_symbol_def simp del: lit_simps)
      have step: "sets R syms b1 (if sc_width cell = CW_Double \<and> sat_succ (rc_x area + of_nat k) < rt_right R area then do {
             b \<leftarrow> rt_reset R (sat_succ (rc_x area + of_nat k), rc_y area + of_nat r) b1;
             rt_set_style R (sat_succ (rc_x area + of_nat k), rc_y area + of_nat r) y b
           } else Some b1) (\<lambda>s. s = syms b1)"
        if b1: "rt_area R b1 = rt_area R b" "syms b1 = (syms b)(at area k r := ?t)" for b1 y
      proof (cases "sc_width cell = CW_Double \<and> k + 1 < unat (rc_width area)")
        case True
        have c1: "canvas R syms area b1" using c(1) canvas_area [OF b1(1)] by (simp only:)
        have pos: "(sat_succ (rc_x area + of_nat k), rc_y area + of_nat r) = at area (k + 1) r" by (simp only: nx(1) at_def)
        have "at area (k + 1) r \<noteq> at area k r" using at_inj [OF ed _ c(3) c(2,3), of "k + 1"] True by simp
        then have "syms b1 (at area (k + 1) r) = space" using blank True by (simp add: b1(2) blank_from_def)
        then have sp1: "(syms b1)(at area (k + 1) r := space) = syms b1" by auto
        have "sets R syms b1 (Option.bind (rt_reset R (at area (k + 1) r) b1) (rt_set_style R (at area (k + 1) r) y)) (\<lambda>s. s = syms b1)"
          using then_style [OF c1 conjunct2 [OF True] c(3) canvas_ops(2) [OF c1 conjunct2 [OF True] c(3)]] unfolding sp1 .
        then show ?thesis using True nx(2) pos by simp
      qed (use nx(2) in auto)
      have "sets R syms b (Option.bind (rt_set_symbol R (at area k r) ?t b) (\<lambda>b. Option.bind (rt_set_style R (at area k r) y b)
          (\<lambda>b. if sc_width cell = CW_Double \<and> sat_succ (rc_x area + of_nat k) < rt_right R area then do {
             b \<leftarrow> rt_reset R (sat_succ (rc_x area + of_nat k), rc_y area + of_nat r) b;
             rt_set_style R (sat_succ (rc_x area + of_nat k), rc_y area + of_nat r) y b
           } else Some b))) (\<lambda>s. s = (syms b)(at area k r := ?t))" for y
      proof (rule sets_bind [OF canvas_ops(3) [OF c]])
        fix b1 assume b1: "rt_area R b1 = rt_area R b" "syms b1 = (syms b)(at area k r := ?t)"
        have c1: "canvas R syms area b1" using c(1) canvas_area [OF b1(1)] by (simp only:)
        show "sets R syms b1 (Option.bind (rt_set_style R (at area k r) y b1)
          (\<lambda>b. if sc_width cell = CW_Double \<and> sat_succ (rc_x area + of_nat k) < rt_right R area then do {
             b \<leftarrow> rt_reset R (sat_succ (rc_x area + of_nat k), rc_y area + of_nat r) b;
             rt_set_style R (sat_succ (rc_x area + of_nat k), rc_y area + of_nat r) y b
           } else Some b)) (\<lambda>s. s = (syms b)(at area k r := ?t))"
          by (rule sets_bind [OF canvas_ops(5) [OF c1 c(2,3)]], rule sets_weaken [OF step]) (simp_all add: b1)
      qed
      then show ?thesis using canvas_ops(1) [OF c] unfolding t render_cell_def Let_def eq if_not_P [OF nc] if_not_P [OF False]
        by simp
    qed
  qed
qed


definition row_drawn ::
    "('b, 'y) ratatui \<Rightarrow> ('b \<Rightarrow> u16 \<times> u16 \<Rightarrow> rstr) \<Rightarrow> rect \<Rightarrow> nat \<Rightarrow> nat \<Rightarrow> (nat \<Rightarrow> rstr) \<Rightarrow> 'b \<Rightarrow> 'b \<Rightarrow> bool" where
  "row_drawn R syms area r k f b b' =
     (rt_area R b' = rt_area R b
      \<and> (\<forall>p. (\<forall>j. k \<le> j \<longrightarrow> j < unat (rc_width area) \<longrightarrow> p \<noteq> at area j r) \<longrightarrow> syms b' p = syms b p)
      \<and> (\<forall>j. k \<le> j \<longrightarrow> j < unat (rc_width area) \<longrightarrow> syms b' (at area j r) = f j))"

lemma render_cells_draws:
  assumes "canvas R syms area b" "r < unat (rc_height area)" "k + length cells \<le> max_cols" "max_cols \<le> unat (rc_width area)"
    and "blank_from syms area r k b"
  shows "\<exists>b' fl'. render_cells R area (rc_y area + of_nat r) max_cols target mode (enumerate k cells) (b, fl) = Some (b', fl')
    \<and> row_drawn R syms area r k (\<lambda>j. if j - k < length cells then cell_symbol (j + 1 = max_cols) (cells ! (j - k)) else space) b b'"
  using assms
proof (induction cells arbitrary: k b fl)
  case Nil
  then show ?case by (simp add: row_drawn_def blank_from_def)
next
  case (Cons cell cells)
  have k: "k < unat (rc_width area)" using Cons.prems(3,4) by simp
  have ed: "edged R area" using Cons.prems(1) by (simp add: canvas_def)
  let ?cur = "target = Some (rc_x area + of_nat k, rc_y area + of_nat r)"
  obtain b1 where b1: "render_cell R area (rc_x area + of_nat k) (rc_y area + of_nat r) (k + 1 = max_cols) ?cur cell mode b = Some b1"
    "rt_area R b1 = rt_area R b" "syms b1 = (syms b)(at area k r := cell_symbol (k + 1 = max_cols) cell)"
    using render_cell_sets [OF Cons.prems(1) k Cons.prems(2,5)] unfolding sets_def by blast
  have far: "at area j r \<noteq> at area k r" if "Suc k \<le> j" "j < unat (rc_width area)" for j
    using at_inj [OF ed that(2) Cons.prems(2) k Cons.prems(2)] that(1) by simp
  have "blank_from syms area r (Suc k) b1"
    using Cons.prems(5) far by (auto simp: blank_from_def b1(3))
  moreover have "canvas R syms area b1" using Cons.prems(1) canvas_area [OF b1(2)] by (simp only:)
  moreover have "Suc k + length cells \<le> max_cols" using Cons.prems(3) by simp
  ultimately obtain b2 fl2 where b2: "render_cells R area (rc_y area + of_nat r) max_cols target mode (enumerate (Suc k) cells) (b1, fl \<or> ?cur)
      = Some (b2, fl2)"
    "row_drawn R syms area r (Suc k) (\<lambda>j. if j - Suc k < length cells then cell_symbol (j + 1 = max_cols) (cells ! (j - Suc k)) else space) b1 b2"
    using Cons.IH [OF _ Cons.prems(2) _ Cons.prems(4)] by blast
  have "render_cells R area (rc_y area + of_nat r) max_cols target mode (enumerate k (cell # cells)) (b, fl) = Some (b2, fl2)"
    using b1(1) b2(1) by (simp add: Let_def)
  moreover have "row_drawn R syms area r k (\<lambda>j. if j - k < length (cell # cells) then cell_symbol (j + 1 = max_cols) ((cell # cells) ! (j - k))
      else space) b b2"
    unfolding row_drawn_def
  proof (intro conjI allI impI)
    show "rt_area R b2 = rt_area R b" using b2(2) b1(2) by (simp add: row_drawn_def)
  next
    fix p assume p: "\<forall>j. k \<le> j \<longrightarrow> j < unat (rc_width area) \<longrightarrow> p \<noteq> at area j r"
    then have "syms b2 p = syms b1 p" using b2(2) unfolding row_drawn_def by (metis Suc_leD)
    then show "syms b2 p = syms b p" using p k by (simp add: b1(3))
  next
    fix j assume j: "k \<le> j" "j < unat (rc_width area)"
    show "syms b2 (at area j r) = (if j - k < length (cell # cells) then cell_symbol (j + 1 = max_cols) ((cell # cells) ! (j - k)) else space)"
    proof (cases "j = k")
      case True
      have "syms b2 (at area k r) = syms b1 (at area k r)" using b2(2) far unfolding row_drawn_def by metis
      then show ?thesis using True by (simp add: b1(3))
    next
      case False
      then have d: "Suc k \<le> j" "j - k = Suc (j - Suc k)" using j(1) by simp_all
      have "syms b2 (at area j r) = (if j - Suc k < length cells then cell_symbol (j + 1 = max_cols) (cells ! (j - Suc k)) else space)"
        using b2(2) d(1) j(2) unfolding row_drawn_def by blast
      then show ?thesis by (simp only: d(2) length_Cons Suc_less_eq nth_Cons_Suc)
    qed
  qed
  ultimately show ?case by blast
qed

lemma render_surface_row_draws:
  assumes "canvas R syms area b" "r < unat (rc_height area)" "max_cols \<le> unat (rc_width area)" "blank_from syms area r 0 b"
    and "\<forall>p. target = Some p \<longrightarrow> in_rect area p"
  shows "\<exists>b'. render_surface_row R area (rc_y area + of_nat r) max_cols row target mode b = Some b'
    \<and> row_drawn R syms area r 0 (row_symbol max_cols (case row of None \<Rightarrow> [] | Some row \<Rightarrow> sr_cells row)) b b'"
proof -
  let ?cells = "case row of None \<Rightarrow> [] | Some row \<Rightarrow> sr_cells row"
  let ?y = "rc_y area + of_nat r"
  obtain b1 fl where b1: "(case row of
          Some row \<Rightarrow> render_cells R area ?y max_cols target mode (enumerate 0 (take max_cols (sr_cells row))) (b, False)
        | None \<Rightarrow> Some (b, False)) = Some (b1, fl)" "row_drawn R syms area r 0 (row_symbol max_cols ?cells) b b1"
  proof (cases row)
    case None
    then show thesis using that [of b False] assms(4) by (simp add: row_drawn_def row_symbol_def blank_from_def)
  next
    case (Some rw)
    obtain b1 fl where "render_cells R area ?y max_cols target mode (enumerate 0 (take max_cols (sr_cells rw))) (b, False) = Some (b1, fl)"
      "row_drawn R syms area r 0 (\<lambda>j. if j - 0 < length (take max_cols (sr_cells rw)) then cell_symbol (j + 1 = max_cols)
         (take max_cols (sr_cells rw) ! (j - 0)) else space) b b1"
      using render_cells_draws [OF assms(1,2) _ assms(3), of 0 "take max_cols (sr_cells rw)" target mode False] assms(4) by auto
    moreover have "(\<lambda>j. if j - 0 < length (take max_cols (sr_cells rw)) then cell_symbol (j + 1 = max_cols)
         (take max_cols (sr_cells rw) ! (j - 0)) else space) = row_symbol max_cols (sr_cells rw)"
      by (rule ext) (simp add: row_symbol_def conj_commute)
    ultimately show thesis using that Some by simp
  qed
  have "rt_area R b1 = rt_area R b" using b1(2) by (simp add: row_drawn_def)
  from canvas_area [OF this] have c1: "canvas R syms area b1" using assms(1) by (simp only:)
  have "\<exists>b2. (case target of
       Some (tx, ty) \<Rightarrow> if \<not> fl \<and> ty = ?y then rt_set_style R (tx, ty) (cursor_style R (st_default R) mode) b1 else Some b1
     | None \<Rightarrow> Some b1) = Some b2 \<and> rt_area R b2 = rt_area R b1 \<and> syms b2 = syms b1"
  proof (cases "\<exists>tx. target = Some (tx, ?y) \<and> \<not> fl")
    case True
    then obtain tx where tx: "target = Some (tx, ?y)" "\<not> fl" by blast
    then obtain c k where ck: "(tx, ?y) = at area c k" "c < unat (rc_width area)" "k < unat (rc_height area)"
      using assms(5) in_rect_at by metis
    show ?thesis using canvas_ops(5) [OF c1 ck(2,3)] tx unfolding sets_def ck(1) [symmetric] by auto
  qed (auto split: option.split)
  then obtain b2 where b2: "(case target of
       Some (tx, ty) \<Rightarrow> if \<not> fl \<and> ty = ?y then rt_set_style R (tx, ty) (cursor_style R (st_default R) mode) b1 else Some b1
     | None \<Rightarrow> Some b1) = Some b2" "rt_area R b2 = rt_area R b1" "syms b2 = syms b1" by blast
  then have "row_drawn R syms area r 0 (row_symbol max_cols ?cells) b b2" using b1(2) by (simp add: row_drawn_def)
  moreover have "render_surface_row R area ?y max_cols row target mode b = Some b2"
    unfolding render_surface_row_def b1(1) using b2(1) by simp
  ultimately show ?thesis by blast
qed


lemma render_scrollback_line_draws:
  assumes "canvas R syms area b" "r < unat (rc_height area)" "max_cols \<le> unat (rc_width area)" "blank_from syms area r 0 b"
    and "0 < unat (rc_width area)"
  shows "\<exists>b' f. render_scrollback_line R area (rc_y area + of_nat r) max_cols line b = Some b' \<and> row_drawn R syms area r 0 f b b'
    \<and> (sr_cells (sl_row line) \<noteq> [] \<longrightarrow> f = row_symbol max_cols (sr_cells (sl_row line)))"
proof (cases "sr_cells (sl_row line) = []")
  case False
  then show ?thesis
    using render_surface_row_draws [OF assms(1-4), of None "Some (sl_row line)" Cursor_Hidden]
    by (auto simp: render_scrollback_line_def)
next
  case True
  have eq: "(rc_x area, rc_y area + of_nat r) = at area 0 r" by (simp add: at_def)
  have h: "honest_ratatui R syms" "edged R area" "in_rect (rt_area R b) (at area 0 r)"
    using assms(1) at_in_rect(1) [OF _ assms(5,2)] unfolding canvas_def by blast+
  note o = conjunct2 [OF conjunct2 [OF h(1) [unfolded honest_ratatui_def]], rule_format, OF h(3)]
  obtain b' where b': "rt_set_stringn R (at area 0 r) (sl_text line) (unat (rc_width area)) (st_default R) b = Some b'"
    "rt_area R b' = rt_area R b"
    "\<forall>q. snd q \<noteq> snd (at area 0 r) \<or> unat (fst q) < unat (fst (at area 0 r)) \<or> unat (fst (at area 0 r)) + unat (rc_width area) \<le> unat (fst q)
       \<longrightarrow> syms b' q = syms b q"
    using o unfolding sets_def by blast
  have "row_drawn R syms area r 0 (\<lambda>j. syms b' (at area j r)) b b'"
    unfolding row_drawn_def
  proof (intro conjI allI impI refl)
    show "rt_area R b' = rt_area R b" by (rule b'(2))
    fix p assume p: "\<forall>j. 0 \<le> j \<longrightarrow> j < unat (rc_width area) \<longrightarrow> p \<noteq> at area j r"
    show "syms b' p = syms b p"
    proof (rule ccontr)
      assume "syms b' p \<noteq> syms b p"
      then have "\<not> (snd p \<noteq> snd (at area 0 r) \<or> unat (fst p) < unat (fst (at area 0 r))
          \<or> unat (fst (at area 0 r)) + unat (rc_width area) \<le> unat (fst p))" using b'(3) by blast
      then have q: "snd p = snd (at area 0 r)" "unat (fst (at area 0 r)) \<le> unat (fst p)"
        "unat (fst p) < unat (fst (at area 0 r)) + unat (rc_width area)" by (simp_all only: de_Morgan_disj not_not not_less not_le simp_thms)
      have "in_rect area p" using q at_in_rect(2,3) [OF h(2) assms(5,2)] assms(2) by (simp add: in_rect_def)
      then obtain c k where c: "c < unat (rc_width area)" "k < unat (rc_height area)" "p = at area c k" by (rule in_rect_at)
      have "k = r" using q(1) at_in_rect(3) [OF h(2) assms(5,2)] at_in_rect(3) [OF h(2) c(1,2)] c(3) by simp
      then show False using p c by blast
    qed
  qed
  then show ?thesis using b'(1) True eq by (auto simp: render_scrollback_line_def)
qed


section \<open>The whole widget\<close>

lemma for_each_invariant:
  assumes "\<And>i b. i < length xs \<Longrightarrow> I i b \<Longrightarrow> \<exists>b'. f (xs ! i) b = Some b' \<and> I (Suc i) b'" and "I 0 b"
  shows "\<exists>b'. for_each f xs b = Some b' \<and> I (length xs) b'"
  using assms
proof (induction xs arbitrary: I b)
  case (Cons x xs)
  obtain b1 where b1: "f x b = Some b1" "I (Suc 0) b1" using Cons.prems(1) [of 0 b] Cons.prems(2) by auto
  have "\<exists>b'. for_each f xs b1 = Some b' \<and> I (Suc (length xs)) b'"
    by (rule Cons.IH [of "\<lambda>i. I (Suc i)"]) (use Cons.prems(1) [of "Suc _"] b1(2) in auto)
  then show ?case using b1(1) by simp
qed simp

lemma clear_row:
  assumes "canvas R syms area b" "r < unat (rc_height area)"
  shows "\<exists>b'. for_each (\<lambda>x. rt_reset R (of_nat x, rc_y area + of_nat r)) [unat (rc_x area)..<unat (rt_right R area)] b = Some b'
    \<and> row_drawn R syms area r 0 (\<lambda>_. space) b b'"
proof -
  have ed: "edged R area" using assms(1) by (simp add: canvas_def)
  let ?xs = "[unat (rc_x area)..<unat (rt_right R area)]"
  let ?I = "\<lambda>i b'. rt_area R b' = rt_area R b \<and> (\<forall>p. syms b' p = (if \<exists>j<i. p = at area j r then space else syms b p))"
  have n: "length ?xs = unat (rc_width area)" using ed by (simp add: edged_def)
  have "\<exists>b'. for_each (\<lambda>x. rt_reset R (of_nat x, rc_y area + of_nat r)) ?xs b = Some b' \<and> ?I (length ?xs) b'"
  proof (rule for_each_invariant)
    fix i b1 assume i: "i < length ?xs" and I: "?I i b1"
    then have c1: "canvas R syms area b1" using assms(1) canvas_area [of R b1 b] by simp
    have x: "(of_nat (?xs ! i), rc_y area + of_nat r) = at area i r" using i by (simp add: at_def)
    obtain b2 where "rt_reset R (at area i r) b1 = Some b2" "rt_area R b2 = rt_area R b1" "syms b2 = (syms b1)(at area i r := space)"
      using canvas_ops(2) [OF c1 _ assms(2), of i] i n unfolding sets_def by auto
    then show "\<exists>b'. rt_reset R (of_nat (?xs ! i), rc_y area + of_nat r) b1 = Some b' \<and> ?I (Suc i) b'"
      unfolding x using I by (auto simp: less_Suc_eq)
  qed simp
  then show ?thesis unfolding n row_drawn_def by (auto simp del: split_paired_All)
qed

lemma clear_area_draws:
  assumes "canvas R syms area b"
  shows "\<exists>b'. clear_area R area b = Some b' \<and> rt_area R b' = rt_area R b
    \<and> (\<forall>p. syms b' p = (if in_rect area p then space else syms b p))"
proof -
  have ed: "edged R area" using assms(1) by (simp add: canvas_def)
  let ?ys = "[unat (rc_y area)..<unat (rt_bottom R area)]"
  let ?row = "\<lambda>p r. \<exists>j<unat (rc_width area). p = at area j r"
  let ?I = "\<lambda>i b'. rt_area R b' = rt_area R b \<and> (\<forall>p. syms b' p = (if \<exists>r<i. ?row p r then space else syms b p))"
  have n: "length ?ys = unat (rc_height area)" using ed by (simp add: edged_def)
  have "\<exists>b'. clear_area R area b = Some b' \<and> ?I (length ?ys) b'" unfolding clear_area_def
  proof (rule for_each_invariant)
    fix i b1 assume i: "i < length ?ys" and I: "?I i b1"
    then have c1: "canvas R syms area b1" using assms(1) canvas_area [of R b1 b] by simp
    have y: "of_nat (?ys ! i) = rc_y area + of_nat i" using i by simp
    obtain b2 where b2: "for_each (\<lambda>x. rt_reset R (of_nat x, of_nat (?ys ! i))) [unat (rc_x area)..<unat (rt_right R area)] b1 = Some b2"
      "row_drawn R syms area i 0 (\<lambda>_. space) b1 b2"
      using clear_row [OF c1, of i] i unfolding n y by blast
    have "?I (Suc i) b2"
    proof (intro conjI allI)
      show "rt_area R b2 = rt_area R b" using b2(2) I by (simp add: row_drawn_def)
      fix p
      show "syms b2 p = (if \<exists>r<Suc i. ?row p r then space else syms b p)"
      proof (cases "?row p i")
        case True
        then show ?thesis using b2(2) by (auto simp: row_drawn_def)
      next
        case False
        then have "syms b2 p = syms b1 p" using b2(2) unfolding row_drawn_def by blast
        then show ?thesis using I False by (auto simp: less_Suc_eq)
      qed
    qed
    then show "\<exists>b'. for_each (\<lambda>x. rt_reset R (of_nat x, of_nat (?ys ! i))) [unat (rc_x area)..<unat (rt_right R area)] b1 = Some b' \<and> ?I (Suc i) b'"
      using b2(1) by blast
  qed simp
  moreover have "(\<exists>r<unat (rc_height area). ?row p r) = in_rect area p" for p
    using at_in_rect(1) [OF ed] in_rect_at by metis
  ultimately show ?thesis unfolding n by simp
qed


text \<open>What the widget shows in a cell of its area; a line of scrollback that is only known as text is left to
  ratatui.\<close>

definition widget_symbol :: "pane_widget \<Rightarrow> rect \<Rightarrow> nat \<Rightarrow> nat \<Rightarrow> rstr option" where
  "widget_symbol w area r c =
     (let surface = ps_surface (wd_snapshot w);
          max_cols = unat (min (rc_width area) (sz_cols (ss_size surface)));
          lines = (case wd_scrollback w of None \<Rightarrow> [] | Some lines \<Rightarrow> lines);
          metrics = metrics_from_counts (wd_viewport w) (unat (sz_rows (ss_size surface))) (length lines) (unat (rc_height area));
          i = vm_start_row metrics + r
      in if vm_end_row metrics \<le> i then Some space
         else if i < length lines then
           (if sr_cells (sl_row (lines ! i)) = [] then None else Some (row_symbol max_cols (sr_cells (sl_row (lines ! i))) c))
         else Some (row_symbol max_cols
           (case get_nth (ss_rows surface) (i - length lines) of None \<Rightarrow> [] | Some row \<Rightarrow> sr_cells row) c))"

lemma render_logical_row_draws:
  fixes w :: pane_widget
  defines "lines \<equiv> case wd_scrollback w of None \<Rightarrow> [] | Some lines \<Rightarrow> lines"
  assumes "canvas R syms area b" "r < unat (rc_height area)" "max_cols \<le> unat (rc_width area)" "blank_from syms area r 0 b"
    and "0 < unat (rc_width area)" "\<forall>p. target = Some p \<longrightarrow> in_rect area p"
  shows "\<exists>b' f. render_logical_row R w area max_cols target (r, i) b = Some b' \<and> row_drawn R syms area r 0 f b b'
    \<and> (i < length lines \<longrightarrow> sr_cells (sl_row (lines ! i)) \<noteq> [] \<longrightarrow> f = row_symbol max_cols (sr_cells (sl_row (lines ! i))))
    \<and> (length lines \<le> i \<longrightarrow> f = row_symbol max_cols
         (case get_nth (ss_rows (ps_surface (wd_snapshot w))) (i - length lines) of None \<Rightarrow> [] | Some row \<Rightarrow> sr_cells row))"
proof (cases "i < length lines")
  case True
  then show ?thesis using render_scrollback_line_draws [OF assms(2-6), of "lines ! i"]
    by (auto simp: render_logical_row_def get_nth_def Let_def simp flip: lines_def)
next
  case False
  then show ?thesis using render_surface_row_draws [OF assms(2-5) assms(7)]
    by (auto simp: render_logical_row_def get_nth_def Let_def simp flip: lines_def)
qed

lemma cursor_target_inside:
  assumes "cursor_target w area n s e max_cols = Some p" "edged R area" "max_cols \<le> unat (rc_width area)" "e \<le> s + unat (rc_height area)"
  shows "in_rect area p"
proof -
  obtain c l where "p = at area c (l - s)" "c < max_cols" "s \<le> l" "l < e"
    using assms(1) by (auto simp: cursor_target_def at_def Let_def not_le not_less split: if_splits option.splits
        simp del: of_nat_add of_nat_diff)
  moreover from this have "c < unat (rc_width area)" "l - s < unat (rc_height area)" using assms(3,4) by linarith+
  ultimately show ?thesis using at_in_rect(1) [OF assms(2)] by simp
qed

text \<open>A frame of two cells, and a pane that shows \<open>hi\<close>.\<close>

definition plain_ratatui :: "(rect \<times> (u16 \<times> u16 \<Rightarrow> rstr), unit) ratatui" where
  "plain_ratatui =
     \<lparr>rt_area = fst,
      rt_intersection = (\<lambda>a b. if a = b \<and> a = \<lparr>rc_x = 0, rc_y = 0, rc_width = 2, rc_height = 1\<rparr> then a
         else \<lparr>rc_x = 0, rc_y = 0, rc_width = 0, rc_height = 0\<rparr>),
      rt_is_empty = (\<lambda>a. rc_width a = 0 \<or> rc_height a = 0),
      rt_right = (\<lambda>a. rc_x a + rc_width a), rt_bottom = (\<lambda>a. rc_y a + rc_height a),
      rt_has = (\<lambda>_ _. True),
      rt_reset = (\<lambda>p (a, s). Some (a, s(p := space))),
      rt_set_symbol = (\<lambda>p t (a, s). Some (a, s(p := t))),
      rt_set_char = (\<lambda>p c (a, s). Some (a, s(p := [c]))),
      rt_set_style = (\<lambda>p y b. Some b),
      rt_set_stringn = (\<lambda>p t n y b. Some b),
      st_new = (), st_default = (), st_fg = (\<lambda>_ y. y), st_bg = (\<lambda>_ y. y), st_add_modifier = (\<lambda>_ y. y),
      st_remove_modifier = (\<lambda>_ y. y), st_added = (\<lambda>_. {}), st_subtracted = (\<lambda>_. {})\<rparr>"

lemma plain_ratatui_honest: "honest_ratatui plain_ratatui snd"
  by (auto simp: honest_ratatui_def plain_ratatui_def sets_def edged_def)

definition hi_widget :: pane_widget where
  "hi_widget = widget_new \<lparr>ps_id = 1, ps_title = None, ps_state = Running, ps_interaction_mode = Embedded, ps_size = mk_size 1 2,
     ps_surface = (surface_blank (mk_size 1 2)) \<lparr>ss_rows := [\<lparr>sr_cells =
       [\<lparr>sc_text = lit ''h'', sc_width = CW_Single, sc_style = cell_style_default\<rparr>,
        \<lparr>sc_text = lit ''i'', sc_width = CW_Single, sc_style = cell_style_default\<rparr>], sr_wrapped = False\<rparr>]\<rparr>,
     ps_cursor = \<lparr>cu_position = None, cu_visible = False\<rparr>, ps_modes = terminal_modes_default, 
     ps_stats = \<lparr>st_scrollback_lines_dropped = 0, st_event_log_events_dropped = 0\<rparr>\<rparr>"

text \<open>C12: The widget draws its window and nothing else. Whatever the area asked for, drawing never panics and
  leaves every cell outside the area and outside the frame as it was; inside, each cell shows exactly the symbol
  of the scrollback or screen row that the viewport puts there, blank where a wide character does
  not fit, past the end of a row and below the last row.\<close>

theorem widget_draws_window:
  assumes "honest_ratatui R syms"
  shows "\<exists>b'. render_widget R w area b = Some b' \<and> rt_area R b' = rt_area R b
    \<and> (\<forall>p. \<not> (in_rect area p \<and> in_rect (rt_area R b) p) \<longrightarrow> syms b' p = syms b p)
    \<and> (let a = rt_intersection R area (rt_area R b) in
         \<forall>r < unat (rc_height a). \<forall>c < unat (rc_width a). \<forall>t. widget_symbol w a r c = Some t \<longrightarrow> syms b' (at a c r) = t)"
proof (cases "rt_is_empty R (rt_intersection R area (rt_area R b))")
  case True
  moreover have "unat (rc_height (rt_intersection R area (rt_area R b))) = 0 \<or> unat (rc_width (rt_intersection R area (rt_area R b))) = 0"
    using True assms by (auto simp: honest_ratatui_def)
  ultimately show ?thesis by (intro exI [of _ b]) (auto simp: render_widget_def Let_def)
next
  case ne: False
  define a where "a = rt_intersection R area (rt_area R b)"
  have ed: "edged R a" and ins: "in_rect a p \<Longrightarrow> in_rect area p \<and> in_rect (rt_area R b) p" for p
    using assms ne unfolding a_def honest_ratatui_def by blast+
  have c: "canvas R syms a b" using assms ed ins by (simp add: canvas_def)
  have w0: "0 < unat (rc_width a)" using assms ne unfolding a_def honest_ratatui_def by (simp add: unat_gt_0)
  let ?surface = "ps_surface (wd_snapshot w)"
  define max_cols where "max_cols = unat (min (rc_width a) (sz_cols (ss_size ?surface)))"
  define lines where "lines = (case wd_scrollback w of None \<Rightarrow> [] | Some lines \<Rightarrow> lines)"
  define mt where "mt = metrics_from_counts (wd_viewport w) (unat (sz_rows (ss_size ?surface))) (length lines) (unat (rc_height a))"
  define target where "target = cursor_target w a (length lines) (vm_start_row mt) (vm_end_row mt) max_cols"
  have mc: "max_cols \<le> unat (rc_width a)" unfolding max_cols_def by (simp add: min_def word_le_nat_alt)
  have h: "vm_end_row mt \<le> vm_start_row mt + unat (rc_height a)" unfolding mt_def by (simp only: end_row_eq)
  have tgt: "\<forall>p. target = Some p \<longrightarrow> in_rect a p" unfolding target_def using cursor_target_inside ed mc h by blast
  obtain b1 where b1: "clear_area R a b = Some b1" "rt_area R b1 = rt_area R b" "\<forall>p. syms b1 p = (if in_rect a p then space else syms b p)"
    using clear_area_draws [OF c] by blast
  have r1: "render_widget R w area b = for_each (render_logical_row R w a max_cols target)
      (enumerate 0 [vm_start_row mt..<vm_end_row mt]) b1"
    using ne b1(1) by (simp add: render_widget_def Let_def target_def mt_def lines_def max_cols_def a_def)
  let ?xs = "enumerate 0 [vm_start_row mt..<vm_end_row mt]"
  let ?I = "\<lambda>i b'. rt_area R b' = rt_area R b \<and> (\<forall>p. \<not> in_rect a p \<longrightarrow> syms b' p = syms b p)
    \<and> (\<forall>r < unat (rc_height a). \<forall>c < unat (rc_width a).
         if r < i then \<forall>t. widget_symbol w a r c = Some t \<longrightarrow> syms b' (at a c r) = t else syms b' (at a c r) = space)"
  have symbol: "widget_symbol w a r c = (if vm_end_row mt \<le> vm_start_row mt + r then Some space
      else if vm_start_row mt + r < length lines then
        (if sr_cells (sl_row (lines ! (vm_start_row mt + r))) = [] then None
         else Some (row_symbol max_cols (sr_cells (sl_row (lines ! (vm_start_row mt + r)))) c))
      else Some (row_symbol max_cols
           (case get_nth (ss_rows ?surface) (vm_start_row mt + r - length lines) of None \<Rightarrow> [] | Some row \<Rightarrow> sr_cells row) c))" for r c
    by (simp only: widget_symbol_def Let_def mt_def lines_def max_cols_def)
  have "\<exists>b'. for_each (render_logical_row R w a max_cols target) ?xs b1 = Some b' \<and> ?I (length ?xs) b'"
  proof (rule for_each_invariant)
    fix i b2 assume i: "i < length ?xs" and I: "?I i b2"
    have ih: "i < unat (rc_height a)" "i < vm_end_row mt - vm_start_row mt" using i h by simp_all
    have x: "?xs ! i = (i, vm_start_row mt + i)" using i by (simp add: nth_enumerate_eq)
    have c2: "canvas R syms a b2" using c canvas_area [of R b2 b] I by simp
    have "blank_from syms a i 0 b2" using I ih(1) unfolding blank_from_def by auto
    from render_logical_row_draws [OF c2 ih(1) mc this w0 tgt, of w "vm_start_row mt + i"]
    obtain b3 f where b3: "render_logical_row R w a max_cols target (i, vm_start_row mt + i) b2 = Some b3" "row_drawn R syms a i 0 f b2 b3"
      and f3: "vm_start_row mt + i < length lines \<longrightarrow> sr_cells (sl_row (lines ! (vm_start_row mt + i))) \<noteq> [] \<longrightarrow>
          f = row_symbol max_cols (sr_cells (sl_row (lines ! (vm_start_row mt + i))))"
        "length lines \<le> vm_start_row mt + i \<longrightarrow> f = row_symbol max_cols
          (case get_nth (ss_rows ?surface) (vm_start_row mt + i - length lines) of None \<Rightarrow> [] | Some row \<Rightarrow> sr_cells row)"
      unfolding lines_def [symmetric] by blast
    have f: "f c = t" if "widget_symbol w a i c = Some t" for c t
      using that ih(2) f3 unfolding symbol by (simp split: if_splits)
    have other: "syms b3 (at a c r) = syms b2 (at a c r)" if "r \<noteq> i" "r < unat (rc_height a)" "c < unat (rc_width a)" for c r
      using b3(2) at_inj [OF ed that(3,2) _ ih(1)] that(1) unfolding row_drawn_def by blast
    have "?I (Suc i) b3"
    proof (intro conjI allI impI)
      show "rt_area R b3 = rt_area R b" using b3(2) I by (simp add: row_drawn_def)
    next
      fix p assume p: "\<not> in_rect a p"
      then have "\<forall>j. j < unat (rc_width a) \<longrightarrow> p \<noteq> at a j i" using at_in_rect(1) [OF ed _ ih(1)] by blast
      then have "syms b3 p = syms b2 p" using b3(2) unfolding row_drawn_def by blast
      then show "syms b3 p = syms b p" using I p by (simp del: split_paired_All)
    next
      fix r c assume r: "r < unat (rc_height a)" and c: "c < unat (rc_width a)"
      show "if r < Suc i then \<forall>t. widget_symbol w a r c = Some t \<longrightarrow> syms b3 (at a c r) = t else syms b3 (at a c r) = space"
      proof (cases "r = i")
        case True
        then have "syms b3 (at a c r) = f c" using b3(2) c unfolding row_drawn_def by blast
        then show ?thesis using True f by simp
      next
        case False
        have "if r < i then \<forall>t. widget_symbol w a r c = Some t \<longrightarrow> syms b2 (at a c r) = t else syms b2 (at a c r) = space"
          using I r c by blast
        then show ?thesis using other [OF False r c] False by (simp split: if_splits)
      qed
    qed
    then show "\<exists>b'. render_logical_row R w a max_cols target (?xs ! i) b2 = Some b' \<and> ?I (Suc i) b'" unfolding x using b3(1) by blast
  next
    show "?I 0 b1" using b1(2,3) at_in_rect(1) [OF ed] by (simp del: split_paired_All)
  qed
  then obtain b' where b': "for_each (render_logical_row R w a max_cols target) ?xs b1 = Some b'" "?I (length ?xs) b'" by blast
  have "syms b' (at a c r) = t" if rc: "r < unat (rc_height a)" "c < unat (rc_width a)" "widget_symbol w a r c = Some t" for r c t
  proof (cases "r < length ?xs")
    case True
    then show ?thesis using conjunct2 [OF conjunct2 [OF b'(2)]] rc by simp
  next
    case False
    then have "syms b' (at a c r) = space" using conjunct2 [OF conjunct2 [OF b'(2)]] rc(1,2) by simp
    then show ?thesis using False rc(3) by (simp add: symbol split: if_splits)
  qed
  moreover have "\<forall>p. \<not> (in_rect area p \<and> in_rect (rt_area R b) p) \<longrightarrow> syms b' p = syms b p" using b'(2) ins by blast
  moreover have "rt_area R b' = rt_area R b" using b'(2) by blast
  ultimately show ?thesis unfolding Let_def a_def [symmetric] r1 using b'(1) by blast
qed

theorem widget_draws_window_witness:
  "\<exists>b'. render_widget plain_ratatui hi_widget \<lparr>rc_x = 0, rc_y = 0, rc_width = 2, rc_height = 1\<rparr>
        (\<lparr>rc_x = 0, rc_y = 0, rc_width = 2, rc_height = 1\<rparr>, \<lambda>_. lit ''?'') = Some b'
     \<and> snd b' (0, 0) = lit ''h'' \<and> snd b' (1, 0) = lit ''i'' \<and> snd b' (2, 0) = lit ''?''"
proof -
  let ?a = "\<lparr>rc_x = 0, rc_y = 0, rc_width = 2, rc_height = 1\<rparr>"
  have a: "rt_intersection plain_ratatui ?a (rt_area plain_ratatui (?a, \<lambda>_. lit ''?'')) = ?a" by (simp add: plain_ratatui_def)
  have w: "widget_symbol hi_widget ?a 0 0 = Some (lit ''h'')" "widget_symbol hi_widget ?a 0 1 = Some (lit ''i'')"
    by (simp_all add: widget_symbol_def hi_widget_def widget_new_def metrics_from_counts_def Let_def surface_blank_def mk_size_def
        viewport_default_def sat_add_def usize_max_def get_nth_def row_symbol_def cell_symbol_def min_def)
  obtain b' where b': "render_widget plain_ratatui hi_widget ?a (?a, \<lambda>_. lit ''?'') = Some b'"
    "\<forall>p. \<not> (in_rect ?a p \<and> in_rect (rt_area plain_ratatui (?a, \<lambda>_. lit ''?'')) p) \<longrightarrow> snd b' p = snd (?a, \<lambda>_. lit ''?'') p"
    "\<forall>r < unat (rc_height ?a). \<forall>c < unat (rc_width ?a). \<forall>t. widget_symbol hi_widget ?a r c = Some t \<longrightarrow> snd b' (at ?a c r) = t"
    using widget_draws_window [OF plain_ratatui_honest, of hi_widget ?a "(?a, \<lambda>_. lit ''?'')"] unfolding a Let_def by blast
  have "snd b' (at ?a 0 0) = lit ''h''" "snd b' (at ?a 1 0) = lit ''i''"
    using b'(3) w by simp_all
  moreover have "snd b' (2, 0) = lit ''?''" using b'(2) by (simp add: in_rect_def del: split_paired_All)
  ultimately show ?thesis using b'(1) by (auto simp: at_def)
qed

end
