(* ===== verification/Host_Events.thy ===== *)
theory Host_Events
  imports Core_Types
begin

text \<open>
  The events of a crossterm host turned into host input (\<open>crossterm_impl\<close> of \<open>input.rs\<close>). The datatypes are the
  parts of crossterm's events that the conversion names.
\<close>

section \<open>Crossterm events\<close>

datatype ct_media =
    CtMedia_Play | CtMedia_Pause | CtMedia_PlayPause | CtMedia_Reverse | CtMedia_Stop | CtMedia_FastForward
  | CtMedia_Rewind | CtMedia_TrackNext | CtMedia_TrackPrevious | CtMedia_Record | CtMedia_LowerVolume | CtMedia_RaiseVolume
  | CtMedia_MuteVolume

datatype ct_modifier =
    Ct_LeftShift | Ct_LeftControl | Ct_LeftAlt | Ct_LeftSuper | Ct_LeftHyper | Ct_LeftMeta
  | Ct_RightShift | Ct_RightControl | Ct_RightAlt | Ct_RightSuper | Ct_RightHyper | Ct_RightMeta
  | Ct_IsoLevel3Shift | Ct_IsoLevel5Shift

datatype ct_key_code =
    Ct_Backspace | Ct_Enter | Ct_Left | Ct_Right | Ct_Up | Ct_Down
  | Ct_Home | Ct_End | Ct_PageUp | Ct_PageDown | Ct_Tab | Ct_BackTab
  | Ct_Delete | Ct_Insert | Ct_Esc | Ct_CapsLock | Ct_ScrollLock | Ct_NumLock
  | Ct_PrintScreen | Ct_Pause | Ct_Menu | Ct_KeypadBegin | Ct_Char rchar | Ct_F u8
  | Ct_Null | Ct_Media ct_media | Ct_Modifier ct_modifier

datatype ct_modifiers_flag = Ct_SHIFT | Ct_CONTROL | Ct_ALT | Ct_SUPER | Ct_HYPER | Ct_META

type_synonym ct_modifiers = "ct_modifiers_flag set"

datatype ct_kind = Ct_Press | Ct_Repeat | Ct_Release

record ct_key_event =
  ct_code :: ct_key_code
  ct_modifiers :: ct_modifiers
  ct_kind :: ct_kind

datatype ct_button = CtButton_Left | CtButton_Right | CtButton_Middle

datatype ct_mouse_kind =
    Ct_MouseDown ct_button | Ct_MouseUp ct_button | Ct_MouseDrag ct_button | Ct_Moved
  | Ct_ScrollDown | Ct_ScrollUp | Ct_ScrollLeft | Ct_ScrollRight

record ct_mouse_event =
  ct_mouse_kind :: ct_mouse_kind
  ct_column :: u16
  ct_row :: u16
  ct_mouse_modifiers :: ct_modifiers

datatype ct_event =
    CtEvent_Key ct_key_event
  | CtEvent_Mouse ct_mouse_event
  | CtEvent_Paste rstr
  | CtEvent_FocusGained
  | CtEvent_FocusLost
  | CtEvent_Resize u16 u16


section \<open>The conversion\<close>

fun media_from :: "ct_media \<Rightarrow> media_key" where
  "media_from CtMedia_Play = Media_Play"
| "media_from CtMedia_Pause = Media_Pause"
| "media_from CtMedia_PlayPause = Media_PlayPause"
| "media_from CtMedia_Reverse = Media_Reverse"
| "media_from CtMedia_Stop = Media_Stop"
| "media_from CtMedia_FastForward = Media_FastForward"
| "media_from CtMedia_Rewind = Media_Rewind"
| "media_from CtMedia_TrackNext = Media_TrackNext"
| "media_from CtMedia_TrackPrevious = Media_TrackPrevious"
| "media_from CtMedia_Record = Media_Record"
| "media_from CtMedia_LowerVolume = Media_LowerVolume"
| "media_from CtMedia_RaiseVolume = Media_RaiseVolume"
| "media_from CtMedia_MuteVolume = Media_MuteVolume"

fun modifier_from :: "ct_modifier \<Rightarrow> modifier_key" where
  "modifier_from Ct_LeftShift = LeftShift"
| "modifier_from Ct_LeftControl = LeftControl"
| "modifier_from Ct_LeftAlt = LeftAlt"
| "modifier_from Ct_LeftSuper = LeftSuper"
| "modifier_from Ct_LeftHyper = LeftHyper"
| "modifier_from Ct_LeftMeta = LeftMeta"
| "modifier_from Ct_RightShift = RightShift"
| "modifier_from Ct_RightControl = RightControl"
| "modifier_from Ct_RightAlt = RightAlt"
| "modifier_from Ct_RightSuper = RightSuper"
| "modifier_from Ct_RightHyper = RightHyper"
| "modifier_from Ct_RightMeta = RightMeta"
| "modifier_from Ct_IsoLevel3Shift = IsoLevel3Shift"
| "modifier_from Ct_IsoLevel5Shift = IsoLevel5Shift"

fun key_code_from :: "ct_key_code \<Rightarrow> key_code" where
  "key_code_from Ct_Backspace = K_Backspace"
| "key_code_from Ct_Enter = K_Enter"
| "key_code_from Ct_Left = K_Left"
| "key_code_from Ct_Right = K_Right"
| "key_code_from Ct_Up = K_Up"
| "key_code_from Ct_Down = K_Down"
| "key_code_from Ct_Home = K_Home"
| "key_code_from Ct_End = K_End"
| "key_code_from Ct_PageUp = K_PageUp"
| "key_code_from Ct_PageDown = K_PageDown"
| "key_code_from Ct_Tab = K_Tab"
| "key_code_from Ct_BackTab = K_BackTab"
| "key_code_from Ct_Delete = K_Delete"
| "key_code_from Ct_Insert = K_Insert"
| "key_code_from Ct_Esc = K_Esc"
| "key_code_from Ct_CapsLock = K_CapsLock"
| "key_code_from Ct_ScrollLock = K_ScrollLock"
| "key_code_from Ct_NumLock = K_NumLock"
| "key_code_from Ct_PrintScreen = K_PrintScreen"
| "key_code_from Ct_Pause = K_Pause"
| "key_code_from Ct_Menu = K_Menu"
| "key_code_from Ct_KeypadBegin = K_KeypadBegin"
| "key_code_from (Ct_Char c) = K_Char c"
| "key_code_from (Ct_F n) = K_F n"
| "key_code_from Ct_Null = K_Null"
| "key_code_from (Ct_Media m) = K_Media (media_from m)"
| "key_code_from (Ct_Modifier m) = K_Modifier (modifier_from m)"

definition modifiers_from :: "ct_modifiers \<Rightarrow> key_modifiers" where
  "modifiers_from flags =
     \<lparr>km_shift = (Ct_SHIFT \<in> flags), km_control = (Ct_CONTROL \<in> flags), km_alt = (Ct_ALT \<in> flags),
      km_super_key = (Ct_SUPER \<in> flags), km_hyper = (Ct_HYPER \<in> flags), km_meta = (Ct_META \<in> flags)\<rparr>"

fun kind_from :: "ct_kind \<Rightarrow> key_event_kind" where
  "kind_from Ct_Press = Press"
| "kind_from Ct_Repeat = Repeat"
| "kind_from Ct_Release = Release"

definition key_from :: "ct_key_event \<Rightarrow> key_input" where
  "key_from key =
     \<lparr>ki_code = key_code_from (ct_code key), ki_modifiers = modifiers_from (ct_modifiers key), ki_kind = kind_from (ct_kind key)\<rparr>"

fun button_from :: "ct_button \<Rightarrow> mouse_button" where
  "button_from CtButton_Left = MB_Left"
| "button_from CtButton_Right = MB_Right"
| "button_from CtButton_Middle = MB_Middle"

fun mouse_kind_from :: "ct_mouse_kind \<Rightarrow> mouse_event_kind" where
  "mouse_kind_from (Ct_MouseDown btn) = M_Down (button_from btn)"
| "mouse_kind_from (Ct_MouseUp btn) = M_Up (button_from btn)"
| "mouse_kind_from (Ct_MouseDrag btn) = M_Drag (button_from btn)"
| "mouse_kind_from Ct_Moved = M_Moved"
| "mouse_kind_from Ct_ScrollDown = M_ScrollDown"
| "mouse_kind_from Ct_ScrollUp = M_ScrollUp"
| "mouse_kind_from Ct_ScrollLeft = M_ScrollLeft"
| "mouse_kind_from Ct_ScrollRight = M_ScrollRight"

definition mouse_from :: "ct_mouse_event \<Rightarrow> mouse_input" where
  "mouse_from mouse =
     \<lparr>mi_kind = mouse_kind_from (ct_mouse_kind mouse), mi_column = ct_column mouse, mi_row = ct_row mouse,
      mi_modifiers = modifiers_from (ct_mouse_modifiers mouse)\<rparr>"

text \<open>\<open>TryFrom\<close>; the error is the message of an \<open>UnsupportedEventError\<close>.\<close>

fun host_input_try_from :: "ct_event \<Rightarrow> rstr + host_input" where
  "host_input_try_from (CtEvent_Key key) = Inr (HI_Key (key_from key))"
| "host_input_try_from (CtEvent_Mouse mouse) = Inr (HI_Mouse (mouse_from mouse))"
| "host_input_try_from (CtEvent_Paste text) = Inr (HI_Paste text)"
| "host_input_try_from CtEvent_FocusGained = Inr HI_FocusGained"
| "host_input_try_from CtEvent_FocusLost = Inr HI_FocusLost"
| "host_input_try_from (CtEvent_Resize cols rows) =
     (case size_try_new rows cols of
        Inl _ \<Rightarrow> Inl (lit ''resize with invalid dimensions: rows='' @ dec_str (unat rows) @ lit '', cols='' @ dec_str (unat cols))
      | Inr z \<Rightarrow> Inr (HI_Resize z))"

definition unsupported_event_str :: "rstr \<Rightarrow> rstr" where
  "unsupported_event_str message = lit ''unsupported event: '' @ message"


section \<open>Nothing is confused\<close>

lemma media_from_inj: "media_from a = media_from b \<longleftrightarrow> a = b"
  by (cases a; cases b) simp_all

lemma modifier_from_inj: "modifier_from a = modifier_from b \<longleftrightarrow> a = b"
  by (cases a; cases b) simp_all

lemma key_code_from_inj: "key_code_from a = key_code_from b \<longleftrightarrow> a = b"
  by (cases a; cases b) (simp_all add: media_from_inj modifier_from_inj)

lemma modifiers_from_inj: "modifiers_from a = modifiers_from b \<longleftrightarrow> a = b"
proof
  assume e: "modifiers_from a = modifiers_from b"
  have "f \<in> a \<longleftrightarrow> f \<in> b" for f using e by (cases f) (simp_all add: modifiers_from_def)
  then show "a = b" by blast
qed simp

lemma kind_from_inj: "kind_from a = kind_from b \<longleftrightarrow> a = b"
  by (cases a; cases b) simp_all

lemma button_from_inj: "button_from a = button_from b \<longleftrightarrow> a = b"
  by (cases a; cases b) simp_all

lemma mouse_kind_from_inj: "mouse_kind_from a = mouse_kind_from b \<longleftrightarrow> a = b"
  by (cases a; cases b) (simp_all add: button_from_inj)

text \<open>Distinct events become distinct input, and the only events refused are resizes to nothing.\<close>

lemma host_input_inj:
  "host_input_try_from a = Inr i \<Longrightarrow> host_input_try_from b = Inr i \<Longrightarrow> a = b"
  by (cases a; cases b)
    (auto simp: key_from_def mouse_from_def key_code_from_inj modifiers_from_inj kind_from_inj mouse_kind_from_inj
      size_try_new_def mk_size_def split: sum.splits if_splits intro: ct_key_event.equality ct_mouse_event.equality)

lemma host_input_refused: "isl (host_input_try_from e) \<longleftrightarrow> (\<exists>cols rows. e = CtEvent_Resize cols rows \<and> (cols = 0 \<or> rows = 0))"
  by (cases e) (auto simp: size_try_new_def split: if_splits)

end
