(* ===== verification/Pane_Builders.thy ===== *)
theory Pane_Builders
  imports Pty_Io Input_Transaction
begin

text \<open>
  The constructors and fluent setters of the configuration and surface types (\<open>pane.rs\<close>) and of input transactions
  (\<open>input_transaction.rs\<close>), the checks made when a configuration is deserialised, and the handle of a pane.
  The environment is kept as the entries of a \<open>BTreeMap\<close>, in key order.
\<close>

section \<open>Configuration\<close>

definition command_spec_new :: "rstr \<Rightarrow> command_spec" where
  "command_spec_new program = \<lparr>cs_program = program, cs_args = []\<rparr>"

definition command_spec_with_args :: "rstr \<Rightarrow> rstr list \<Rightarrow> command_spec" where
  "command_spec_with_args program args = \<lparr>cs_program = program, cs_args = args\<rparr>"

definition scrollback_unlimited :: scrollback_config where
  "scrollback_unlimited = \<lparr>sb_max_lines = None\<rparr>"

definition scrollback_disabled :: scrollback_config where
  "scrollback_disabled = \<lparr>sb_max_lines = Some 0\<rparr>"

definition scrollback_is_enabled :: "scrollback_config \<Rightarrow> bool" where
  "scrollback_is_enabled c = (\<not> scrollback_is_disabled c)"

definition transcript_config_new :: "transcript_mode \<Rightarrow> transcript_config" where
  "transcript_config_new mode = transcript_config_default \<lparr>tc_mode := mode\<rparr>"

definition with_max_lines :: "nat \<Rightarrow> transcript_config \<Rightarrow> transcript_config" where
  "with_max_lines n c = c \<lparr>tc_max_lines := n\<rparr>"

definition with_max_bytes :: "nat \<Rightarrow> transcript_config \<Rightarrow> transcript_config" where
  "with_max_bytes n c = c \<lparr>tc_max_bytes := n\<rparr>"

definition kill_config_new :: "nat \<Rightarrow> bool \<Rightarrow> kill_config" where
  "kill_config_new term_grace kill_descendants = \<lparr>kc_term_grace = term_grace, kc_kill_descendants = kill_descendants\<rparr>"

definition kill_config_default :: kill_config where
  "kill_config_default = \<lparr>kc_term_grace = 5000, kc_kill_descendants = True\<rparr>"

text \<open>\<open>BTreeMap::insert\<close>.\<close>

fun entry_insert :: "rstr \<Rightarrow> rstr \<Rightarrow> (rstr \<times> rstr) list \<Rightarrow> (rstr \<times> rstr) list" where
  "entry_insert k v [] = [(k, v)]"
| "entry_insert k v ((k', v') # m) =
     (if k < k' then (k, v) # (k', v') # m
      else if k = k' then (k, v) # m
      else (k', v') # entry_insert k v m)"

definition config_command :: "rstr \<Rightarrow> pane_config" where
  "config_command program = pane_config_default \<lparr>pc_command := command_spec_new program\<rparr>"

definition config_command_with_args :: "rstr \<Rightarrow> rstr list \<Rightarrow> pane_config" where
  "config_command_with_args program args = pane_config_default \<lparr>pc_command := command_spec_with_args program args\<rparr>"

definition config_shell :: pane_config where
  "config_shell = config_command (lit ''sh'')"

definition with_id :: "pane_id \<Rightarrow> pane_config \<Rightarrow> pane_config" where
  "with_id i c = c \<lparr>pc_id := Some i\<rparr>"

definition with_title :: "rstr \<Rightarrow> pane_config \<Rightarrow> pane_config" where
  "with_title t c = c \<lparr>pc_title := Some t\<rparr>"

definition with_cwd :: "rstr \<Rightarrow> pane_config \<Rightarrow> pane_config" where
  "with_cwd d c = c \<lparr>pc_cwd := Some d\<rparr>"

definition with_env :: "rstr \<Rightarrow> rstr \<Rightarrow> pane_config \<Rightarrow> pane_config" where
  "with_env k v c = c \<lparr>pc_env := entry_insert k v (pc_env c)\<rparr>"

definition with_env_policy :: "env_policy \<Rightarrow> pane_config \<Rightarrow> pane_config" where
  "with_env_policy p c = c \<lparr>pc_env_policy := p\<rparr>"

definition with_clear_env :: "pane_config \<Rightarrow> pane_config" where
  "with_clear_env c = with_env_policy Env_Clear c"

definition with_env_allowlist :: "rstr list \<Rightarrow> pane_config \<Rightarrow> pane_config" where
  "with_env_allowlist keys c = with_env_policy (Env_Allowlist keys) c"

definition with_term_fallback :: "rstr \<Rightarrow> pane_config \<Rightarrow> pane_config" where
  "with_term_fallback t c = c \<lparr>pc_term_fallback := Some t\<rparr>"

definition with_size :: "pane_size \<Rightarrow> pane_config \<Rightarrow> pane_config" where
  "with_size z c = c \<lparr>pc_size := z\<rparr>"

definition config_with_scrollback :: "scrollback_config \<Rightarrow> pane_config \<Rightarrow> pane_config" where
  "config_with_scrollback s c = c \<lparr>pc_scrollback := Some s\<rparr>"

definition with_transcript :: "transcript_config \<Rightarrow> pane_config \<Rightarrow> pane_config" where
  "with_transcript t c = c \<lparr>pc_transcript := t\<rparr>"

definition with_input :: "input_config \<Rightarrow> pane_config \<Rightarrow> pane_config" where
  "with_input i c = c \<lparr>pc_input := i\<rparr>"

definition with_kill :: "kill_config \<Rightarrow> pane_config \<Rightarrow> pane_config" where
  "with_kill k c = c \<lparr>pc_kill := k\<rparr>"

definition with_output_queue_capacity :: "nat \<Rightarrow> pane_config \<Rightarrow> pane_config" where
  "with_output_queue_capacity n c = c \<lparr>pc_output_queue_capacity := n\<rparr>"

definition scrollback_line_limit :: "scrollback_config \<Rightarrow> nat option" where
  "scrollback_line_limit c = sb_max_lines c"

definition scrollback_default :: scrollback_config where
  "scrollback_default = scrollback_unlimited"

definition env_policy_inherit :: env_policy where "env_policy_inherit = Env_Inherit"
definition env_policy_clear :: env_policy where "env_policy_clear = Env_Clear"

definition env_policy_allowlist :: "rstr list \<Rightarrow> env_policy" where
  "env_policy_allowlist keys = Env_Allowlist keys"

definition config_program :: "pane_config \<Rightarrow> rstr" where
  "config_program c = cs_program (pc_command c)"

definition config_args :: "pane_config \<Rightarrow> rstr list" where
  "config_args c = cs_args (pc_command c)"


section \<open>Deserialising\<close>

text \<open>What the derived code of \<open>serde\<close> has read is an argument: its error or the raw fields. So is the error that
  \<open>serde\<close> makes of a message.\<close>

definition size_deserialize :: "(rstr \<Rightarrow> 'e) \<Rightarrow> 'e + u16 \<times> u16 \<Rightarrow> 'e + pane_size" where
  "size_deserialize custom raw =
     (case raw of
        Inl e \<Rightarrow> Inl e
      | Inr (rows, cols) \<Rightarrow> map_sum (\<lambda>e. custom (pane_error_str e)) id (size_try_new rows cols))"

definition config_deserialize :: "(rstr \<Rightarrow> 'e) \<Rightarrow> 'e + pane_config \<Rightarrow> 'e + pane_config" where
  "config_deserialize custom raw =
     (case raw of
        Inl e \<Rightarrow> Inl e
      | Inr config \<Rightarrow> map_sum (\<lambda>e. custom (pane_error_str e)) (\<lambda>_. config) (pane_config_validate config))"


section \<open>Input transactions\<close>

definition insert_text :: "rstr \<Rightarrow> input_transaction" where
  "insert_text text1 = transaction_new (II_InsertText text1)"

definition submit_text :: "rstr \<Rightarrow> input_transaction" where
  "submit_text text1 = transaction_new (II_SubmitText text1)"

definition key_chord :: "key_input \<Rightarrow> input_transaction" where
  "key_chord key = transaction_new (II_KeyChord key)"

definition interrupt_input :: input_transaction where
  "interrupt_input = transaction_new II_Interrupt"

definition clear_input :: input_transaction where
  "clear_input = transaction_new II_ClearInput"

definition raw_bytes_input :: "u8 list \<Rightarrow> input_transaction" where
  "raw_bytes_input bytes = transaction_new (II_RawBytes bytes)"

definition with_verification :: "input_verification \<Rightarrow> input_transaction \<Rightarrow> input_transaction" where
  "with_verification v t = t \<lparr>it_verification := v\<rparr>"

definition with_retry :: "input_retry_config \<Rightarrow> input_transaction \<Rightarrow> input_transaction" where
  "with_retry r t = t \<lparr>it_retry := r\<rparr>"


section \<open>The handle of a pane\<close>

text \<open>A handle has no way to the manager: every call fails, whether or not there is such a pane.\<close>

record pane_handle =
  ph_id :: pane_id

definition pane_handle_new :: "pane_id \<Rightarrow> pane_handle" where
  "pane_handle_new i = \<lparr>ph_id = i\<rparr>"

definition handle_write_bytes :: "pane_handle \<Rightarrow> u8 list \<Rightarrow> pane_error + unit" where
  "handle_write_bytes handle bytes = Inl (NotFound_Error (ph_id handle))"

definition handle_resize :: "pane_handle \<Rightarrow> pane_size \<Rightarrow> pane_error + unit" where
  "handle_resize handle z = Inl (NotFound_Error (ph_id handle))"

definition handle_kill :: "pane_handle \<Rightarrow> kill_reason \<Rightarrow> pane_error + unit" where
  "handle_kill handle reason = Inl (NotFound_Error (ph_id handle))"


section \<open>Surfaces\<close>

text \<open>Owned and borrowed texts are one type here, so the conversions between them are identities.\<close>

definition surface_snapshot_new ::
    "pane_size \<Rightarrow> surface_row list \<Rightarrow> cursor_state \<Rightarrow> terminal_modes \<Rightarrow> rstr option \<Rightarrow> surface_snapshot" where
  "surface_snapshot_new z rows cursor1 modes1 title =
     \<lparr>ss_size = z, ss_rows = rows, ss_cursor = cursor1, ss_modes = modes1, ss_title = title\<rparr>"

definition surface_row_new :: "surface_cell list \<Rightarrow> surface_row" where
  "surface_row_new cells = \<lparr>sr_cells = cells, sr_wrapped = False\<rparr>"

definition with_wrapped :: "bool \<Rightarrow> surface_row \<Rightarrow> surface_row" where
  "with_wrapped b row = row \<lparr>sr_wrapped := b\<rparr>"

definition surface_cell_new :: "rstr \<Rightarrow> cell_width \<Rightarrow> cell_style \<Rightarrow> surface_cell" where
  "surface_cell_new text width style = \<lparr>sc_text = text, sc_width = width, sc_style = style\<rparr>"

definition cursor_state_new :: "(u16 \<times> u16) option \<Rightarrow> bool \<Rightarrow> cursor_state" where
  "cursor_state_new pos visible = \<lparr>cu_position = pos, cu_visible = visible\<rparr>"

definition cursor_hidden :: cursor_state where
  "cursor_hidden = \<lparr>cu_position = None, cu_visible = False\<rparr>"

definition scrollback_line_new :: "rstr \<Rightarrow> scrollback_line" where
  "scrollback_line_new text = \<lparr>sl_text = text, sl_row = surface_row_default\<rparr>"

definition scrollback_line_from_row :: "rstr \<Rightarrow> surface_row \<Rightarrow> scrollback_line" where
  "scrollback_line_from_row text row = \<lparr>sl_text = text, sl_row = row\<rparr>"

definition surface_metadata_new :: "rstr \<Rightarrow> rstr \<Rightarrow> surface_metadata" where
  "surface_metadata_new name version = \<lparr>sm_name = name, sm_version = version, sm_replay_kind = None\<rparr>"

definition with_replay_kind :: "replay_backend_kind \<Rightarrow> surface_metadata \<Rightarrow> surface_metadata" where
  "with_replay_kind k md = md \<lparr>sm_replay_kind := Some k\<rparr>"


section \<open>Laws\<close>

lemma entry_insert_keys: "set (map fst (entry_insert k v m)) = insert k (set (map fst m))"
  by (induction k v m rule: entry_insert.induct) auto

lemma entry_insert_sorted: "sorted_wrt (<) (map fst m) \<Longrightarrow> sorted_wrt (<) (map fst (entry_insert k v m))"
proof (induction k v m rule: entry_insert.induct)
  case (2 k v k' v' m)
  then show ?case using entry_insert_keys [of k v m] by (auto dest: less_trans)
qed simp

lemma entry_insert_lookup: "sorted_wrt (<) (map fst m) \<Longrightarrow> map_of (entry_insert k v m) = (map_of m)(k \<mapsto> v)"
proof (induction k v m rule: entry_insert.induct)
  case (2 k v k' v' m)
  then show ?case by (auto simp: fun_eq_iff)
qed simp

text \<open>An environment built with the setter is a map in key order, and the last value of a key wins.\<close>

lemma with_env_map:
  assumes "sorted_wrt (<) (map fst (pc_env c))"
  shows "sorted_wrt (<) (map fst (pc_env (with_env k v c)))"
    and "map_of (pc_env (with_env k v c)) = (map_of (pc_env c))(k \<mapsto> v)"
  using assms by (simp_all add: with_env_def entry_insert_sorted entry_insert_lookup)

text \<open>Every configuration that starts from a program and is given a size passes validation exactly when the
  program is not blank and the size is not zero.\<close>

lemma config_command_valid:
  "pane_config_validate (with_size z (config_command program)) = Inr () \<longleftrightarrow> trim program \<noteq> [] \<and> valid_size z"
  by (auto simp: pane_config_validate_def with_size_def config_command_def command_spec_new_def command_validate_def valid_size_def
      split: sum.splits if_splits)

text \<open>A configuration that comes out of deserialising is valid; one that is valid comes out unchanged.\<close>

lemma config_deserialize_valid: "config_deserialize custom raw = Inr c \<longleftrightarrow> raw = Inr c \<and> pane_config_validate c = Inr ()"
  by (cases raw) (auto simp: config_deserialize_def map_sum_def split: sum.splits)

lemma size_deserialize_valid: "size_deserialize custom (Inr (rows, cols)) = Inr z \<longleftrightarrow> z = mk_size rows cols \<and> valid_size z"
  by (auto simp: size_deserialize_def size_try_new_def mk_size_def valid_size_def)

lemma config_shell_valid: "pane_config_validate config_shell = Inr ()"
  by (simp add: pane_config_validate_def config_shell_def config_command_def command_spec_new_def command_validate_def
      pane_config_default_def trim_def is_whitespace_def mk_size_def)

end
