(* ===== verification/Pty_Spawn.thy ===== *)
theory Pty_Spawn
  imports Pty_Kill
begin

text \<open>
  Starting a child in a pseudo-terminal and the handle of it (\<open>PortablePtyBackend\<close> and
  \<open>PortablePtyProcess\<close> in \<open>pty.rs\<close>): the steps of \<open>spawn\<close>, the way back when the reader thread cannot
  be started, resizing, terminating and dropping.

  The crate \<open>portable_pty\<close> and \<open>std::thread\<close> are operations over the state of the system, beside
  those of \<open>Pty_Kill\<close>. A call that never returns is \<open>None\<close>.
\<close>

section \<open>The system\<close>

record pty_size =
  pz_rows :: u16
  pz_cols :: u16
  pz_pixel_width :: u16
  pz_pixel_height :: u16

definition to_pty_size :: "pane_size \<Rightarrow> pty_size" where
  "to_pty_size z = \<lparr>pz_rows = sz_rows z, pz_cols = sz_cols z, pz_pixel_width = 0, pz_pixel_height = 0\<rparr>"

text \<open>An error is given by its text. The pair of the pseudo-terminal and the child live in the state, the
  thread is given its name; \<open>sy_join\<close> tells whether the thread ended without panicking.\<close>

record ('o, 'b) pty_system =
  sy_openpty :: "pty_size \<Rightarrow> 'o \<Rightarrow> (rstr + unit) \<times> 'o"
  sy_take_writer :: "'o \<Rightarrow> (rstr + unit) \<times> 'o"
  sy_clone_reader :: "'o \<Rightarrow> (rstr + unit) \<times> 'o"
  sy_spawn_command :: "'b \<Rightarrow> 'o \<Rightarrow> (rstr + unit) \<times> 'o"
  sy_process_id :: "'o \<Rightarrow> nat option"
  sy_spawn_thread :: "rstr \<Rightarrow> 'o \<Rightarrow> (rstr + unit) \<times> 'o"
  sy_wait :: "'o \<Rightarrow> (rstr + exit_status) \<times> 'o"
  sy_resize :: "pty_size \<Rightarrow> 'o \<Rightarrow> (rstr + unit) \<times> 'o"
  sy_join :: "'o \<Rightarrow> bool \<times> 'o"
  sy_os :: "'o os_ops"

text \<open>The process handle; the queue is shared with the reader thread.\<close>

record portable_process =
  pr_process_id :: rstr
  pr_child_pid :: "nat option"
  pr_kill_config :: kill_config
  pr_frames :: frame_queue
  pr_reader_thread :: bool

definition default_frame_queue_capacity :: nat where "default_frame_queue_capacity = 128"

text \<open>The counter is the static \<open>NEXT_SYNTHETIC_PROCESS_ID\<close>.\<close>

definition make_process_id :: "nat option \<Rightarrow> u64 \<Rightarrow> rstr \<times> u64" where
  "make_process_id process_id next =
     (case process_id of Some i \<Rightarrow> (dec_str i, next) | None \<Rightarrow> (dec_str (unat next), next + 1))"


section \<open>Spawning\<close>

text \<open>The cleanup has an exit flag of its own, which is never set.\<close>

definition cleanup_after_reader_thread_spawn_failure :: "('o, 'b) pty_system \<Rightarrow> 'o \<Rightarrow> (rstr list \<times> 'o) option" where
  "cleanup_after_reader_thread_spawn_failure sy s = do {
     (killed, s) \<leftarrow> terminate_child_unix ((sy_os sy) \<lparr>os_child_exited := Pair False\<rparr>) (sy_process_id sy s)
        \<lparr>kc_term_grace = 0, kc_kill_descendants = True\<rparr> s;
     let failures = (case killed of
       Inl error \<Rightarrow> [lit ''failed to kill spawned child after reader-thread spawn failure: '' @ pane_error_str error]
     | Inr _ \<Rightarrow> []);
     let (waited, s) = sy_wait sy s;
     Some (failures @ (case waited of
       Inl error \<Rightarrow> [lit ''failed to reap spawned child after reader-thread spawn failure: '' @ error]
     | Inr _ \<Rightarrow> []), s)
   }"

definition reader_thread_spawn_error :: "('o, 'b) pty_system \<Rightarrow> rstr \<Rightarrow> 'o \<Rightarrow> (pane_error \<times> 'o) option" where
  "reader_thread_spawn_error sy error s = do {
     (failures, s) \<leftarrow> cleanup_after_reader_thread_spawn_failure sy s;
     Some (Spawn_Error (fold (\<lambda>failure message. message @ lit ''; '' @ failure) failures
       (lit ''failed to spawn PTY reader thread: '' @ error)), s)
   }"

definition spawn_reader_thread :: "('o, 'b) pty_system \<Rightarrow> rstr \<Rightarrow> 'o \<Rightarrow> ((pane_error + unit) \<times> 'o) option" where
  "spawn_reader_thread sy process_id s =
     (case sy_spawn_thread sy (lit ''panesmith-pty-'' @ process_id) s of
        (Inr _, s) \<Rightarrow> Some (Inr (), s)
      | (Inl error, s) \<Rightarrow> do { (error, s) \<leftarrow> reader_thread_spawn_error sy error s; Some (Inl error, s) })"

text \<open>A step of \<open>portable_pty\<close>; its error becomes a spawn error, and the operator \<open>?\<close> returns it.\<close>

definition spawn_step ::
    "(rstr + unit) \<times> 'o \<Rightarrow> ('o \<Rightarrow> ((pane_error + 'a) \<times> 'o) option) \<Rightarrow> ((pane_error + 'a) \<times> 'o) option" where
  "spawn_step r f = (case r of (Inl error, s) \<Rightarrow> Some (Inl (Spawn_Error error), s) | (Inr _, s) \<Rightarrow> f s)"

text \<open>After the child runs.\<close>

definition spawn_started ::
    "('o, 'b) pty_system \<Rightarrow> pane_config \<Rightarrow> 'o \<times> u64 \<Rightarrow> ((pane_error + portable_process) \<times> 'o \<times> u64) option" where
  "spawn_started sy config sn =
     (case sn of (s, next) \<Rightarrow>
        let child_pid = sy_process_id sy s;
            (process_id, next) = make_process_id child_pid next;
            queue_capacity = (if pc_output_queue_capacity config = 0 then default_frame_queue_capacity
                              else pc_output_queue_capacity config)
        in do {
          (thread, s) \<leftarrow> spawn_reader_thread sy process_id s;
          Some (map_sum id (\<lambda>_. \<lparr>pr_process_id = process_id, pr_child_pid = child_pid, pr_kill_config = pc_kill config,
                  pr_frames = queue_new queue_capacity, pr_reader_thread = True\<rparr>) thread, s, next)
        })"

definition portable_spawn ::
    "('o, 'b) pty_system \<Rightarrow> 'b command_builder \<Rightarrow> (u8 list \<times> u8 list) list \<Rightarrow> pane_config \<Rightarrow> 'o \<times> u64 \<Rightarrow>
     ((pane_error + portable_process) \<times> 'o \<times> u64) option" where
  "portable_spawn sy cb vars config sn =
     (case sn of (s, next) \<Rightarrow>
        let counted = (\<lambda>s. (s, next))
        in case pane_config_validate config of
             Inl e \<Rightarrow> Some (Inl e, sn)
           | Inr _ \<Rightarrow>
               spawn_step (map_prod id counted (sy_openpty sy (to_pty_size (pc_size config)) s))
               (\<lambda>(s, _). let command = build_command True cb vars config in
                  spawn_step (map_prod id counted (sy_take_writer sy s))
               (\<lambda>(s, _). spawn_step (map_prod id counted (sy_clone_reader sy s))
               (\<lambda>(s, _). spawn_step (map_prod id counted (sy_spawn_command sy command s))
               (spawn_started sy config)))))"


section \<open>The handle\<close>

definition portable_try_recv :: "portable_process \<Rightarrow> pty_frame option \<times> portable_process" where
  "portable_try_recv p = (case queue_try_recv (pr_frames p) of (frame, q) \<Rightarrow> (frame, p \<lparr>pr_frames := q\<rparr>))"

definition portable_overflow_stats :: "portable_process \<Rightarrow> overflow_stats" where
  "portable_overflow_stats p = queue_overflow_stats (pr_frames p)"

definition portable_resize :: "('o, 'b) pty_system \<Rightarrow> pane_size \<Rightarrow> 'o \<Rightarrow> (pane_error + unit) \<times> 'o" where
  "portable_resize sy z s =
     (case size_try_new (sz_rows z) (sz_cols z) of
        Inl e \<Rightarrow> (Inl e, s)
      | Inr _ \<Rightarrow> map_prod (map_sum (Io_Error Io_Resize) id) id (sy_resize sy (to_pty_size z) s))"

definition request_termination :: "('o, 'b) pty_system \<Rightarrow> portable_process \<Rightarrow> 'o \<Rightarrow> ((pane_error + unit) \<times> 'o) option" where
  "request_termination sy p s =
     (if \<not> pr_reader_thread p then Some (Inr (), s)
      else terminate_child_unix (sy_os sy) (pr_child_pid p) (pr_kill_config p) s)"

definition join_reader_thread ::
    "('o, 'b) pty_system \<Rightarrow> portable_process \<Rightarrow> 'o \<Rightarrow> (pane_error + unit) \<times> portable_process \<times> 'o" where
  "join_reader_thread sy p s =
     (if \<not> pr_reader_thread p then (Inr (), p, s)
      else case sy_join sy s of (ended, s) \<Rightarrow>
        (if ended then Inr ()
         else Inl (Io_Error Io_Kill (lit ''pty reader thread panicked while waiting for process exit'')),
         p \<lparr>pr_reader_thread := False\<rparr>, s))"

definition portable_kill ::
    "('o, 'b) pty_system \<Rightarrow> portable_process \<Rightarrow> 'o \<Rightarrow> ((pane_error + unit) \<times> portable_process \<times> 'o) option" where
  "portable_kill sy p s = do {
     (requested, s) \<leftarrow> request_termination sy p s;
     case requested of
       Inl e \<Rightarrow> Some (Inl e, p, s)
     | Inr _ \<Rightarrow> Some (join_reader_thread sy p s)
   }"

definition portable_drop :: "('o, 'b) pty_system \<Rightarrow> portable_process \<Rightarrow> 'o \<Rightarrow> (portable_process \<times> 'o) option" where
  "portable_drop sy p s = do {
     (_, s) \<leftarrow> request_termination sy p s;
     Some (snd (join_reader_thread sy p s))
   }"


section \<open>No child is left behind\<close>

text \<open>What the system says of children: how many were started, and how often one was waited for. Only starting a command
  and waiting change them.\<close>

definition children_laws :: "('o, 'b) pty_system \<Rightarrow> ('o \<Rightarrow> nat) \<Rightarrow> ('o \<Rightarrow> nat) \<Rightarrow> bool" where
  "children_laws sy started waited =
     ((\<forall>z s. started (snd (sy_openpty sy z s)) = started s \<and> waited (snd (sy_openpty sy z s)) = waited s)
      \<and> (\<forall>s. started (snd (sy_take_writer sy s)) = started s \<and> waited (snd (sy_take_writer sy s)) = waited s)
      \<and> (\<forall>s. started (snd (sy_clone_reader sy s)) = started s \<and> waited (snd (sy_clone_reader sy s)) = waited s)
      \<and> (\<forall>b s r s'. sy_spawn_command sy b s = (r, s') \<longrightarrow> started s' = started s + (if isl r then 0 else 1) \<and> waited s' = waited s)
      \<and> (\<forall>n s. started (snd (sy_spawn_thread sy n s)) = started s \<and> waited (snd (sy_spawn_thread sy n s)) = waited s)
      \<and> (\<forall>s. started (snd (sy_wait sy s)) = started s \<and> waited (snd (sy_wait sy s)) = waited s + 1)
      \<and> (\<forall>pid n s. started (snd (os_kill (sy_os sy) pid n s)) = started s \<and> waited (snd (os_kill (sy_os sy) pid n s)) = waited s)
      \<and> (\<forall>s. started (snd (os_killer_kill (sy_os sy) s)) = started s \<and> waited (snd (os_killer_kill (sy_os sy) s)) = waited s)
      \<and> (\<forall>s. started (snd (os_now (sy_os sy) s)) = started s \<and> waited (snd (os_now (sy_os sy) s)) = waited s))"

text \<open>A projection of the state that no call of the kill protocol changes, with a grace period of zero.\<close>

definition undisturbed :: "'o os_ops \<Rightarrow> ('o \<Rightarrow> 'x) \<Rightarrow> bool" where
  "undisturbed os f =
     ((\<forall>pid n s. f (snd (os_kill os pid n s)) = f s) \<and> (\<forall>s. f (snd (os_killer_kill os s)) = f s)
      \<and> (\<forall>s. f (snd (os_child_exited os s)) = f s))"

lemma undisturbed_calls:
  assumes "undisturbed os f"
  shows "os_kill os pid n s = (r, s') \<Longrightarrow> f s' = f s"
    "send_unix_signal os target n s = (r1, s') \<Longrightarrow> f s' = f s"
    "probe_unix_target_exists os target s = (r1, s') \<Longrightarrow> f s' = f s"
    "should_skip_unix_sigkill os target s = (r1, s') \<Longrightarrow> f s' = f s"
    "resolve_initial_unix_kill_target os p d s = (r2, s') \<Longrightarrow> f s' = f s"
    "wait_for_unix_kill_grace os target 0 s = Some (r1, s') \<Longrightarrow> f s' = f s"
proof -
  have k: "os_kill os pid n s = (r, s') \<Longrightarrow> f s' = f s" for pid n s r s' using assms unfolding undisturbed_def by (metis snd_conv)
  have x: "os_child_exited os s = (b, s') \<Longrightarrow> f s' = f s" for s b s' using assms unfolding undisturbed_def by (metis snd_conv)
  have p: "probe_unix_target_exists os target s = (r1, s') \<Longrightarrow> f s' = f s" for target s r1 s'
    by (auto simp: probe_unix_target_exists_def split: prod.splits option.splits os_errno.splits dest: k)
  have sk: "should_skip_unix_sigkill os target s = (r1, s') \<Longrightarrow> f s' = f s" for target s r1 s'
    by (auto simp: should_skip_unix_sigkill_def Let_def split: prod.splits sum.splits if_splits) (metis p x)+
  show "os_kill os pid n s = (r, s') \<Longrightarrow> f s' = f s" by (rule k)
  show "send_unix_signal os target n s = (r1, s') \<Longrightarrow> f s' = f s"
    by (auto simp: send_unix_signal_def split: prod.splits option.splits if_splits dest: k)
  show "probe_unix_target_exists os target s = (r1, s') \<Longrightarrow> f s' = f s" by (rule p)
  show "should_skip_unix_sigkill os target s = (r1, s') \<Longrightarrow> f s' = f s" by (rule sk)
  show "resolve_initial_unix_kill_target os p d s = (r2, s') \<Longrightarrow> f s' = f s"
    by (auto simp: resolve_initial_unix_kill_target_def split: prod.splits sum.splits if_splits bool.splits) (metis p x sk)+
  show "wait_for_unix_kill_grace os target 0 s = Some (r1, s') \<Longrightarrow> f s' = f s"
    by (auto simp: wait_for_unix_kill_grace_def split: prod.splits sum.splits if_splits bool.splits dest: sk)
qed

text \<open>Without a grace period the protocol always ends.\<close>

lemma terminate_undisturbed:
  assumes "undisturbed os f" "kc_term_grace k = 0"
  shows "\<exists>r s'. terminate_child_unix os pid k s = Some (r, s') \<and> f s' = f s"
proof -
  have w: "\<exists>r s'. wait_for_unix_kill_grace os target 0 s = Some (r, s')" for target s
    by (auto simp: wait_for_unix_kill_grace_def split: prod.splits sum.splits bool.splits)
  note calls = undisturbed_calls [OF assms(1)]
  show ?thesis
  proof (cases pid)
    case None
    have "f (snd (os_killer_kill os s)) = f s" using assms(1) by (simp add: undisturbed_def)
    then show ?thesis using None
      by (cases "os_killer_kill os s"; cases "fst (os_killer_kill os s)") (simp_all add: terminate_child_unix_def)
  next
    case (Some n)
    show ?thesis
    proof (cases "unix_pid n")
      case (Inl e)
      then show ?thesis using Some by (simp add: terminate_child_unix_def)
    next
      case (Inr i)
      obtain r1 s1 where 1: "resolve_initial_unix_kill_target os i (kc_kill_descendants k) s = (r1, s1)" by fastforce
      show ?thesis
      proof (cases "\<exists>target. r1 = Inr (Some target)")
        case False
        then show ?thesis using Some Inr 1 calls(5) [OF 1]
          by (cases r1; cases "projr r1") (auto simp: terminate_child_unix_def)
      next
        case True
        then obtain target where r1: "r1 = Inr (Some target)" by blast
        obtain r2 s2 where 2: "send_unix_signal os target sigterm s1 = (r2, s2)" by fastforce
        obtain r3 s3 where 3: "wait_for_unix_kill_grace os target 0 s2 = Some (r3, s3)" using w by blast
        obtain r4 s4 where 4: "send_unix_signal os target sigkill s3 = (r4, s4)" by fastforce
        have f: "f s1 = f s" "f s2 = f s" "f s3 = f s" "f s4 = f s"
          using calls(5) [OF 1] calls(2) [OF 2] calls(6) [OF 3] calls(2) [OF 4] by simp_all
        then show ?thesis using Some Inr 1 2 3 4 r1 assms(2)
          by (simp add: terminate_child_unix_def split: sum.split bool.split)
      qed
    qed
  qed
qed


lemma cleanup_reaps:
  assumes "children_laws sy started waited"
  shows "\<exists>failures s'. cleanup_after_reader_thread_spawn_failure sy s = Some (failures, s')
    \<and> started s' = started s \<and> waited s' = waited s + 1"
proof -
  let ?os = "(sy_os sy) \<lparr>os_child_exited := Pair False\<rparr>"
  have "undisturbed ?os (\<lambda>s. (started s, waited s))" using assms by (simp add: children_laws_def undisturbed_def)
  then obtain r s1 where t: "terminate_child_unix ?os (sy_process_id sy s) \<lparr>kc_term_grace = 0, kc_kill_descendants = True\<rparr> s = Some (r, s1)"
    "started s1 = started s" "waited s1 = waited s"
    using terminate_undisturbed [of ?os "\<lambda>s. (started s, waited s)" "\<lparr>kc_term_grace = 0, kc_kill_descendants = True\<rparr>"] by fastforce
  obtain x s2 where w: "sy_wait sy s1 = (x, s2)" by fastforce
  then have "started s2 = started s1" "waited s2 = waited s1 + 1"
    using assms unfolding children_laws_def by (metis snd_conv)+
  then show ?thesis using t w by (simp add: cleanup_after_reader_thread_spawn_failure_def Let_def)
qed

lemma reader_thread_reaps:
  assumes "children_laws sy started waited"
  shows "\<exists>r s'. spawn_reader_thread sy i s = Some (r, s') \<and> started s' = started s
    \<and> (case r of Inl e \<Rightarrow> (\<exists>message. e = Spawn_Error message) \<and> waited s' = waited s + 1 | Inr _ \<Rightarrow> waited s' = waited s)"
proof -
  obtain x s1 where x: "sy_spawn_thread sy (lit ''panesmith-pty-'' @ i) s = (x, s1)" by fastforce
  then have s1: "started s1 = started s" "waited s1 = waited s" using assms unfolding children_laws_def by (metis snd_conv)+
  show ?thesis
  proof (cases x)
    case (Inl e)
    then show ?thesis using cleanup_reaps [OF assms, of s1] s1 unfolding spawn_reader_thread_def x
      by (auto simp: reader_thread_spawn_error_def)
  next
    case (Inr u)
    then show ?thesis using s1 unfolding spawn_reader_thread_def x by simp
  qed
qed

text \<open>C22: A failed spawn leaves no child behind. Spawning always returns; on success exactly one child was
  started and its reader thread runs, and on an error either no child was started or the one that was has been
  waited for, whatever part of the way failed, also when terminating it fails.\<close>

theorem spawn_leaves_no_child:
  assumes "children_laws sy started waited"
  shows "\<exists>r s' n'. portable_spawn sy cb vars config (s, n) = Some (r, s', n') \<and>
    (case r of
       Inr p \<Rightarrow> started s' = started s + 1 \<and> waited s' = waited s \<and> pr_reader_thread p
     | Inl e \<Rightarrow> (pane_config_validate config = Inl e \<or> (\<exists>message. e = Spawn_Error message))
         \<and> (started s' = started s \<and> waited s' = waited s \<or> started s' = started s + 1 \<and> waited s' = waited s + 1))"
proof (cases "pane_config_validate config")
  case (Inl e)
  then show ?thesis by (simp add: portable_spawn_def)
next
  case (Inr u)
  let ?command = "build_command True cb vars config"
  obtain r1 s1 where 1: "sy_openpty sy (to_pty_size (pc_size config)) s = (r1, s1)" by fastforce
  obtain r2 s2 where 2: "sy_take_writer sy s1 = (r2, s2)" by fastforce
  obtain r3 s3 where 3: "sy_clone_reader sy s2 = (r3, s3)" by fastforce
  obtain r4 s4 where 4: "sy_spawn_command sy ?command s3 = (r4, s4)" by fastforce
  have s: "started s1 = started s" "waited s1 = waited s" "started s2 = started s1" "waited s2 = waited s1"
    "started s3 = started s2" "waited s3 = waited s2" using assms 1 2 3 unfolding children_laws_def by (metis snd_conv)+
  have s4: "started s4 = started s3 + (if isl r4 then 0 else 1)" "waited s4 = waited s3"
    using assms 4 unfolding children_laws_def by blast+
  show ?thesis
  proof (cases "isl r1 \<or> isl r2 \<or> isl r3 \<or> isl r4")
    case True
    then show ?thesis using Inr 1 2 3 4 s s4 unfolding portable_spawn_def spawn_step_def
      by (cases r1; cases r2; cases r3; cases r4) (simp_all add: Let_def)
  next
    case False
    then have r: "r1 = Inr ()" "r2 = Inr ()" "r3 = Inr ()" "r4 = Inr ()" by (cases r1; cases r2; cases r3; cases r4; simp)+
    have "portable_spawn sy cb vars config (s, n) = spawn_started sy config (s4, n)"
      using Inr 1 2 3 4 r unfolding portable_spawn_def spawn_step_def by (simp add: Let_def)
    moreover obtain i n' where i: "make_process_id (sy_process_id sy s4) n = (i, n')" by fastforce
    moreover obtain r5 s5 where "spawn_reader_thread sy i s4 = Some (r5, s5)" "started s5 = started s4"
      "case r5 of Inl e \<Rightarrow> (\<exists>message. e = Spawn_Error message) \<and> waited s5 = waited s4 + 1 | Inr _ \<Rightarrow> waited s5 = waited s4"
      using reader_thread_reaps [OF assms, of i s4] by blast
    ultimately show ?thesis using s s4 r by (cases r5) (auto simp: spawn_started_def)
  qed
qed

text \<open>A handle that was joined stays quiet: killing and dropping it do nothing more.\<close>

lemma killed_once:
  assumes "portable_kill sy p s = Some (Inr (), p', s')"
  shows "portable_kill sy p' s'' = Some (Inr (), p', s'') \<and> portable_drop sy p' s'' = Some (p', s'')"
proof -
  obtain requested s1 where "request_termination sy p s = Some (requested, s1)"
    using assms by (auto simp: portable_kill_def bind_eq_Some_conv)
  then have "\<not> pr_reader_thread p'"
    using assms by (cases requested) (auto simp: portable_kill_def join_reader_thread_def split: if_splits prod.splits)
  then show ?thesis by (simp add: portable_kill_def portable_drop_def request_termination_def join_reader_thread_def)
qed

text \<open>A system on which threads cannot be started.\<close>

definition busy_system :: "(nat \<times> nat, u8 list \<Rightarrow> u8 list option) pty_system" where
  "busy_system =
     \<lparr>sy_openpty = (\<lambda>_ s. (Inr (), s)), sy_take_writer = (\<lambda>s. (Inr (), s)), sy_clone_reader = (\<lambda>s. (Inr (), s)),
      sy_spawn_command = (\<lambda>_ (n, w). (Inr (), n + 1, w)), sy_process_id = (\<lambda>_. Some 7),
      sy_spawn_thread = (\<lambda>_ s. (Inl (lit ''busy''), s)),
      sy_wait = (\<lambda>(n, w). (Inl (lit ''gone''), n, w + 1)), sy_resize = (\<lambda>_ s. (Inr (), s)), sy_join = (\<lambda>s. (True, s)),
      sy_os = \<lparr>os_kill = (\<lambda>_ _ s. (Some EPERM, s)), os_killer_kill = (\<lambda>s. (Inr (), s)), os_child_exited = (\<lambda>s. (False, s)),
        os_now = (\<lambda>s. (0, s)), os_sleep = (\<lambda>_ s. s), os_error_text = (\<lambda>_. [])\<rparr>\<rparr>"

text \<open>It starts the child, fails to start the thread, and waits for the child although both ways of killing it fail.\<close>

lemma busy_laws: "children_laws busy_system fst snd"
  by (auto simp: children_laws_def busy_system_def)

lemma busy_spawn:
  assumes "portable_spawn busy_system env_builder [] pane_config_default ((0, 0), n) = Some (r, s', n')"
  shows "isl r \<and> fst s' = 1"
proof -
  have v: "pane_config_validate pane_config_default = Inr ()"
    by (simp add: pane_config_validate_def command_validate_def pane_config_default_def trim_def is_whitespace_def mk_size_def)
  have "portable_spawn busy_system env_builder [] pane_config_default ((0, 0), n)
      = spawn_started busy_system pane_config_default ((1, 0), n)"
    using v by (simp add: portable_spawn_def spawn_step_def busy_system_def Let_def)
  then have s: "spawn_started busy_system pane_config_default ((1, 0), n) = Some (r, s', n')" using assms by simp
  obtain i m where i: "make_process_id (sy_process_id busy_system (1, 0)) n = (i, m)" by fastforce
  obtain r5 s5 where 5: "spawn_reader_thread busy_system i (1, 0) = Some (r5, s5)" "fst s5 = fst (1::nat, 0::nat)"
    using reader_thread_reaps [OF busy_laws, of i "(1, 0)"] by blast
  have "isl r5" using 5(1) by (auto simp: spawn_reader_thread_def busy_system_def bind_eq_Some_conv split: prod.splits)
  then show ?thesis using s i 5 by (cases r5) (auto simp: spawn_started_def)
qed

theorem spawn_leaves_no_child_witness:
  "\<exists>e n'. portable_spawn busy_system env_builder [] pane_config_default ((0, 0), 1) = Some (Inl e, (1, 1), n')"
proof -
  obtain r s' n' where r: "portable_spawn busy_system env_builder [] pane_config_default ((0, 0), 1) = Some (r, s', n')"
    "case r of
       Inr p \<Rightarrow> fst s' = fst (0::nat, 0::nat) + 1 \<and> snd s' = snd (0::nat, 0::nat) \<and> pr_reader_thread p
     | Inl e \<Rightarrow> (pane_config_validate pane_config_default = Inl e \<or> (\<exists>message. e = Spawn_Error message))
         \<and> (fst s' = fst (0::nat, 0::nat) \<and> snd s' = snd (0::nat, 0::nat)
            \<or> fst s' = fst (0::nat, 0::nat) + 1 \<and> snd s' = snd (0::nat, 0::nat) + 1)"
    using spawn_leaves_no_child [OF busy_laws, of env_builder "[]" pane_config_default "(0, 0)" 1] by blast
  moreover have "isl r \<and> fst s' = 1" using busy_spawn [OF r(1)] .
  ultimately show ?thesis by (cases r; cases s') auto
qed

end
