(* ===== verification/Spec2Isabelle.thy ===== *)
theory Spec2Isabelle
  imports Input_Encoder Mode_Overlay Detach_Encoding Detach_Matcher Transcript_Streams Pty_Kill
    Manager_Runs Viewport Readers Repro_Laws Attach_Session_Relay Crossterm_Host Pane_Widget Host_Events Pane_Builders Pty_Spawn
begin

text \<open>
  A verification library for panesmith, a Rust library that runs child processes in pseudo-terminal panes and shows
  them embedded in a host program or fullscreen. The paths below are relative to \<open>src/crates\<close>.

  \<^bold>\<open>The program.\<close> A host creates panes through the manager (\<open>panesmith-core/src/manager.rs\<close>). Each pane has a child
  in a pseudo-terminal (\<open>pty.rs\<close>), whose reader thread puts frames (output, exit, error) into a bounded
  queue. The host polls: the manager takes the frames and feeds the output to the transcript
  (\<open>transcript.rs\<close>), to the mode overlay (\<open>mode_overlay.rs\<close>) and to a surface, the screen with its scrollback
  (\<open>vt100_surface.rs\<close>), and emits numbered events. Input goes the other way: host events (\<open>input.rs\<close>) are
  encoded (\<open>encoder.rs\<close>) and written with retries, alone or as a transaction that waits for its echo
  (\<open>input_transaction.rs\<close>). A pane can be attached to the real terminal, by the manager
  (\<open>manager/attach_support.rs\<close>) or by the separate crate \<open>panesmith-attach\<close>: bytes are relayed both ways until a
  detach chord (\<open>detach.rs\<close>, \<open>detach_encoding.rs\<close>), the exit of the child or an error. What was recorded can
  be dumped and replayed (\<open>repro.rs\<close>), and a pane can be drawn with ratatui (\<open>panesmith-ratatui\<close>).

  \<^bold>\<open>Theories and code.\<close>
  \<^item> \<open>Panesmith_Prelude\<close>: machine types, the routines of Rust's standard library the sources call (UTF-8, slices,
    decimal numbers), and the collections of facts \<open>state_simps\<close>, \<open>inv_intros\<close>, \<open>evolve_intros\<close>, \<open>fine_intros\<close> and
    \<open>same_intros\<close>.
  \<^item> \<open>Core_Types\<close>, \<open>Pane_Builders\<close>, \<open>Host_Events\<close>: the data of \<open>error.rs\<close>, \<open>pane.rs\<close>, \<open>event.rs\<close>, \<open>command.rs\<close> and
    \<open>input.rs\<close>, its validation, constructors and setters, what deserialising checks, and the conversion of
    crossterm's events.
  \<^item> \<open>Input_Encoder\<close>, \<open>Input_Transaction\<close>: \<open>encoder.rs\<close>; the plan of a transaction and its matching of echoes.
  \<^item> \<open>Mode_Overlay\<close>, \<open>Transcript\<close>, \<open>Transcript_Streams\<close>: \<open>mode_overlay.rs\<close>, \<open>transcript.rs\<close>.
  \<^item> \<open>Detach_Encoding\<close>, \<open>Detach_Matcher\<close>: the chord encodings, and both chord matchers.
  \<^item> \<open>Pty_Queue\<close>, \<open>Pty_Io\<close>, \<open>Pty_Kill\<close>, \<open>Pty_Spawn\<close>: \<open>pty.rs\<close>: the frame queue, writing and reading and the
    environment of the child, the kill protocol, starting a child and its handle.
  \<^item> \<open>Vt100_Surface\<close>, \<open>Vt100_Laws\<close>: \<open>vt100_surface.rs\<close>, \<open>default_surface.rs\<close> and \<open>panesmith-vt100/src/backend.rs\<close>.
  \<^item> \<open>Viewport\<close>, \<open>Readers\<close>, \<open>Pane_Widget\<close>: the window over scrollback and screen, the readers of ranges, the widget
    of \<open>panesmith-ratatui/src/widget.rs\<close>.
  \<^item> \<open>Manager\<close>, \<open>Manager_Lifecycle\<close>, \<open>Manager_Input\<close>, \<open>Manager_Attach\<close>: the operations of \<open>manager.rs\<close> and its
    \<open>attach_support.rs\<close>; \<open>Manager_Evolution\<close>, \<open>Manager_Totality\<close>, \<open>Manager_Process\<close>, \<open>Manager_Data\<close>,
    \<open>Manager_Attach_Laws\<close> and \<open>Manager_Runs\<close>: what holds of them; \<open>Manager_Example\<close> and
    \<open>Manager_Attach_Example\<close>: concrete hosts.
  \<^item> \<open>Repro_Dump\<close>, \<open>Repro\<close>, \<open>Repro_Laws\<close>: the dump of \<open>manager.rs\<close>, the replay of \<open>repro.rs\<close>, and what joins them.
  \<^item> \<open>Attach_Session\<close>, \<open>Attach_Session_Laws\<close>, \<open>Attach_Session_Relay\<close>, \<open>Attach_Session_Example\<close>, \<open>Crossterm_Host\<close>:
    \<open>attach.rs\<close>, \<open>session.rs\<close> and \<open>crossterm_host.rs\<close> of \<open>panesmith-attach\<close>.

  \<^bold>\<open>How state and operations correspond.\<close> A struct is a record with prefixed fields, an enum a datatype with the
  source's constructors, a method a function of the same name from state to state. A \<open>Result\<close> is the sum
  \<open>pane_error + 'a\<close>; a panic (an \<open>expect\<close>, a slice off a character boundary, a failed assertion) and a loop that does
  not end are \<open>None\<close> of an option around it. Traits (\<open>SurfaceBackend\<close>, \<open>PtyBackend\<close>, \<open>PtyProcess\<close>, the terminal of an
  attachment, its control) and outside crates (\<open>vt100\<close>, \<open>portable_pty\<close>, crossterm, ratatui, libc) are records of
  operations over an abstract state of their own; what the code relies on of them is a named predicate
  (\<open>scrolls\<close>, \<open>streams\<close>, \<open>capacity_blind\<close>, \<open>honest_control\<close>, \<open>honest_ops\<close>, \<open>honest_ratatui\<close>, \<open>honest_host\<close>,
  \<open>children_laws\<close>, \<open>os_laws\<close>, \<open>prompt\<close>, \<open>tells_gone\<close>), each met by a concrete instance. Bytes, rows, columns and counters whose wrap-around can be
  reached are words; a \<open>String\<close> is the list of its scalar values.

  \<^bold>\<open>What the lemmas show.\<close>
  \<^item> The manager: in every state a host can reach (\<open>host_run\<close>, an inductive relation over the calls of \<open>host_step\<close>,
    dumps and placeholder ids included)
    the events of a pane are numbered without a gap, its state follows the allowed path, its end is final, and
    log, statistics and size history agree. \<open>Manager_Evolution\<close> shows once that each operation takes a pane only
    through such changes, and \<open>Manager_Totality\<close> that no \<open>expect\<close> fires.
  \<^item> Data: nothing the child prints is lost silently in the queue; the raw transcript is the end of the
    output; the plain transcript and the mode overlay do not depend on how output is cut into frames (the
    overlay as long as no mode sequence is over the 64 bytes it carries); the reader's output frames carry the
    bytes their numbers name; a replay of a raw transcript kept from its first byte gives back the screen
    of the dump.
  \<^item> Input: bytes written are accounted for on every path, an Enter is written only when its text was
    seen on the surface, and both matchers are the
    same and find exactly the first chord.
  \<^item> Attaching: whatever happens, pane, bridge and terminal are given back; what was typed and printed is relayed
    once and in order.
  \<^item> The terminal of the host: which commands are sent to it when it is lent and taken back, in their order. What a
    terminal makes of them is its own: no theorem speaks of keyboard flags or screens as states.
  \<^item> Children: the kill protocol returns within the grace period and the time of fifteen calls of the operating
    system, and signals nobody else; a failed spawn leaves no child unreaped.
  \<^item> Drawing: viewport, terminal and widget show exactly the rows the metrics select. For the widget
    this is the symbol of every cell of the screen; its styles, and the text written by ratatui for rows of the
    scrollback that have no cells, are modelled and left to the reader.
  \<^item> Where the code leaves its contract, a theorem says so: a forced flush of the transcript, a scrolled view that
    drifts, a dropped line that is not counted, a mouse column of 65535, a chord read out of another key.

  \<^bold>\<open>Interfaces.\<close> \<open>frame_source\<close> and \<open>finite_source\<close> (what a drain needs of a queue; interpreted on \<open>pty.rs\<close>'s queue),
  \<open>chord_filter\<close> (what relaying needs of a matcher; interpreted on both matchers), \<open>sequenced\<close> and
  \<open>attach_steps\<close> (a relation kept by each step of attaching, hence by the whole; interpreted with evolution of
  the pane and with the guard of the terminal), \<open>session_quiet\<close>, \<open>session_finish\<close> and \<open>session_steps\<close> (the same for a
  session; interpreted with the bridge, the telemetry, the guard and what is shown), \<open>replayable\<close> (what a replay
  needs of a surface; interpreted on the default surface).

  \<^bold>\<open>Bounds and loops.\<close> No fuel is used. Loops over data recurse on it or have a measure. The loops whose end depends on
  the outside world (the relay loops, draining while the child prints, waiting for an echo or for a process to
  end, retrying interrupted writes) are partial functions into option, where \<open>None\<close> is not returning. They
  return under the hypotheses the theorems name: a queue that is finite, a clock that advances, a grace
  period that runs out. A clock is a function of the number of times it was read; durations are natural
  numbers of milliseconds, lengths and offsets natural numbers, which memory keeps below the word size.

  \<^bold>\<open>Not modelled.\<close> The facade crate (re-exports), the test harness, examples and fixtures, \<open>xtask\<close>; \<open>Debug\<close>
  output, tracing and messages on standard error; the derived code of serde; sleeps, whose only effect is time; the branches for
  Windows; the mutexes, each held for a whole operation, and the hand-over of the state to a thread;
  conversions between borrowed and owned data, which are identities here; the empty types \<open>SurfaceConfig\<close>,
  \<open>AttachConfig\<close> and \<open>PtyHandle\<close>.
\<close>

end
